(* ===== verification/Prelude.thy ===== *)
theory Prelude
  imports Main "HOL-Library.Word" "HOL-Library.Sublist"
begin

text \<open>
  The parts of the Go language and of its standard library that the plugins share:
  byte strings, \<^verbatim>\<open>strings.TrimSpace\<close>, \<^verbatim>\<open>strings.Trim\<close>, \<^verbatim>\<open>strings.Split\<close>,
  \<^verbatim>\<open>encoding/hex\<close>, \<^verbatim>\<open>encoding/base64\<close> and the gRPC status codes, with the generic
  lemmas the component theories rest on. A Go \<^verbatim>\<open>string\<close> and a \<^verbatim>\<open>[]byte\<close> are both HOL's
  \<open>string\<close>, whose characters are bytes, so that the conversions between them are the identity.
  Go's \<^verbatim>\<open>int\<close> is the 64-bit one.
\<close>

named_theorems go_str \<open>facts about the Go string functions\<close>
named_theorems codec \<open>round trips of the byte encodings\<close>
named_theorems handler_defs \<open>the handlers' definitions, for unfolding\<close>

section \<open>Types\<close>

type_synonym u32 = "32 word"
type_synonym u64 = "64 word"
type_synonym byte = char
type_synonym bytes = "byte list"

text \<open>The gRPC status codes of \<^verbatim>\<open>google.golang.org/grpc/codes\<close> that the plugins return.\<close>

datatype grpc_code =
    InvalidArgument | NotFound | AlreadyExists | PermissionDenied
  | FailedPrecondition | Unimplemented | Internal | Unavailable | Unauthenticated

text \<open>An optional protobuf string (a \<^verbatim>\<open>*string\<close>) read with \<^verbatim>\<open>optionalString\<close>.\<close>

definition optionalString :: "string option \<Rightarrow> string" where
  "optionalString value = (case value of None \<Rightarrow> '''' | Some s \<Rightarrow> s)"

definition optionalUint32 :: "u32 option \<Rightarrow> u32" where
  "optionalUint32 value = (case value of None \<Rightarrow> 0 | Some n \<Rightarrow> n)"

text \<open>\<^verbatim>\<open>time.Duration(n) * time.Second\<close>.\<close>

definition seconds :: "int \<Rightarrow> int" where
  "seconds n = sint (word_of_int n * 1000000000 :: 64 word)"

section \<open>Results: a value or an error\<close>

definition rbind :: "'e + 'a \<Rightarrow> ('a \<Rightarrow> 'e + 'b) \<Rightarrow> 'e + 'b" where
  "rbind r f = (case r of Inl e \<Rightarrow> Inl e | Inr x \<Rightarrow> f x)"

definition rmap_err :: "('e \<Rightarrow> 'f) \<Rightarrow> 'e + 'a \<Rightarrow> 'f + 'a" where
  "rmap_err g r = (case r of Inl e \<Rightarrow> Inl (g e) | Inr x \<Rightarrow> Inr x)"

section \<open>Go strings\<close>

text \<open>
  The UTF-8 encodings of the code points for which \<^verbatim>\<open>unicode.IsSpace\<close> holds. No encoding
  is a prefix of another, and \<^verbatim>\<open>utf8.DecodeRune\<close> and \<^verbatim>\<open>utf8.DecodeLastRune\<close> read one of
  these runes exactly when the string starts, or ends, with its bytes.
\<close>

definition go_spaces :: "string list" where
  "go_spaces =
     map (\<lambda>n. [char_of n]) [9, 10, 11, 12, 13, 32 :: nat]
     @ map (map char_of) [[0xC2, 0x85 :: nat], [0xC2, 0xA0], [0xE1, 0x9A, 0x80]]
     @ map (\<lambda>n. map char_of [0xE2, 0x80, n]) [0x80 ..< 0x8B :: nat]
     @ map (map char_of) [[0xE2, 0x80, 0xA8 :: nat], [0xE2, 0x80, 0xA9],
         [0xE2, 0x80, 0xAF], [0xE2, 0x81, 0x9F], [0xE3, 0x80, 0x80]]"

text \<open>The number of bytes of the encoding in \<open>ws\<close> that the string starts with, 0 if none.\<close>

definition lead_len :: "string list \<Rightarrow> string \<Rightarrow> nat" where
  "lead_len ws s = (case find (\<lambda>w. prefix w s) ws of None \<Rightarrow> 0 | Some w \<Rightarrow> length w)"

fun strip_lead :: "string list \<Rightarrow> string \<Rightarrow> string" where
  "strip_lead ws [] = []"
| "strip_lead ws (c # cs) =
     (let k = lead_len ws (c # cs) in if k = 0 then c # cs else strip_lead ws (drop (k - 1) cs))"

text \<open>\<^verbatim>\<open>strings.TrimSpace\<close>: leading, then trailing white space.\<close>

definition TrimSpace :: "string \<Rightarrow> string" where
  "TrimSpace s = rev (strip_lead (map rev go_spaces) (rev (strip_lead go_spaces s)))"

text \<open>\<^verbatim>\<open>strings.TrimRight(s, c)\<close> and \<^verbatim>\<open>strings.Trim(s, c)\<close> for a single-byte cutset.\<close>

definition TrimRightChar :: "char \<Rightarrow> string \<Rightarrow> string" where
  "TrimRightChar c s = rev (dropWhile (\<lambda>x. x = c) (rev s))"

definition TrimChar :: "char \<Rightarrow> string \<Rightarrow> string" where
  "TrimChar c s = TrimRightChar c (dropWhile (\<lambda>x. x = c) s)"

text \<open>\<^verbatim>\<open>strings.Split(s, sep)\<close> for a single-byte separator: never the empty list.\<close>

fun SplitChar :: "char \<Rightarrow> string \<Rightarrow> string list" where
  "SplitChar sep [] = [[]]"
| "SplitChar sep (c # cs) =
     (if c = sep then [] # SplitChar sep cs
      else (case SplitChar sep cs of [] \<Rightarrow> [[c]] | w # ws \<Rightarrow> (c # w) # ws))"

text \<open>\<^verbatim>\<open>strings.Join(parts, sep)\<close> for a single-byte separator.\<close>

fun JoinChar :: "char \<Rightarrow> string list \<Rightarrow> string" where
  "JoinChar sep [] = []"
| "JoinChar sep [w] = w"
| "JoinChar sep (w # v # ws) = w @ sep # JoinChar sep (v # ws)"

text \<open>\<^verbatim>\<open>strings.TrimPrefix\<close> and \<^verbatim>\<open>strings.TrimSuffix\<close>.\<close>

definition TrimPrefix :: "string \<Rightarrow> string \<Rightarrow> string" where
  "TrimPrefix p s = (if prefix p s then drop (length p) s else s)"

definition TrimSuffix :: "string \<Rightarrow> string \<Rightarrow> string" where
  "TrimSuffix q s = (if suffix q s then take (length s - length q) s else s)"

text \<open>Decimal digits: \<^verbatim>\<open>strconv.FormatUint(n, 10)\<close> and \<^verbatim>\<open>strconv.Itoa\<close>.\<close>

definition digit_char :: "nat \<Rightarrow> char" where
  "digit_char d = char_of (48 + d)"

fun FormatNat :: "nat \<Rightarrow> string" where
  "FormatNat n = (if n < 10 then [digit_char n] else FormatNat (n div 10) @ [digit_char (n mod 10)])"

declare FormatNat.simps [simp del]

definition Itoa :: "int \<Rightarrow> string" where
  "Itoa i = (if i < 0 then CHR ''-'' # FormatNat (nat (- i)) else FormatNat (nat i))"

text \<open>ASCII classes, as the regular expressions of the sources use them.\<close>

definition is_digit :: "char \<Rightarrow> bool" where
  "is_digit c \<longleftrightarrow> 48 \<le> (of_char c :: nat) \<and> (of_char c :: nat) \<le> 57"

definition is_alnum :: "char \<Rightarrow> bool" where
  "is_alnum c \<longleftrightarrow> is_digit c \<or> 65 \<le> (of_char c :: nat) \<and> (of_char c :: nat) \<le> 90
     \<or> 97 \<le> (of_char c :: nat) \<and> (of_char c :: nat) \<le> 122"

section \<open>encoding/hex\<close>

definition hex_digit :: "nat \<Rightarrow> char" where
  "hex_digit d = (if d < 10 then char_of (48 + d) else char_of (87 + d))"

definition upper_hex :: "nat \<Rightarrow> char" where
  "upper_hex d = (if d < 10 then char_of (48 + d) else char_of (55 + d))"

definition hex_value :: "char \<Rightarrow> nat option" where
  "hex_value c =
     (let n = of_char c in
      if 48 \<le> n \<and> n \<le> 57 then Some (n - 48)
      else if 97 \<le> n \<and> n \<le> 102 then Some (n - 87)
      else if 65 \<le> n \<and> n \<le> 70 then Some (n - 55)
      else None)"

text \<open>\<^verbatim>\<open>hex.EncodeToString\<close>.\<close>

definition hex_byte :: "byte \<Rightarrow> string" where
  "hex_byte b = [hex_digit (of_char b div 16), hex_digit (of_char b mod 16)]"

definition hex_encode :: "bytes \<Rightarrow> string" where
  "hex_encode bs = concat (map hex_byte bs)"

text \<open>\<^verbatim>\<open>hex.DecodeString\<close>: both cases of the digits are accepted; an odd length is an error.\<close>

fun hex_decode :: "string \<Rightarrow> bytes option" where
  "hex_decode [] = Some []"
| "hex_decode [c] = None"
| "hex_decode (c # d # cs) =
     (case (hex_value c, hex_value d) of
        (Some h, Some l) \<Rightarrow>
          (case hex_decode cs of None \<Rightarrow> None | Some bs \<Rightarrow> Some (char_of (16 * h + l) # bs))
      | _ \<Rightarrow> None)"

text \<open>\<^verbatim>\<open>url.QueryEscape\<close>.\<close>

definition query_escape :: "string \<Rightarrow> string" where
  "query_escape s = concat (map (\<lambda>c.
     if is_alnum c \<or> c \<in> set ''-_.~'' then [c]
     else if c = CHR 0x20 then ''+''
     else [CHR ''%'', upper_hex (of_char c div 16), upper_hex (of_char c mod 16)]) s)"

section \<open>encoding/base64\<close>

text \<open>The alphabets of \<^verbatim>\<open>base64.StdEncoding\<close> and \<^verbatim>\<open>base64.URLEncoding\<close>: characters 62 and 63.\<close>

definition b64_char :: "bool \<Rightarrow> nat \<Rightarrow> char" where
  "b64_char url n =
     (if n < 26 then char_of (65 + n)
      else if n < 52 then char_of (71 + n)
      else if n < 62 then char_of (n - 4)
      else if n = 62 then (if url then CHR ''-'' else CHR ''+'')
      else (if url then CHR ''_'' else CHR ''/''))"

definition b64_value :: "bool \<Rightarrow> char \<Rightarrow> nat option" where
  "b64_value url c =
     (let n = of_char c in
      if 65 \<le> n \<and> n \<le> 90 then Some (n - 65)
      else if 97 \<le> n \<and> n \<le> 122 then Some (n - 71)
      else if 48 \<le> n \<and> n \<le> 57 then Some (n + 4)
      else if c = (if url then CHR ''-'' else CHR ''+'') then Some 62
      else if c = (if url then CHR ''_'' else CHR ''/'') then Some 63
      else None)"

fun b64_encode :: "bool \<Rightarrow> bool \<Rightarrow> bytes \<Rightarrow> string" where
  "b64_encode url pad [] = []"
| "b64_encode url pad [a] =
     (let n = of_char a * 16 in
      [b64_char url (n div 64), b64_char url (n mod 64)] @ (if pad then ''=='' else []))"
| "b64_encode url pad [a, b] =
     (let n = (of_char a * 256 + of_char b) * 4 in
      [b64_char url (n div 4096), b64_char url (n div 64 mod 64), b64_char url (n mod 64)]
      @ (if pad then ''='' else []))"
| "b64_encode url pad (a # b # c # cs) =
     (let n = of_char a * 65536 + of_char b * 256 + of_char c in
      [b64_char url (n div 262144), b64_char url (n div 4096 mod 64),
       b64_char url (n div 64 mod 64), b64_char url (n mod 64)]
      @ b64_encode url pad cs)"

text \<open>
  Decoding of the quanta, the newlines being skipped before. Trailing bits of the last quantum
  are ignored, as the encodings that are not \<^verbatim>\<open>Strict()\<close> do.
\<close>

fun b64_quanta :: "bool \<Rightarrow> bool \<Rightarrow> string \<Rightarrow> bytes option" where
  "b64_quanta url pad [] = Some []"
| "b64_quanta url pad [p] = None"
| "b64_quanta url pad [p, q] =
     (if pad then None
      else case (b64_value url p, b64_value url q) of
        (Some u, Some v) \<Rightarrow> Some [char_of ((u * 64 + v) div 16)]
      | _ \<Rightarrow> None)"
| "b64_quanta url pad [p, q, r] =
     (if pad then None
      else case (b64_value url p, b64_value url q, b64_value url r) of
        (Some u, Some v, Some w) \<Rightarrow>
          (let n = (u * 4096 + v * 64 + w) div 4 in Some [char_of (n div 256), char_of (n mod 256)])
      | _ \<Rightarrow> None)"
| "b64_quanta url pad (p # q # r # s # cs) =
     (if pad \<and> cs = [] \<and> s = CHR ''='' then
        (if r = CHR ''='' then
           (case (b64_value url p, b64_value url q) of
              (Some u, Some v) \<Rightarrow> Some [char_of ((u * 64 + v) div 16)]
            | _ \<Rightarrow> None)
         else
           (case (b64_value url p, b64_value url q, b64_value url r) of
              (Some u, Some v, Some w) \<Rightarrow>
                (let n = (u * 4096 + v * 64 + w) div 4 in
                 Some [char_of (n div 256), char_of (n mod 256)])
            | _ \<Rightarrow> None))
      else
        (case (b64_value url p, b64_value url q, b64_value url r, b64_value url s) of
           (Some u, Some v, Some w, Some x) \<Rightarrow>
             (let n = u * 262144 + v * 4096 + w * 64 + x in
              case b64_quanta url pad cs of
                None \<Rightarrow> None
              | Some bs \<Rightarrow> Some (char_of (n div 65536) # char_of (n div 256 mod 256) # char_of (n mod 256) # bs))
         | _ \<Rightarrow> None))"

definition is_newline :: "char \<Rightarrow> bool" where
  "is_newline c \<longleftrightarrow> c = CHR 0x0A \<or> c = CHR 0x0D"

definition b64_decode :: "bool \<Rightarrow> bool \<Rightarrow> string \<Rightarrow> bytes option" where
  "b64_decode url pad s = b64_quanta url pad (filter (\<lambda>c. \<not> is_newline c) s)"

text \<open>\<^verbatim>\<open>base64.StdEncoding\<close> and \<^verbatim>\<open>base64.RawURLEncoding\<close>.\<close>

abbreviation std_encode :: "bytes \<Rightarrow> string" where
  "std_encode \<equiv> b64_encode False True"

abbreviation std_decode :: "string \<Rightarrow> bytes option" where
  "std_decode \<equiv> b64_decode False True"

abbreviation rawurl_encode :: "bytes \<Rightarrow> string" where
  "rawurl_encode \<equiv> b64_encode True False"

abbreviation rawurl_decode :: "string \<Rightarrow> bytes option" where
  "rawurl_decode \<equiv> b64_decode True False"

section \<open>Lemmas\<close>

subsection \<open>Results\<close>

lemma rbind_simps [simp]: "rbind (Inl e) f = Inl e" "rbind (Inr x) f = f x"
  by (simp_all add: rbind_def)

lemma rbind_Inr_iff: "rbind r f = Inr y \<longleftrightarrow> (\<exists>x. r = Inr x \<and> f x = Inr y)"
  by (cases r) auto

lemma rmap_err_simps [simp]: "rmap_err g (Inl e) = Inl (g e)" "rmap_err g (Inr x) = Inr x"
  by (simp_all add: rmap_err_def)

lemma rmap_err_Inr_iff [simp]: "rmap_err g r = Inr x \<longleftrightarrow> r = Inr x"
  by (cases r) auto

lemma optional_simps [simp]:
  "optionalString None = []" "optionalString (Some s) = s"
  "optionalUint32 None = 0" "optionalUint32 (Some n) = n"
  by (simp_all add: optionalString_def optionalUint32_def)

subsection \<open>White space\<close>

lemma go_spaces_nonempty: "[] \<notin> set go_spaces" "[] \<notin> set (map rev go_spaces)"
  by (auto simp: go_spaces_def)

lemma lead_len_0_iff: "[] \<notin> set ws \<Longrightarrow> lead_len ws s = 0 \<longleftrightarrow> (\<forall>w \<in> set ws. \<not> prefix w s)"
proof (cases "find (\<lambda>w. prefix w s) ws")
  case None
  then show ?thesis using None by (simp add: lead_len_def) (simp add: find_None_iff)
next
  case (Some w)
  assume "[] \<notin> set ws"
  moreover from Some have "w \<in> set ws" "prefix w s"
    by (auto simp: find_Some_iff)
  ultimately show ?thesis using Some by (auto simp: lead_len_def)
qed

lemma strip_lead_len_0: "lead_len ws (strip_lead ws s) = 0" if "[] \<notin> set ws"
  using that
  by (induction ws s rule: strip_lead.induct) (auto simp: Let_def lead_len_0_iff)

lemma strip_lead_id: "lead_len ws s = 0 \<Longrightarrow> strip_lead ws s = s"
  by (cases s) auto

lemma strip_lead_suffix: "suffix (strip_lead ws s) s"
proof (induction ws s rule: strip_lead.induct)
  case (1 ws)
  show ?case by simp
next
  case (2 ws c cs)
  have "suffix (drop k cs) (c # cs)" for k
    by (meson suffix_ConsI suffix_drop)
  with 2 show ?case by (auto simp: Let_def intro: suffix_order.trans)
qed

lemma lead_len_prefix:
  assumes "[] \<notin> set ws" "lead_len ws s = 0" "prefix t s"
  shows "lead_len ws t = 0"
  using assms by (auto simp: lead_len_0_iff intro: prefix_order.trans)

lemma TrimSpace_idem [simp, go_str]: "TrimSpace (TrimSpace s) = TrimSpace s"
proof -
  let ?l = "strip_lead go_spaces" and ?r = "strip_lead (map rev go_spaces)"
  let ?t = "?r (rev (?l s))"
  have "prefix (rev ?t) (?l s)"
    using strip_lead_suffix [of "map rev go_spaces" "rev (?l s)"] by (metis rev_rev_ident suffix_to_prefix)
  then have "lead_len go_spaces (rev ?t) = 0"
    by (rule lead_len_prefix [OF go_spaces_nonempty(1) strip_lead_len_0 [OF go_spaces_nonempty(1)]])
  then have "?l (rev ?t) = rev ?t" by (rule strip_lead_id)
  moreover have "?r ?t = ?t"
    by (rule strip_lead_id [OF strip_lead_len_0 [OF go_spaces_nonempty(2)]])
  ultimately show ?thesis by (simp add: TrimSpace_def)
qed

text \<open>A string of bytes none of which occurs in a white-space encoding is left as it is.\<close>

definition space_free :: "string \<Rightarrow> bool" where
  "space_free s \<longleftrightarrow> list_all (\<lambda>c. \<not> (\<exists>w \<in> set go_spaces. c \<in> set w)) s"

lemma lead_len_space_free:
  assumes "\<forall>c \<in> set s. \<forall>w \<in> set ws. c \<notin> set w"
  shows "lead_len ws s = 0"
proof (cases s)
  case Nil
  then show ?thesis
    by (auto simp: lead_len_def find_Some_iff split: option.splits)
next
  case (Cons c cs)
  then show ?thesis using assms
    by (auto simp: lead_len_def find_Some_iff prefix_Cons split: option.splits)
       (metis list.set_intros(1) nth_mem)
qed

lemma TrimSpace_space_free [go_str]: "space_free s \<Longrightarrow> TrimSpace s = s"
  by (simp add: TrimSpace_def strip_lead_id lead_len_space_free space_free_def list_all_iff)

lemma TrimSpace_Nil [simp]: "TrimSpace [] = []"
  by (simp add: TrimSpace_def)

subsection \<open>Splitting and joining\<close>

lemma SplitChar_nonempty [simp]: "SplitChar c s \<noteq> []"
  by (induction s) (auto split: list.splits)

lemma JoinChar_Cons: "ws \<noteq> [] \<Longrightarrow> JoinChar c (w # ws) = w @ c # JoinChar c ws"
  by (cases ws) auto

lemma JoinChar_SplitChar [simp, go_str]: "JoinChar c (SplitChar c s) = s"
proof (induction s)
  case (Cons a s)
  then show ?case
    by (cases "SplitChar c s"; cases "tl (SplitChar c s)") (auto simp: JoinChar_Cons)
qed simp

lemma SplitChar_no_sep: "w \<in> set (SplitChar c s) \<Longrightarrow> c \<notin> set w"
  by (induction s arbitrary: w) (auto split: if_splits list.splits)

lemma SplitChar_append: "c \<notin> set w \<Longrightarrow> SplitChar c (w @ c # s) = w # SplitChar c s"
  by (induction w) auto

lemma SplitChar_free: "c \<notin> set w \<Longrightarrow> SplitChar c w = [w]"
  by (induction w) auto

lemma SplitChar_JoinChar [go_str]:
  "ws \<noteq> [] \<Longrightarrow> \<forall>w \<in> set ws. c \<notin> set w \<Longrightarrow> SplitChar c (JoinChar c ws) = ws"
  by (induction c ws rule: JoinChar.induct) (auto simp: SplitChar_append SplitChar_free)

lemma set_SplitChar: "w \<in> set (SplitChar c s) \<Longrightarrow> set w \<subseteq> set s"
  by (induction s arbitrary: w) (fastforce split: if_splits list.splits)+

subsection \<open>Bytes\<close>

lemma of_char_less_256 [simp]: "(of_char c :: nat) < 256"
  by (metis nat_of_char_less_256)

lemma hex_value_digit: "d < 16 \<Longrightarrow> hex_value (hex_digit d) = Some d"
  by (auto simp: hex_value_def hex_digit_def Let_def)

lemma hex_decode_encode [simp, codec]: "hex_decode (hex_encode bs) = Some bs"
proof (induction bs)
  case (Cons b bs)
  have "(of_char b :: nat) div 16 < 16" "(of_char b :: nat) mod 16 < 16"
    using of_char_less_256 [of b] by (simp_all add: div_less_iff_less_mult)
  with Cons show ?case
    by (simp add: hex_encode_def hex_byte_def hex_value_digit)
qed (simp add: hex_encode_def)

lemma length_hex_encode [simp]: "length (hex_encode bs) = 2 * length bs"
  by (induction bs) (auto simp: hex_encode_def hex_byte_def)

lemma length_hex_decode: "hex_decode s = Some bs \<Longrightarrow> length s = 2 * length bs"
  by (induction s arbitrary: bs rule: hex_decode.induct) (auto split: option.splits)

lemma hex_encode_append: "hex_encode (a @ b) = hex_encode a @ hex_encode b"
  by (simp add: hex_encode_def)

lemma b64_value_char: "n < 64 \<Longrightarrow> b64_value url (b64_char url n) = Some n"
  by (auto simp: b64_value_def b64_char_def Let_def)

lemma b64_char_last: "64 \<le> n \<Longrightarrow> b64_char url n = b64_char url 63"
  by (simp add: b64_char_def)

lemma b64_value_newline: "is_newline c \<Longrightarrow> b64_value url c = None"
  by (auto simp: b64_value_def is_newline_def)

lemma b64_value_pad: "b64_value url (CHR ''='') = None"
  by (simp add: b64_value_def)

lemma b64_char_neq:
  assumes "b64_value url c = None"
  shows "b64_char url n \<noteq> c"
proof (cases "n < 64")
  case True
  then show ?thesis using b64_value_char [of n url] assms by auto
next
  case False
  then show ?thesis using b64_char_last [of n url] b64_value_char [of 63 url] assms by auto
qed

lemmas b64_char_not_pad [simp] = b64_char_neq [OF b64_value_pad]

lemma b64_char_not_newline [simp]: "\<not> is_newline (b64_char url n)"
  using b64_char_neq b64_value_newline by blast

lemma b64_encode_no_newline:
  "filter (\<lambda>c. \<not> is_newline c) (b64_encode url pad bs) = b64_encode url pad bs"
  by (induction url pad bs rule: b64_encode.induct)
     (simp_all add: Let_def, simp_all add: is_newline_def)

lemma bytes_bound:
  "x < 256 \<Longrightarrow> y < 256 \<Longrightarrow> x * 256 + y < (65536 :: nat)"
  "x < 256 \<Longrightarrow> y < 256 \<Longrightarrow> z < 256 \<Longrightarrow> x * 65536 + y * 256 + z < (16777216 :: nat)"
  by linarith+

lemma sextets_join:
  fixes n :: nat
  shows "n div 4096 * 4096 + n div 64 mod 64 * 64 + n mod 64 = n"
    and "n div 262144 * 262144 + n div 4096 mod 64 * 4096 + n div 64 mod 64 * 64 + n mod 64 = n"
proof -
  have eq: "n div 4096 = n div 64 div 64" "n div 262144 = n div 64 div 64 div 64"
    by (simp_all add: div_mult2_eq [symmetric])
  note split = div_mult_mod_eq [of n 64] div_mult_mod_eq [of "n div 64" 64]
    div_mult_mod_eq [of "n div 64 div 64" 64]
  show "n div 4096 * 4096 + n div 64 mod 64 * 64 + n mod 64 = n"
    unfolding eq using split by linarith
  show "n div 262144 * 262144 + n div 4096 mod 64 * 4096 + n div 64 mod 64 * 64 + n mod 64 = n"
    unfolding eq using split by linarith
qed

lemma bytes_split:
  fixes x y z :: nat
  assumes "y < 256" "z < 256"
  shows "(x * 65536 + y * 256 + z) div 65536 = x"
    and "(x * 65536 + y * 256 + z) div 256 mod 256 = y"
    and "(x * 65536 + y * 256 + z) mod 256 = z"
proof -
  have eq: "x * 65536 + y * 256 + z = (x * 256 + y) * 256 + z" by simp
  have q: "(x * 65536 + y * 256 + z) div 256 = x * 256 + y" unfolding eq using assms by simp
  have "(x * 65536 + y * 256 + z) div 65536 = (x * 65536 + y * 256 + z) div 256 div 256"
    by (simp only: div_mult2_eq [symmetric]) simp
  then show "(x * 65536 + y * 256 + z) div 65536 = x" unfolding q using assms by simp
  show "(x * 65536 + y * 256 + z) div 256 mod 256 = y" unfolding q using assms by simp
  show "(x * 65536 + y * 256 + z) mod 256 = z"
    unfolding eq using assms(2) by (simp only: mod_mult_self3 mod_less)
qed

lemma char_of_low: "char_of (k * 256 + of_char b :: nat) = b"
  by (subst char_of_mod_256 [symmetric]) simp

lemma b64_quanta_encode: "b64_quanta url pad (b64_encode url pad bs) = Some bs"
proof (induction url pad bs rule: b64_encode.induct)
  case (2 url pad a)
  have "(of_char a * 16 :: nat) div 64 < 64" using of_char_less_256 [of a] by linarith
  moreover have "(of_char a * 16 :: nat) div 64 * 64 + of_char a * 16 mod 64 = of_char a * 16"
    by (rule div_mult_mod_eq)
  ultimately show ?case by (simp add: Let_def b64_value_char)
next
  case (3 url pad a b)
  define n :: nat where "n = (of_char a * 256 + of_char b) * 4"
  have "n div 4096 < 64"
    using bytes_bound(1) [OF of_char_less_256 of_char_less_256, of a b]
    unfolding n_def by (intro less_mult_imp_div_less) simp
  moreover note sextets_join(1) [of n]
  moreover have "n div 4 = of_char a * 256 + of_char b" by (simp add: n_def)
  moreover have enc: "b64_encode url pad [a, b] =
      [b64_char url (n div 4096), b64_char url (n div 64 mod 64), b64_char url (n mod 64)]
      @ (if pad then ''='' else [])"
    by (simp only: b64_encode.simps Let_def n_def)
  ultimately show ?case
    unfolding enc using of_char_less_256 [of b] by (simp add: Let_def b64_value_char char_of_low)
next
  case (4 url pad a b c cs)
  define n :: nat where "n = of_char a * 65536 + of_char b * 256 + of_char c"
  have bound: "n div 262144 < 64"
    using bytes_bound(2) [OF of_char_less_256 of_char_less_256 of_char_less_256, of a b c]
    unfolding n_def by (intro less_mult_imp_div_less) simp
  note sextets_join(2) [of n]
  moreover have "n div 65536 = of_char a" "n div 256 mod 256 = of_char b" "n mod 256 = of_char c"
    by (simp_all add: n_def bytes_split)
  moreover have enc: "b64_encode url pad (a # b # c # cs) =
      [b64_char url (n div 262144), b64_char url (n div 4096 mod 64),
       b64_char url (n div 64 mod 64), b64_char url (n mod 64)] @ b64_encode url pad cs"
    by (simp only: b64_encode.simps Let_def n_def)
  ultimately show ?case
    unfolding enc using bound 4 by (simp add: Let_def b64_value_char del: char_of_mod_256)
qed simp

lemma b64_decode_encode [simp, codec]: "b64_decode url pad (b64_encode url pad bs) = Some bs"
  by (simp add: b64_decode_def b64_encode_no_newline b64_quanta_encode)

section \<open>Codecs\<close>

text \<open>
  What a client of an encoding relies on: on the values it is used for, decoding undoes encoding. Two codecs
  that fit together give one.
\<close>

locale codec =
  fixes ok :: "'a \<Rightarrow> bool" and enc :: "'a \<Rightarrow> 'b" and dec :: "'b \<Rightarrow> 'a option"
  assumes dec_enc: "ok x \<Longrightarrow> dec (enc x) = Some x"
begin

lemma enc_eq_iff: "ok x \<Longrightarrow> ok y \<Longrightarrow> enc x = enc y \<longleftrightarrow> x = y"
  by (metis dec_enc option.inject)

end

locale codec_chain = inner: codec ok1 enc1 dec1 + outer: codec ok2 enc2 dec2
  for ok1 :: "'a \<Rightarrow> bool" and enc1 :: "'a \<Rightarrow> 'b" and dec1 :: "'b \<Rightarrow> 'a option"
    and ok2 :: "'b \<Rightarrow> bool" and enc2 :: "'b \<Rightarrow> 'c" and dec2 :: "'c \<Rightarrow> 'b option" +
  assumes fits: "ok1 x \<Longrightarrow> ok2 (enc1 x)"

sublocale codec_chain \<subseteq> chain: codec ok1 "\<lambda>x. enc2 (enc1 x)" "\<lambda>s. Option.bind (dec2 s) dec1"
  by unfold_locales (simp add: fits inner.dec_enc outer.dec_enc)

interpretation hex: codec "\<lambda>_. True" hex_encode hex_decode
  by unfold_locales simp

interpretation b64: codec "\<lambda>_. True" "b64_encode url pad" "b64_decode url pad" for url pad
  by unfold_locales simp

subsection \<open>Printable text has no space\<close>

lemma is_alnum_range: "is_alnum c \<Longrightarrow> 48 \<le> (of_char c :: nat) \<and> (of_char c :: nat) \<le> 122"
  by (auto simp: is_alnum_def is_digit_def)

lemma go_spaces_bytes: "w \<in> set go_spaces \<Longrightarrow> c \<in> set w \<Longrightarrow> (of_char c :: nat) \<le> 32 \<or> 128 \<le> (of_char c :: nat)"
  by (auto simp: go_spaces_def)

lemma ascii_graph_space_free:
  "list_all (\<lambda>c. 33 \<le> (of_char c :: nat) \<and> (of_char c :: nat) < 128) s \<Longrightarrow> space_free s"
  unfolding space_free_def list_all_iff
proof (intro ballI notI)
  fix c assume a: "\<forall>c \<in> set s. 33 \<le> (of_char c :: nat) \<and> (of_char c :: nat) < 128" "c \<in> set s"
    "\<exists>w \<in> set go_spaces. c \<in> set w"
  then obtain w where "w \<in> set go_spaces" "c \<in> set w" by blast
  from go_spaces_bytes [OF this] a show False by fastforce
qed

lemma TrimSpace_graph: "list_all (\<lambda>c. 33 \<le> (of_char c :: nat) \<and> (of_char c :: nat) < 128) s \<Longrightarrow> TrimSpace s = s"
  by (intro TrimSpace_space_free ascii_graph_space_free)

section \<open>Sequences of calls and simulation\<close>

fun runs :: "('c \<Rightarrow> 's \<Rightarrow> 'r \<times> 's) \<Rightarrow> 'c list \<Rightarrow> 's \<Rightarrow> 'r list \<times> 's" where
  "runs f [] s = ([], s)"
| "runs f (x # xs) s = (let (r, s1) = f x s; (rs, s2) = runs f xs s1 in (r # rs, s2))"

text \<open>An implementation and its specification, in step under a relation: all answers of any sequence of calls agree.\<close>

locale simulation =
  fixes impl :: "'c \<Rightarrow> 's \<Rightarrow> 'r \<times> 's" and spec :: "'c \<Rightarrow> 'a \<Rightarrow> 'r \<times> 'a"
    and ok :: "'c \<Rightarrow> bool" and rel :: "'a \<Rightarrow> 's \<Rightarrow> bool"
  assumes step: "ok x \<Longrightarrow> rel a s \<Longrightarrow> fst (impl x s) = fst (spec x a) \<and> rel (snd (spec x a)) (snd (impl x s))"
begin

lemma runs_agree:
  "list_all ok xs \<Longrightarrow> rel a s \<Longrightarrow> fst (runs impl xs s) = fst (runs spec xs a) \<and> rel (snd (runs spec xs a)) (snd (runs impl xs s))"
proof (induction xs arbitrary: a s)
  case (Cons x xs)
  with step [of x a s] show ?case by (auto simp: Let_def split: prod.splits) (metis fst_conv snd_conv)+
qed simp

end

lemma hex_digit_alnum: "d < 16 \<Longrightarrow> is_alnum (hex_digit d)"
  by (auto simp: hex_digit_def is_alnum_def is_digit_def)

lemma hex_encode_alnum: "c \<in> set (hex_encode bs) \<Longrightarrow> is_alnum c"
proof (induction bs)
  case (Cons b bs)
  have "(of_char b :: nat) div 16 < 16" "(of_char b :: nat) mod 16 < 16"
    using of_char_less_256 [of b] by (simp_all add: div_less_iff_less_mult)
  with Cons show ?case by (auto simp: hex_encode_def hex_byte_def intro: hex_digit_alnum)
qed (simp add: hex_encode_def)

end
