(* ===== verification/Json.thy ===== *)
theory Json
  imports Prelude
begin

text \<open>
  The parts of \<^verbatim>\<open>unicode/utf8\<close> and \<^verbatim>\<open>encoding/json\<close> that the plugins use: values as trees, the
  encoder of \<^verbatim>\<open>json.Marshal\<close>, the syntax accepted by \<^verbatim>\<open>json.Unmarshal\<close> and \<^verbatim>\<open>json.Decoder\<close>, and the
  decoding of a tree into Go values. Numbers keep their literal. The last section proves that what the
  encoder prints is parsed back to the same tree.
\<close>

datatype json =
    JNull | JBool bool | JNum string | JStr string | JArr "json list" | JObj "(string \<times> json) list"

section \<open>UTF-8\<close>

definition cont_byte :: "char \<Rightarrow> bool" where
  "cont_byte c \<longleftrightarrow> 128 \<le> (of_char c :: nat) \<and> (of_char c :: nat) < 192"

definition byte_in :: "nat \<Rightarrow> nat \<Rightarrow> char \<Rightarrow> bool" where
  "byte_in lo hi c \<longleftrightarrow> lo \<le> of_char c \<and> of_char c \<le> hi"

text \<open>The size announced by a leading byte and the range of the byte after it: overlong forms, surrogates and
  code points beyond U+10FFFF are excluded there.\<close>

definition lead_byte :: "nat \<Rightarrow> nat \<times> nat \<times> nat" where
  "lead_byte n =
     (if n < 128 then (1, 0, 0)
      else if n < 194 then (0, 0, 0)
      else if n < 224 then (2, 128, 191)
      else if n = 224 then (3, 160, 191)
      else if n = 237 then (3, 128, 159)
      else if n < 240 then (3, 128, 191)
      else if n = 240 then (4, 144, 191)
      else if n < 244 then (4, 128, 191)
      else if n = 244 then (4, 128, 143)
      else (0, 0, 0))"

text \<open>
  The length of the valid encoding at the head of a string (\<^verbatim>\<open>utf8.DecodeRune\<close>), 0 when there is none.
\<close>

definition rune_len :: "string \<Rightarrow> nat" where
  "rune_len s =
     (if s = [] then 0
      else
        let (k, lo, hi) = lead_byte (of_char (s ! 0)) in
        if k \<le> length s \<and> (2 \<le> k \<longrightarrow> byte_in lo hi (s ! 1)) \<and> list_all cont_byte (drop 2 (take k s)) then k
        else 0)"

fun valid_utf8 :: "string \<Rightarrow> bool" where
  "valid_utf8 [] \<longleftrightarrow> True"
| "valid_utf8 (c # cs) \<longleftrightarrow> (let k = rune_len (c # cs) in k \<noteq> 0 \<and> valid_utf8 (drop (k - 1) cs))"

text \<open>\<^verbatim>\<open>utf8.EncodeRune\<close>, for a code point below U+110000 that is not a surrogate, and U+FFFD.\<close>

definition encode_rune :: "nat \<Rightarrow> string" where
  "encode_rune r =
     (if r < 128 then [char_of r]
      else if r < 2048 then [char_of (192 + r div 64), char_of (128 + r mod 64)]
      else if r < 65536 then
        [char_of (224 + r div 4096), char_of (128 + r div 64 mod 64), char_of (128 + r mod 64)]
      else [char_of (240 + r div 262144), char_of (128 + r div 4096 mod 64),
            char_of (128 + r div 64 mod 64), char_of (128 + r mod 64)])"

definition rune_error :: string where
  "rune_error = [CHR 0xEF, CHR 0xBF, CHR 0xBD]"

text \<open>Every byte that starts no valid encoding replaced by U+FFFD: what encoding and decoding make of a string.\<close>

fun to_valid :: "string \<Rightarrow> string" where
  "to_valid [] = []"
| "to_valid (c # cs) =
     (let k = rune_len (c # cs)
      in if k = 0 then rune_error @ to_valid cs else take k (c # cs) @ to_valid (drop (k - 1) cs))"

section \<open>Encoding\<close>

text \<open>The bytes that \<^verbatim>\<open>json.Marshal\<close> copies, its set \<^verbatim>\<open>htmlSafeSet\<close>.\<close>

definition html_safe :: "char \<Rightarrow> bool" where
  "html_safe c \<longleftrightarrow> 32 \<le> (of_char c :: nat) \<and> (of_char c :: nat) < 128 \<and> c \<noteq> CHR 0x22 \<and> c \<noteq> CHR 0x5C
     \<and> c \<noteq> CHR ''<'' \<and> c \<noteq> CHR ''>'' \<and> c \<noteq> CHR ''&''"

definition short_escape :: "char \<Rightarrow> char option" where
  "short_escape c =
     (if c = CHR 0x22 then Some (CHR 0x22) else if c = CHR 0x5C then Some (CHR 0x5C)
      else if c = CHR 0x08 then Some (CHR ''b'') else if c = CHR 0x0C then Some (CHR ''f'')
      else if c = CHR 0x0A then Some (CHR ''n'') else if c = CHR 0x0D then Some (CHR ''r'')
      else if c = CHR 0x09 then Some (CHR ''t'') else None)"

definition escape :: "char \<Rightarrow> string" where
  "escape c = CHR 0x5C # (case short_escape c of Some e \<Rightarrow> [e] | None \<Rightarrow> ''u00'' @ hex_byte c)"

fun quote_body :: "string \<Rightarrow> string" where
  "quote_body [] = []"
| "quote_body (c # cs) =
     (if html_safe c then c # quote_body cs
      else if (of_char c :: nat) < 128 then escape c @ quote_body cs
      else let k = rune_len (c # cs) in
        if k = 0 then CHR 0x5C # ''ufffd'' @ quote_body cs
        else (if take k (c # cs) = [CHR 0xE2, CHR 0x80, CHR 0xA8] then CHR 0x5C # ''u2028''
              else if take k (c # cs) = [CHR 0xE2, CHR 0x80, CHR 0xA9] then CHR 0x5C # ''u2029''
              else take k (c # cs)) @ quote_body (drop (k - 1) cs))"

definition quote :: "string \<Rightarrow> string" where
  "quote s = CHR 0x22 # quote_body s @ [CHR 0x22]"

fun json_print :: "json \<Rightarrow> string"
and print_elems :: "json list \<Rightarrow> string"
and print_members :: "(string \<times> json) list \<Rightarrow> string" where
  "json_print JNull = ''null''"
| "json_print (JBool b) = (if b then ''true'' else ''false'')"
| "json_print (JNum lit) = lit"
| "json_print (JStr s) = quote s"
| "json_print (JArr vs) = CHR ''['' # print_elems vs @ '']''"
| "json_print (JObj ms) = CHR ''{'' # print_members ms @ ''}''"
| "print_elems [] = []"
| "print_elems [v] = json_print v"
| "print_elems (v # w # vs) = json_print v @ CHR '','' # print_elems (w # vs)"
| "print_members [] = []"
| "print_members [(k, v)] = quote k @ CHR '':'' # json_print v"
| "print_members ((k, v) # m # ms) = quote k @ CHR '':'' # json_print v @ CHR '','' # print_members (m # ms)"

section \<open>Parsing\<close>

definition is_ws :: "char \<Rightarrow> bool" where
  "is_ws c \<longleftrightarrow> c = CHR 0x20 \<or> c = CHR 0x09 \<or> c = CHR 0x0A \<or> c = CHR 0x0D"

abbreviation skip_ws :: "string \<Rightarrow> string" where
  "skip_ws \<equiv> dropWhile is_ws"

definition hex4 :: "string \<Rightarrow> nat option" where
  "hex4 s =
     (if length s < 4 then None
      else case (hex_value (s ! 0), hex_value (s ! 1), hex_value (s ! 2), hex_value (s ! 3)) of
        (Some a, Some b, Some c, Some d) \<Rightarrow> Some (a * 4096 + b * 256 + c * 16 + d)
      | _ \<Rightarrow> None)"

definition simple_escape :: "char \<Rightarrow> char option" where
  "simple_escape e =
     (if e = CHR 0x22 \<or> e = CHR 0x5C \<or> e = CHR ''/'' then Some e
      else if e = CHR ''b'' then Some (CHR 0x08) else if e = CHR ''f'' then Some (CHR 0x0C)
      else if e = CHR ''n'' then Some (CHR 0x0A) else if e = CHR ''r'' then Some (CHR 0x0D)
      else if e = CHR ''t'' then Some (CHR 0x09) else None)"

definition is_surrogate :: "nat \<Rightarrow> bool" where
  "is_surrogate r \<longleftrightarrow> 55296 \<le> r \<and> r < 57344"

text \<open>The second half of a surrogate pair, at the head of the string: the code point of the pair.\<close>

definition surrogate_pair :: "nat \<Rightarrow> string \<Rightarrow> nat option" where
  "surrogate_pair r s =
     (if take 2 s = [CHR 0x5C, CHR ''u''] then
        (case hex4 (drop 2 s) of
           Some r2 \<Rightarrow>
             if r < 56320 \<and> 56320 \<le> r2 \<and> r2 < 57344 then Some ((r - 55296) * 1024 + (r2 - 56320) + 65536)
             else None
         | None \<Rightarrow> None)
      else None)"

definition prepend :: "string \<Rightarrow> (string \<times> string) option \<Rightarrow> (string \<times> string) option" where
  "prepend p r = map_option (\<lambda>(s, rest). (p @ s, rest)) r"

text \<open>
  The contents of a string literal up to the closing quote, decoded, and what follows the quote
  (\<^verbatim>\<open>unquoteBytes\<close>): a byte that starts no valid encoding and a lone surrogate become U+FFFD.
\<close>

fun unquote :: "string \<Rightarrow> (string \<times> string) option" where
  "unquote [] = None"
| "unquote (c # cs) =
     (if c = CHR 0x22 then Some ([], cs)
      else if c = CHR 0x5C then
        (case cs of
           [] \<Rightarrow> None
         | e # es \<Rightarrow>
             if e = CHR ''u'' then
               (case hex4 es of
                  None \<Rightarrow> None
                | Some r \<Rightarrow>
                    if is_surrogate r then
                      (case surrogate_pair r (drop 4 es) of
                         Some r' \<Rightarrow> prepend (encode_rune r') (unquote (drop 10 es))
                       | None \<Rightarrow> prepend rune_error (unquote (drop 4 es)))
                    else prepend (encode_rune r) (unquote (drop 4 es)))
             else
               (case simple_escape e of
                  None \<Rightarrow> None
                | Some x \<Rightarrow> prepend [x] (unquote es)))
      else if (of_char c :: nat) < 32 then None
      else if (of_char c :: nat) < 128 then prepend [c] (unquote cs)
      else let k = rune_len (c # cs) in
        if k = 0 then prepend rune_error (unquote cs)
        else prepend (take k (c # cs)) (unquote (drop (k - 1) cs)))"

text \<open>Numbers: sign, integer part, fraction, exponent.\<close>

definition scan_exp :: "string \<Rightarrow> string \<Rightarrow> (string \<times> string) option" where
  "scan_exp acc s =
     (if s \<noteq> [] \<and> (hd s = CHR ''e'' \<or> hd s = CHR ''E'') then
        let t = tl s;
            sg = (if t \<noteq> [] \<and> (hd t = CHR ''+'' \<or> hd t = CHR ''-'') then [hd t] else []);
            ds = takeWhile is_digit (drop (length sg) t)
        in if ds = [] then None
           else Some (acc @ hd s # sg @ ds, dropWhile is_digit (drop (length sg) t))
      else Some (acc, s))"

definition scan_frac :: "string \<Rightarrow> string \<Rightarrow> (string \<times> string) option" where
  "scan_frac acc s =
     (if s \<noteq> [] \<and> hd s = CHR ''.'' then
        (if takeWhile is_digit (tl s) = [] then None
         else scan_exp (acc @ CHR ''.'' # takeWhile is_digit (tl s)) (dropWhile is_digit (tl s)))
      else scan_exp acc s)"

definition scan_number :: "string \<Rightarrow> (string \<times> string) option" where
  "scan_number s =
     (let sg = (if s \<noteq> [] \<and> hd s = CHR ''-'' then ''-'' else []);
          t = drop (length sg) s
      in if t = [] \<or> \<not> is_digit (hd t) then None
         else if hd t = CHR ''0'' then scan_frac (sg @ ''0'') (tl t)
         else scan_frac (sg @ takeWhile is_digit t) (dropWhile is_digit t))"

definition starts :: "char \<Rightarrow> string \<Rightarrow> bool" where
  "starts c s \<longleftrightarrow> s \<noteq> [] \<and> hd s = c"

text \<open>
  The value parser, with fuel (a bound on the depth of calls: more than twice the input's length is
  always enough) and the number of levels of nesting that are still allowed.
\<close>

fun parse_value :: "nat \<Rightarrow> nat \<Rightarrow> string \<Rightarrow> (json \<times> string) option"
and parse_elems :: "nat \<Rightarrow> nat \<Rightarrow> string \<Rightarrow> (json list \<times> string) option"
and parse_members :: "nat \<Rightarrow> nat \<Rightarrow> string \<Rightarrow> ((string \<times> json) list \<times> string) option" where
  "parse_value 0 d s = None"
| "parse_value (Suc n) d s0 =
     (let s = skip_ws s0 in
      if s = [] then None
      else if hd s = CHR 0x22 then map_option (\<lambda>(x, r). (JStr x, r)) (unquote (tl s))
      else if hd s = CHR ''{'' then
        (if d = 0 then None
         else if starts (CHR ''}'') (skip_ws (tl s)) then Some (JObj [], tl (skip_ws (tl s)))
         else map_option (\<lambda>(ms, r). (JObj ms, r)) (parse_members n (d - 1) (tl s)))
      else if hd s = CHR ''['' then
        (if d = 0 then None
         else if starts (CHR '']'') (skip_ws (tl s)) then Some (JArr [], tl (skip_ws (tl s)))
         else map_option (\<lambda>(vs, r). (JArr vs, r)) (parse_elems n (d - 1) (tl s)))
      else if prefix ''null'' s then Some (JNull, drop 4 s)
      else if prefix ''true'' s then Some (JBool True, drop 4 s)
      else if prefix ''false'' s then Some (JBool False, drop 5 s)
      else map_option (\<lambda>(lit, r). (JNum lit, r)) (scan_number s))"
| "parse_elems 0 d s = None"
| "parse_elems (Suc n) d s =
     (case parse_value n d s of
        None \<Rightarrow> None
      | Some (v, r0) \<Rightarrow>
          let r = skip_ws r0 in
          if starts (CHR '','') r then
            map_option (\<lambda>(vs, r'). (v # vs, r')) (parse_elems n d (tl r))
          else if starts (CHR '']'') r then Some ([v], tl r)
          else None)"
| "parse_members 0 d s = None"
| "parse_members (Suc n) d s0 =
     (let s = skip_ws s0 in
      if \<not> starts (CHR 0x22) s then None
      else case unquote (tl s) of
        None \<Rightarrow> None
      | Some (k, r0) \<Rightarrow>
          let r = skip_ws r0 in
          if \<not> starts (CHR '':'') r then None
          else case parse_value n d (tl r) of
            None \<Rightarrow> None
          | Some (v, r1) \<Rightarrow>
              let r2 = skip_ws r1 in
              if starts (CHR '','') r2 then
                map_option (\<lambda>(ms, r'). ((k, v) # ms, r')) (parse_members n d (tl r2))
              else if starts (CHR ''}'') r2 then Some ([(k, v)], tl r2)
              else None)"

text \<open>One value at the head of the input (\<^verbatim>\<open>json.Decoder.Decode\<close>) and a whole document (\<^verbatim>\<open>json.Unmarshal\<close>).\<close>

definition max_depth :: nat where
  "max_depth = 10000"

definition json_decode :: "string \<Rightarrow> (json \<times> string) option" where
  "json_decode s = parse_value (2 * length s + 1) max_depth s"

definition json_parse :: "string \<Rightarrow> json option" where
  "json_parse s =
     (case json_decode s of None \<Rightarrow> None | Some (v, r) \<Rightarrow> if skip_ws r = [] then Some v else None)"

section \<open>Decoding into Go values\<close>

text \<open>
  Decoding writes into a value that exists already. A decoder gives the new value and whether the tree had
  the type required; on a mismatch \<^verbatim>\<open>json.Unmarshal\<close> goes on and reports the error at the end. \<^verbatim>\<open>null\<close>
  leaves a string, a number, a boolean and a struct as they are.
\<close>

type_synonym 'a decoder = "json \<Rightarrow> 'a \<Rightarrow> bool \<times> 'a"

definition dec_string :: "string decoder" where
  "dec_string j old = (case j of JStr s \<Rightarrow> (True, s) | JNull \<Rightarrow> (True, old) | _ \<Rightarrow> (False, old))"

definition dec_bool :: "bool decoder" where
  "dec_bool j old = (case j of JBool b \<Rightarrow> (True, b) | JNull \<Rightarrow> (True, old) | _ \<Rightarrow> (False, old))"

definition digit_value :: "char \<Rightarrow> nat" where
  "digit_value c = of_char c - 48"

definition parse_nat :: "string \<Rightarrow> nat option" where
  "parse_nat s =
     (if s \<noteq> [] \<and> list_all is_digit s then Some (foldl (\<lambda>n c. n * 10 + digit_value c) 0 s) else None)"

definition dec_uint32 :: "u32 decoder" where
  "dec_uint32 j old =
     (case j of
        JNum lit \<Rightarrow>
          (case parse_nat lit of
             Some n \<Rightarrow> if n < 2 ^ 32 then (True, of_nat n) else (False, old)
           | None \<Rightarrow> (False, old))
      | JNull \<Rightarrow> (True, old)
      | _ \<Rightarrow> (False, old))"

definition dec_int :: "int decoder" where
  "dec_int j old =
     (case j of
        JNum lit \<Rightarrow>
          (if starts (CHR ''-'') lit then
             (case parse_nat (tl lit) of
                Some n \<Rightarrow> if n \<le> 2 ^ 63 then (True, - int n) else (False, old)
              | None \<Rightarrow> (False, old))
           else
             (case parse_nat lit of
                Some n \<Rightarrow> if n < 2 ^ 63 then (True, int n) else (False, old)
              | None \<Rightarrow> (False, old)))
      | JNull \<Rightarrow> (True, old)
      | _ \<Rightarrow> (False, old))"

text \<open>
  Keys match the names of a struct's fields up to case folding; besides the ASCII letters two code points
  fold to one, U+017F to \<^verbatim>\<open>S\<close> and U+212A to \<^verbatim>\<open>K\<close>.
\<close>

fun fold_name :: "string \<Rightarrow> string" where
  "fold_name [] = []"
| "fold_name (a # b # c # s) =
     (if a = CHR 0xC5 \<and> b = CHR 0xBF then CHR ''S'' # fold_name (c # s)
      else if a = CHR 0xE2 \<and> b = CHR 0x84 \<and> c = CHR 0xAA then CHR ''K'' # fold_name s
      else (if 97 \<le> (of_char a :: nat) \<and> (of_char a :: nat) \<le> 122 then char_of (of_char a - 32 :: nat) else a)
             # fold_name (b # c # s))"
| "fold_name (a # s) =
     (if a = CHR 0xC5 \<and> s = [CHR 0xBF] then ''S''
      else (if 97 \<le> (of_char a :: nat) \<and> (of_char a :: nat) \<le> 122 then char_of (of_char a - 32 :: nat) else a)
             # fold_name s)"

definition is_field :: "string \<Rightarrow> string \<Rightarrow> bool" where
  "is_field name key \<longleftrightarrow> key = name \<or> fold_name key = fold_name name"

text \<open>
  A struct: the members in order, each handed to the decoder of the struct's fields, which ignores unknown
  keys. A field's decoder is lifted to the struct by the pair of its selector and its update.
\<close>

definition dec_struct :: "(string \<Rightarrow> 'a decoder) \<Rightarrow> 'a decoder" where
  "dec_struct f j old =
     (case j of
        JObj ms \<Rightarrow>
          foldl (\<lambda>(ok, x) (k, v). let (ok', x') = f k v x in (ok \<and> ok', x')) (True, old) ms
      | JNull \<Rightarrow> (True, old)
      | _ \<Rightarrow> (False, old))"

definition dec_field :: "('a \<Rightarrow> 'b) \<Rightarrow> (('b \<Rightarrow> 'b) \<Rightarrow> 'a \<Rightarrow> 'a) \<Rightarrow> 'b decoder \<Rightarrow> 'a decoder" where
  "dec_field get upd d j x = (let (ok, y) = d j (get x) in (ok, upd (\<lambda>_. y) x))"

definition dec_skip :: "'a decoder" where
  "dec_skip j x = (True, x)"

text \<open>A slice, \<open>None\<close> when nil: \<^verbatim>\<open>null\<close> makes it nil; elements are decoded over the ones that are there already.\<close>

fun dec_elems :: "'a decoder \<Rightarrow> 'a \<Rightarrow> json list \<Rightarrow> 'a list \<Rightarrow> bool \<times> 'a list" where
  "dec_elems d zero [] old = (True, [])"
| "dec_elems d zero (v # vs) old =
     (let (ok, x) = d v (case old of [] \<Rightarrow> zero | y # _ \<Rightarrow> y);
          (ok', xs) = dec_elems d zero vs (tl old)
      in (ok \<and> ok', x # xs))"

definition dec_slice :: "'a decoder \<Rightarrow> 'a \<Rightarrow> 'a list option decoder" where
  "dec_slice d zero j old =
     (case j of
        JArr vs \<Rightarrow> (let (ok, xs) = dec_elems d zero vs (case old of None \<Rightarrow> [] | Some ys \<Rightarrow> ys) in (ok, Some xs))
      | JNull \<Rightarrow> (True, None)
      | _ \<Rightarrow> (False, old))"

text \<open>A pointer: \<^verbatim>\<open>null\<close> makes it nil, any other value is decoded into what it points to, made if needed.\<close>

definition dec_pointer :: "'a decoder \<Rightarrow> 'a \<Rightarrow> 'a option decoder" where
  "dec_pointer d zero j old =
     (case j of
        JNull \<Rightarrow> (True, None)
      | _ \<Rightarrow> let (ok, x) = d j (case old of None \<Rightarrow> zero | Some y \<Rightarrow> y) in (ok, Some x))"

text \<open>A map from strings to raw values: \<^verbatim>\<open>null\<close> makes it nil, members are added to what is there.\<close>

fun put_entry :: "string \<Rightarrow> 'a \<Rightarrow> (string \<times> 'a) list \<Rightarrow> (string \<times> 'a) list" where
  "put_entry k v [] = [(k, v)]"
| "put_entry k v ((k', v') # m) = (if k' = k then (k, v) # m else (k', v') # put_entry k v m)"

definition dec_raw_map :: "(string \<times> json) list decoder" where
  "dec_raw_map j old =
     (case j of
        JObj ms \<Rightarrow> (True, foldl (\<lambda>m (k, v). put_entry k v m) old ms)
      | JNull \<Rightarrow> (True, [])
      | _ \<Rightarrow> (False, old))"

text \<open>\<^verbatim>\<open>json.Unmarshal\<close> of a document into a value: \<open>None\<close> is an error.\<close>

definition json_unmarshal :: "'a decoder \<Rightarrow> 'a \<Rightarrow> string \<Rightarrow> 'a option" where
  "json_unmarshal d zero s =
     (case json_parse s of
        None \<Rightarrow> None
      | Some j \<Rightarrow> (let (ok, x) = d j zero in if ok then Some x else None))"

text \<open>The struct \<^verbatim>\<open>struct { Data T `json:"data"` }\<close> of the responses, as its only field.\<close>

definition dec_data :: "'a decoder \<Rightarrow> 'a decoder" where
  "dec_data d = dec_struct (\<lambda>k. if is_field ''data'' k then d else dec_skip)"

text \<open>Members of an object that \<^verbatim>\<open>omitempty\<close> leaves out when empty.\<close>

definition omitempty :: "string \<Rightarrow> string \<Rightarrow> (string \<times> json) list" where
  "omitempty k s = (if s = [] then [] else [(k, JStr s)])"

lemma dec_simps [simp]:
  "dec_string (JStr s) old = (True, s)" "dec_bool (JBool b) old' = (True, b)"
  "dec_struct f JNull x = (True, x)"
  "dec_struct f (JObj []) x = (True, x)"
  by (simp_all add: dec_string_def dec_bool_def dec_struct_def)

lemma dec_struct_step:
  "f k v old = (True, x) \<Longrightarrow> dec_struct f (JObj ((k, v) # ms)) old = dec_struct f (JObj ms) x"
  by (simp add: dec_struct_def)

lemma dec_struct_omitempty:
  "(s \<noteq> [] \<Longrightarrow> f k (JStr s) old = (True, x)) \<Longrightarrow> (s = [] \<Longrightarrow> x = old) \<Longrightarrow>
   dec_struct f (JObj (omitempty k s @ ms)) old = dec_struct f (JObj ms) x"
  by (auto simp: omitempty_def dec_struct_step)

lemma is_field_refl [simp]: "is_field n n"
  by (simp add: is_field_def)

lemma dec_data_simps [simp]: "dec_data d (JObj [(''data'', j)]) x = d j x"
  by (cases "d j x") (simp add: dec_data_def dec_struct_def)

section \<open>Round trip\<close>

subsection \<open>Strings\<close>

lemma rune_len_le: "rune_len s \<le> length s"
  by (auto simp: rune_len_def Let_def split: prod.splits)

text \<open>The length depends only on the bytes of the encoding.\<close>

lemma rune_len_cong:
  assumes k: "rune_len s = k" "k \<noteq> 0" and t: "take k t = take k s" "k \<le> length t"
  shows "rune_len t = k"
proof -
  have nth: "t ! i = s ! i" if "i < k" for i using t(1) that by (metis nth_take)
  have z: "t ! 0 = s ! 0" "s \<noteq> []" "t \<noteq> []" using nth [of 0] k t by (auto simp: rune_len_def)
  obtain l lo hi where l: "lead_byte (of_char (s ! 0)) = (l, lo, hi)" by (cases "lead_byte (of_char (s ! 0))")
  with k z have "l = k" "2 \<le> k \<longrightarrow> byte_in lo hi (s ! 1)" "list_all cont_byte (drop 2 (take k s))"
    by (auto simp: rune_len_def split: if_splits)
  then show ?thesis using l z t nth [of 1] by (auto simp: rune_len_def)
qed

lemma rune_len_take: "rune_len s = k \<Longrightarrow> k \<noteq> 0 \<Longrightarrow> rune_len (take k s @ t) = k"
  using rune_len_le [of s] by (rule_tac rune_len_cong [of s]) auto

lemma prepend_simps [simp]: "prepend p None = None" "prepend p (Some (s, r)) = Some (p @ s, r)"
  by (simp_all add: prepend_def)

lemma rune_len_ascii: "(of_char c :: nat) < 128 \<Longrightarrow> rune_len (c # cs) = 1"
  by (simp add: rune_len_def lead_byte_def)

lemma short_escape_inverse: "short_escape c = Some e \<Longrightarrow> simple_escape e = Some c \<and> e \<noteq> CHR ''u''"
  by (auto simp: short_escape_def simple_escape_def split: if_splits)

lemma hex4_00: "hex4 (CHR ''0'' # CHR ''0'' # hex_byte c @ t) = Some (of_char c)"
proof -
  have "(of_char c :: nat) div 16 < 16" "(of_char c :: nat) mod 16 < 16"
    using of_char_less_256 [of c] by (simp_all add: div_less_iff_less_mult)
  moreover have "(of_char c :: nat) div 16 * 16 + of_char c mod 16 = of_char c" by (rule div_mult_mod_eq)
  moreover have "hex_value (CHR ''0'') = Some 0" by (simp add: hex_value_def)
  ultimately show ?thesis by (simp add: hex4_def hex_byte_def hex_value_digit)
qed

lemma unquote_escape:
  assumes "(of_char c :: nat) < 128"
  shows "unquote (escape c @ t) = prepend [c] (unquote t)"
proof (cases "short_escape c")
  case None
  have "unquote (escape c @ t) = prepend (encode_rune (of_char c)) (unquote t)"
    using None assms hex4_00 [of c t]
    by (simp add: escape_def is_surrogate_def) (simp add: hex_byte_def)
  then show ?thesis using assms by (simp add: encode_rune_def)
next
  case (Some e)
  then show ?thesis using short_escape_inverse [OF Some] by (simp add: escape_def)
qed

lemma unquote_u2028:
  "unquote (CHR 0x5C # ''u2028'' @ t) = prepend [CHR 0xE2, CHR 0x80, CHR 0xA8] (unquote t)"
  "unquote (CHR 0x5C # ''u2029'' @ t) = prepend [CHR 0xE2, CHR 0x80, CHR 0xA9] (unquote t)"
proof -
  have "encode_rune 0x2028 = [CHR 0xE2, CHR 0x80, CHR 0xA8]" "encode_rune 0x2029 = [CHR 0xE2, CHR 0x80, CHR 0xA9]"
    by (simp_all add: encode_rune_def char_of_eq_iff)
  then show
    "unquote (CHR 0x5C # ''u2028'' @ t) = prepend [CHR 0xE2, CHR 0x80, CHR 0xA8] (unquote t)"
    "unquote (CHR 0x5C # ''u2029'' @ t) = prepend [CHR 0xE2, CHR 0x80, CHR 0xA9] (unquote t)"
    by (simp_all add: hex4_def hex_value_def is_surrogate_def)
qed

lemma unquote_rune:
  assumes k: "rune_len (c # cs) = k" "k \<noteq> 0" and c: "\<not> (of_char c :: nat) < 128"
  shows "unquote (take k (c # cs) @ t) = prepend (take k (c # cs)) (unquote t)"
proof -
  let ?s = "take k (c # cs) @ t"
  have le: "k \<le> length (c # cs)" using k(1) rune_len_le [of "c # cs"] by simp
  have s: "?s = c # (take (k - 1) cs @ t)" using k(2) by (cases k) auto
  have "rune_len ?s = k" using rune_len_take [OF k] .
  moreover have "take k ?s = take k (c # cs)" "drop k ?s = t" using le by auto
  moreover have "drop (k - 1) (take (k - 1) cs @ t) = t" using le by simp
  moreover have "c \<noteq> CHR 0x22" "c \<noteq> CHR 0x5C" using c by auto
  ultimately show ?thesis using c k(2) unfolding s by (simp add: Let_def)
qed

lemma unquote_ufffd: "unquote (CHR 0x5C # ''ufffd'' @ t) = prepend rune_error (unquote t)"
proof -
  have "encode_rune 0xFFFD = rune_error" by (simp add: encode_rune_def rune_error_def char_of_eq_iff)
  then show ?thesis by (simp add: hex4_def hex_value_def is_surrogate_def)
qed

lemma to_valid_ascii: "(of_char c :: nat) < 128 \<Longrightarrow> to_valid (c # cs) = c # to_valid cs"
  by (simp add: rune_len_ascii)

lemma unquote_quote_body: "unquote (quote_body s @ CHR 0x22 # t) = Some (to_valid s, t)"
proof (induction s rule: quote_body.induct)
  case (2 c cs)
  let ?k = "rune_len (c # cs)"
  consider (safe) "html_safe c" | (esc) "\<not> html_safe c" "(of_char c :: nat) < 128"
    | (bad) "\<not> html_safe c" "\<not> (of_char c :: nat) < 128" "?k = 0"
    | (multi) "\<not> html_safe c" "\<not> (of_char c :: nat) < 128" "?k \<noteq> 0" by blast
  then show ?case
  proof cases
    case safe
    then have "(of_char c :: nat) < 128" "\<not> (of_char c :: nat) < 32" "c \<noteq> CHR 0x22" "c \<noteq> CHR 0x5C"
      by (auto simp: html_safe_def)
    with safe 2 show ?thesis by (simp add: to_valid_ascii del: to_valid.simps)
  next
    case esc
    with 2 show ?thesis by (simp add: to_valid_ascii unquote_escape del: unquote.simps to_valid.simps)
  next
    case bad
    then have "quote_body (c # cs) @ CHR 0x22 # t = CHR 0x5C # ''ufffd'' @ (quote_body cs @ CHR 0x22 # t)" by simp
    moreover have "to_valid (c # cs) = rune_error @ to_valid cs" using bad by simp
    moreover have "unquote (quote_body cs @ CHR 0x22 # t) = Some (to_valid cs, t)" using 2 bad by simp
    ultimately show ?thesis using unquote_ufffd by (simp only: prepend_simps)
  next
    case multi
    let ?t = "quote_body (drop (?k - 1) cs) @ CHR 0x22 # t"
    have IH: "unquote ?t = Some (to_valid (drop (?k - 1) cs), t)" using 2 multi by blast
    let ?E = "if take ?k (c # cs) = [CHR 0xE2, CHR 0x80, CHR 0xA8] then CHR 0x5C # ''u2028''
      else if take ?k (c # cs) = [CHR 0xE2, CHR 0x80, CHR 0xA9] then CHR 0x5C # ''u2029''
      else take ?k (c # cs)"
    have q: "quote_body (c # cs) @ CHR 0x22 # t = ?E @ ?t" using multi by (simp add: Let_def)
    have "unquote (?E @ ?t) = prepend (take ?k (c # cs)) (unquote ?t)"
      using unquote_u2028 [of ?t] unquote_rune [OF refl multi(3,2), of ?t]
      by (simp del: unquote.simps take_Suc_Cons)
    then show ?thesis unfolding q IH prepend_simps using multi by (simp add: Let_def)
  qed
qed simp

lemma to_valid_Nil_iff [simp]: "to_valid s = [] \<longleftrightarrow> s = []"
  by (cases s) (auto simp: Let_def rune_error_def)

lemma to_valid_id [simp]: "valid_utf8 s \<Longrightarrow> to_valid s = s"
proof (induction s rule: to_valid.induct)
  case (2 c cs)
  let ?k = "rune_len (c # cs)"
  have k: "?k \<noteq> 0" "valid_utf8 (drop (?k - 1) cs)" using "2.prems" by (auto simp: Let_def)
  have whole: "take ?k (c # cs) @ drop (?k - 1) cs = c # cs" using k by (cases ?k) auto
  have "to_valid (drop (?k - 1) cs) = drop (?k - 1) cs" using "2.IH"(2) k by blast
  then show ?case using k whole by (simp add: Let_def)
qed simp

subsection \<open>Numbers\<close>

lemma FormatNat_digits: "list_all is_digit (FormatNat n)"
proof (induction n rule: FormatNat.induct)
  case (1 n)
  have "is_digit (digit_char d)" if "d < 10" for d
    using that by (auto simp: is_digit_def digit_char_def)
  then show ?case using 1 by (subst FormatNat.simps) (simp add: list_all_iff)
qed

lemma FormatNat_nonempty [simp]: "FormatNat n \<noteq> []"
  by (subst FormatNat.simps) simp

lemma hd_FormatNat: "hd (FormatNat n) = CHR ''0'' \<longleftrightarrow> n = 0"
proof (induction n rule: FormatNat.induct)
  case (1 n)
  show ?case
  proof (cases "n < 10")
    case True
    have "char_of (48 + n) = CHR ''0'' \<longleftrightarrow> n = 0" using True by (auto simp: char_of_eq_iff take_bit_eq_mod)
    then show ?thesis using True by (subst FormatNat.simps) (simp add: digit_char_def)
  next
    case False
    then show ?thesis using 1 by (subst FormatNat.simps) simp
  qed
qed

lemma FormatNat_0: "FormatNat 0 = ''0''"
  by (subst FormatNat.simps) (simp add: digit_char_def char_of_eq_iff)

definition delim :: "string \<Rightarrow> bool" where
  "delim r \<longleftrightarrow> r = [] \<or> hd r = CHR '','' \<or> hd r = CHR '']'' \<or> hd r = CHR ''}''"

lemma delim_facts:
  assumes "delim r"
  shows "takeWhile is_digit r = []" "dropWhile is_digit r = r" "scan_frac acc r = Some (acc, r)"
  using assms
  by (cases r; auto simp: delim_def is_digit_def scan_frac_def scan_exp_def)+

lemma scan_digits:
  assumes "delim r"
  shows "FormatNat n \<noteq> []" "is_digit (hd (FormatNat n @ r))"
    "takeWhile is_digit (FormatNat n @ r) = FormatNat n" "dropWhile is_digit (FormatNat n @ r) = r"
  using FormatNat_digits [of n] delim_facts [OF assms]
  by (auto simp: list_all_iff)

lemma digit_not_minus: "is_digit c \<Longrightarrow> c \<noteq> CHR ''-''"
  by (auto simp: is_digit_def)

lemma scan_number_FormatNat:
  assumes "delim r"
  shows "scan_number (FormatNat n @ r) = Some (FormatNat n, r)"
    and "scan_number (CHR ''-'' # FormatNat n @ r) = Some (CHR ''-'' # FormatNat n, r)"
proof -
  note d = scan_digits [OF assms, of n] and f = delim_facts(3) [OF assms]
  have m: "hd (FormatNat n @ r) \<noteq> CHR ''-''" using d(2) digit_not_minus by blast
  have tl0: "tl (FormatNat 0 @ r) = r" by (simp add: FormatNat_0)
  have z: "hd (FormatNat n @ r) = CHR ''0'' \<longleftrightarrow> n = 0" using hd_FormatNat by simp
  show "scan_number (FormatNat n @ r) = Some (FormatNat n, r)"
    using d m z f tl0 by (cases "n = 0") (simp_all add: scan_number_def Let_def FormatNat_0)
  show "scan_number (CHR ''-'' # FormatNat n @ r) = Some (CHR ''-'' # FormatNat n, r)"
    using d z f tl0 by (cases "n = 0") (simp_all add: scan_number_def Let_def FormatNat_0)
qed

lemma scan_number_Itoa: "delim r \<Longrightarrow> scan_number (Itoa i @ r) = Some (Itoa i, r)"
  by (simp add: Itoa_def scan_number_FormatNat)

subsection \<open>Values\<close>

fun wf_json :: "json \<Rightarrow> bool" where
  "wf_json JNull \<longleftrightarrow> True"
| "wf_json (JBool b) \<longleftrightarrow> True"
| "wf_json (JNum lit) \<longleftrightarrow> (\<exists>i. lit = Itoa i)"
| "wf_json (JStr s) \<longleftrightarrow> valid_utf8 s"
| "wf_json (JArr vs) \<longleftrightarrow> (\<forall>v \<in> set vs. wf_json v)"
| "wf_json (JObj ms) \<longleftrightarrow> (\<forall>(k, v) \<in> set ms. valid_utf8 k \<and> wf_json v)"

fun nums_ok :: "json \<Rightarrow> bool" where
  "nums_ok (JNum lit) \<longleftrightarrow> (\<exists>i. lit = Itoa i)"
| "nums_ok (JArr vs) \<longleftrightarrow> (\<forall>v \<in> set vs. nums_ok v)"
| "nums_ok (JObj ms) \<longleftrightarrow> (\<forall>(k, v) \<in> set ms. nums_ok v)"
| "nums_ok _ \<longleftrightarrow> True"

text \<open>What becomes of a tree that is printed and parsed: its strings are made valid.\<close>

fun san_json :: "json \<Rightarrow> json" where
  "san_json (JStr s) = JStr (to_valid s)"
| "san_json (JArr vs) = JArr (map san_json vs)"
| "san_json (JObj ms) = JObj (map (\<lambda>(k, v). (to_valid k, san_json v)) ms)"
| "san_json JNull = JNull"
| "san_json (JBool b) = JBool b"
| "san_json (JNum lit) = JNum lit"

abbreviation san_member :: "string \<times> json \<Rightarrow> string \<times> json" where
  "san_member \<equiv> \<lambda>(k, v). (to_valid k, san_json v)"

lemma wf_json_san: "wf_json v \<Longrightarrow> san_json v = v \<and> nums_ok v"
proof (induction v rule: wf_json.induct)
  case (5 vs)
  then show ?case by (auto intro: map_idI)
next
  case (6 ms)
  then have "\<forall>(k, v) \<in> set ms. valid_utf8 k \<and> wf_json v" by simp
  then have "(to_valid k, san_json v) = (k, v) \<and> nums_ok v" if "(k, v) \<in> set ms" for k v using 6 that by fastforce
  then show ?case by (auto intro!: map_idI)
qed auto

fun json_depth :: "json \<Rightarrow> nat" where
  "json_depth (JArr vs) = Suc (Max (insert 0 (json_depth ` set vs)))"
| "json_depth (JObj ms) = Suc (Max (insert 0 ((\<lambda>(k, v). json_depth v) ` set ms)))"
| "json_depth _ = 0"

lemma Itoa_head: "Itoa i \<noteq> []" "hd (Itoa i) = CHR ''-'' \<or> is_digit (hd (Itoa i))"
proof -
  have "is_digit (hd (FormatNat n))" for n
    using FormatNat_digits [of n] FormatNat_nonempty [of n] by (auto simp: list_all_iff)
  then show "Itoa i \<noteq> []" "hd (Itoa i) = CHR ''-'' \<or> is_digit (hd (Itoa i))" by (auto simp: Itoa_def)
qed

lemma digit_head: "is_digit c \<Longrightarrow> c \<notin> {CHR 0x20, CHR 0x09, CHR 0x0A, CHR 0x0D, CHR 0x22, CHR ''{'', CHR ''['',
    CHR '']'', CHR ''}'', CHR ''n'', CHR ''t'', CHR ''f''}"
  by (auto simp: is_digit_def)

lemma Itoa_head_not: "hd (Itoa i) \<notin> {CHR 0x20, CHR 0x09, CHR 0x0A, CHR 0x0D, CHR 0x22, CHR ''{'', CHR ''['',
    CHR '']'', CHR ''}'', CHR ''n'', CHR ''t'', CHR ''f''}"
  using Itoa_head(2) [of i] digit_head [of "hd (Itoa i)"] by auto

lemma print_head:
  assumes "nums_ok v"
  shows "json_print v \<noteq> []" "\<not> is_ws (hd (json_print v))" "hd (json_print v) \<noteq> CHR '']''"
proof -
  have "json_print v \<noteq> [] \<and> \<not> is_ws (hd (json_print v)) \<and> hd (json_print v) \<noteq> CHR '']''"
  proof (cases v)
    case (JNum lit)
    then obtain i where "lit = Itoa i" using assms by auto
    then show ?thesis using JNum Itoa_head(1) [of i] Itoa_head_not [of i] by (simp add: is_ws_def)
  qed (simp_all add: is_ws_def quote_def)
  then show "json_print v \<noteq> []" "\<not> is_ws (hd (json_print v))" "hd (json_print v) \<noteq> CHR '']''" by auto
qed

lemma skip_ws_id: "s \<noteq> [] \<Longrightarrow> \<not> is_ws (hd s) \<Longrightarrow> skip_ws (s @ t) = s @ t"
  by (cases s) auto

lemma parse_number:
  assumes "delim r"
  shows "parse_value (Suc n) d (Itoa i @ r) = Some (JNum (Itoa i), r)"
proof -
  obtain c cs where c: "Itoa i = c # cs" using Itoa_head(1) by (cases "Itoa i") auto
  with Itoa_head_not [of i] have h: "\<not> is_ws c" "c \<noteq> CHR 0x22" "c \<noteq> CHR ''{''" "c \<noteq> CHR ''[''"
      "c \<noteq> CHR ''n''" "c \<noteq> CHR ''t''" "c \<noteq> CHR ''f''"
    by (auto simp: is_ws_def)
  have "scan_number (c # cs @ r) = Some (Itoa i, r)" using scan_number_Itoa [OF assms, of i] c by simp
  with h show ?thesis by (simp add: c Let_def)
qed

lemma parse_string: "parse_value (Suc n) d (quote s @ r) = Some (JStr (to_valid s), r)"
  by (simp add: quote_def is_ws_def unquote_quote_body Let_def)

lemma parse_literals:
  "parse_value (Suc n) d (''null'' @ r) = Some (JNull, r)"
  "parse_value (Suc n) d (''true'' @ r) = Some (JBool True, r)"
  "parse_value (Suc n) d (''false'' @ r) = Some (JBool False, r)"
  by (simp_all add: is_ws_def Let_def)

lemma parse_elems_step:
  assumes "parse_value n d s = Some (v, r)"
  shows "r = CHR '','' # t \<Longrightarrow> parse_elems (Suc n) d s = map_option (\<lambda>(vs, r'). (v # vs, r')) (parse_elems n d t)"
    and "r = CHR '']'' # t \<Longrightarrow> parse_elems (Suc n) d s = Some ([v], t)"
  using assms by (simp_all add: starts_def is_ws_def)

lemma parse_members_step:
  assumes "parse_value n d s = Some (v, r)"
  shows "r = CHR '','' # t \<Longrightarrow> parse_members (Suc n) d (quote k @ CHR '':'' # s) =
      map_option (\<lambda>(ms, r'). ((to_valid k, v) # ms, r')) (parse_members n d t)"
    and "r = CHR ''}'' # t \<Longrightarrow> parse_members (Suc n) d (quote k @ CHR '':'' # s) = Some ([(to_valid k, v)], t)"
  using assms
  by (simp_all add: quote_def starts_def is_ws_def unquote_quote_body Let_def)

lemma parse_array:
  assumes "vs \<noteq> []" "\<forall>v \<in> set vs. nums_ok v" "parse_elems n d (print_elems vs @ CHR '']'' # r) = Some (us, r)"
  shows "parse_value (Suc n) (Suc d) (json_print (JArr vs) @ r) = Some (JArr us, r)"
proof -
  obtain v ws where vs: "vs = v # ws" using assms(1) by (cases vs) auto
  have "\<exists>x. print_elems vs = json_print v @ x" using vs by (cases ws) auto
  then obtain x where x: "print_elems vs = json_print v @ x" ..
  have v: "nums_ok v" using assms(2) vs by simp
  note h = print_head [OF v]
  have "skip_ws (print_elems vs @ CHR '']'' # r) = print_elems vs @ CHR '']'' # r"
    unfolding x append_assoc by (rule skip_ws_id [OF h(1,2)])
  moreover have "\<not> starts (CHR '']'') (print_elems vs @ CHR '']'' # r)"
    unfolding x starts_def using h by simp
  ultimately show ?thesis using assms(3) by (simp add: is_ws_def Let_def)
qed

lemma parse_object:
  assumes "ms \<noteq> []" "parse_members n d (print_members ms @ CHR ''}'' # r) = Some (us, r)"
  shows "parse_value (Suc n) (Suc d) (json_print (JObj ms) @ r) = Some (JObj us, r)"
proof -
  have "\<exists>x. print_members ms = CHR 0x22 # x"
    using assms(1) by (induction ms rule: induct_list012) (auto simp: quote_def)
  then obtain x where x: "print_members ms = CHR 0x22 # x" ..
  then show ?thesis using assms(2) by (simp add: is_ws_def Let_def starts_def)
qed

lemma depth_elems: "json_depth (JArr vs) \<le> Suc d \<longleftrightarrow> (\<forall>v \<in> set vs. json_depth v \<le> d)"
  by (auto simp: Max_le_iff)

lemma depth_members: "json_depth (JObj ms) \<le> Suc d \<longleftrightarrow> (\<forall>(k, v) \<in> set ms. json_depth v \<le> d)"
  by (auto simp: Max_le_iff)

lemma parse_print:
  "nums_ok v \<Longrightarrow> json_depth v \<le> d \<Longrightarrow> 2 * length (json_print v) < n \<Longrightarrow> delim r \<Longrightarrow>
    parse_value n d (json_print v @ r) = Some (san_json v, r)"
  "vs \<noteq> [] \<Longrightarrow> \<forall>v \<in> set vs. nums_ok v \<and> json_depth v \<le> d \<Longrightarrow> 2 * length (print_elems vs) + 1 < n \<Longrightarrow>
    parse_elems n d (print_elems vs @ CHR '']'' # r) = Some (map san_json vs, r)"
  "ms \<noteq> [] \<Longrightarrow> \<forall>(k, v) \<in> set ms. nums_ok v \<and> json_depth v \<le> d \<Longrightarrow>
    2 * length (print_members ms) + 1 < n \<Longrightarrow> parse_members n d (print_members ms @ CHR ''}'' # r) = Some (map san_member ms, r)"
proof (induction v and vs and ms arbitrary: n d r and n d r and n d r
    rule: json_print_print_elems_print_members.induct)
  case 1
  then show ?case using parse_literals(1) by (cases n) (auto simp del: parse_value.simps)
next
  case (2 b)
  then show ?case using parse_literals(2,3) by (cases n; cases b) (auto simp del: parse_value.simps)
next
  case (3 lit)
  then show ?case using parse_number by (cases n) (auto simp del: parse_value.simps)
next
  case (4 s)
  then show ?case using parse_string by (cases n) (auto simp del: parse_value.simps)
next
  case (5 vs)
  obtain m e where m: "n = Suc m" "d = Suc e" using 5 by (cases n; cases d) auto
  show ?case
  proof (cases "vs = []")
    case True
    then show ?thesis using m by (simp add: is_ws_def Let_def starts_def)
  next
    case False
    have w: "\<forall>v \<in> set vs. nums_ok v \<and> json_depth v \<le> e" using 5 m depth_elems [of vs e] by auto
    then have "parse_elems m e (print_elems vs @ CHR '']'' # r) = Some (map san_json vs, r)"
      using 5 m False by (intro 5) auto
    then show ?thesis unfolding m san_json.simps using False w by (intro parse_array) auto
  qed
next
  case (6 ms)
  obtain m e where m: "n = Suc m" "d = Suc e" using 6 by (cases n; cases d) auto
  show ?case
  proof (cases "ms = []")
    case True
    then show ?thesis using m by (simp add: is_ws_def Let_def starts_def)
  next
    case False
    have "\<forall>(k, v) \<in> set ms. nums_ok v \<and> json_depth v \<le> e"
      using 6 m depth_members [of ms e] by fastforce
    then have "parse_members m e (print_members ms @ CHR ''}'' # r) = Some (map san_member ms, r)"
      using 6 m False by (intro 6) auto
    then show ?thesis unfolding m san_json.simps using False by (intro parse_object) auto
  qed
next
  case 7
  then show ?case by simp
next
  case (8 v)
  then obtain m where m: "n = Suc m" by (cases n) auto
  have "parse_value m d (json_print v @ CHR '']'' # r) = Some (san_json v, CHR '']'' # r)"
    using 8 m by (simp add: delim_def)
  from parse_elems_step(2) [OF this refl] m show ?case by simp
next
  case (9 v w vs)
  then obtain m where m: "n = Suc m" by (cases n) auto
  let ?t = "print_elems (w # vs) @ CHR '']'' # r"
  have v: "parse_value m d (json_print v @ CHR '','' # ?t) = Some (san_json v, CHR '','' # ?t)"
    using 9 m by (simp add: delim_def)
  have "parse_elems m d ?t = Some (map san_json (w # vs), r)" using 9 m by simp
  with parse_elems_step(1) [OF v refl] m show ?case by simp
next
  case 10
  then show ?case by simp
next
  case (11 k v)
  then obtain m where m: "n = Suc m" by (cases n) auto
  have "parse_value m d (json_print v @ CHR ''}'' # r) = Some (san_json v, CHR ''}'' # r)"
    using 11 m by (simp add: delim_def)
  from parse_members_step(2) [OF this refl] 11 m show ?case by simp
next
  case (12 k v m' ms)
  then obtain m where m: "n = Suc m" by (cases n) auto
  let ?t = "print_members (m' # ms) @ CHR ''}'' # r"
  have v: "parse_value m d (json_print v @ CHR '','' # ?t) = Some (san_json v, CHR '','' # ?t)"
    using 12 m by (simp add: delim_def)
  have "parse_members m d ?t = Some (map san_member (m' # ms), r)" using 12 m by simp
  with parse_members_step(1) [OF v refl] 12 m show ?case by simp
qed

lemma json_parse_printed:
  assumes "nums_ok v" "json_depth v \<le> max_depth"
  shows "json_parse (json_print v) = Some (san_json v)"
  using parse_print(1) [OF assms, of "2 * length (json_print v) + 1" "[]"]
  by (simp add: json_parse_def json_decode_def delim_def)

lemma json_parse_print [codec]:
  assumes "wf_json v" "json_depth v \<le> max_depth"
  shows "json_parse (json_print v) = Some v"
  using json_parse_printed [OF _ assms(2)] wf_json_san [OF assms(1)] by simp

definition printable :: "json \<Rightarrow> bool" where
  "printable v \<longleftrightarrow> wf_json v \<and> json_depth v \<le> max_depth"

interpretation json: codec printable json_print json_parse
  by unfold_locales (simp add: printable_def json_parse_print)

text \<open>A decoder as the inverse of an encoding into trees.\<close>

definition decode_with :: "'a decoder \<Rightarrow> 'a \<Rightarrow> json \<Rightarrow> 'a option" where
  "decode_with d zero j = (let (ok, x) = d j zero in if ok then Some x else None)"

lemma json_unmarshal_bind: "json_unmarshal d zero s = Option.bind (json_parse s) (decode_with d zero)"
  by (simp add: json_unmarshal_def decode_with_def split: option.split)

section \<open>The fuel is enough\<close>

lemma prepend_SomeD: "prepend p r = Some (x, t) \<Longrightarrow> \<exists>y. r = Some (y, t)"
  by (cases r) auto

text \<open>A decoded string literal is followed by a proper suffix; every recursive call is on a shorter string.\<close>

lemma unquote_call:
  assumes "unquote (c # cs) = Some (x, r)"
  shows "r = cs \<or> (\<exists>k y. unquote (drop k cs) = Some (y, r))"
proof (cases "c = CHR 0x5C")
  case True
  then show ?thesis
    using assms
    by (cases cs) (auto split: option.splits if_splits dest!: prepend_SomeD, (metis drop_Suc_Cons drop0)+)
next
  case False
  then show ?thesis
    using assms by (auto simp: Let_def split: if_splits dest!: prepend_SomeD, (metis drop0)+)
qed

lemma unquote_shorter: "unquote s = Some (x, r) \<Longrightarrow> length r < length s"
proof (induction s arbitrary: x rule: length_induct)
  case (1 s)
  then obtain c cs where s: "s = c # cs" by (cases s) auto
  show ?case
  proof (cases "r = cs")
    case False
    then obtain k y where "unquote (drop k cs) = Some (y, r)" using unquote_call 1(2) s by blast
    moreover have "length (drop k cs) < length s" using s by simp
    ultimately have "length r < length (drop k cs)" using 1(1) by blast
    then show ?thesis using s by simp
  qed (use s in simp)
qed

lemma scan_exp_le: "scan_exp acc s = Some (l, r) \<Longrightarrow> length r \<le> length s"
proof -
  assume a: "scan_exp acc s = Some (l, r)"
  have d: "length (dropWhile is_digit (drop k (tl s))) \<le> length s" for k
    using length_dropWhile_le [of is_digit "drop k (tl s)"] by simp
  show ?thesis using a d d [of 0] by (auto simp: scan_exp_def Let_def split: if_splits)
qed

lemma scan_frac_le: "scan_frac acc s = Some (l, r) \<Longrightarrow> length r \<le> length s"
  using length_dropWhile_le [of is_digit "tl s"] unfolding scan_frac_def
  by (auto split: if_splits dest!: scan_exp_le)

lemma scan_number_shorter: "scan_number s = Some (l, r) \<Longrightarrow> length r < length s"
proof -
  assume a: "scan_number s = Some (l, r)"
  define sg where "sg = (if s \<noteq> [] \<and> hd s = CHR ''-'' then ''-'' else [])"
  define t where "t = drop (length sg) s"
  from a have n: "(if t = [] \<or> \<not> is_digit (hd t) then None
      else if hd t = CHR ''0'' then scan_frac (sg @ ''0'') (tl t)
      else scan_frac (sg @ takeWhile is_digit t) (dropWhile is_digit t)) = Some (l, r)"
    unfolding scan_number_def Let_def sg_def [symmetric] t_def [symmetric] .
  then obtain c u where c: "t = c # u" "is_digit c" by (cases t) (auto split: if_splits)
  have "length r \<le> length u"
    using n c length_dropWhile_le [of is_digit u] by (auto split: if_splits dest!: scan_frac_le)
  moreover have "length t \<le> length s" by (simp add: t_def)
  ultimately show ?thesis using c by simp
qed

lemma skip_tl:
  assumes "starts c (skip_ws s)"
  shows "length (tl (skip_ws s)) < length s"
  using assms length_dropWhile_le [of is_ws s] by (cases "skip_ws s") (auto simp: starts_def)

lemma parse_shorter:
  "parse_value n d s = Some (v, r) \<Longrightarrow> length r < length s"
  "parse_elems n d s = Some (vs, r) \<Longrightarrow> length r < length s"
  "parse_members n d s = Some (ms, r) \<Longrightarrow> length r < length s"
proof (induction n d s and n d s and n d s arbitrary: v r and vs r and ms r
    rule: parse_value_parse_elems_parse_members.induct)
  case (2 n d s0)
  define s where "s = skip_ws s0"
  have le: "length s \<le> length s0" unfolding s_def by (rule length_dropWhile_le)
  note pv = "2.prems" [unfolded parse_value.simps(2) Let_def, folded s_def]
  have ne: "s \<noteq> []" using pv by auto
  then have tl: "length (tl s) < length s" by simp
  have "length r < length s"
    using pv ne tl "2.IH" [OF s_def] less_trans [OF skip_tl [of _ "tl s"] tl] less_trans [OF _ tl, of "length r"]
    by (auto split: if_splits dest: unquote_shorter scan_number_shorter simp: prefix_def)
  with le show ?case by simp
next
  case (4 n d s)
  then show ?case
    by (auto simp: Let_def split: option.splits if_splits dest!: skip_tl) (metis less_trans)+
next
  case (6 n d s0)
  show ?case
    using 6 unfolding parse_members.simps(2) Let_def
    by (auto split: option.splits if_splits dest!: unquote_shorter skip_tl) (metis less_trans)+
qed simp_all

text \<open>More fuel than twice the length of the input gives the same result.\<close>

lemma parse_fuel:
  "2 * length s < n \<Longrightarrow> n \<le> m \<Longrightarrow> parse_value m d s = parse_value n d s"
  "2 * length s + 1 < n \<Longrightarrow> n \<le> m \<Longrightarrow> parse_elems m d s = parse_elems n d s"
  "2 * length s + 1 < n \<Longrightarrow> n \<le> m \<Longrightarrow> parse_members m d s = parse_members n d s"
proof (induction n d s and n d s and n d s arbitrary: m and m and m
    rule: parse_value_parse_elems_parse_members.induct)
  case (2 n d s0)
  obtain k where m: "m = Suc k" "n \<le> k" using "2.prems"(2) by (cases m) auto
  let ?s = "skip_ws s0"
  have l: "2 * length (tl ?s) + 1 < n" if "?s \<noteq> []"
    using that "2.prems"(1) length_dropWhile_le [of is_ws s0] by (cases ?s) auto
  have mem: "parse_members k (d - 1) (tl ?s) = parse_members n (d - 1) (tl ?s)"
    if "?s \<noteq> []" "hd ?s \<noteq> CHR 0x22" "hd ?s = CHR ''{''" "d \<noteq> 0" "\<not> starts (CHR ''}'') (skip_ws (tl ?s))"
    using "2.IH"(1) [OF refl that l [OF that(1)] m(2)] .
  have el: "parse_elems k (d - 1) (tl ?s) = parse_elems n (d - 1) (tl ?s)"
    if "?s \<noteq> []" "hd ?s \<noteq> CHR 0x22" "hd ?s \<noteq> CHR ''{''" "hd ?s = CHR ''[''" "d \<noteq> 0"
      "\<not> starts (CHR '']'') (skip_ws (tl ?s))"
    using "2.IH"(2) [OF refl that l [OF that(1)] m(2)] .
  have split: "(if P then a else if Q then b else if R then c else e)
      = (if P then a else if Q then b else if R then c' else e')"
    if "\<not> P \<Longrightarrow> \<not> Q \<Longrightarrow> R \<Longrightarrow> c = c'" "\<not> P \<Longrightarrow> \<not> Q \<Longrightarrow> \<not> R \<Longrightarrow> e = e'"
    for P Q R and a b c c' e e' :: "(json \<times> string) option"
    using that by (cases P; cases Q; cases R) simp_all
  show ?case unfolding m(1) parse_value.simps(2) Let_def
    by (rule split; rule if_cong [OF refl]; (rule refl)?; (rule if_cong [OF refl refl])?)
      (simp_all add: mem [unfolded One_nat_def] el [unfolded One_nat_def] del: dropWhile_eq_Nil_conv)
next
  case (4 n d s)
  obtain k where m: "m = Suc k" "n \<le> k" using "4.prems"(2) by (cases m) auto
  have v: "parse_value k d s = parse_value n d s" using "4.IH"(1) [OF _ m(2)] "4.prems"(1) by simp
  show ?case
  proof (cases "parse_value n d s")
    case (Some vr)
    obtain v r where vr: "vr = (v, r)" by (cases vr)
    have "length r < length s" using parse_shorter(1) Some vr by blast
    then have l: "2 * length (tl (skip_ws r)) + 1 < n" if "starts (CHR '','') (skip_ws r)"
      using skip_tl [OF that] "4.prems"(1) by linarith
    have "parse_elems k d (tl (skip_ws r)) = parse_elems n d (tl (skip_ws r))" if "starts (CHR '','') (skip_ws r)"
      using "4.IH"(2) [OF Some vr [symmetric] refl that l [OF that] m(2)] .
    then show ?thesis unfolding m(1) parse_elems.simps(2) v Some vr
      by (cases "starts (CHR '','') (skip_ws r)") (simp_all add: Let_def)
  qed (simp add: m v)
next
  case (6 n d s0)
  obtain k where m: "m = Suc k" "n \<le> k" using "6.prems"(2) by (cases m) auto
  show ?case
  proof (cases "starts (CHR 0x22) (skip_ws s0) \<and> unquote (tl (skip_ws s0)) \<noteq> None")
    case True
    then obtain x r where u: "unquote (tl (skip_ws s0)) = Some (x, r)" by auto
    have q: "\<not> \<not> starts (CHR 0x22) (skip_ws s0)" using True by simp
    note lr = unquote_shorter [OF u] skip_tl [OF True [THEN conjunct1]]
    show ?thesis
    proof (cases "starts (CHR '':'') (skip_ws r)")
      case c: True
      then have c': "\<not> \<not> starts (CHR '':'') (skip_ws r)" by simp
      let ?t = "tl (skip_ws r)"
      have lt: "2 * length ?t < n" using lr skip_tl [OF c] "6.prems"(1) by linarith
      have v: "parse_value k d ?t = parse_value n d ?t" by (rule "6.IH"(1) [OF refl q u refl refl c' lt m(2)])
      show ?thesis
      proof (cases "parse_value n d ?t")
        case (Some vr)
        obtain v' r' where vr: "vr = (v', r')" by (cases vr)
        have "length r' < length ?t" using parse_shorter(1) Some vr by blast
        then have l: "2 * length (tl (skip_ws r')) + 1 < n" if "starts (CHR '','') (skip_ws r')"
          using skip_tl [OF that] lt by linarith
        have "parse_members k d (tl (skip_ws r')) = parse_members n d (tl (skip_ws r'))"
          if "starts (CHR '','') (skip_ws r')"
          by (rule "6.IH"(2) [OF refl q u refl refl c' Some vr [symmetric] refl that l [OF that] m(2)])
        then show ?thesis unfolding m(1) parse_members.simps(2) Let_def using v q c u Some vr
          by (cases "starts (CHR '','') (skip_ws r')") simp_all
      qed (unfold m(1) parse_members.simps(2) Let_def, use v q c u in simp)
    qed (unfold m(1) parse_members.simps(2) Let_def, use u in simp)
  qed (unfold m(1) parse_members.simps(2) Let_def, cases "unquote (tl (skip_ws s0))", auto)
qed simp_all

section \<open>Field names and numbers\<close>

text \<open>Names of lower-case letters and underscores match only themselves among such names.\<close>

definition lower_char :: "char \<Rightarrow> bool" where
  "lower_char c \<longleftrightarrow> c = CHR ''_'' \<or> 97 \<le> (of_char c :: nat) \<and> (of_char c :: nat) \<le> 122"

definition upper :: "char \<Rightarrow> char" where
  "upper a = (if 97 \<le> (of_char a :: nat) \<and> (of_char a :: nat) \<le> 122 then char_of (of_char a - 32 :: nat) else a)"

lemma lower_char_not: "lower_char c \<Longrightarrow> c \<noteq> CHR 0xC5 \<and> c \<noteq> CHR 0xE2"
  by (auto simp: lower_char_def)

lemma fold_name_lower: "list_all lower_char s \<Longrightarrow> fold_name s = map upper s"
  by (induction s rule: fold_name.induct) (auto simp: upper_def dest: lower_char_not)

lemma of_char_upper: "lower_char c \<Longrightarrow> (of_char (upper c) :: nat) = (if c = CHR ''_'' then 95 else of_char c - 32)"
  by (auto simp: upper_def lower_char_def take_bit_eq_mod)

lemma upper_inj:
  assumes "lower_char a" "lower_char b" "upper a = upper b"
  shows "a = b"
proof -
  have eq: "(if a = CHR ''_'' then 95 else of_char a - 32 :: nat) = (if b = CHR ''_'' then 95 else of_char b - 32)"
    using assms of_char_upper by metis
  have ra: "a \<noteq> CHR ''_'' \<Longrightarrow> 97 \<le> (of_char a :: nat) \<and> (of_char a :: nat) \<le> 122"
    and rb: "b \<noteq> CHR ''_'' \<Longrightarrow> 97 \<le> (of_char b :: nat) \<and> (of_char b :: nat) \<le> 122"
    using assms(1,2) by (auto simp: lower_char_def)
  show ?thesis
  proof (cases "a = CHR ''_'' \<or> b = CHR ''_''")
    case True
    with eq ra rb show ?thesis by (cases "a = CHR ''_''"; cases "b = CHR ''_''") (simp_all, linarith+)
  next
    case False
    then have "(of_char a :: nat) - 32 = of_char b - 32" "97 \<le> (of_char a :: nat)" "97 \<le> (of_char b :: nat)"
      using eq ra rb by simp_all
    then have "(of_char a :: nat) = of_char b" by linarith
    then show ?thesis by (simp only: of_char_eq_iff)
  qed
qed

lemma is_field_lower:
  assumes "list_all lower_char n" "list_all lower_char k"
  shows "is_field n k \<longleftrightarrow> k = n"
proof
  assume "is_field n k"
  then have "map upper k = map upper n" using assms by (auto simp: is_field_def fold_name_lower)
  then show "k = n"
    by (rule list.inj_map_strong [rotated]) (use assms upper_inj in \<open>simp add: list_all_iff\<close>)
qed simp

lemma digit_value_char: "d < 10 \<Longrightarrow> digit_value (digit_char d) = d"
  by (simp add: digit_value_def digit_char_def take_bit_eq_mod)

lemma foldl_FormatNat: "foldl (\<lambda>n c. n * 10 + digit_value c) 0 (FormatNat n) = n"
proof (induction n rule: FormatNat.induct)
  case (1 n)
  then show ?case by (subst FormatNat.simps) (simp add: digit_value_char)
qed

lemma parse_nat_FormatNat [simp]: "parse_nat (FormatNat n) = Some n"
  using FormatNat_digits [of n] by (simp add: parse_nat_def foldl_FormatNat)

lemma FormatNat_not_minus: "\<not> starts (CHR ''-'') (FormatNat n)"
  using FormatNat_digits [of n] digit_not_minus by (cases "FormatNat n") (auto simp: starts_def)

lemma dec_int_Itoa [simp]: "- (2 ^ 63) \<le> i \<Longrightarrow> i < 2 ^ 63 \<Longrightarrow> dec_int (JNum (Itoa i)) old = (True, i)"
  by (auto simp: dec_int_def Itoa_def FormatNat_not_minus nat_less_iff nat_le_iff) (auto simp: starts_def)

lemma dec_uint32_Itoa [simp]: "dec_uint32 (JNum (Itoa (uint (n :: u32)))) old = (True, n)"
proof -
  have "unat n < 2 ^ 32" using unsigned_less [of n, where ?'a = nat] by simp
  then show ?thesis by (simp add: dec_uint32_def Itoa_def unat_eq_nat_uint [symmetric])
qed

lemma dec_field_simps [simp]:
  "d j (get x) = (True, y) \<Longrightarrow> dec_field get upd d j x = (True, upd (\<lambda>_. y) x)"
  by (simp add: dec_field_def)

section \<open>What is left over is a suffix of the input\<close>

lemma suffix_dropWhile_le: "suffix r (dropWhile p s) \<Longrightarrow> suffix r s"
  by (meson suffix_dropWhile suffix_order.trans)

lemma suffix_tl_le: "suffix r (tl s) \<Longrightarrow> suffix r s"
  by (meson suffix_tl suffix_order.trans)

lemma suffix_drop_le: "suffix r (drop n s) \<Longrightarrow> suffix r s"
  by (meson suffix_drop suffix_order.trans)

lemmas suffix_steps = suffix_dropWhile_le suffix_tl_le suffix_drop_le

lemma unquote_suffix: "unquote s = Some (x, r) \<Longrightarrow> suffix r s"
proof (induction s arbitrary: x rule: length_induct)
  case (1 s)
  then obtain c cs where s: "s = c # cs" by (cases s) auto
  show ?case
  proof (cases "r = cs")
    case False
    then obtain k y where "unquote (drop k cs) = Some (y, r)" using unquote_call 1(2) s by blast
    moreover have "length (drop k cs) < length s" using s by simp
    ultimately have "suffix r (drop k cs)" using 1(1) by blast
    then have "suffix r cs" by (rule suffix_drop_le)
    then show ?thesis unfolding s by (rule suffix_ConsI)
  qed (simp add: s suffix_ConsI)
qed

lemma scan_exp_suffix: "scan_exp acc s = Some (l, r) \<Longrightarrow> suffix r s"
proof -
  have "suffix (dropWhile is_digit (drop k (tl s))) s" for k
    by (meson suffix_dropWhile suffix_drop suffix_tl suffix_order.trans)
  from this this [of 0] show "scan_exp acc s = Some (l, r) \<Longrightarrow> suffix r s"
    by (auto simp: scan_exp_def Let_def split: if_splits)
qed

lemma scan_frac_suffix: "scan_frac acc s = Some (l, r) \<Longrightarrow> suffix r s"
  by (auto simp: scan_frac_def split: if_splits dest!: scan_exp_suffix intro: suffix_steps)

lemma scan_number_suffix: "scan_number s = Some (l, r) \<Longrightarrow> suffix r s"
  unfolding scan_number_def Let_def
  by (auto split: if_splits dest!: scan_frac_suffix intro: suffix_steps suffix_drop_le [of _ 1])

lemma parse_suffix:
  "parse_value n d s = Some (v, r) \<Longrightarrow> suffix r (skip_ws s)"
  "parse_elems n d s = Some (vs, r) \<Longrightarrow> suffix r s"
  "parse_members n d s = Some (ms, r) \<Longrightarrow> suffix r s"
proof (induction n d s and n d s and n d s arbitrary: v r and vs r and ms r
    rule: parse_value_parse_elems_parse_members.induct)
  case (2 n d s0)
  define s where "s = skip_ws s0"
  note pv = "2.prems" [unfolded parse_value.simps(2) Let_def, folded s_def]
  have "suffix r s"
    using pv "2.IH" [OF s_def]
    by (auto split: if_splits dest!: unquote_suffix scan_number_suffix intro: suffix_tl_le suffix_drop suffix_steps)
  then show ?case by (simp add: s_def)
next
  case (4 n d s)
  from "4.prems" obtain v r0 where v: "parse_value n d s = Some (v, r0)"
    and r: "suffix r (skip_ws r0) \<or> (\<exists>vs. parse_elems n d (tl (skip_ws r0)) = Some (vs, r) \<and> starts (CHR '','') (skip_ws r0))"
    by (auto simp: Let_def suffix_tl split: option.splits if_splits)
  have "suffix r0 s" using "4.IH"(1) [OF v] by (rule suffix_dropWhile_le)
  moreover have "suffix r (skip_ws r0)"
    using r "4.IH"(2) [OF v refl refl] by (auto intro: suffix_tl_le)
  ultimately show ?case by (meson suffix_dropWhile suffix_order.trans)
next
  case (6 n d s0)
  from "6.prems" obtain k r0 where k: "unquote (tl (skip_ws s0)) = Some (k, r0)"
    and q: "starts (CHR 0x22) (skip_ws s0)" and c: "starts (CHR '':'') (skip_ws r0)"
    by (auto simp: Let_def split: option.splits if_splits)
  from "6.prems" k q c obtain v r1 where v: "parse_value n d (tl (skip_ws r0)) = Some (v, r1)"
    and r: "suffix r (skip_ws r1) \<or> (\<exists>ms. parse_members n d (tl (skip_ws r1)) = Some (ms, r) \<and> starts (CHR '','') (skip_ws r1))"
    by (auto simp: Let_def suffix_tl split: option.splits if_splits)
  have "suffix r (skip_ws r1)"
    using r "6.IH"(2) [OF refl _ k refl refl _ v refl refl] q c by (auto intro: suffix_tl_le)
  moreover have "suffix r1 (tl (skip_ws r0))"
    using "6.IH"(1) [OF refl _ k refl refl _ v] q c suffix_dropWhile_le by blast
  moreover have "suffix r0 (tl (skip_ws s0))" using unquote_suffix [OF k] .
  ultimately show ?case by (meson suffix_dropWhile suffix_tl suffix_order.trans)
qed simp_all

section \<open>Texts and objects that are printed as they are\<close>

lemma omitempty_wf: "valid_utf8 k \<Longrightarrow> valid_utf8 s \<Longrightarrow> wf_json (JObj (omitempty k s))"
  by (simp add: omitempty_def)

lemma wf_JObj_append: "wf_json (JObj (a @ b)) \<longleftrightarrow> wf_json (JObj a) \<and> wf_json (JObj b)"
  by auto

lemma ascii_valid: "list_all (\<lambda>c. (of_char c :: nat) < 128) s \<Longrightarrow> valid_utf8 s"
  by (induction s) (simp_all add: rune_len_ascii)

lemma wf_JObj_Cons: "wf_json (JObj ((k, v) # ms)) \<longleftrightarrow> valid_utf8 k \<and> wf_json v \<and> wf_json (JObj ms)"
  by auto

lemma dec_elems_map:
  "(\<And>x. d (f x) zero = (True, x)) \<Longrightarrow> dec_elems d zero (map f xs) [] = (True, xs)"
  by (induction xs) auto

lemma san_omitempty: "list_all (\<lambda>c. (of_char c :: nat) < 128) k \<Longrightarrow> map san_member (omitempty k s) = omitempty k (to_valid s)"
  using ascii_valid [of k] by (simp add: omitempty_def)

end
