(* ===== verification/OpenBao.thy ===== *)
theory OpenBao
  imports Json
begin

text \<open>
  The HTTP plumbing shared by the plugins that talk to an OpenBao server
  (\<^verbatim>\<open>plugins/internal/openbao/client.go\<close>), the paths of \<^verbatim>\<open>path.Join\<close> from which the plugins build their
  targets, and the actions in which handlers are written.

  The server is a parameter: a function from its state and a request to what the HTTP client observes and
  the new state. An action reads and changes that state and returns a value, an error, or panics.
\<close>

section \<open>Actions\<close>

datatype ('e, 'a) res = Ok 'a | Err 'e | Panics

type_synonym ('w, 'e, 'a) act = "'w \<Rightarrow> ('e, 'a) res \<times> 'w"

definition ret :: "'a \<Rightarrow> ('w, 'e, 'a) act" where
  "ret x w = (Ok x, w)"

definition fail :: "'e \<Rightarrow> ('w, 'e, 'a) act" where
  "fail e w = (Err e, w)"

definition panic :: "('w, 'e, 'a) act" where
  "panic w = (Panics, w)"

definition andThen :: "('w, 'e, 'a) act \<Rightarrow> ('a \<Rightarrow> ('w, 'e, 'b) act) \<Rightarrow> ('w, 'e, 'b) act" where
  "andThen m f w =
     (case m w of (Ok x, w') \<Rightarrow> f x w' | (Err e, w') \<Rightarrow> (Err e, w') | (Panics, w') \<Rightarrow> (Panics, w'))"

text \<open>\<^verbatim>\<open>if err != nil\<close> with access to the error: the continuation gets the error or the value.\<close>

definition attempt :: "('w, 'e, 'a) act \<Rightarrow> ('e + 'a \<Rightarrow> ('w, 'f, 'b) act) \<Rightarrow> ('w, 'f, 'b) act" where
  "attempt m f w =
     (case m w of (Ok x, w') \<Rightarrow> f (Inr x) w' | (Err e, w') \<Rightarrow> f (Inl e) w' | (Panics, w') \<Rightarrow> (Panics, w'))"

definition wrapErr :: "('e \<Rightarrow> 'f) \<Rightarrow> ('w, 'e, 'a) act \<Rightarrow> ('w, 'f, 'a) act" where
  "wrapErr g m = attempt m (\<lambda>r. case r of Inl e \<Rightarrow> fail (g e) | Inr x \<Rightarrow> ret x)"

definition check :: "'e + 'a \<Rightarrow> ('w, 'e, 'a) act" where
  "check r = (case r of Inl e \<Rightarrow> fail e | Inr x \<Rightarrow> ret x)"

definition require :: "bool \<Rightarrow> 'e \<Rightarrow> ('w, 'e, unit) act" where
  "require b e = (if b then ret () else fail e)"

lemma act_simps [simp]:
  "ret x w = (Ok x, w)" "fail e w = (Err e, w)" "panic w = (Panics, w)"
  "check (Inr x) = ret x" "check (Inl e) = fail e"
  "require True e = ret ()" "require False e = fail e"
  by (simp_all add: ret_def fail_def panic_def check_def require_def)

lemma andThen_simps [simp]:
  "andThen (ret x) f = f x" "andThen (fail e) f = fail e" "andThen panic f = panic"
  by (auto simp: andThen_def fun_eq_iff)

lemma andThen_run:
  "m w = (Ok x, w') \<Longrightarrow> andThen m f w = f x w'"
  "m w = (Err e, w') \<Longrightarrow> andThen m f w = (Err e, w')"
  "m w = (Panics, w') \<Longrightarrow> andThen m f w = (Panics, w')"
  by (simp_all add: andThen_def)

lemma attempt_simps [simp]:
  "attempt (ret x) f = f (Inr x)" "attempt (fail e) f = f (Inl e)" "attempt panic f = panic"
  by (auto simp: attempt_def fun_eq_iff)

lemma attempt_run:
  "m w = (Ok x, w') \<Longrightarrow> attempt m f w = f (Inr x) w'"
  "m w = (Err e, w') \<Longrightarrow> attempt m f w = f (Inl e) w'"
  by (simp_all add: attempt_def)

lemma wrapErr_simps [simp]:
  "wrapErr g (ret x) = ret x" "wrapErr g (fail e) = fail (g e)" "wrapErr g panic = panic"
  by (auto simp: wrapErr_def attempt_def fun_eq_iff)

lemma wrapErr_run:
  "m w = (Ok x, w') \<Longrightarrow> wrapErr g m w = (Ok x, w')"
  "m w = (Err e, w') \<Longrightarrow> wrapErr g m w = (Err (g e), w')"
  by (simp_all add: wrapErr_def attempt_def)

lemma andThen_Ok_iff: "andThen m f w = (Ok y, w2) \<longleftrightarrow> (\<exists>x w1. m w = (Ok x, w1) \<and> f x w1 = (Ok y, w2))"
  by (auto simp: andThen_def split: prod.splits res.splits)

lemma wrapErr_Ok_iff: "wrapErr g m w = (Ok y, w1) \<longleftrightarrow> m w = (Ok y, w1)"
  by (auto simp: wrapErr_def attempt_def split: prod.splits res.splits)

lemma attempt_Ok_iff:
  "attempt m f w = (Ok y, w2) \<longleftrightarrow>
     (\<exists>x w1. m w = (Ok x, w1) \<and> f (Inr x) w1 = (Ok y, w2)) \<or> (\<exists>e w1. m w = (Err e, w1) \<and> f (Inl e) w1 = (Ok y, w2))"
  by (auto simp: attempt_def split: prod.splits res.splits)

lemma check_Ok_iff: "check r w = (Ok y, w') \<longleftrightarrow> r = Inr y \<and> w' = w"
  by (cases r) auto

lemma require_Ok_iff: "require b e w = (Ok y, w') \<longleftrightarrow> b \<and> w' = w"
  by (cases b) auto

lemmas act_Ok = andThen_Ok_iff wrapErr_Ok_iff attempt_Ok_iff check_Ok_iff require_Ok_iff

section \<open>Requests\<close>

datatype http_method = GET | POST | DELETE | LIST

record http_request =
  req_method :: http_method
  req_path :: string
  req_body :: string

datatype http_outcome = TransportFailed | ReadFailed | Response int string string

type_synonym 'w server = "'w \<Rightarrow> http_request \<Rightarrow> http_outcome \<times> 'w"

datatype bao_error =
    RequestFailed | ReadResponse | StatusError int string string | DecodeResponse

text \<open>What a response body is decoded into: \<^verbatim>\<open>nil\<close>, or a Go value with its decoder.\<close>

definition into_nil :: "string \<Rightarrow> unit option" where
  "into_nil body = Some ()"

definition do_request :: "'w server \<Rightarrow> http_request \<Rightarrow> (string \<Rightarrow> 'a option) \<Rightarrow> ('w, bao_error, 'a) act" where
  "do_request srv req into w =
     (case srv w req of
        (TransportFailed, w') \<Rightarrow> (Err RequestFailed, w')
      | (ReadFailed, w') \<Rightarrow> (Err ReadResponse, w')
      | (Response code status body, w') \<Rightarrow>
          if 400 \<le> code then (Err (StatusError code status (TrimSpace body)), w')
          else (case into body of None \<Rightarrow> (Err DecodeResponse, w') | Some x \<Rightarrow> (Ok x, w')))"

definition Post :: "'w server \<Rightarrow> string \<Rightarrow> json \<Rightarrow> (string \<Rightarrow> 'a option) \<Rightarrow> ('w, bao_error, 'a) act" where
  "Post srv target payload into =
     do_request srv \<lparr>req_method = POST, req_path = target, req_body = json_print payload\<rparr> into"

definition Get :: "'w server \<Rightarrow> string \<Rightarrow> (string \<Rightarrow> 'a option) \<Rightarrow> ('w, bao_error, 'a) act" where
  "Get srv target into = do_request srv \<lparr>req_method = GET, req_path = target, req_body = []\<rparr> into"

definition Delete :: "'w server \<Rightarrow> string \<Rightarrow> (string \<Rightarrow> 'a option) \<Rightarrow> ('w, bao_error, 'a) act" where
  "Delete srv target into = do_request srv \<lparr>req_method = DELETE, req_path = target, req_body = []\<rparr> into"

definition List :: "'w server \<Rightarrow> string \<Rightarrow> (string \<Rightarrow> 'a option) \<Rightarrow> ('w, bao_error, 'a) act" where
  "List srv target into = do_request srv \<lparr>req_method = LIST, req_path = target, req_body = []\<rparr> into"

section \<open>Paths\<close>

text \<open>\<^verbatim>\<open>path.Clean\<close> on the elements between the slashes: the stack holds the elements kept so far.\<close>

fun clean_segs :: "bool \<Rightarrow> string list \<Rightarrow> string list \<Rightarrow> string list" where
  "clean_segs rooted st [] = rev st"
| "clean_segs rooted st (x # xs) =
     (if x = [] \<or> x = ''.'' then clean_segs rooted st xs
      else if x = ''..'' then
        (case st of
           [] \<Rightarrow> clean_segs rooted (if rooted then [] else [''..'']) xs
         | t # ts \<Rightarrow> if t = ''..'' then clean_segs rooted (''..'' # st) xs else clean_segs rooted ts xs)
      else clean_segs rooted (x # st) xs)"

definition path_clean :: "string \<Rightarrow> string" where
  "path_clean p =
     (let rooted = starts (CHR ''/'') p;
          s = JoinChar (CHR ''/'') (clean_segs rooted [] (SplitChar (CHR ''/'') p))
      in if rooted then CHR ''/'' # s else if s = [] then ''.'' else s)"

definition path_join :: "string list \<Rightarrow> string" where
  "path_join elems =
     (let es = dropWhile (\<lambda>e. e = []) elems
      in if es = [] then [] else path_clean (JoinChar (CHR ''/'') es))"

text \<open>
  \<^verbatim>\<open>joinPath\<close> of the clients: the path of the target that a base URL with path \<open>base\<close> and the parts give.
  The base is \<open>None\<close> when \<^verbatim>\<open>url.Parse\<close> rejected the configured URL: the code then dereferences a nil
  pointer. Writing the URL out puts a slash between the host and a relative path.
\<close>

definition joinPath :: "string option \<Rightarrow> string list \<Rightarrow> string option" where
  "joinPath base parts =
     (case base of
        None \<Rightarrow> None
      | Some b \<Rightarrow>
          let p = path_join (b # map (TrimChar (CHR ''/'')) parts)
          in Some (if starts (CHR ''/'') p \<or> p = [] then p else CHR ''/'' # p))"

definition withTarget :: "string option \<Rightarrow> (string \<Rightarrow> ('w, 'e, 'a) act) \<Rightarrow> ('w, 'e, 'a) act" where
  "withTarget target f = (case target of None \<Rightarrow> panic | Some t \<Rightarrow> f t)"

lemma withTarget_simps [simp]: "withTarget None f = panic" "withTarget (Some t) f = f t"
  by (simp_all add: withTarget_def)

subsection \<open>Plain segments survive cleaning\<close>

text \<open>A plain segment is non-empty, has no slash and is neither \<^verbatim>\<open>.\<close> nor \<^verbatim>\<open>..\<close>.\<close>

definition plain_seg :: "string \<Rightarrow> bool" where
  "plain_seg x \<longleftrightarrow> x \<noteq> [] \<and> CHR ''/'' \<notin> set x \<and> x \<noteq> ''.'' \<and> x \<noteq> ''..''"

lemma clean_segs_plain: "list_all plain_seg xs \<Longrightarrow> clean_segs r st xs = rev st @ xs"
  by (induction xs arbitrary: st) (auto simp: plain_seg_def)

lemma clean_segs_append_plain:
  "list_all plain_seg xs \<Longrightarrow> clean_segs r st (ys @ xs) = clean_segs r st ys @ xs"
proof (induction ys arbitrary: st)
  case Nil
  then show ?case by (simp add: clean_segs_plain)
next
  case (Cons y ys)
  then show ?case by (cases r; simp split: list.split)
qed

lemma TrimChar_plain: "c \<notin> set s \<Longrightarrow> TrimChar c s = s"
proof -
  assume "c \<notin> set s"
  then have "dropWhile (\<lambda>x. x = c) s = s" "dropWhile (\<lambda>x. x = c) (rev s) = rev s"
    by (auto simp: dropWhile_eq_self_iff hd_rev)
  then show ?thesis by (simp add: TrimChar_def TrimRightChar_def)
qed

lemma JoinChar_append: "xs \<noteq> [] \<Longrightarrow> ys \<noteq> [] \<Longrightarrow> JoinChar c (xs @ ys) = JoinChar c xs @ c # JoinChar c ys"
proof (induction xs)
  case (Cons x xs)
  then show ?case by (cases "xs = []") (simp_all add: JoinChar_Cons)
qed simp

lemma SplitChar_sep: "SplitChar c (u @ c # v) = SplitChar c u @ SplitChar c v"
proof (induction u)
  case (Cons a u)
  then show ?case by (cases "SplitChar c u") auto
qed simp

definition slash_free :: "string \<Rightarrow> bool" where
  "slash_free x \<longleftrightarrow> x \<noteq> [] \<and> CHR ''/'' \<notin> set x"

lemma clean_segs_slash_free:
  "list_all slash_free st \<Longrightarrow> \<forall>x \<in> set xs. CHR ''/'' \<notin> set x \<Longrightarrow> list_all slash_free (clean_segs r st xs)"
proof (induction r st xs rule: clean_segs.induct)
  case (2 rooted st x xs)
  have "slash_free ''..''" by (simp add: slash_free_def)
  with 2 show ?case by (cases st) (auto simp: slash_free_def)
qed (simp add: list_all_iff)

lemma starts_JoinChar:
  "list_all slash_free xs \<Longrightarrow> \<not> starts (CHR ''/'') (JoinChar (CHR ''/'') xs)"
proof (cases xs)
  case (Cons x ys)
  assume "list_all slash_free xs"
  then obtain a y where "x = a # y" "a \<noteq> CHR ''/''" using Cons by (cases x) (auto simp: slash_free_def)
  then show ?thesis using Cons by (cases ys) (auto simp: starts_def)
qed (simp add: starts_def)

lemma JoinChar_nonempty: "list_all slash_free xs \<Longrightarrow> xs \<noteq> [] \<Longrightarrow> JoinChar c xs \<noteq> []"
  by (cases xs; cases "tl xs") (auto simp: slash_free_def)

text \<open>The part of a target that the base and the leading parts determine.\<close>

definition path_front :: "string \<Rightarrow> string list \<Rightarrow> string" where
  "path_front b front =
     (let j = JoinChar (CHR ''/'') (dropWhile (\<lambda>e. e = []) (b # map (TrimChar (CHR ''/'')) front));
          c = clean_segs (starts (CHR ''/'') j) [] (SplitChar (CHR ''/'') j)
      in if c = [] then [] else CHR ''/'' # JoinChar (CHR ''/'') c)"

lemma plain_slash_free: "list_all plain_seg xs \<Longrightarrow> list_all slash_free xs"
  by (auto simp: list_all_iff plain_seg_def slash_free_def)

lemma joinPath_plain:
  assumes front: "\<exists>x \<in> set front. TrimChar (CHR ''/'') x \<noteq> []"
    and plain: "list_all plain_seg plain" "plain \<noteq> []"
  shows "joinPath (Some b) (front @ plain) = Some (path_front b front @ CHR ''/'' # JoinChar (CHR ''/'') plain)"
proof -
  let ?sl = "CHR ''/''"
  let ?nil = "\<lambda>e :: string. e = []"
  let ?F = "b # map (TrimChar ?sl) front"
  let ?E = "dropWhile ?nil ?F"
  have E: "?E \<noteq> []" using front by (auto simp: dropWhile_eq_Nil_conv)
  then have hdE: "hd ?E \<noteq> []" by (rule hd_dropWhile)
  have "map (TrimChar ?sl) plain = plain"
    using plain(1) by (intro map_idI) (auto simp: list_all_iff plain_seg_def TrimChar_plain)
  then have map: "b # map (TrimChar ?sl) (front @ plain) = ?F @ plain" by simp
  obtain x where x: "x \<in> set front" "TrimChar ?sl x \<noteq> []" using front by blast
  have parts: "dropWhile ?nil (b # map (TrimChar ?sl) (front @ plain)) = ?E @ plain"
    unfolding map by (rule dropWhile_append1 [of "TrimChar ?sl x"]) (use x in auto)
  define j where "j = JoinChar ?sl ?E"
  have j: "j \<noteq> []" using E hdE unfolding j_def by (cases ?E; cases "tl ?E") auto
  have join: "JoinChar ?sl (?E @ plain) = j @ ?sl # JoinChar ?sl plain"
    unfolding j_def by (rule JoinChar_append [OF E plain(2)])
  define r where "r = starts ?sl j"
  have r: "starts ?sl (j @ ?sl # JoinChar ?sl plain) = r" using j by (simp add: starts_def r_def)
  have split: "SplitChar ?sl (j @ ?sl # JoinChar ?sl plain) = SplitChar ?sl j @ plain"
    using plain by (simp add: SplitChar_sep SplitChar_JoinChar list_all_iff plain_seg_def)
  define c where "c = clean_segs r [] (SplitChar ?sl j)"
  have clean: "clean_segs r [] (SplitChar ?sl j @ plain) = c @ plain"
    unfolding c_def by (rule clean_segs_append_plain [OF plain(1)])
  have "list_all slash_free (c @ plain)"
    using clean_segs_slash_free [of "[]" "SplitChar ?sl j" r] SplitChar_no_sep [of _ ?sl j]
      plain_slash_free [OF plain(1)] by (simp add: c_def)
  then have s: "\<not> starts ?sl (JoinChar ?sl (c @ plain))" "JoinChar ?sl (c @ plain) \<noteq> []"
    using starts_JoinChar JoinChar_nonempty plain(2) by blast+
  have pj: "path_join (b # map (TrimChar ?sl) (front @ plain)) =
      (if r then ?sl # JoinChar ?sl (c @ plain) else JoinChar ?sl (c @ plain))"
    unfolding path_join_def parts path_clean_def Let_def join r split clean
    using s(2) E by (simp only: append_is_Nil_conv simp_thms if_False)
  have "path_front b front @ ?sl # JoinChar ?sl plain = ?sl # JoinChar ?sl (c @ plain)"
    using JoinChar_append [of c plain ?sl] plain(2)
    unfolding path_front_def Let_def j_def [symmetric] r_def [symmetric] c_def [symmetric]
    by (cases "c = []") simp_all
  then show ?thesis
    unfolding joinPath_def option.case Let_def pj using s by (cases r) (simp_all add: starts_def)
qed

end
