(* ===== verification/Sha2.thy ===== *)
theory Sha2
  imports Prelude
begin

text \<open>
  The hash functions of Go's standard library that the plugins use: \<^verbatim>\<open>crypto/sha256\<close> (the
  salting of default seeds, tenant namespaces), \<^verbatim>\<open>crypto/sha512\<close> and \<^verbatim>\<open>crypto/hmac\<close> (the
  seeds of the threshold bootstrap). They are the functions of FIPS 180-4 and RFC 2104, on byte
  strings; the round constants are the fractional bits of the cube roots of the first primes and
  the initial values those of their square roots, as the standard defines them.
\<close>

unbundle bit_operations_syntax

section \<open>Big-endian words\<close>

fun be_nat :: "bytes \<Rightarrow> nat" where
  "be_nat [] = 0"
| "be_nat (b # bs) = of_char b * 256 ^ length bs + be_nat bs"

definition put_be :: "nat \<Rightarrow> nat \<Rightarrow> bytes" where
  "put_be k n = map (\<lambda>i. char_of (n div 256 ^ (k - 1 - i))) [0 ..< k]"

text \<open>Consecutive chunks of \<open>k\<close> bytes; an incomplete last chunk is dropped.\<close>

function chunks :: "nat \<Rightarrow> bytes \<Rightarrow> bytes list" where
  "chunks k bs = (if k = 0 \<or> length bs < k then [] else take k bs # chunks k (drop k bs))"
  by pat_completeness auto
termination
  by (relation "measure (\<lambda>(k, bs). length bs)") auto

declare chunks.simps [simp del]

text \<open>The padded message for a block of \<open>blk\<close> bytes with a length field of \<open>lf\<close> bytes.\<close>

definition sha_pad :: "nat \<Rightarrow> nat \<Rightarrow> bytes \<Rightarrow> bytes" where
  "sha_pad blk lf m =
     (let l = length m;
          z = (2 * blk - lf - 1 - l mod blk) mod blk
      in m @ [CHR 0x80] @ replicate z (CHR 0x00) @ put_be lf (8 * l))"

section \<open>Compression, for both word sizes\<close>

definition rotr :: "nat \<Rightarrow> 'a::len word \<Rightarrow> 'a word" where
  "rotr n x = word_rotr n x"

definition sha_choose :: "'a::len word \<Rightarrow> 'a word \<Rightarrow> 'a word \<Rightarrow> 'a word" where
  "sha_choose x y z = ((x AND y) XOR (NOT x AND z))"

definition sha_major :: "'a::len word \<Rightarrow> 'a word \<Rightarrow> 'a word \<Rightarrow> 'a word" where
  "sha_major x y z = ((x AND y) XOR (x AND z) XOR (y AND z))"

text \<open>The four mixing functions: two rotations and a third rotation or a shift.\<close>

definition mix_rot :: "nat \<Rightarrow> nat \<Rightarrow> nat \<Rightarrow> 'a::len word \<Rightarrow> 'a word" where
  "mix_rot i j k x = (rotr i x XOR rotr j x XOR rotr k x)"

definition mix_shift :: "nat \<Rightarrow> nat \<Rightarrow> nat \<Rightarrow> 'a::len word \<Rightarrow> 'a word" where
  "mix_shift i j k x = (rotr i x XOR rotr j x XOR drop_bit k x)"

type_synonym 'a mixers = "('a word \<Rightarrow> 'a word) \<times> ('a word \<Rightarrow> 'a word) \<times> ('a word \<Rightarrow> 'a word) \<times> ('a word \<Rightarrow> 'a word)"

text \<open>The message schedule, kept as its last sixteen words.\<close>

definition schedule_next :: "'a::len mixers \<Rightarrow> 'a word list \<Rightarrow> 'a word" where
  "schedule_next mx w =
     (case mx of (_, _, s0, s1) \<Rightarrow> s1 (w ! 14) + w ! 9 + s0 (w ! 1) + w ! 0)"

definition sha_round :: "'a::len mixers \<Rightarrow> 'a word \<Rightarrow> 'a word list \<times> 'a word list \<Rightarrow> 'a word list \<times> 'a word list" where
  "sha_round mx k hw =
     (case (mx, hw) of ((S0, S1, _, _), (h, w)) \<Rightarrow>
        let t1 = h ! 7 + S1 (h ! 4) + sha_choose (h ! 4) (h ! 5) (h ! 6) + k + w ! 0;
            t2 = S0 (h ! 0) + sha_major (h ! 0) (h ! 1) (h ! 2)
        in ([t1 + t2, h ! 0, h ! 1, h ! 2, h ! 3 + t1, h ! 4, h ! 5, h ! 6],
            tl w @ [schedule_next mx w]))"

definition sha_block :: "'a::len mixers \<Rightarrow> 'a word list \<Rightarrow> 'a word list \<Rightarrow> 'a word list \<Rightarrow> 'a word list" where
  "sha_block mx ks w h = map2 (+) h (fst (fold (sha_round mx) ks (h, w)))"

definition sha_digest :: "nat \<Rightarrow> nat \<Rightarrow> 'a::len mixers \<Rightarrow> 'a word list \<Rightarrow> 'a word list \<Rightarrow> bytes \<Rightarrow> bytes" where
  "sha_digest wb lf mx ks iv m =
     (let blks = chunks (16 * wb) (sha_pad (16 * wb) lf m);
          words = (\<lambda>b. map (\<lambda>c. of_nat (be_nat c)) (chunks wb b));
          h = fold (\<lambda>b h. sha_block mx ks (words b) h) blks iv
      in concat (map (\<lambda>w. put_be wb (unat w)) h))"

section \<open>SHA-256, SHA-512, HMAC\<close>

definition K256 :: "32 word list" where
  "K256 = [
    1116352408, 1899447441, 3049323471, 3921009573, 961987163, 1508970993, 2453635748, 2870763221,
    3624381080, 310598401, 607225278, 1426881987, 1925078388, 2162078206, 2614888103, 3248222580,
    3835390401, 4022224774, 264347078, 604807628, 770255983, 1249150122, 1555081692, 1996064986,
    2554220882, 2821834349, 2952996808, 3210313671, 3336571891, 3584528711, 113926993, 338241895,
    666307205, 773529912, 1294757372, 1396182291, 1695183700, 1986661051, 2177026350, 2456956037,
    2730485921, 2820302411, 3259730800, 3345764771, 3516065817, 3600352804, 4094571909, 275423344,
    430227734, 506948616, 659060556, 883997877, 958139571, 1322822218, 1537002063, 1747873779,
    1955562222, 2024104815, 2227730452, 2361852424, 2428436474, 2756734187, 3204031479, 3329325298]"

definition IV256 :: "32 word list" where
  "IV256 = [
    1779033703, 3144134277, 1013904242, 2773480762, 1359893119, 2600822924, 528734635, 1541459225]"

definition sha256 :: "bytes \<Rightarrow> bytes" where
  "sha256 = sha_digest 4 8 (mix_rot 2 13 22, mix_rot 6 11 25, mix_shift 7 18 3, mix_shift 17 19 10) K256 IV256"

definition K512 :: "64 word list" where
  "K512 = [
    4794697086780616226, 8158064640168781261, 13096744586834688815, 16840607885511220156,
    4131703408338449720, 6480981068601479193, 10538285296894168987, 12329834152419229976,
    15566598209576043074, 1334009975649890238, 2608012711638119052, 6128411473006802146,
    8268148722764581231, 9286055187155687089, 11230858885718282805, 13951009754708518548,
    16472876342353939154, 17275323862435702243, 1135362057144423861, 2597628984639134821,
    3308224258029322869, 5365058923640841347, 6679025012923562964, 8573033837759648693,
    10970295158949994411, 12119686244451234320, 12683024718118986047, 13788192230050041572,
    14330467153632333762, 15395433587784984357, 489312712824947311, 1452737877330783856,
    2861767655752347644, 3322285676063803686, 5560940570517711597, 5996557281743188959,
    7280758554555802590, 8532644243296465576, 9350256976987008742, 10552545826968843579,
    11727347734174303076, 12113106623233404929, 14000437183269869457, 14369950271660146224,
    15101387698204529176, 15463397548674623760, 17586052441742319658, 1182934255886127544,
    1847814050463011016, 2177327727835720531, 2830643537854262169, 3796741975233480872,
    4115178125766777443, 5681478168544905931, 6601373596472566643, 7507060721942968483,
    8399075790359081724, 8693463985226723168, 9568029438360202098, 10144078919501101548,
    10430055236837252648, 11840083180663258601, 13761210420658862357, 14299343276471374635,
    14566680578165727644, 15097957966210449927, 16922976911328602910, 17689382322260857208,
    500013540394364858, 748580250866718886, 1242879168328830382, 1977374033974150939,
    2944078676154940804, 3659926193048069267, 4368137639120453308, 4836135668995329356,
    5532061633213252278, 6448918945643986474, 6902733635092675308, 7801388544844847127]"

definition IV512 :: "64 word list" where
  "IV512 = [
    7640891576956012808, 13503953896175478587, 4354685564936845355, 11912009170470909681,
    5840696475078001361, 11170449401992604703, 2270897969802886507, 6620516959819538809]"

definition sha512 :: "bytes \<Rightarrow> bytes" where
  "sha512 = sha_digest 8 16 (mix_rot 28 34 39, mix_rot 14 18 41, mix_shift 1 8 7, mix_shift 19 61 6) K512 IV512"

text \<open>\<^verbatim>\<open>hmac.New(sha512.New, key)\<close>, the message written in one or more parts.\<close>

definition hmac_sha512 :: "bytes \<Rightarrow> bytes \<Rightarrow> bytes" where
  "hmac_sha512 key m =
     (let k0 = (if 128 < length key then sha512 key else key);
          k = k0 @ replicate (128 - length k0) (CHR 0x00);
          pad = (\<lambda>x. map (\<lambda>c. char_of (xor (of_char c) x :: nat)) k)
      in sha512 (pad 0x5c @ sha512 (pad 0x36 @ m)))"

section \<open>Lengths\<close>

lemma length_put_be [simp]: "length (put_be k n) = k"
  by (simp add: put_be_def)

lemma length_sha_block: "length h = 8 \<Longrightarrow> length (sha_block mx ks w h) = 8"
proof -
  have "length (fst (fold (sha_round mx) ks hw)) = 8" if "length (fst hw) = 8" for hw
    using that
    by (induction ks arbitrary: hw) (auto simp: sha_round_def Let_def split: prod.splits)
  then show "length h = 8 \<Longrightarrow> length (sha_block mx ks w h) = 8"
    by (simp add: sha_block_def)
qed

lemma length_sha_fold: "length h = 8 \<Longrightarrow> length (fold (\<lambda>b. sha_block mx ks (f b)) bs h) = 8"
  by (induction bs arbitrary: h) (auto simp: length_sha_block)

lemma length_put_words: "length (concat (map (\<lambda>w. put_be wb (unat w)) h)) = length h * wb"
  by (induction h) auto

lemma length_sha_digest: "length iv = 8 \<Longrightarrow> length (sha_digest wb lf mx ks iv m) = 8 * wb"
  unfolding sha_digest_def Let_def length_put_words by (simp add: length_sha_fold)

lemma length_sha256 [simp]: "length (sha256 m) = 32"
  by (simp add: sha256_def length_sha_digest IV256_def)

lemma length_sha512 [simp]: "length (sha512 m) = 64"
  by (simp add: sha512_def length_sha_digest IV512_def)

lemma length_hmac_sha512 [simp]: "length (hmac_sha512 key m) = 64"
  by (simp add: hmac_sha512_def Let_def)

end
