(* ===== verification/KmsNames.thy ===== *)
theory KmsNames
  imports OpenBao Sha2
begin

text \<open>
  The pure part of the KMS plugin (\<^verbatim>\<open>plugins/pkg/plugin/kms\<close>): configuration defaults (\<^verbatim>\<open>config.go\<close>),
  the tables of key specifications, usages and algorithms (\<^verbatim>\<open>mapping.go\<close>), aliases (\<^verbatim>\<open>plugin.go\<close>) and the names
  derived from a client and an alias (\<^verbatim>\<open>tenant.go\<close>).
\<close>

section \<open>Configuration\<close>

record kmsConfig =
  OpenBaoProxyURL :: string
  EthereumMount :: string
  PQCMount :: string
  TransitMount :: string
  KVMount :: string
  KeyStoreMount :: string
  KeyStoreCedarPolicyPath :: string
  TimeoutSecs :: int

definition orDefault :: "string \<Rightarrow> string \<Rightarrow> string" where
  "orDefault d s = (if s = [] then d else s)"

definition withKMSConfigDefaults :: "kmsConfig option \<Rightarrow> kmsConfig" where
  "withKMSConfigDefaults cfg0 =
     (let cfg = (case cfg0 of
            None \<Rightarrow> \<lparr>OpenBaoProxyURL = [], EthereumMount = [], PQCMount = [], TransitMount = [], KVMount = [],
              KeyStoreMount = [], KeyStoreCedarPolicyPath = [], TimeoutSecs = 0\<rparr>
          | Some c \<Rightarrow> c)
      in cfg\<lparr>EthereumMount := orDefault ''ethereum'' (EthereumMount cfg),
             PQCMount := orDefault ''pqc'' (PQCMount cfg),
             TransitMount := orDefault ''transit'' (TransitMount cfg),
             KVMount := orDefault ''secret'' (KVMount cfg),
             KeyStoreMount := orDefault ''key-store'' (KeyStoreMount cfg),
             TimeoutSecs := (if TimeoutSecs cfg = 0 then 10 else TimeoutSecs cfg)\<rparr>)"

section \<open>Tables\<close>

abbreviation "dataKeySpecAES128 \<equiv> ''AES_128''"
abbreviation "dataKeySpecAES256 \<equiv> ''AES_256''"
abbreviation "encryptDecryptUsage \<equiv> ''ENCRYPT_DECRYPT''"
abbreviation "encryptionAlgorithmAES256GCM96 \<equiv> ''AES_256_GCM96''"
abbreviation "keyAgreementUsage \<equiv> ''KEY_AGREEMENT''"
abbreviation "keySpecECCSecgP256K1 \<equiv> ''ECC_SECG_P256K1''"
abbreviation "keySpecECDSAP256 \<equiv> ''ECDSA_P256''"
abbreviation "keySpecECDSAP384 \<equiv> ''ECDSA_P384''"
abbreviation "keySpecED25519 \<equiv> ''ED25519''"
abbreviation "keySpecMLKEM768 \<equiv> ''ML_KEM_768''"
abbreviation "keySpecMLKEM1024 \<equiv> ''ML_KEM_1024''"
abbreviation "keySpecMLDSA44 \<equiv> ''ML_DSA_44''"
abbreviation "keySpecMLDSA65 \<equiv> ''ML_DSA_65''"
abbreviation "keySpecMLDSA87 \<equiv> ''ML_DSA_87''"
abbreviation "keySpecRSA4096 \<equiv> ''RSA_4096''"
abbreviation "keySpecAES256GCM96 \<equiv> encryptionAlgorithmAES256GCM96"
abbreviation "messageTypeDigest \<equiv> ''DIGEST''"
abbreviation "messageTypeEIP191 \<equiv> ''EIP191''"
abbreviation "messageTypeRaw \<equiv> ''RAW''"
abbreviation "ethereumSignMethodRawHash \<equiv> ''raw_hash''"
abbreviation "schemeEthereum \<equiv> ''ETHEREUM''"
abbreviation "schemePQC \<equiv> ''PQC''"
abbreviation "schemeTransit \<equiv> ''TRANSIT''"
abbreviation "keyAgreementAlgorithmMLKEM \<equiv> ''ML_KEM''"
abbreviation "signVerifyUsage \<equiv> ''SIGN_VERIFY''"
abbreviation "signingAlgorithmEthereumSecp256k1 \<equiv> ''ETHEREUM_SECP256K1''"
abbreviation "signingAlgorithmMLDSA \<equiv> ''ML_DSA''"

datatype name_error =
    UnsupportedKeySpec string | UnsupportedScheme string
  | AESMustEncryptDecrypt | AsymmetricMustSignVerify
  | EthereumKeySpec | EthereumUsage
  | PQCSignUsage | PQCAgreementUsage | PQCKeySpecs
  | UnsupportedMLDSA string | UnsupportedMLKEM string
  | UnsupportedEncryptionAlgorithm string
  | OneOfSpecOrBytes | UnsupportedDataKeySpec string
  | UnsupportedMessageType string | HandledByEthereum | UnsupportedSigningAlgorithm string
  | AliasRequired | AliasTooLong | AliasReserved | AliasCharacters | KeyIDRequired

record signMapping =
  pathAlgorithm :: string
  signatureAlgorithm :: string
  prehashed :: bool

definition validateTransitKeySpec :: "string \<Rightarrow> name_error + unit" where
  "validateTransitKeySpec keySpec =
     (if keySpec \<in> {keySpecECDSAP256, keySpecECDSAP384, keySpecED25519, keySpecRSA4096, keySpecAES256GCM96}
      then Inr () else Inl (UnsupportedKeySpec keySpec))"

definition transitKeyType :: "string \<Rightarrow> name_error + string" where
  "transitKeyType keySpec =
     rbind (validateTransitKeySpec keySpec) (\<lambda>_.
       if keySpec = keySpecAES256GCM96 then Inr ''aes256-gcm96''
       else if keySpec = keySpecECDSAP256 then Inr ''ecdsa-p256''
       else if keySpec = keySpecECDSAP384 then Inr ''ecdsa-p384''
       else if keySpec = keySpecED25519 then Inr ''ed25519''
       else if keySpec = keySpecRSA4096 then Inr ''rsa-4096''
       else Inl (UnsupportedKeySpec keySpec))"

definition normalizeScheme :: "string \<Rightarrow> name_error + string" where
  "normalizeScheme scheme =
     (if scheme = [] \<or> scheme = schemeTransit then Inr schemeTransit
      else if scheme = schemeEthereum then Inr schemeEthereum
      else if scheme = schemePQC then Inr schemePQC
      else Inl (UnsupportedScheme scheme))"

definition supportsEncryption :: "string \<Rightarrow> bool" where
  "supportsEncryption keySpec \<longleftrightarrow> keySpec = keySpecAES256GCM96"

definition supportsSigning :: "string \<Rightarrow> bool" where
  "supportsSigning keySpec \<longleftrightarrow>
     keySpec \<in> {keySpecECDSAP256, keySpecECDSAP384, keySpecED25519, keySpecRSA4096, keySpecECCSecgP256K1}"

definition validateTransitKeyUsage :: "string \<Rightarrow> string \<Rightarrow> name_error + unit" where
  "validateTransitKeyUsage keySpec keyUsage =
     rbind (validateTransitKeySpec keySpec) (\<lambda>_.
       if keySpec = keySpecAES256GCM96 then
         (if keyUsage \<noteq> encryptDecryptUsage then Inl AESMustEncryptDecrypt else Inr ())
       else (if keyUsage \<noteq> signVerifyUsage then Inl AsymmetricMustSignVerify else Inr ()))"

definition validateEthereumKeyUsage :: "string \<Rightarrow> string \<Rightarrow> name_error + unit" where
  "validateEthereumKeyUsage keySpec keyUsage =
     (if keySpec \<noteq> keySpecECCSecgP256K1 then Inl EthereumKeySpec
      else if keyUsage \<noteq> signVerifyUsage then Inl EthereumUsage
      else Inr ())"

definition isPQCSigningKey :: "string \<Rightarrow> bool" where
  "isPQCSigningKey keySpec \<longleftrightarrow> keySpec \<in> {keySpecMLDSA44, keySpecMLDSA65, keySpecMLDSA87}"

definition isPQCKEMKey :: "string \<Rightarrow> bool" where
  "isPQCKEMKey keySpec \<longleftrightarrow> keySpec \<in> {keySpecMLKEM768, keySpecMLKEM1024}"

definition validatePQCKeyUsage :: "string \<Rightarrow> string \<Rightarrow> name_error + unit" where
  "validatePQCKeyUsage keySpec keyUsage =
     (if isPQCSigningKey keySpec then
        (if keyUsage \<noteq> signVerifyUsage then Inl PQCSignUsage else Inr ())
      else if isPQCKEMKey keySpec then
        (if keyUsage \<noteq> keyAgreementUsage then Inl PQCAgreementUsage else Inr ())
      else Inl PQCKeySpecs)"

definition pqcMLDSAVariant :: "string \<Rightarrow> name_error + string" where
  "pqcMLDSAVariant keySpec =
     (if keySpec = keySpecMLDSA44 then Inr ''ml-dsa-44''
      else if keySpec = keySpecMLDSA65 then Inr ''ml-dsa-65''
      else if keySpec = keySpecMLDSA87 then Inr ''ml-dsa-87''
      else Inl (UnsupportedMLDSA keySpec))"

definition pqcMLKEMVariant :: "string \<Rightarrow> name_error + string" where
  "pqcMLKEMVariant keySpec =
     (if keySpec = keySpecMLKEM768 then Inr ''ml-kem-768''
      else if keySpec = keySpecMLKEM1024 then Inr ''ml-kem-1024''
      else Inl (UnsupportedMLKEM keySpec))"

definition normalizeEncryptionAlgorithm :: "string \<Rightarrow> name_error + string" where
  "normalizeEncryptionAlgorithm algorithm =
     (if algorithm = [] \<or> algorithm = keySpecAES256GCM96 then Inr encryptionAlgorithmAES256GCM96
      else Inl (UnsupportedEncryptionAlgorithm algorithm))"

definition dataKeyBits :: "string \<Rightarrow> u32 \<Rightarrow> name_error + int" where
  "dataKeyBits spec numberOfBytes =
     (let hasSpec = (spec \<noteq> []); hasSize = (0 < numberOfBytes)
      in if hasSpec = hasSize then Inl OneOfSpecOrBytes
         else if spec = [] then Inr (uint numberOfBytes * 8)
         else if spec = dataKeySpecAES128 then Inr 128
         else if spec = dataKeySpecAES256 then Inr 256
         else Inl (UnsupportedDataKeySpec spec))"

definition signingConfig :: "string \<Rightarrow> string \<Rightarrow> name_error + signMapping" where
  "signingConfig signingAlgorithm messageType0 =
     (let pre = (messageType0 = messageTypeDigest);
          messageType = (if messageType0 = [] then messageTypeRaw else messageType0)
      in if messageType \<noteq> messageTypeRaw \<and> messageType \<noteq> messageTypeDigest \<and> messageType \<noteq> messageTypeEIP191
         then Inl (UnsupportedMessageType messageType)
         else if signingAlgorithm = ''ECDSA_SHA_256'' then
           Inr \<lparr>pathAlgorithm = ''sha2-256'', signatureAlgorithm = [], prehashed = pre\<rparr>
         else if signingAlgorithm = ''ECDSA_SHA_384'' then
           Inr \<lparr>pathAlgorithm = ''sha2-384'', signatureAlgorithm = [], prehashed = pre\<rparr>
         else if signingAlgorithm = ''ED25519'' then
           Inr \<lparr>pathAlgorithm = ''sha2-512'', signatureAlgorithm = [], prehashed = pre\<rparr>
         else if signingAlgorithm = ''RSASSA_PKCS1_V1_5_SHA_256'' then
           Inr \<lparr>pathAlgorithm = ''sha2-256'', signatureAlgorithm = ''pkcs1v15'', prehashed = pre\<rparr>
         else if signingAlgorithm = ''RSASSA_PSS_SHA_256'' then
           Inr \<lparr>pathAlgorithm = ''sha2-256'', signatureAlgorithm = ''pss'', prehashed = pre\<rparr>
         else if signingAlgorithm = signingAlgorithmEthereumSecp256k1 then Inl HandledByEthereum
         else Inl (UnsupportedSigningAlgorithm signingAlgorithm))"

section \<open>Aliases and derived names\<close>

definition alias_char :: "char \<Rightarrow> bool" where
  "alias_char c \<longleftrightarrow> is_alnum c \<or> c = CHR ''.'' \<or> c = CHR ''-''"

definition maxAliasLen :: nat where
  "maxAliasLen = 128"

abbreviation keyIDPrefix :: string where
  "keyIDPrefix \<equiv> ''kms:''"

definition validateAlias :: "string \<Rightarrow> name_error + unit" where
  "validateAlias alias =
     (if alias = [] then Inl AliasRequired
      else if maxAliasLen < length alias then Inl AliasTooLong
      else if prefix keyIDPrefix alias then Inl AliasReserved
      else if \<not> list_all alias_char alias then Inl AliasCharacters
      else Inr ())"

definition canonicalAlias :: "string \<Rightarrow> name_error + string" where
  "canonicalAlias alias =
     (let trimmed = TrimSpace alias in rbind (validateAlias trimmed) (\<lambda>_. Inr trimmed))"

definition tenantNamespaceBytes :: nat where
  "tenantNamespaceBytes = 16"

definition tenantNamespaceForBytes :: "string \<Rightarrow> nat \<Rightarrow> string" where
  "tenantNamespaceForBytes clientID sz =
     (let sum = sha256 (TrimSpace clientID);
          n = (if length sum < sz then length sum else sz)
      in ''tenant_'' @ hex_encode (take n sum))"

definition tenantNamespace :: "string \<Rightarrow> string" where
  "tenantNamespace clientID = tenantNamespaceForBytes clientID tenantNamespaceBytes"

definition scopedBackendKey :: "string \<Rightarrow> string \<Rightarrow> name_error + string" where
  "scopedBackendKey clientID alias =
     rbind (canonicalAlias alias) (\<lambda>normalizedAlias. Inr (tenantNamespace clientID @ ''_'' @ normalizedAlias))"

definition canonicalKeyID :: "string \<Rightarrow> name_error + string" where
  "canonicalKeyID alias = rbind (canonicalAlias alias) (\<lambda>normalizedAlias. Inr (keyIDPrefix @ normalizedAlias))"

definition resolveKeyRef :: "string \<Rightarrow> name_error + string \<times> string" where
  "resolveKeyRef keyRef =
     (let trimmed = TrimSpace keyRef
      in if trimmed = [] then Inl KeyIDRequired
         else if prefix keyIDPrefix trimmed then
           rbind (canonicalAlias (TrimPrefix keyIDPrefix trimmed)) (\<lambda>alias. Inr (keyIDPrefix @ alias, alias))
         else rbind (canonicalAlias trimmed) (\<lambda>alias. Inr (keyIDPrefix @ alias, alias)))"

section \<open>Lemmas\<close>

lemma alias_char_range: "alias_char c \<Longrightarrow> 45 \<le> (of_char c :: nat) \<and> (of_char c :: nat) \<le> 122"
  using is_alnum_range [of c] by (auto simp: alias_char_def)

lemma validateAlias_ok_iff:
  "validateAlias a = Inr () \<longleftrightarrow> a \<noteq> [] \<and> length a \<le> 128 \<and> \<not> prefix keyIDPrefix a \<and> list_all alias_char a"
  by (auto simp: validateAlias_def maxAliasLen_def)

lemma canonicalAlias_Inr_iff:
  "canonicalAlias s = Inr a \<longleftrightarrow> a = TrimSpace s \<and> validateAlias a = Inr ()"
  by (auto simp: canonicalAlias_def Let_def rbind_Inr_iff)

lemma valid_alias_trimmed: "validateAlias a = Inr () \<Longrightarrow> TrimSpace a = a"
  using alias_char_range
  by (intro TrimSpace_space_free ascii_graph_space_free) (fastforce simp: validateAlias_ok_iff list_all_iff)

lemma canonicalAlias_idem: "canonicalAlias s = Inr a \<Longrightarrow> canonicalAlias a = Inr a"
  by (auto simp: canonicalAlias_Inr_iff valid_alias_trimmed)

lemma length_tenantNamespace [simp]: "length (tenantNamespace c) = 39"
  by (simp add: tenantNamespace_def tenantNamespaceForBytes_def tenantNamespaceBytes_def Let_def)

lemma tenantNamespace_form: "tenantNamespace c = ''tenant_'' @ hex_encode (take 16 (sha256 (TrimSpace c)))"
  by (simp add: tenantNamespace_def tenantNamespaceForBytes_def tenantNamespaceBytes_def Let_def)

lemma tenantNamespace_Trim: "tenantNamespace (TrimSpace c) = tenantNamespace c"
  by (simp add: tenantNamespace_form)

lemma tenantNamespace_chars: "c \<in> set (tenantNamespace x) \<Longrightarrow> is_alnum c \<or> c = CHR ''_''"
  using hex_encode_alnum [of c] by (auto simp: tenantNamespace_form is_alnum_def is_digit_def)

lemma alnum_neq: "is_alnum c \<Longrightarrow> c \<noteq> CHR ''/'' \<and> c \<noteq> CHR ''.'' \<and> c \<noteq> CHR '':''"
  by (auto simp: is_alnum_def is_digit_def)

lemma tenantNamespace_plain: "plain_seg (tenantNamespace x)"
  using tenantNamespace_chars [of "CHR ''/''" x] alnum_neq
  by (auto simp: plain_seg_def tenantNamespace_form)

lemma scopedBackendKey_Inr_iff:
  "scopedBackendKey c a = Inr k \<longleftrightarrow>
     validateAlias (TrimSpace a) = Inr () \<and> k = tenantNamespace c @ ''_'' @ TrimSpace a"
  by (auto simp: scopedBackendKey_def rbind_Inr_iff canonicalAlias_Inr_iff)

lemma resolveKeyRef_Inr_iff:
  "resolveKeyRef s = Inr (k, a) \<longleftrightarrow>
     k = keyIDPrefix @ a \<and> canonicalAlias (TrimPrefix keyIDPrefix (TrimSpace s)) = Inr a \<and> TrimSpace s \<noteq> []"
  by (auto simp: resolveKeyRef_def Let_def rbind_Inr_iff TrimPrefix_def)

lemma keyID_trimmed:
  assumes "validateAlias a = Inr ()"
  shows "TrimSpace (keyIDPrefix @ a) = keyIDPrefix @ a"
proof (rule TrimSpace_space_free, rule ascii_graph_space_free)
  show "list_all (\<lambda>c. 33 \<le> (of_char c :: nat) \<and> (of_char c :: nat) < 128) (keyIDPrefix @ a)"
    using assms alias_char_range by (fastforce simp: validateAlias_ok_iff list_all_iff)
qed

lemma resolveKeyRef_of_alias:
  assumes "validateAlias a = Inr ()"
  shows "resolveKeyRef a = Inr (keyIDPrefix @ a, a)" "resolveKeyRef (keyIDPrefix @ a) = Inr (keyIDPrefix @ a, a)"
proof -
  have "\<not> prefix keyIDPrefix a" "a \<noteq> []" using assms by (auto simp: validateAlias_ok_iff)
  then show "resolveKeyRef a = Inr (keyIDPrefix @ a, a)"
    using assms valid_alias_trimmed [OF assms]
    by (simp add: resolveKeyRef_Inr_iff canonicalAlias_Inr_iff TrimPrefix_def)
  show "resolveKeyRef (keyIDPrefix @ a) = Inr (keyIDPrefix @ a, a)"
    using assms valid_alias_trimmed [OF assms] keyID_trimmed [OF assms]
    by (simp add: resolveKeyRef_Inr_iff canonicalAlias_Inr_iff TrimPrefix_def)
qed

section \<open>Properties\<close>

text \<open>
  Key references are canonical. Whatever reference resolves, to key id \<open>k\<close> and alias \<open>a\<close>: the alias is valid,
  \<open>k\<close> is \<^verbatim>\<open>kms:\<close> followed by \<open>a\<close>, both \<open>k\<close> and \<open>a\<close> resolve to the same pair again, and \<open>k\<close> is the id that key
  creation gives to \<open>a\<close>. References that resolve to the same id therefore name the same key.
\<close>

theorem resolveKeyRef_canonical:
  assumes "resolveKeyRef s = Inr (k, a)"
  shows "validateAlias a = Inr () \<and> k = keyIDPrefix @ a \<and> resolveKeyRef k = Inr (k, a)
    \<and> resolveKeyRef a = Inr (k, a) \<and> canonicalKeyID a = Inr k"
proof -
  from assms have a: "validateAlias a = Inr ()" and k: "k = keyIDPrefix @ a"
    by (auto simp: resolveKeyRef_Inr_iff canonicalAlias_Inr_iff)
  have "canonicalKeyID a = Inr k" using a k valid_alias_trimmed [OF a]
    by (simp add: canonicalKeyID_def rbind_Inr_iff canonicalAlias_Inr_iff)
  with a k resolveKeyRef_of_alias [OF a] show ?thesis by simp
qed

theorem resolveKeyRef_canonical_witness:
  "resolveKeyRef ''my-key.1'' = Inr (''kms:my-key.1'', ''my-key.1'')
   \<and> resolveKeyRef ''kms:my-key.1'' = Inr (''kms:my-key.1'', ''my-key.1'')
   \<and> canonicalKeyID ''my-key.1'' = Inr ''kms:my-key.1''"
proof -
  have "validateAlias ''my-key.1'' = Inr ()"
    by (simp add: validateAlias_ok_iff alias_char_def is_alnum_def is_digit_def)
  then have "resolveKeyRef ''my-key.1'' = Inr (''kms:my-key.1'', ''my-key.1'')"
    using resolveKeyRef_of_alias(1) by fastforce
  from resolveKeyRef_canonical [OF this] this show ?thesis by simp
qed

text \<open>
  Backend keys of different tenants, or of different aliases of one tenant, never collide: the key name in
  OpenBao determines the tenant namespace and the alias.
\<close>

theorem scopedBackendKey_injective:
  assumes "scopedBackendKey c a = Inr k" "scopedBackendKey c' a' = Inr k"
  shows "tenantNamespace c = tenantNamespace c' \<and> TrimSpace a = TrimSpace a'"
proof -
  have "tenantNamespace c @ ''_'' @ TrimSpace a = tenantNamespace c' @ ''_'' @ TrimSpace a'"
    using assms by (simp add: scopedBackendKey_Inr_iff)
  then show ?thesis by (simp add: append_eq_append_conv)
qed

theorem scopedBackendKey_injective_witness:
  "scopedBackendKey '' client'' ''k1'' = Inr (tenantNamespace '' client'' @ ''_k1'')
   \<and> tenantNamespace '' client'' = tenantNamespace (TrimSpace '' client'')"
proof -
  have v: "validateAlias ''k1'' = Inr ()"
    by (simp add: validateAlias_ok_iff alias_char_def is_alnum_def is_digit_def)
  then have t: "TrimSpace ''k1'' = ''k1''" by (rule valid_alias_trimmed)
  have "scopedBackendKey '' client'' ''k1'' = Inr (tenantNamespace '' client'' @ ''_k1'')"
    "scopedBackendKey (TrimSpace '' client'') ''k1'' = Inr (tenantNamespace '' client'' @ ''_k1'')"
    using v t by (simp_all add: scopedBackendKey_Inr_iff tenantNamespace_Trim)
  with scopedBackendKey_injective [OF this] show ?thesis by simp
qed

text \<open>
  The tables agree with one another. A key specification and usage accepted at creation fall in exactly one
  class: a transit encryption key, a transit signing key with a transit key type, an Ethereum signing key, an
  ML-DSA signing key or an ML-KEM key with the variant of its specification.
\<close>

theorem key_usage_classes:
  "(validateTransitKeyUsage spec usage = Inr () \<longleftrightarrow>
      supportsEncryption spec \<and> usage = encryptDecryptUsage
      \<or> supportsSigning spec \<and> spec \<noteq> keySpecECCSecgP256K1 \<and> usage = signVerifyUsage)
   \<and> ((\<exists>t. transitKeyType spec = Inr t) \<longleftrightarrow> validateTransitKeySpec spec = Inr ())
   \<and> (validateEthereumKeyUsage spec usage = Inr () \<longleftrightarrow> spec = keySpecECCSecgP256K1 \<and> usage = signVerifyUsage)
   \<and> (validatePQCKeyUsage spec usage = Inr () \<longleftrightarrow>
      (\<exists>v. pqcMLDSAVariant spec = Inr v) \<and> usage = signVerifyUsage
      \<or> (\<exists>v. pqcMLKEMVariant spec = Inr v) \<and> usage = keyAgreementUsage)
   \<and> \<not> (supportsEncryption spec \<and> supportsSigning spec) \<and> \<not> (isPQCSigningKey spec \<and> isPQCKEMKey spec)
   \<and> \<not> (isPQCSigningKey spec \<and> supportsSigning spec) \<and> \<not> (isPQCKEMKey spec \<and> supportsEncryption spec)"
proof (intro conjI)
  show "validateTransitKeyUsage spec usage = Inr () \<longleftrightarrow>
      supportsEncryption spec \<and> usage = encryptDecryptUsage
      \<or> supportsSigning spec \<and> spec \<noteq> keySpecECCSecgP256K1 \<and> usage = signVerifyUsage"
    by (auto simp: validateTransitKeyUsage_def validateTransitKeySpec_def supportsEncryption_def supportsSigning_def)
  show "(\<exists>t. transitKeyType spec = Inr t) \<longleftrightarrow> validateTransitKeySpec spec = Inr ()"
    by (auto simp: transitKeyType_def validateTransitKeySpec_def)
  show "validateEthereumKeyUsage spec usage = Inr () \<longleftrightarrow> spec = keySpecECCSecgP256K1 \<and> usage = signVerifyUsage"
    by (simp add: validateEthereumKeyUsage_def)
  show "validatePQCKeyUsage spec usage = Inr () \<longleftrightarrow>
      (\<exists>v. pqcMLDSAVariant spec = Inr v) \<and> usage = signVerifyUsage
      \<or> (\<exists>v. pqcMLKEMVariant spec = Inr v) \<and> usage = keyAgreementUsage"
    by (auto simp: validatePQCKeyUsage_def isPQCSigningKey_def isPQCKEMKey_def pqcMLDSAVariant_def pqcMLKEMVariant_def)
qed (auto simp: supportsEncryption_def supportsSigning_def isPQCSigningKey_def isPQCKEMKey_def)

text \<open>
  The defaults of the configuration: after \<^verbatim>\<open>withKMSConfigDefaults\<close> every mount is non-empty and the timeout
  non-zero, values that were given are kept, and applying the defaults again changes nothing.
\<close>

theorem withKMSConfigDefaults_total:
  "(let d = withKMSConfigDefaults cfg in
      EthereumMount d \<noteq> [] \<and> PQCMount d \<noteq> [] \<and> TransitMount d \<noteq> [] \<and> KVMount d \<noteq> [] \<and> KeyStoreMount d \<noteq> []
      \<and> TimeoutSecs d \<noteq> 0 \<and> withKMSConfigDefaults (Some d) = d
      \<and> OpenBaoProxyURL d = (case cfg of None \<Rightarrow> [] | Some c \<Rightarrow> OpenBaoProxyURL c)
      \<and> TransitMount d = (case cfg of None \<Rightarrow> ''transit''
          | Some c \<Rightarrow> if TransitMount c = [] then ''transit'' else TransitMount c))"
  by (cases cfg) (simp_all add: withKMSConfigDefaults_def orDefault_def Let_def)

end
