(* ===== verification/KmsBlob.thy ===== *)
theory KmsBlob
  imports KmsNames
begin

text \<open>
  The ciphertext blob handed to clients (\<^verbatim>\<open>kms/blob.go\<close>): a JSON object in base64 that records the key, the
  backend key and the algorithm along with the ciphertext.
\<close>

record ciphertextBlob =
  bVersion :: int
  bScheme :: string
  bKeyID :: string
  bProviderKey :: string
  bTransitKey :: string
  bCiphertext :: string
  bAlgorithm :: string

datatype blob_error = BlobNotBase64 | BlobNotJSON | BlobVersion int | BlobMissingFields

definition blob_backendKey :: "ciphertextBlob \<Rightarrow> string" where
  "blob_backendKey b = (if bProviderKey b \<noteq> [] then bProviderKey b else bTransitKey b)"

definition blob_normalize :: "ciphertextBlob \<Rightarrow> ciphertextBlob" where
  "blob_normalize b0 =
     (let b = (if bScheme b0 = [] then b0\<lparr>bScheme := schemeTransit\<rparr> else b0)
      in if bProviderKey b = [] then b\<lparr>bProviderKey := bTransitKey b\<rparr> else b)"

text \<open>The struct tags of \<^verbatim>\<open>ciphertextBlob\<close>, in both directions.\<close>

definition blob_json :: "ciphertextBlob \<Rightarrow> json" where
  "blob_json b =
     JObj ([(''v'', JNum (Itoa (bVersion b)))] @ omitempty ''scheme'' (bScheme b) @ [(''key_id'', JStr (bKeyID b))]
       @ omitempty ''provider_key'' (bProviderKey b) @ omitempty ''transit_key'' (bTransitKey b)
       @ [(''ciphertext'', JStr (bCiphertext b)), (''algorithm'', JStr (bAlgorithm b))])"

definition blob_field :: "string \<Rightarrow> ciphertextBlob decoder" where
  "blob_field k =
     (if is_field ''v'' k then dec_field bVersion bVersion_update dec_int
     else if is_field ''scheme'' k then dec_field bScheme bScheme_update dec_string
     else if is_field ''key_id'' k then dec_field bKeyID bKeyID_update dec_string
     else if is_field ''provider_key'' k then dec_field bProviderKey bProviderKey_update dec_string
     else if is_field ''transit_key'' k then dec_field bTransitKey bTransitKey_update dec_string
     else if is_field ''ciphertext'' k then dec_field bCiphertext bCiphertext_update dec_string
     else if is_field ''algorithm'' k then dec_field bAlgorithm bAlgorithm_update dec_string
     else dec_skip)"

definition dec_blob :: "ciphertextBlob decoder" where
  "dec_blob = dec_struct blob_field"

definition blob_zero :: ciphertextBlob where
  "blob_zero = \<lparr>bVersion = 0, bScheme = [], bKeyID = [], bProviderKey = [], bTransitKey = [],
     bCiphertext = [], bAlgorithm = []\<rparr>"

definition encodeCiphertextBlob :: "string \<Rightarrow> string \<Rightarrow> string \<Rightarrow> string \<Rightarrow> string \<Rightarrow> string" where
  "encodeCiphertextBlob scheme keyID providerKey ciphertext algorithm =
     std_encode (json_print (blob_json \<lparr>bVersion = 1, bScheme = scheme, bKeyID = keyID,
       bProviderKey = providerKey, bTransitKey = [], bCiphertext = ciphertext, bAlgorithm = algorithm\<rparr>))"

definition decodeCiphertextBlob :: "string \<Rightarrow> blob_error + ciphertextBlob" where
  "decodeCiphertextBlob encoded =
     (case std_decode encoded of
        None \<Rightarrow> Inl BlobNotBase64
      | Some raw \<Rightarrow>
          (case json_unmarshal dec_blob blob_zero raw of
             None \<Rightarrow> Inl BlobNotJSON
           | Some b0 \<Rightarrow>
               if bVersion b0 \<noteq> 1 then Inl (BlobVersion (bVersion b0))
               else
                 let b = blob_normalize b0
                 in if bKeyID b = [] \<or> blob_backendKey b = [] \<or> bCiphertext b = [] \<or> bAlgorithm b = []
                    then Inl BlobMissingFields
                    else Inr b))"

section \<open>Lemmas\<close>

definition blob_strings :: "ciphertextBlob \<Rightarrow> string list" where
  "blob_strings b = [bScheme b, bKeyID b, bProviderKey b, bTransitKey b, bCiphertext b, bAlgorithm b]"

lemma blob_json_wf:
  assumes "list_all valid_utf8 (blob_strings b)"
  shows "wf_json (blob_json b)" "json_depth (blob_json b) \<le> max_depth"
proof -
  have keys: "valid_utf8 ''v''" "valid_utf8 ''scheme''" "valid_utf8 ''key_id''" "valid_utf8 ''provider_key''"
    "valid_utf8 ''transit_key''" "valid_utf8 ''ciphertext''" "valid_utf8 ''algorithm''"
    by (rule ascii_valid, simp)+
  show "wf_json (blob_json b)"
    unfolding blob_json_def wf_JObj_append
    using assms keys by (intro conjI omitempty_wf) (auto simp: blob_strings_def)
  have "json_depth (blob_json b) \<le> Suc 0"
    unfolding blob_json_def depth_members by (auto simp: omitempty_def split: if_splits)
  then show "json_depth (blob_json b) \<le> max_depth" by (simp add: max_depth_def)
qed

lemma blob_field_names:
  "blob_field ''v'' = dec_field bVersion bVersion_update dec_int"
  "blob_field ''scheme'' = dec_field bScheme bScheme_update dec_string"
  "blob_field ''key_id'' = dec_field bKeyID bKeyID_update dec_string"
  "blob_field ''provider_key'' = dec_field bProviderKey bProviderKey_update dec_string"
  "blob_field ''transit_key'' = dec_field bTransitKey bTransitKey_update dec_string"
  "blob_field ''ciphertext'' = dec_field bCiphertext bCiphertext_update dec_string"
  "blob_field ''algorithm'' = dec_field bAlgorithm bAlgorithm_update dec_string"
  by (simp_all add: blob_field_def is_field_lower lower_char_def)

lemma dec_blob_json:
  assumes "- (2 ^ 63) \<le> bVersion b" "bVersion b < 2 ^ 63"
  shows "dec_blob (blob_json b) blob_zero = (True, b)"
proof -
  have num: "dec_int (JNum (Itoa (bVersion b))) old = (True, bVersion b)" for old using assms by simp
  show ?thesis
    unfolding blob_json_def dec_blob_def append_Cons append_Nil
    by (simp add: dec_struct_step dec_struct_omitempty blob_field_names num blob_zero_def)
qed

definition blob_ok :: "ciphertextBlob \<Rightarrow> bool" where
  "blob_ok b \<longleftrightarrow> list_all valid_utf8 (blob_strings b) \<and> - (2 ^ 63) \<le> bVersion b \<and> bVersion b < 2 ^ 63"

interpretation blob_doc: codec_chain blob_ok blob_json "decode_with dec_blob blob_zero" printable json_print json_parse
  by unfold_locales (simp_all add: blob_ok_def decode_with_def dec_blob_json printable_def blob_json_wf)

interpretation blob_text: codec_chain blob_ok "\<lambda>b. json_print (blob_json b)"
    "\<lambda>s. Option.bind (json_parse s) (decode_with dec_blob blob_zero)" "\<lambda>_. True" std_encode std_decode
  by unfold_locales simp

lemma blob_normalize_simps [simp]:
  "bVersion (blob_normalize b) = bVersion b" "bKeyID (blob_normalize b) = bKeyID b"
  "bCiphertext (blob_normalize b) = bCiphertext b" "bAlgorithm (blob_normalize b) = bAlgorithm b"
  "blob_backendKey (blob_normalize b) = blob_backendKey b" "bScheme (blob_normalize b) \<noteq> []"
  by (simp_all add: blob_normalize_def blob_backendKey_def Let_def)

lemma decodeCiphertextBlob_Inr_iff:
  "decodeCiphertextBlob s = Inr b \<longleftrightarrow>
     (\<exists>raw b0. std_decode s = Some raw \<and> json_unmarshal dec_blob blob_zero raw = Some b0 \<and> bVersion b0 = 1
        \<and> b = blob_normalize b0 \<and> bKeyID b \<noteq> [] \<and> blob_backendKey b \<noteq> [] \<and> bCiphertext b \<noteq> [] \<and> bAlgorithm b \<noteq> [])"
  by (auto simp: decodeCiphertextBlob_def Let_def split: option.splits)

lemma decode_encode_blob:
  assumes "list_all valid_utf8 [scheme, keyID, providerKey, ciphertext, algorithm]"
    and "keyID \<noteq> []" "providerKey \<noteq> []" "ciphertext \<noteq> []" "algorithm \<noteq> []"
  shows "decodeCiphertextBlob (encodeCiphertextBlob scheme keyID providerKey ciphertext algorithm) =
    Inr \<lparr>bVersion = 1, bScheme = (if scheme = [] then schemeTransit else scheme), bKeyID = keyID,
      bProviderKey = providerKey, bTransitKey = [], bCiphertext = ciphertext, bAlgorithm = algorithm\<rparr>"
proof -
  let ?b = "\<lparr>bVersion = 1, bScheme = scheme, bKeyID = keyID, bProviderKey = providerKey, bTransitKey = [],
    bCiphertext = ciphertext, bAlgorithm = algorithm\<rparr>"
  have ok: "blob_ok ?b" using assms(1) by (simp add: blob_ok_def blob_strings_def)
  have "json_unmarshal dec_blob blob_zero (json_print (blob_json ?b)) = Some ?b"
    unfolding json_unmarshal_bind by (rule blob_doc.chain.dec_enc [OF ok])
  then show ?thesis
    using assms(2-5)
    by (simp add: decodeCiphertextBlob_def encodeCiphertextBlob_def blob_normalize_def blob_backendKey_def Let_def)
qed

section \<open>Properties\<close>

text \<open>
  Blobs round trip. For UTF-8 strings, none of key id, backend key, ciphertext and algorithm empty, decoding
  the encoded blob succeeds and gives these strings back, with the transit scheme when none was given; two blobs
  with the same text are equal.
\<close>

theorem ciphertextBlob_roundtrip:
  assumes "list_all valid_utf8 [scheme, keyID, providerKey, ciphertext, algorithm]"
    and "keyID \<noteq> []" "providerKey \<noteq> []" "ciphertext \<noteq> []" "algorithm \<noteq> []"
  shows "decodeCiphertextBlob (encodeCiphertextBlob scheme keyID providerKey ciphertext algorithm) =
    Inr \<lparr>bVersion = 1, bScheme = (if scheme = [] then schemeTransit else scheme), bKeyID = keyID,
      bProviderKey = providerKey, bTransitKey = [], bCiphertext = ciphertext, bAlgorithm = algorithm\<rparr>"
  by (rule decode_encode_blob [OF assms])

theorem ciphertextBlob_roundtrip_witness:
  "decodeCiphertextBlob (encodeCiphertextBlob [] ''kms:a'' ''tenant_k'' ''vault:v1:AA'' ''AES_256_GCM96'') =
    Inr \<lparr>bVersion = 1, bScheme = ''TRANSIT'', bKeyID = ''kms:a'', bProviderKey = ''tenant_k'', bTransitKey = [],
      bCiphertext = ''vault:v1:AA'', bAlgorithm = ''AES_256_GCM96''\<rparr>"
  using ciphertextBlob_roundtrip [of "[]" "''kms:a''" "''tenant_k''" "''vault:v1:AA''" "''AES_256_GCM96''"]
  by (simp add: rune_len_ascii)

text \<open>
  What every accepted blob guarantees, whoever made it: version 1, a scheme, and a non-empty key id, backend key,
  ciphertext and algorithm.
\<close>

theorem decodeCiphertextBlob_complete:
  assumes "decodeCiphertextBlob s = Inr b"
  shows "bVersion b = 1 \<and> bScheme b \<noteq> [] \<and> bKeyID b \<noteq> [] \<and> blob_backendKey b \<noteq> [] \<and> blob_backendKey b = bProviderKey b
    \<and> bCiphertext b \<noteq> [] \<and> bAlgorithm b \<noteq> []"
  using assms
  by (auto simp: decodeCiphertextBlob_Inr_iff) (auto simp: blob_normalize_def blob_backendKey_def Let_def split: if_splits)

theorem decodeCiphertextBlob_complete_witness:
  "\<exists>b. decodeCiphertextBlob (encodeCiphertextBlob [] ''kms:a'' ''k'' ''c'' ''A'') = Inr b \<and> bScheme b \<noteq> []"
proof -
  obtain b where b: "decodeCiphertextBlob (encodeCiphertextBlob [] ''kms:a'' ''k'' ''c'' ''A'') = Inr b"
    using decode_encode_blob [of "[]" "''kms:a''" "''k''" "''c''" "''A''"] by (auto simp: rune_len_ascii)
  with decodeCiphertextBlob_complete [OF b] show ?thesis by blast
qed

end
