(* ===== verification/KmsClient.thy ===== *)
theory KmsClient
  imports KmsBlob "HOL-Library.List_Lexorder" "HOL-Library.Char_ord"
begin

text \<open>
  The KMS plugin's client of OpenBao (\<^verbatim>\<open>kms/openbao.go\<close>, \<^verbatim>\<open>kms/key_store_openbao.go\<close>): the records it exchanges
  with their JSON forms, the paths of its requests, and one action per method. The names of key-store entries
  (\<^verbatim>\<open>kms/key_store.go\<close>) are here because the paths depend on them. The server is the parameter \<open>srv\<close>.
\<close>

section \<open>Records\<close>

record openBaoClient =
  baseURL :: "string option"
  ethereumMount :: string
  keyStoreMount :: string
  kvMount :: string
  pqcMount :: string
  transitMount :: string

record pluginTag =
  TagKey :: string
  TagValue :: string

record keyMetadataRecord =
  KeyID :: string
  ClientID :: string
  Alias :: string
  Scheme :: string
  ProviderKey :: string
  TransitKey :: string
  Description :: string
  KeySpec :: string
  KeyUsage :: string
  Enabled :: bool
  PrimaryVersion :: u32
  CreatedAt :: string
  PublicKey :: string
  Address :: string
  Tags :: "pluginTag option list option"

record transitKeyInfo =
  LatestVersion :: u32
  tType :: string
  tPublicKey :: string
  Keys :: "(string \<times> json) list"

record ethereumKeyInfo =
  eName :: string
  eAddress :: string
  ePublicKey :: string
  eCreatedAt :: string

record ethereumSignInfo =
  sSignature :: string
  sHash :: string
  sMethod :: string
  sAddress :: string

record pqcKeyInfo =
  pName :: string
  pVersion :: u32
  pVariant :: string
  pPublicKey :: string
  pCreatedAt :: string

record pqcSignInfo =
  qName :: string
  qVariant :: string
  qSignature :: string

record pqcDecapsulateInfo =
  dName :: string
  dVariant :: string
  dSharedKey :: string

record keyStoreRecord =
  kName :: string
  kOwner :: string
  kSecretJSON :: string
  kUpdatedAt :: string

datatype client_error = Bao bao_error | OwnerMismatch | UnsafeKeyStorePath

section \<open>JSON forms\<close>

definition tag_json :: "pluginTag option \<Rightarrow> json" where
  "tag_json t =
     (case t of
        None \<Rightarrow> JNull
      | Some t \<Rightarrow> JObj [(''tag_key'', JStr (TagKey t)), (''tag_value'', JStr (TagValue t))])"

definition metadata_json :: "keyMetadataRecord \<Rightarrow> json" where
  "metadata_json m =
     JObj ([(''key_id'', JStr (KeyID m)), (''client_id'', JStr (ClientID m))]
       @ omitempty ''alias'' (Alias m)
       @ [(''scheme'', JStr (Scheme m))]
       @ omitempty ''provider_key'' (ProviderKey m)
       @ omitempty ''transit_key'' (TransitKey m)
       @ [(''description'', JStr (Description m)), (''key_spec'', JStr (KeySpec m)),
          (''key_usage'', JStr (KeyUsage m)), (''enabled'', JBool (Enabled m)),
          (''primary_version'', JNum (Itoa (uint (PrimaryVersion m)))), (''created_at'', JStr (CreatedAt m))]
       @ omitempty ''public_key'' (PublicKey m)
       @ omitempty ''address'' (Address m)
       @ [(''tags'', case Tags m of None \<Rightarrow> JNull | Some ts \<Rightarrow> JArr (map tag_json ts))])"

definition tag_field :: "string \<Rightarrow> pluginTag decoder" where
  "tag_field k =
     (if is_field ''tag_key'' k then dec_field TagKey TagKey_update dec_string
      else if is_field ''tag_value'' k then dec_field TagValue TagValue_update dec_string
      else dec_skip)"

definition tag_zero :: pluginTag where
  "tag_zero = \<lparr>TagKey = [], TagValue = []\<rparr>"

definition dec_tags :: "pluginTag option list option decoder" where
  "dec_tags = dec_slice (dec_pointer (dec_struct tag_field) tag_zero) None"

definition metadata_field :: "string \<Rightarrow> keyMetadataRecord decoder" where
  "metadata_field k =
     (if is_field ''key_id'' k then dec_field KeyID KeyID_update dec_string
      else if is_field ''client_id'' k then dec_field ClientID ClientID_update dec_string
      else if is_field ''alias'' k then dec_field Alias Alias_update dec_string
      else if is_field ''scheme'' k then dec_field Scheme Scheme_update dec_string
      else if is_field ''provider_key'' k then dec_field ProviderKey ProviderKey_update dec_string
      else if is_field ''transit_key'' k then dec_field TransitKey TransitKey_update dec_string
      else if is_field ''description'' k then dec_field Description Description_update dec_string
      else if is_field ''key_spec'' k then dec_field KeySpec KeySpec_update dec_string
      else if is_field ''key_usage'' k then dec_field KeyUsage KeyUsage_update dec_string
      else if is_field ''enabled'' k then dec_field Enabled Enabled_update dec_bool
      else if is_field ''primary_version'' k then dec_field PrimaryVersion PrimaryVersion_update dec_uint32
      else if is_field ''created_at'' k then dec_field CreatedAt CreatedAt_update dec_string
      else if is_field ''public_key'' k then dec_field PublicKey PublicKey_update dec_string
      else if is_field ''address'' k then dec_field Address Address_update dec_string
      else if is_field ''tags'' k then dec_field Tags Tags_update dec_tags
      else dec_skip)"

definition metadata_zero :: keyMetadataRecord where
  "metadata_zero = \<lparr>KeyID = [], ClientID = [], Alias = [], Scheme = [], ProviderKey = [], TransitKey = [],
     Description = [], KeySpec = [], KeyUsage = [], Enabled = False, PrimaryVersion = 0, CreatedAt = [],
     PublicKey = [], Address = [], Tags = None\<rparr>"

definition transit_field :: "string \<Rightarrow> transitKeyInfo decoder" where
  "transit_field k =
     (if is_field ''latest_version'' k then dec_field LatestVersion LatestVersion_update dec_uint32
      else if is_field ''type'' k then dec_field tType tType_update dec_string
      else if is_field ''public_key'' k then dec_field tPublicKey tPublicKey_update dec_string
      else if is_field ''keys'' k then dec_field Keys Keys_update dec_raw_map
      else dec_skip)"

definition transit_zero :: transitKeyInfo where
  "transit_zero = \<lparr>LatestVersion = 0, tType = [], tPublicKey = [], Keys = []\<rparr>"

definition ethereum_key_field :: "string \<Rightarrow> ethereumKeyInfo decoder" where
  "ethereum_key_field k =
     (if is_field ''name'' k then dec_field eName eName_update dec_string
      else if is_field ''address'' k then dec_field eAddress eAddress_update dec_string
      else if is_field ''public_key'' k then dec_field ePublicKey ePublicKey_update dec_string
      else if is_field ''created_at'' k then dec_field eCreatedAt eCreatedAt_update dec_string
      else dec_skip)"

definition ethereum_sign_field :: "string \<Rightarrow> ethereumSignInfo decoder" where
  "ethereum_sign_field k =
     (if is_field ''signature'' k then dec_field sSignature sSignature_update dec_string
      else if is_field ''hash'' k then dec_field sHash sHash_update dec_string
      else if is_field ''method'' k then dec_field sMethod sMethod_update dec_string
      else if is_field ''address'' k then dec_field sAddress sAddress_update dec_string
      else dec_skip)"

definition pqc_key_field :: "string \<Rightarrow> pqcKeyInfo decoder" where
  "pqc_key_field k =
     (if is_field ''name'' k then dec_field pName pName_update dec_string
      else if is_field ''version'' k then dec_field pVersion pVersion_update dec_uint32
      else if is_field ''variant'' k then dec_field pVariant pVariant_update dec_string
      else if is_field ''public_key'' k then dec_field pPublicKey pPublicKey_update dec_string
      else if is_field ''created_at'' k then dec_field pCreatedAt pCreatedAt_update dec_string
      else dec_skip)"

definition pqc_sign_field :: "string \<Rightarrow> pqcSignInfo decoder" where
  "pqc_sign_field k =
     (if is_field ''name'' k then dec_field qName qName_update dec_string
      else if is_field ''variant'' k then dec_field qVariant qVariant_update dec_string
      else if is_field ''signature'' k then dec_field qSignature qSignature_update dec_string
      else dec_skip)"

definition pqc_decap_field :: "string \<Rightarrow> pqcDecapsulateInfo decoder" where
  "pqc_decap_field k =
     (if is_field ''name'' k then dec_field dName dName_update dec_string
      else if is_field ''variant'' k then dec_field dVariant dVariant_update dec_string
      else if is_field ''shared_key'' k then dec_field dSharedKey dSharedKey_update dec_string
      else dec_skip)"

definition keystore_json :: "keyStoreRecord \<Rightarrow> json" where
  "keystore_json r =
     JObj ([(''name'', JStr (kName r)), (''owner'', JStr (kOwner r))]
       @ omitempty ''secret_json'' (kSecretJSON r) @ [(''updated_at'', JStr (kUpdatedAt r))])"

definition keystore_field :: "string \<Rightarrow> keyStoreRecord decoder" where
  "keystore_field k =
     (if is_field ''name'' k then dec_field kName kName_update dec_string
      else if is_field ''owner'' k then dec_field kOwner kOwner_update dec_string
      else if is_field ''secret_json'' k then dec_field kSecretJSON kSecretJSON_update dec_string
      else if is_field ''updated_at'' k then dec_field kUpdatedAt kUpdatedAt_update dec_string
      else dec_skip)"

definition keystore_zero :: keyStoreRecord where
  "keystore_zero = \<lparr>kName = [], kOwner = [], kSecretJSON = [], kUpdatedAt = []\<rparr>"

text \<open>A struct with one field, as that field.\<close>

definition dec_single :: "string \<Rightarrow> 'a decoder \<Rightarrow> 'a decoder" where
  "dec_single n d = dec_struct (\<lambda>k. if is_field n k then d else dec_skip)"

text \<open>A response \<^verbatim>\<open>{"data": ...}\<close> decoded into a zero value.\<close>

definition into_data :: "'a decoder \<Rightarrow> 'a \<Rightarrow> string \<Rightarrow> 'a option" where
  "into_data d zero = json_unmarshal (dec_data d) zero"

section \<open>Methods of the records\<close>

definition metadata_normalize :: "keyMetadataRecord \<Rightarrow> keyMetadataRecord" where
  "metadata_normalize m0 =
     (let m = (if Scheme m0 = [] then m0\<lparr>Scheme := schemeTransit\<rparr> else m0)
      in if ProviderKey m = [] then m\<lparr>ProviderKey := TransitKey m\<rparr> else m)"

definition metadata_backendKey :: "keyMetadataRecord \<Rightarrow> string" where
  "metadata_backendKey m = (if ProviderKey m \<noteq> [] then ProviderKey m else TransitKey m)"

definition transitVersionPublicKey :: "json option \<Rightarrow> string" where
  "transitVersionPublicKey raw =
     (case raw of
        None \<Rightarrow> []
      | Some j \<Rightarrow>
          (let (ok, key) = dec_single ''public_key'' dec_string j [] in if ok then key else []))"

text \<open>\<^verbatim>\<open>strconv.Atoi\<close>.\<close>

definition Atoi :: "string \<Rightarrow> int option" where
  "Atoi s =
     (let neg = starts (CHR ''-'') s;
          ds = (if neg \<or> starts (CHR ''+'') s then tl s else s)
      in case parse_nat ds of
           None \<Rightarrow> None
         | Some n \<Rightarrow>
             if neg then (if n \<le> 2 ^ 63 then Some (- int n) else None)
             else (if n < 2 ^ 63 then Some (int n) else None))"

text \<open>The loop over the versions, in an order of the map's entries, with the best version so far.\<close>

fun latest_key :: "(string \<times> json) list \<Rightarrow> int \<times> string \<Rightarrow> int \<times> string" where
  "latest_key [] best = best"
| "latest_key ((version, raw) # ks) best =
     (let publicKey = transitVersionPublicKey (Some raw)
      in if publicKey = [] then latest_key ks best
         else (case Atoi version of
                 None \<Rightarrow> latest_key ks best
               | Some n \<Rightarrow> latest_key ks (if fst best < n then (n, publicKey) else best)))"

definition exportedPublicKey :: "transitKeyInfo \<Rightarrow> string" where
  "exportedPublicKey t =
     (if tPublicKey t \<noteq> [] then tPublicKey t
      else if Keys t = [] then []
      else
        let k = (if LatestVersion t \<noteq> 0
                 then transitVersionPublicKey (map_of (Keys t) (FormatNat (unat (LatestVersion t)))) else [])
        in if k \<noteq> [] then k else snd (latest_key (Keys t) (-1, [])))"

definition publicKeyForVersion :: "transitKeyInfo \<Rightarrow> u32 \<Rightarrow> string" where
  "publicKeyForVersion t version =
     (if version = 0 then []
      else if version = LatestVersion t \<and> tPublicKey t \<noteq> [] then tPublicKey t
      else if Keys t = [] then []
      else transitVersionPublicKey (map_of (Keys t) (FormatNat (unat version))))"

section \<open>Paths\<close>

text \<open>\<^verbatim>\<open>url.PathEscape\<close>.\<close>

definition path_safe :: "char \<Rightarrow> bool" where
  "path_safe c \<longleftrightarrow> is_alnum c \<or> c \<in> set ''-_.~$&+:=@''"

definition PathEscape :: "string \<Rightarrow> string" where
  "PathEscape s = concat (map (\<lambda>c. if path_safe c then [c]
     else [CHR ''%'', upper_hex (of_char c div 16), upper_hex (of_char c mod 16)]) s)"

definition kvPath :: "openBaoClient \<Rightarrow> string list \<Rightarrow> string option" where
  "kvPath c parts = joinPath (baseURL c) ([''v1'', kvMount c, ''data''] @ parts)"

definition transitPath :: "openBaoClient \<Rightarrow> string list \<Rightarrow> string option" where
  "transitPath c parts = joinPath (baseURL c) ([''v1'', transitMount c] @ parts)"

definition ethereumPath :: "openBaoClient \<Rightarrow> string list \<Rightarrow> string option" where
  "ethereumPath c parts = joinPath (baseURL c) ([''v1'', ethereumMount c] @ parts)"

definition pqcPath :: "openBaoClient \<Rightarrow> string list \<Rightarrow> string option" where
  "pqcPath c parts = joinPath (baseURL c) ([''v1'', pqcMount c] @ parts)"

definition metadataPath :: "openBaoClient \<Rightarrow> string \<Rightarrow> string \<Rightarrow> string option" where
  "metadataPath c clientID keyID = kvPath c [''kms'', ''metadata'', tenantNamespace clientID, PathEscape keyID]"

section \<open>Transit\<close>

definition newOpenBaoClient :: "kmsConfig option \<Rightarrow> string option \<Rightarrow> openBaoClient" where
  "newOpenBaoClient cfg0 parsedPath =
     (let cfg = withKMSConfigDefaults cfg0
      in \<lparr>baseURL = parsedPath, ethereumMount = EthereumMount cfg, keyStoreMount = KeyStoreMount cfg,
          kvMount = KVMount cfg, pqcMount = PQCMount cfg, transitMount = TransitMount cfg\<rparr>)"

definition readTransitKey :: "'w server \<Rightarrow> openBaoClient \<Rightarrow> string \<Rightarrow> ('w, bao_error, transitKeyInfo) act" where
  "readTransitKey srv c name =
     withTarget (transitPath c [''keys'', name]) (\<lambda>t. Get srv t (into_data (dec_struct transit_field) transit_zero))"

definition createTransitKey ::
    "'w server \<Rightarrow> openBaoClient \<Rightarrow> string \<Rightarrow> string \<Rightarrow> ('w, bao_error, transitKeyInfo) act" where
  "createTransitKey srv c name keyType =
     andThen (withTarget (transitPath c [''keys'', name]) (\<lambda>t. Post srv t (JObj [(''type'', JStr keyType)]) into_nil))
       (\<lambda>_. readTransitKey srv c name)"

definition bao_encrypt :: "'w server \<Rightarrow> openBaoClient \<Rightarrow> string \<Rightarrow> string \<Rightarrow> ('w, bao_error, string) act" where
  "bao_encrypt srv c transitKey plaintext =
     withTarget (transitPath c [''encrypt'', transitKey]) (\<lambda>t.
       Post srv t (JObj [(''plaintext'', JStr plaintext)]) (into_data (dec_single ''ciphertext'' dec_string) []))"

definition bao_decrypt :: "'w server \<Rightarrow> openBaoClient \<Rightarrow> string \<Rightarrow> string \<Rightarrow> ('w, bao_error, string) act" where
  "bao_decrypt srv c transitKey ciphertext =
     withTarget (transitPath c [''decrypt'', transitKey]) (\<lambda>t.
       Post srv t (JObj [(''ciphertext'', JStr ciphertext)]) (into_data (dec_single ''plaintext'' dec_string) []))"

text \<open>The body is a Go map, which \<^verbatim>\<open>json.Marshal\<close> prints in the order of its keys.\<close>

definition sign_body :: "string \<Rightarrow> signMapping \<Rightarrow> u32 \<Rightarrow> json" where
  "sign_body message mapping keyVersion =
     JObj ([(''input'', JStr message)]
       @ (if keyVersion \<noteq> 0 then [(''key_version'', JNum (Itoa (uint keyVersion)))] else [])
       @ [(''prehashed'', JBool (prehashed mapping))]
       @ omitempty ''signature_algorithm'' (signatureAlgorithm mapping))"

definition bao_sign ::
    "'w server \<Rightarrow> openBaoClient \<Rightarrow> string \<Rightarrow> string \<Rightarrow> signMapping \<Rightarrow> u32 \<Rightarrow> ('w, bao_error, string) act" where
  "bao_sign srv c transitKey message mapping keyVersion =
     withTarget (transitPath c [''sign'', transitKey, pathAlgorithm mapping]) (\<lambda>t.
       Post srv t (sign_body message mapping keyVersion) (into_data (dec_single ''signature'' dec_string) []))"

definition generateDataKey ::
    "'w server \<Rightarrow> openBaoClient \<Rightarrow> string \<Rightarrow> int \<Rightarrow> ('w, bao_error, string \<times> string) act" where
  "generateDataKey srv c transitKey bits =
     withTarget (transitPath c [''datakey'', ''plaintext'', transitKey]) (\<lambda>t.
       Post srv t (JObj [(''bits'', JNum (Itoa bits))])
         (into_data (dec_struct (\<lambda>k. if is_field ''plaintext'' k then dec_field fst apfst dec_string
            else if is_field ''ciphertext'' k then dec_field snd apsnd dec_string else dec_skip)) ([], [])))"

definition rotateTransitKey :: "'w server \<Rightarrow> openBaoClient \<Rightarrow> string \<Rightarrow> ('w, bao_error, transitKeyInfo) act" where
  "rotateTransitKey srv c transitKey =
     andThen (withTarget (transitPath c [''keys'', transitKey, ''rotate'']) (\<lambda>t. Post srv t (JObj []) into_nil))
       (\<lambda>_. readTransitKey srv c transitKey)"

section \<open>Ethereum and post-quantum keys\<close>

definition createEthereumKey :: "'w server \<Rightarrow> openBaoClient \<Rightarrow> string \<Rightarrow> ('w, bao_error, ethereumKeyInfo) act" where
  "createEthereumKey srv c name =
     withTarget (ethereumPath c [''keys'', name]) (\<lambda>t.
       Post srv t (JObj []) (into_data (dec_struct ethereum_key_field)
         \<lparr>eName = [], eAddress = [], ePublicKey = [], eCreatedAt = []\<rparr>))"

definition signEthereum ::
    "'w server \<Rightarrow> openBaoClient \<Rightarrow> string \<Rightarrow> json \<Rightarrow> ('w, bao_error, ethereumSignInfo) act" where
  "signEthereum srv c keyName body =
     withTarget (ethereumPath c [''sign'', keyName]) (\<lambda>t.
       Post srv t body (into_data (dec_struct ethereum_sign_field)
         \<lparr>sSignature = [], sHash = [], sMethod = [], sAddress = []\<rparr>))"

definition signEthereumHash ::
    "'w server \<Rightarrow> openBaoClient \<Rightarrow> string \<Rightarrow> string \<Rightarrow> ('w, bao_error, ethereumSignInfo) act" where
  "signEthereumHash srv c keyName hash = signEthereum srv c keyName (JObj [(''hash'', JStr hash)])"

definition signEthereumMessage ::
    "'w server \<Rightarrow> openBaoClient \<Rightarrow> string \<Rightarrow> string \<Rightarrow> ('w, bao_error, ethereumSignInfo) act" where
  "signEthereumMessage srv c keyName message = signEthereum srv c keyName (JObj [(''message'', JStr message)])"

definition pqc_key_zero :: pqcKeyInfo where
  "pqc_key_zero = \<lparr>pName = [], pVersion = 0, pVariant = [], pPublicKey = [], pCreatedAt = []\<rparr>"

definition bao_createPQCKey ::
    "'w server \<Rightarrow> openBaoClient \<Rightarrow> string \<Rightarrow> string \<Rightarrow> ('w, bao_error, pqcKeyInfo) act" where
  "bao_createPQCKey srv c name variant =
     withTarget (pqcPath c [''mldsa'', ''keys'', name]) (\<lambda>t.
       Post srv t (JObj [(''variant'', JStr variant)]) (into_data (dec_struct pqc_key_field) pqc_key_zero))"

definition createPQCKEMKey ::
    "'w server \<Rightarrow> openBaoClient \<Rightarrow> string \<Rightarrow> string \<Rightarrow> ('w, bao_error, pqcKeyInfo) act" where
  "createPQCKEMKey srv c name variant =
     withTarget (pqcPath c [''mlkem'', ''keys'', name]) (\<lambda>t.
       Post srv t (JObj [(''variant'', JStr variant)]) (into_data (dec_struct pqc_key_field) pqc_key_zero))"

definition signPQC :: "'w server \<Rightarrow> openBaoClient \<Rightarrow> string \<Rightarrow> string \<Rightarrow> ('w, bao_error, pqcSignInfo) act" where
  "signPQC srv c keyName message =
     withTarget (pqcPath c [''mldsa'', ''sign'', keyName]) (\<lambda>t.
       Post srv t (JObj [(''message'', JStr message)]) (into_data (dec_struct pqc_sign_field)
         \<lparr>qName = [], qVariant = [], qSignature = []\<rparr>))"

definition decapsulatePQC ::
    "'w server \<Rightarrow> openBaoClient \<Rightarrow> string \<Rightarrow> string \<Rightarrow> ('w, bao_error, pqcDecapsulateInfo) act" where
  "decapsulatePQC srv c keyName ciphertext =
     withTarget (pqcPath c [''mlkem'', ''decapsulate'', keyName]) (\<lambda>t.
       Post srv t (JObj [(''ciphertext'', JStr ciphertext)]) (into_data (dec_struct pqc_decap_field)
         \<lparr>dName = [], dVariant = [], dSharedKey = []\<rparr>))"

section \<open>Key metadata\<close>

definition putMetadata ::
    "'w server \<Rightarrow> openBaoClient \<Rightarrow> string \<Rightarrow> string \<Rightarrow> keyMetadataRecord \<Rightarrow> ('w, bao_error, unit) act" where
  "putMetadata srv c clientID keyID metadata =
     withTarget (metadataPath c clientID keyID) (\<lambda>t.
       Post srv t (JObj [(''data'', metadata_json metadata)]) into_nil)"

definition getMetadata ::
    "'w server \<Rightarrow> openBaoClient \<Rightarrow> string \<Rightarrow> string \<Rightarrow> ('w, client_error, keyMetadataRecord) act" where
  "getMetadata srv c clientID keyID =
     andThen
       (wrapErr Bao (withTarget (metadataPath c clientID keyID) (\<lambda>t.
          Get srv t (into_data (dec_data (dec_struct metadata_field)) metadata_zero))))
       (\<lambda>record0.
          let record = metadata_normalize record0
          in if ClientID record \<noteq> [] \<and> ClientID record \<noteq> clientID then fail OwnerMismatch else ret record)"

section \<open>Key-store names\<close>

datatype key_name_error =
    KeyNameRequired | KeyNameTooLong | KeyNameSlash | PrefixTooLong | InvalidSegment string | UnsupportedCharacters string

definition maxKeyStoreNameLen :: nat where
  "maxKeyStoreNameLen = 256"

definition segment_char :: "char \<Rightarrow> bool" where
  "segment_char c \<longleftrightarrow> is_alnum c \<or> c = CHR ''.'' \<or> c = CHR ''_'' \<or> c = CHR ''-''"

definition validateKeyStoreSegment :: "string \<Rightarrow> string \<Rightarrow> key_name_error + unit" where
  "validateKeyStoreSegment fieldName segment =
     (if segment = [] \<or> segment = ''.'' \<or> segment = ''..'' then Inl (InvalidSegment fieldName)
      else if \<not> list_all segment_char segment then Inl (UnsupportedCharacters fieldName)
      else Inr ())"

text \<open>The loop over the segments: the first error.\<close>

fun validate_segments :: "string \<Rightarrow> string list \<Rightarrow> key_name_error + unit" where
  "validate_segments fieldName [] = Inr ()"
| "validate_segments fieldName (s # ss) = rbind (validateKeyStoreSegment fieldName s) (\<lambda>_. validate_segments fieldName ss)"

definition normalizeKeyStoreName :: "string \<Rightarrow> key_name_error + string" where
  "normalizeKeyStoreName value =
     (let name = TrimSpace value
      in if name = [] then Inl KeyNameRequired
         else if maxKeyStoreNameLen < length name then Inl KeyNameTooLong
         else if prefix ''/'' name \<or> suffix ''/'' name then Inl KeyNameSlash
         else rbind (validate_segments ''name'' (SplitChar (CHR ''/'') name)) (\<lambda>_. Inr name))"

definition normalizeKeyStorePrefix :: "string \<Rightarrow> key_name_error + string" where
  "normalizeKeyStorePrefix value =
     (let pre = TrimChar (CHR ''/'') (TrimSpace value)
      in if pre = [] then Inr []
         else if maxKeyStoreNameLen < length pre then Inl PrefixTooLong
         else rbind (validate_segments ''prefix'' (SplitChar (CHR ''/'') pre)) (\<lambda>_. Inr pre))"

definition keyStorePathParts :: "string \<Rightarrow> key_name_error + string list" where
  "keyStorePathParts value0 =
     (let value = TrimChar (CHR ''/'') value0
      in if value = [] then Inr []
         else rbind (validate_segments ''path'' (SplitChar (CHR ''/'') value))
                (\<lambda>_. Inr (SplitChar (CHR ''/'') value)))"

definition joinKeyStoreName :: "string \<Rightarrow> string \<Rightarrow> string" where
  "joinKeyStoreName prefix0 name0 =
     (let pre = TrimChar (CHR ''/'') prefix0; name = TrimChar (CHR ''/'') name0
      in if pre = [] then name else if name = [] then pre else pre @ ''/'' @ name)"

text \<open>\<open>None\<close> in the path is the panic on a base URL that does not parse.\<close>

definition keyStoreDataPath :: "openBaoClient \<Rightarrow> string \<Rightarrow> string \<Rightarrow> key_name_error + string option" where
  "keyStoreDataPath c clientID name =
     rbind (keyStorePathParts name) (\<lambda>nameParts.
       Inr (joinPath (baseURL c) ([''v1'', keyStoreMount c, ''data'', ''owners'', tenantNamespace clientID] @ nameParts)))"

definition keyStoreMetadataPath :: "openBaoClient \<Rightarrow> string \<Rightarrow> string \<Rightarrow> key_name_error + string option" where
  "keyStoreMetadataPath c clientID pre =
     rbind (keyStorePathParts pre) (\<lambda>prefixParts.
       Inr (joinPath (baseURL c) ([''v1'', keyStoreMount c, ''metadata'', ''owners'', tenantNamespace clientID] @ prefixParts)))"

section \<open>Key-store requests\<close>

definition keyStoreTarget :: "key_name_error + string option \<Rightarrow> (string \<Rightarrow> ('w, client_error, 'a) act) \<Rightarrow> ('w, client_error, 'a) act" where
  "keyStoreTarget p f = andThen (check (rmap_err (\<lambda>_. UnsafeKeyStorePath) p)) (\<lambda>t. withTarget t f)"

definition putKeyStoreSecret ::
    "'w server \<Rightarrow> openBaoClient \<Rightarrow> string \<Rightarrow> string \<Rightarrow> string \<Rightarrow> string \<Rightarrow> ('w, client_error, u32) act" where
  "putKeyStoreSecret srv c clientID name secret updatedAt =
     (let record = \<lparr>kName = name, kOwner = tenantNamespace clientID, kSecretJSON = secret, kUpdatedAt = updatedAt\<rparr>
      in keyStoreTarget (keyStoreDataPath c clientID name) (\<lambda>t.
           wrapErr Bao (Post srv t (JObj [(''data'', keystore_json record)])
             (into_data (dec_single ''version'' dec_uint32) 0))))"

definition getKeyStoreSecret ::
    "'w server \<Rightarrow> openBaoClient \<Rightarrow> string \<Rightarrow> string \<Rightarrow> ('w, client_error, keyStoreRecord) act" where
  "getKeyStoreSecret srv c clientID name =
     keyStoreTarget (keyStoreDataPath c clientID name) (\<lambda>t.
       wrapErr Bao (Get srv t (into_data (dec_data (dec_struct keystore_field)) keystore_zero)))"

definition ensureKeyStoreSecretExists ::
    "'w server \<Rightarrow> openBaoClient \<Rightarrow> string \<Rightarrow> string \<Rightarrow> ('w, client_error, unit) act" where
  "ensureKeyStoreSecretExists srv c clientID name =
     keyStoreTarget (keyStoreMetadataPath c clientID name) (\<lambda>t. wrapErr Bao (Get srv t into_nil))"

text \<open>The name that the listing gives for one key of the response, if it is kept.\<close>

definition listed_name :: "string \<Rightarrow> string \<Rightarrow> string option" where
  "listed_name pre key =
     (let isFolder = suffix ''/'' key; segment = TrimSuffix ''/'' key
      in case validateKeyStoreSegment ''path'' segment of
           Inl _ \<Rightarrow> None
         | Inr _ \<Rightarrow>
             let name = joinKeyStoreName pre segment
             in if maxKeyStoreNameLen < length name then None
                else Some (if isFolder then name @ ''/'' else name))"

definition listKeyStoreSecrets ::
    "'w server \<Rightarrow> openBaoClient \<Rightarrow> string \<Rightarrow> string \<Rightarrow> ('w, client_error, string list) act" where
  "listKeyStoreSecrets srv c clientID pre =
     andThen
       (keyStoreTarget (keyStoreMetadataPath c clientID pre) (\<lambda>t.
          wrapErr Bao (List srv t (into_data (dec_single ''keys'' (dec_slice dec_string [])) None))))
       (\<lambda>keys. ret (sort (List.map_filter (listed_name pre) (case keys of None \<Rightarrow> [] | Some ks \<Rightarrow> ks))))"

definition deleteKeyStoreSecret ::
    "'w server \<Rightarrow> openBaoClient \<Rightarrow> string \<Rightarrow> string \<Rightarrow> ('w, client_error, unit) act" where
  "deleteKeyStoreSecret srv c clientID name =
     keyStoreTarget (keyStoreMetadataPath c clientID name) (\<lambda>t. wrapErr Bao (Delete srv t into_nil))"

section \<open>Lemmas\<close>

subsection \<open>The metadata record round trips\<close>

lemma metadata_field_names:
  "metadata_field ''key_id'' = dec_field KeyID KeyID_update dec_string"
  "metadata_field ''client_id'' = dec_field ClientID ClientID_update dec_string"
  "metadata_field ''alias'' = dec_field Alias Alias_update dec_string"
  "metadata_field ''scheme'' = dec_field Scheme Scheme_update dec_string"
  "metadata_field ''provider_key'' = dec_field ProviderKey ProviderKey_update dec_string"
  "metadata_field ''transit_key'' = dec_field TransitKey TransitKey_update dec_string"
  "metadata_field ''description'' = dec_field Description Description_update dec_string"
  "metadata_field ''key_spec'' = dec_field KeySpec KeySpec_update dec_string"
  "metadata_field ''key_usage'' = dec_field KeyUsage KeyUsage_update dec_string"
  "metadata_field ''enabled'' = dec_field Enabled Enabled_update dec_bool"
  "metadata_field ''primary_version'' = dec_field PrimaryVersion PrimaryVersion_update dec_uint32"
  "metadata_field ''created_at'' = dec_field CreatedAt CreatedAt_update dec_string"
  "metadata_field ''public_key'' = dec_field PublicKey PublicKey_update dec_string"
  "metadata_field ''address'' = dec_field Address Address_update dec_string"
  "metadata_field ''tags'' = dec_field Tags Tags_update dec_tags"
  by (simp_all add: metadata_field_def is_field_lower lower_char_def)

lemma dec_tag_json: "dec_pointer (dec_struct tag_field) tag_zero (tag_json t) None = (True, t)"
proof (cases t)
  case (Some x)
  have "tag_field ''tag_key'' = dec_field TagKey TagKey_update dec_string"
    "tag_field ''tag_value'' = dec_field TagValue TagValue_update dec_string"
    by (simp_all add: tag_field_def is_field_lower lower_char_def)
  with Some show ?thesis by (simp add: tag_json_def dec_pointer_def dec_struct_step tag_zero_def)
qed (simp add: tag_json_def dec_pointer_def)

lemma dec_tags_json: "dec_tags (case ts of None \<Rightarrow> JNull | Some ts \<Rightarrow> JArr (map tag_json ts)) None = (True, ts)"
  by (cases ts) (simp_all add: dec_tags_def dec_slice_def dec_elems_map dec_tag_json)

lemma dec_metadata_json: "dec_struct metadata_field (metadata_json m) metadata_zero = (True, m)"
  unfolding metadata_json_def append_Cons append_Nil
  by (simp add: dec_struct_step dec_struct_omitempty metadata_field_names metadata_zero_def dec_tags_json)

definition metadata_strings :: "keyMetadataRecord \<Rightarrow> string list" where
  "metadata_strings m = [KeyID m, ClientID m, Alias m, Scheme m, ProviderKey m, TransitKey m, Description m,
     KeySpec m, KeyUsage m, CreatedAt m, PublicKey m, Address m]
     @ concat (map (\<lambda>t. case t of None \<Rightarrow> [] | Some t \<Rightarrow> [TagKey t, TagValue t])
         (case Tags m of None \<Rightarrow> [] | Some ts \<Rightarrow> ts))"

definition metadata_utf8 :: "keyMetadataRecord \<Rightarrow> bool" where
  "metadata_utf8 m \<longleftrightarrow> list_all valid_utf8 (metadata_strings m)"

definition nested_json :: "keyMetadataRecord \<Rightarrow> json" where
  "nested_json m = JObj [(''data'', JObj [(''data'', metadata_json m)])]"

lemma wf_tags:
  assumes "\<forall>t \<in> set ts. list_all valid_utf8 (case t of None \<Rightarrow> [] | Some t \<Rightarrow> [TagKey t, TagValue t])"
  shows "wf_json (JArr (map tag_json ts))"
proof -
  have keys: "valid_utf8 ''tag_key''" "valid_utf8 ''tag_value''" by (rule ascii_valid, simp)+
  have "wf_json (tag_json t)" if "t \<in> set ts" for t
    using assms that keys unfolding tag_json_def by (auto split: option.splits)
  then show ?thesis by simp
qed

lemma wf_metadata_json:
  assumes "metadata_utf8 m"
  shows "wf_json (metadata_json m)"
proof -
  have keys: "valid_utf8 ''key_id''" "valid_utf8 ''client_id''" "valid_utf8 ''alias''" "valid_utf8 ''scheme''"
    "valid_utf8 ''provider_key''" "valid_utf8 ''transit_key''" "valid_utf8 ''description''" "valid_utf8 ''key_spec''"
    "valid_utf8 ''key_usage''" "valid_utf8 ''enabled''" "valid_utf8 ''primary_version''" "valid_utf8 ''created_at''"
    "valid_utf8 ''public_key''" "valid_utf8 ''address''" "valid_utf8 ''tags''"
    by (rule ascii_valid, simp)+
  have strings: "list_all valid_utf8 [KeyID m, ClientID m, Alias m, Scheme m, ProviderKey m, TransitKey m,
      Description m, KeySpec m, KeyUsage m, CreatedAt m, PublicKey m, Address m]"
    using assms by (simp add: metadata_utf8_def metadata_strings_def del: valid_utf8.simps)
  have tags: "wf_json (case Tags m of None \<Rightarrow> JNull | Some ts \<Rightarrow> JArr (map tag_json ts))"
  proof (cases "Tags m")
    case (Some ts)
    then have "\<forall>t \<in> set ts. list_all valid_utf8 (case t of None \<Rightarrow> [] | Some t \<Rightarrow> [TagKey t, TagValue t])"
      using assms by (auto simp: metadata_utf8_def metadata_strings_def list_all_iff)
    from wf_tags [OF this] Some show ?thesis by simp
  qed simp
  show ?thesis
    unfolding metadata_json_def wf_JObj_append append_Cons append_Nil wf_JObj_Cons
    using keys strings tags by (intro conjI omitempty_wf) (simp_all del: valid_utf8.simps, blast)
qed

lemma depth_tag: "json_depth (tag_json t) \<le> 1"
  by (auto simp: tag_json_def split: option.split)

lemma depth_metadata: "json_depth (metadata_json m) \<le> 3"
proof -
  have "json_depth (case Tags m of None \<Rightarrow> JNull | Some ts \<Rightarrow> JArr (map tag_json ts)) \<le> Suc 1"
    using depth_tag by (cases "Tags m") (simp_all only: option.case depth_elems set_map ball_simps, simp_all)
  then have "json_depth (metadata_json m) \<le> Suc 2"
    unfolding metadata_json_def depth_members by (auto simp: omitempty_def split: if_splits)
  then show ?thesis by simp
qed

lemma printable_nested:
  assumes "metadata_utf8 m"
  shows "printable (nested_json m)"
proof -
  have "valid_utf8 ''data''" by (rule ascii_valid) simp
  moreover have "json_depth (nested_json m) \<le> Suc (Suc 3)"
    using depth_metadata [of m] unfolding nested_json_def depth_members by (auto simp: depth_members)
  ultimately show ?thesis
    using wf_metadata_json [OF assms] by (simp add: printable_def nested_json_def max_depth_def del: valid_utf8.simps)
qed

interpretation metadata_doc: codec_chain metadata_utf8 nested_json
    "decode_with (dec_data (dec_data (dec_struct metadata_field))) metadata_zero" printable json_print json_parse
  by unfold_locales (simp add: decode_with_def nested_json_def dec_metadata_json, rule printable_nested)

lemma into_metadata:
  "metadata_utf8 m \<Longrightarrow>
   into_data (dec_data (dec_struct metadata_field)) metadata_zero (json_print (nested_json m)) = Some m"
  unfolding into_data_def json_unmarshal_bind by (rule metadata_doc.chain.dec_enc)

text \<open>Without the assumption on the strings: they come back as valid UTF-8.\<close>

definition san_tag :: "pluginTag \<Rightarrow> pluginTag" where
  "san_tag t = \<lparr>TagKey = to_valid (TagKey t), TagValue = to_valid (TagValue t)\<rparr>"

definition san_metadata :: "keyMetadataRecord \<Rightarrow> keyMetadataRecord" where
  "san_metadata m = \<lparr>KeyID = to_valid (KeyID m), ClientID = to_valid (ClientID m), Alias = to_valid (Alias m),
     Scheme = to_valid (Scheme m), ProviderKey = to_valid (ProviderKey m), TransitKey = to_valid (TransitKey m),
     Description = to_valid (Description m), KeySpec = to_valid (KeySpec m), KeyUsage = to_valid (KeyUsage m),
     Enabled = Enabled m, PrimaryVersion = PrimaryVersion m, CreatedAt = to_valid (CreatedAt m),
     PublicKey = to_valid (PublicKey m), Address = to_valid (Address m),
     Tags = map_option (map (map_option san_tag)) (Tags m)\<rparr>"

lemma san_metadata_json: "san_json (nested_json m) = nested_json (san_metadata m)"
proof -
  have keys: "to_valid ''key_id'' = ''key_id''" "to_valid ''client_id'' = ''client_id''" "to_valid ''scheme'' = ''scheme''"
    "to_valid ''description'' = ''description''" "to_valid ''key_spec'' = ''key_spec''"
    "to_valid ''key_usage'' = ''key_usage''" "to_valid ''enabled'' = ''enabled''"
    "to_valid ''primary_version'' = ''primary_version''" "to_valid ''created_at'' = ''created_at''"
    "to_valid ''tags'' = ''tags''" "to_valid ''data'' = ''data''" "to_valid ''tag_key'' = ''tag_key''"
    "to_valid ''tag_value'' = ''tag_value''"
    by (rule to_valid_id, rule ascii_valid, simp)+
  have "san_json (tag_json t) = tag_json (map_option san_tag t)" for t
    by (cases t) (simp_all add: tag_json_def san_tag_def keys del: to_valid.simps)
  then have "san_json (metadata_json m) = metadata_json (san_metadata m)"
    by (cases "Tags m") (simp_all add: metadata_json_def san_metadata_def san_omitempty keys del: to_valid.simps)
  then show ?thesis by (simp add: nested_json_def keys del: to_valid.simps)
qed

lemma nums_ok_metadata: "nums_ok (nested_json m)"
proof -
  have "nums_ok (tag_json t)" for t by (cases t) (simp_all add: tag_json_def)
  then show ?thesis by (cases "Tags m") (auto simp: nested_json_def metadata_json_def omitempty_def)
qed

lemma into_metadata_san:
  "into_data (dec_data (dec_struct metadata_field)) metadata_zero (json_print (nested_json m)) = Some (san_metadata m)"
proof -
  have "json_depth (nested_json m) \<le> Suc (Suc 3)"
    using depth_metadata [of m] unfolding nested_json_def depth_members by (auto simp: depth_members)
  then have "json_parse (json_print (nested_json m)) = Some (nested_json (san_metadata m))"
    using json_parse_printed [OF nums_ok_metadata] by (simp add: max_depth_def san_metadata_json)
  then show ?thesis
    unfolding into_data_def json_unmarshal_def by (simp add: nested_json_def dec_metadata_json)
qed

subsection \<open>Paths\<close>

lemma PathEscape_id: "list_all path_safe s \<Longrightarrow> PathEscape s = s"
  by (induction s) (auto simp: PathEscape_def)

lemma alias_path_safe: "alias_char c \<Longrightarrow> path_safe c"
  by (auto simp: alias_char_def path_safe_def)

lemma keyID_safe: "validateAlias a = Inr () \<Longrightarrow> list_all path_safe (keyIDPrefix @ a)"
  by (auto simp: validateAlias_ok_iff list_all_iff alias_path_safe) (simp_all add: path_safe_def is_alnum_def is_digit_def)

lemma keyID_plain: "validateAlias a = Inr () \<Longrightarrow> plain_seg (keyIDPrefix @ a)"
  by (auto simp: validateAlias_ok_iff list_all_iff plain_seg_def alias_char_def dest: alnum_neq)

lemma metadataPath_form:
  assumes "baseURL c = Some b" "validateAlias a = Inr ()"
  shows "metadataPath c cl (keyIDPrefix @ a) = Some (path_front b [''v1'', kvMount c, ''data'']
    @ ''/kms/metadata/'' @ tenantNamespace cl @ ''/'' @ keyIDPrefix @ a)"
proof -
  have "list_all plain_seg [''kms'', ''metadata'', tenantNamespace cl, keyIDPrefix @ a]"
    using tenantNamespace_plain keyID_plain [OF assms(2)] by (simp add: plain_seg_def)
  moreover have "TrimChar (CHR ''/'') ''v1'' \<noteq> []" by (simp add: TrimChar_plain)
  ultimately show ?thesis
    unfolding metadataPath_def kvPath_def assms(1) PathEscape_id [OF keyID_safe [OF assms(2)]]
    by (subst joinPath_plain) auto
qed

lemma validate_segments_ok_iff:
  "validate_segments f ss = Inr () \<longleftrightarrow> (\<forall>s \<in> set ss. validateKeyStoreSegment f s = Inr ())"
  by (induction ss) (auto simp: rbind_Inr_iff)

lemma segment_ok_iff:
  "validateKeyStoreSegment f s = Inr () \<longleftrightarrow> s \<noteq> [] \<and> s \<noteq> ''.'' \<and> s \<noteq> ''..'' \<and> list_all segment_char s"
  by (auto simp: validateKeyStoreSegment_def)

lemma slash_no_segment_char: "\<not> segment_char (CHR ''/'')"
  by (simp add: segment_char_def is_alnum_def is_digit_def)

lemma segment_plain: "validateKeyStoreSegment f s = Inr () \<Longrightarrow> plain_seg s"
  using slash_no_segment_char by (auto simp: segment_ok_iff plain_seg_def list_all_iff)

lemma keyStorePathParts_plain: "keyStorePathParts v = Inr ps \<Longrightarrow> list_all plain_seg ps"
  by (auto simp: keyStorePathParts_def Let_def rbind_Inr_iff validate_segments_ok_iff list_all_iff
      intro: segment_plain split: if_splits)

lemma keyStorePathParts_Join: "keyStorePathParts v = Inr ps \<Longrightarrow> JoinChar (CHR ''/'') ps = TrimChar (CHR ''/'') v"
  by (auto simp: keyStorePathParts_def Let_def rbind_Inr_iff split: if_splits)

lemma owner_path_form:
  assumes "baseURL c = Some b" "list_all plain_seg ps"
  shows "joinPath (baseURL c) ([''v1'', m, kind, ''owners'', tenantNamespace cl] @ ps) =
    Some (path_front b [''v1'', m, kind] @ ''/owners/'' @ tenantNamespace cl
      @ (if ps = [] then [] else CHR ''/'' # JoinChar (CHR ''/'') ps))"
proof -
  have "list_all plain_seg ([''owners'', tenantNamespace cl] @ ps)"
    using assms(2) tenantNamespace_plain by (simp add: plain_seg_def)
  moreover have "TrimChar (CHR ''/'') ''v1'' \<noteq> []" by (simp add: TrimChar_plain)
  ultimately have "joinPath (Some b) ([''v1'', m, kind] @ [''owners'', tenantNamespace cl] @ ps) =
      Some (path_front b [''v1'', m, kind] @ CHR ''/'' # JoinChar (CHR ''/'') ([''owners'', tenantNamespace cl] @ ps))"
    by (intro joinPath_plain) auto
  then show ?thesis unfolding assms(1) by (cases ps) (simp_all add: JoinChar_Cons)
qed

subsection \<open>Names\<close>

lemma TrimChar_ends: "s \<noteq> [] \<Longrightarrow> hd s \<noteq> c \<Longrightarrow> last s \<noteq> c \<Longrightarrow> TrimChar c s = s"
proof -
  assume a: "s \<noteq> []" "hd s \<noteq> c" "last s \<noteq> c"
  then have "dropWhile (\<lambda>x. x = c) s = s" "dropWhile (\<lambda>x. x = c) (rev s) = rev s"
    by (auto simp: dropWhile_eq_self_iff hd_rev)
  then show "TrimChar c s = s" by (simp add: TrimChar_def TrimRightChar_def)
qed

lemma last_dropWhile_keep: "dropWhile P xs \<noteq> [] \<Longrightarrow> last (dropWhile P xs) = last xs"
  by (induction xs) (auto split: if_splits)

lemma TrimChar_idem: "TrimChar c (TrimChar c s) = TrimChar c s"
proof (cases "TrimChar c s = []")
  case True
  show ?thesis unfolding True by (simp add: TrimChar_def TrimRightChar_def)
next
  case False
  define t where "t = dropWhile (\<lambda>x. x = c) s"
  define u where "u = dropWhile (\<lambda>x. x = c) (rev t)"
  have eq: "TrimChar c s = rev u" by (simp add: TrimChar_def TrimRightChar_def t_def u_def)
  have u: "u \<noteq> []" using False eq by simp
  have "t \<noteq> []" using u by (auto simp: u_def)
  then have "hd t \<noteq> c" using hd_dropWhile [of "\<lambda>x. x = c" s] by (simp add: t_def)
  moreover have "last u = hd t" using last_dropWhile_keep [of _ "rev t"] u \<open>t \<noteq> []\<close> by (simp add: u_def last_rev)
  moreover have "hd u \<noteq> c" using hd_dropWhile [of "\<lambda>x. x = c" "rev t"] u by (simp add: u_def)
  ultimately show ?thesis unfolding eq using u by (intro TrimChar_ends) (simp_all add: hd_rev last_rev)
qed

lemma normalizeKeyStoreName_Inr_iff:
  "normalizeKeyStoreName v = Inr n \<longleftrightarrow>
     n = TrimSpace v \<and> n \<noteq> [] \<and> length n \<le> 256 \<and> hd n \<noteq> CHR ''/'' \<and> last n \<noteq> CHR ''/''
     \<and> (\<forall>s \<in> set (SplitChar (CHR ''/'') n). validateKeyStoreSegment ''name'' s = Inr ())"
proof -
  have "prefix ''/'' s \<longleftrightarrow> hd s = CHR ''/''" if "s \<noteq> []" for s
    using that by (cases s) auto
  moreover have "suffix ''/'' s \<longleftrightarrow> last s = CHR ''/''" if "s \<noteq> []" for s
    using that by (cases s rule: rev_cases) (auto simp: suffix_def)
  ultimately show ?thesis
    by (auto simp: normalizeKeyStoreName_def maxKeyStoreNameLen_def Let_def rbind_Inr_iff validate_segments_ok_iff)
qed

lemma segment_ok_any: "validateKeyStoreSegment f s = Inr () \<longleftrightarrow> validateKeyStoreSegment g s = Inr ()"
  by (simp add: segment_ok_iff)

lemma keyStorePathParts_name:
  assumes "normalizeKeyStoreName v = Inr n"
  shows "keyStorePathParts n = Inr (SplitChar (CHR ''/'') n)"
proof -
  have n: "n \<noteq> []" "TrimChar (CHR ''/'') n = n"
    using assms TrimChar_ends by (auto simp: normalizeKeyStoreName_Inr_iff)
  then show ?thesis
    using assms segment_ok_any [of "''name''" _ "''path''"]
    by (auto simp: keyStorePathParts_def Let_def rbind_Inr_iff validate_segments_ok_iff normalizeKeyStoreName_Inr_iff)
qed

lemma keyStore_paths_of_name:
  assumes "normalizeKeyStoreName v = Inr n" "baseURL c = Some b"
  shows "keyStoreDataPath c cl n = Inr (Some (path_front b [''v1'', keyStoreMount c, ''data'']
      @ ''/owners/'' @ tenantNamespace cl @ ''/'' @ n))"
    and "keyStoreMetadataPath c cl n = Inr (Some (path_front b [''v1'', keyStoreMount c, ''metadata'']
      @ ''/owners/'' @ tenantNamespace cl @ ''/'' @ n))"
proof -
  note p = keyStorePathParts_name [OF assms(1)]
  note j = owner_path_form [OF assms(2) keyStorePathParts_plain [OF p]]
  show "keyStoreDataPath c cl n = Inr (Some (path_front b [''v1'', keyStoreMount c, ''data'']
      @ ''/owners/'' @ tenantNamespace cl @ ''/'' @ n))"
    unfolding keyStoreDataPath_def p rbind_simps j by simp
  show "keyStoreMetadataPath c cl n = Inr (Some (path_front b [''v1'', keyStoreMount c, ''metadata'']
      @ ''/owners/'' @ tenantNamespace cl @ ''/'' @ n))"
    unfolding keyStoreMetadataPath_def p rbind_simps j by simp
qed

lemma keyStoreDataPath_confined:
  assumes "keyStoreDataPath c cl v = Inr t" "baseURL c = Some b"
  shows "\<exists>rest. t = Some (path_front b [''v1'', keyStoreMount c, ''data''] @ ''/owners/'' @ tenantNamespace cl @ rest)
    \<and> (rest = [] \<or> rest = CHR ''/'' # TrimChar (CHR ''/'') v) \<and> (\<forall>s \<in> set (SplitChar (CHR ''/'') rest). s \<noteq> ''..'')"
proof -
  from assms(1) obtain ps where ps: "keyStorePathParts v = Inr ps"
    and t: "t = joinPath (baseURL c) ([''v1'', keyStoreMount c, ''data'', ''owners'', tenantNamespace cl] @ ps)"
    by (auto simp: keyStoreDataPath_def rbind_Inr_iff)
  note pl = keyStorePathParts_plain [OF ps]
  let ?rest = "if ps = [] then [] else CHR ''/'' # JoinChar (CHR ''/'') ps"
  have "set (SplitChar (CHR ''/'') ?rest) \<subseteq> insert [] (set ps)"
    using pl by (simp add: SplitChar_JoinChar list_all_iff plain_seg_def)
  then have "\<forall>s \<in> set (SplitChar (CHR ''/'') ?rest). s \<noteq> ''..''"
    using pl by (auto simp: list_all_iff plain_seg_def)
  then show ?thesis
    using owner_path_form [OF assms(2) pl] t keyStorePathParts_Join [OF ps] by auto
qed

lemma TrimSuffix_slash: "suffix ''/'' key \<Longrightarrow> key = TrimSuffix ''/'' key @ ''/''"
  by (auto simp: TrimSuffix_def suffix_def)

lemma TrimChar_segment: "validateKeyStoreSegment f s = Inr () \<Longrightarrow> TrimChar (CHR ''/'') s = s"
  using segment_plain by (intro TrimChar_plain) (auto simp: plain_seg_def)

lemma normalizeKeyStorePrefix_Inr:
  assumes "normalizeKeyStorePrefix v = Inr p"
  shows "TrimChar (CHR ''/'') p = p" "p \<noteq> [] \<Longrightarrow> list_all plain_seg (SplitChar (CHR ''/'') p)"
proof -
  have p: "p = TrimChar (CHR ''/'') (TrimSpace v)"
    and seg: "p \<noteq> [] \<Longrightarrow> \<forall>s \<in> set (SplitChar (CHR ''/'') p). validateKeyStoreSegment ''prefix'' s = Inr ()"
    using assms by (auto simp: normalizeKeyStorePrefix_def Let_def rbind_Inr_iff validate_segments_ok_iff split: if_splits)
  show "TrimChar (CHR ''/'') p = p" using p TrimChar_idem by simp
  show "p \<noteq> [] \<Longrightarrow> list_all plain_seg (SplitChar (CHR ''/'') p)"
    using seg segment_plain by (auto simp: list_all_iff)
qed

lemma listed_name_Some:
  assumes "listed_name p key = Some n" "normalizeKeyStorePrefix v = Inr p"
  shows "\<exists>seg. plain_seg seg \<and> (key = seg \<or> key = seg @ ''/'')
    \<and> n = (if p = [] then key else p @ ''/'' @ key) \<and> length n \<le> 257"
proof -
  let ?seg = "TrimSuffix ''/'' key"
  from assms(1) have ok: "validateKeyStoreSegment ''path'' ?seg = Inr ()"
    and len: "length (joinKeyStoreName p ?seg) \<le> 256"
    and n: "n = (if suffix ''/'' key then joinKeyStoreName p ?seg @ ''/'' else joinKeyStoreName p ?seg)"
    by (auto simp: listed_name_def maxKeyStoreNameLen_def Let_def split: sum.splits if_splits)
  have pl: "plain_seg ?seg" using segment_plain [OF ok] .
  then have "?seg \<noteq> []" by (simp add: plain_seg_def)
  then have j: "joinKeyStoreName p ?seg = (if p = [] then ?seg else p @ ''/'' @ ?seg)"
    using normalizeKeyStorePrefix_Inr(1) [OF assms(2)] TrimChar_segment [OF ok]
    by (simp add: joinKeyStoreName_def Let_def)
  show ?thesis
  proof (cases "suffix ''/'' key")
    case True
    then have key: "key = ?seg @ ''/''" by (rule TrimSuffix_slash)
    have "n = (if p = [] then ?seg @ ''/'' else p @ ''/'' @ ?seg @ ''/'')" using n j True by simp
    then have "n = (if p = [] then key else p @ ''/'' @ key)" unfolding key [symmetric] .
    moreover have "length n \<le> 257" using n len True by simp
    ultimately show ?thesis using key pl by blast
  next
    case False
    then have "?seg = key" by (simp add: TrimSuffix_def)
    then show ?thesis using n j len pl False by (intro exI [of _ ?seg]) auto
  qed
qed

lemma getMetadata_of_stored:
  assumes "metadataPath c cl k = Some t" "metadata_utf8 m"
    and "srv w \<lparr>req_method = GET, req_path = t, req_body = []\<rparr> = (Response 200 st (json_print (nested_json m)), w')"
  shows "getMetadata srv c cl k w =
    (if ClientID m = [] \<or> ClientID m = cl then Ok (metadata_normalize m) else Err OwnerMismatch, w')"
proof -
  have "Get srv t (into_data (dec_data (dec_struct metadata_field)) metadata_zero) w = (Ok m, w')"
    using assms(3) into_metadata [OF assms(2)] by (simp add: Get_def do_request_def)
  moreover have "ClientID (metadata_normalize m) = ClientID m" by (simp add: metadata_normalize_def Let_def)
  ultimately show ?thesis
    by (simp add: getMetadata_def assms(1) andThen_def wrapErr_def attempt_def Let_def)
qed

section \<open>Properties\<close>

text \<open>
  Stored metadata is read back. When the server answers the read of a key's metadata path with what
  \<^verbatim>\<open>putMetadata\<close> wrote for a record (under \<^verbatim>\<open>data.data\<close>, as a version-2 key-value store does), \<^verbatim>\<open>getMetadata\<close>
  returns that record with its defaults filled in, or refuses when the record names another client.
\<close>

theorem getMetadata_reads_back:
  assumes "metadataPath c cl k = Some t" "metadata_utf8 m"
    and "srv w \<lparr>req_method = GET, req_path = t, req_body = []\<rparr> = (Response 200 st (json_print (nested_json m)), w')"
  shows "getMetadata srv c cl k w =
    (if ClientID m = [] \<or> ClientID m = cl then Ok (metadata_normalize m) else Err OwnerMismatch, w')"
  using assms by (rule getMetadata_of_stored)

definition client0 :: openBaoClient where
  "client0 = \<lparr>baseURL = Some [], ethereumMount = ''ethereum'', keyStoreMount = ''key-store'', kvMount = ''secret'',
     pqcMount = ''pqc'', transitMount = ''transit''\<rparr>"

theorem getMetadata_reads_back_witness:
  "getMetadata (\<lambda>w r. (Response 200 ''200 OK'' (json_print (nested_json metadata_zero)), w)) client0 ''c'' ''kms:k'' ()
     = (Ok (metadata_normalize metadata_zero), ())"
proof -
  have v: "validateAlias ''k'' = Inr ()" by (simp add: validateAlias_ok_iff alias_char_def is_alnum_def is_digit_def)
  have "\<exists>t. metadataPath client0 ''c'' ''kms:k'' = Some t"
    using metadataPath_form [of client0 "[]" "''k''" "''c''", OF _ v] by (simp add: client0_def)
  then obtain t where t: "metadataPath client0 ''c'' ''kms:k'' = Some t" ..
  have "metadata_utf8 metadata_zero" by (simp add: metadata_utf8_def metadata_strings_def metadata_zero_def)
  from getMetadata_reads_back [OF t this, of _ "()"] show ?thesis by (simp add: metadata_zero_def)
qed

text \<open>
  Key-store paths stay in the owner's directory. Whatever name is given, if a path is built at all it is a
  prefix fixed by the configuration, then \<^verbatim>\<open>/owners/\<close>, the caller's tenant namespace, and nothing or the name; no
  element of it is \<^verbatim>\<open>..\<close>. For normalised names the path determines both the tenant and the name.
\<close>

theorem keyStore_paths_confined:
  assumes "baseURL c = Some b"
  shows "(\<forall>t. keyStoreDataPath c cl v = Inr t \<longrightarrow>
      (\<exists>rest. t = Some (path_front b [''v1'', keyStoreMount c, ''data''] @ ''/owners/'' @ tenantNamespace cl @ rest)
        \<and> (rest = [] \<or> rest = CHR ''/'' # TrimChar (CHR ''/'') v)
        \<and> (\<forall>s \<in> set (SplitChar (CHR ''/'') rest). s \<noteq> ''..'')))
    \<and> (\<forall>n n' x x'. normalizeKeyStoreName x = Inr n \<and> normalizeKeyStoreName x' = Inr n'
        \<and> keyStoreDataPath c cl n = keyStoreDataPath c cl' n' \<longrightarrow> tenantNamespace cl = tenantNamespace cl' \<and> n = n')"
  using keyStoreDataPath_confined [OF _ assms] keyStore_paths_of_name(1) [OF _ assms]
  by (auto simp: append_eq_append_conv)

theorem keyStore_paths_confined_witness:
  "keyStoreDataPath client0 ''c'' ''a/../b'' = Inl (InvalidSegment ''path'')
   \<and> (\<exists>rest. keyStoreDataPath client0 ''c'' ''a'' = Inr (Some (path_front [] [''v1'', ''key-store'', ''data'']
        @ ''/owners/'' @ tenantNamespace ''c'' @ rest)))"
proof -
  have "keyStoreDataPath client0 ''c'' ''a/../b'' = Inl (InvalidSegment ''path'')"
    by (simp add: keyStoreDataPath_def keyStorePathParts_def TrimChar_def TrimRightChar_def Let_def
        validateKeyStoreSegment_def segment_char_def is_alnum_def is_digit_def)
  moreover have "\<exists>t. keyStoreDataPath client0 ''c'' ''a'' = Inr t"
    by (simp add: keyStoreDataPath_def keyStorePathParts_def TrimChar_def TrimRightChar_def Let_def
        validateKeyStoreSegment_def segment_char_def is_alnum_def is_digit_def)
  moreover have "baseURL client0 = Some []" by (simp add: client0_def)
  note k = keyStore_paths_confined [OF this, of "''c''" "''a''" "''c''", THEN conjunct1, rule_format]
  have "keyStoreMount client0 = ''key-store''" by (simp add: client0_def)
  ultimately show ?thesis using k by metis
qed

text \<open>
  What a listing contains. Every name returned for a normalised prefix is a key of the server's answer put behind
  that prefix, the key being a plain path segment or a folder (with a final slash); names of more than 256
  characters are left out and the result is sorted.
\<close>

theorem listKeyStoreSecrets_names:
  assumes "normalizeKeyStorePrefix v = Inr p" "listKeyStoreSecrets srv c cl p w = (Ok names, w')"
  shows "sorted names \<and> (\<forall>n \<in> set names. \<exists>key seg. plain_seg seg \<and> (key = seg \<or> key = seg @ ''/'')
    \<and> n = (if p = [] then key else p @ ''/'' @ key) \<and> length n \<le> 257)"
proof -
  from assms(2) obtain keys where names: "names = sort (List.map_filter (listed_name p) keys)"
    by (auto simp: listKeyStoreSecrets_def act_Ok ret_def)
  have "\<exists>key. listed_name p key = Some n" if "n \<in> set names" for n
    using that names by (auto simp: map_filter_def)
  then show ?thesis using names listed_name_Some [OF _ assms(1)] by (metis sorted_sort)
qed

theorem listKeyStoreSecrets_names_witness:
  "\<exists>names. listKeyStoreSecrets
      (\<lambda>w r. (Response 200 [] (json_print (JObj [(''data'', JObj [(''keys'', JArr [JStr ''b'', JStr ''a/''])])])), w))
      client0 ''c'' [] () = (Ok names, ()) \<and> sorted names \<and> set names = {''b'', ''a/''}"
proof -
  define j where "j = JObj [(''data'', JObj [(''keys'', JArr [JStr ''b'', JStr ''a/''])])]"
  let ?srv = "\<lambda>w r. (Response 200 [] (json_print j), w)"
  have "printable j" by (simp add: j_def printable_def max_depth_def rune_len_ascii)
  then have parse: "json_parse (json_print j) = Some j" by (rule json.dec_enc)
  have into: "into_data (dec_single ''keys'' (dec_slice dec_string [])) None (json_print j) = Some (Some [''b'', ''a/''])"
    unfolding into_data_def json_unmarshal_def parse option.case
    by (simp add: j_def dec_single_def dec_struct_def dec_slice_def)
  have listed: "listed_name [] ''b'' = Some ''b''" "listed_name [] ''a/'' = Some ''a/''"
    by (simp_all add: listed_name_def validateKeyStoreSegment_def segment_char_def is_alnum_def is_digit_def
        TrimSuffix_def suffix_def joinKeyStoreName_def TrimChar_def TrimRightChar_def maxKeyStoreNameLen_def)
  obtain t where t: "keyStoreMetadataPath client0 ''c'' [] = Inr (Some t)"
    by (simp add: keyStoreMetadataPath_def keyStorePathParts_def TrimChar_def TrimRightChar_def client0_def
        joinPath_def Let_def)
  have names: "listKeyStoreSecrets ?srv client0 ''c'' [] () = (Ok (sort [''b'', ''a/'']), ())"
    by (simp add: listKeyStoreSecrets_def keyStoreTarget_def t andThen_def wrapErr_def attempt_def List_def
        do_request_def into listed map_filter_simps del: sort_key_simps)
  have "normalizeKeyStorePrefix [] = Inr []" by (simp add: normalizeKeyStorePrefix_def TrimChar_def TrimRightChar_def)
  from listKeyStoreSecrets_names [OF this names] names show ?thesis unfolding j_def
    by (intro exI [of _ "sort [''b'', ''a/'']"]) (simp del: sort_key_simps)
qed

end
