(* ===== verification/KmsProviders.thy ===== *)
theory KmsProviders
  imports KmsClient
begin

text \<open>
  The three key providers of the KMS plugin (\<^verbatim>\<open>kms/provider.go\<close>, \<^verbatim>\<open>provider_capabilities.go\<close>, \<^verbatim>\<open>public_key.go\<close>,
  \<^verbatim>\<open>transit_provider.go\<close>, \<^verbatim>\<open>ethereum_provider.go\<close>, \<^verbatim>\<open>pqc_provider.go\<close>). An error is a gRPC code with the reason.
  Parameters, besides the server: the hash \<open>keccak\<close> of \<^verbatim>\<open>golang.org/x/crypto/sha3\<close>, and \<open>mlkem\<close>, the encapsulation of
  \<^verbatim>\<open>crypto/mlkem\<close> for the parameter sets 768 and 1024 (\<open>None\<close> when the key does not parse; the random coins of the
  call are part of the function). \<open>now\<close> is the clock's reading in RFC 3339 form.
\<close>

section \<open>Messages\<close>

record CreateKeyRequest =
  ck_ClientId :: string
  ck_Alias :: string
  ck_Description :: string
  ck_KeySpec :: string
  ck_KeyUsage :: string
  ck_Scheme :: "string option"
  ck_Tags :: "pluginTag list"

record EncryptRequest =
  en_ClientId :: string
  en_KeyId :: string
  en_Plaintext :: string
  en_EncryptionAlgorithm :: "string option"

record EncryptResponse =
  er_CiphertextBlob :: string
  er_KeyId :: string
  er_EncryptionAlgorithm :: string

record DecryptRequest =
  de_ClientId :: string
  de_CiphertextBlob :: string
  de_KeyId :: "string option"

record DecryptResponse =
  dr_Plaintext :: string
  dr_KeyId :: string
  dr_EncryptionAlgorithm :: string

record SignRequest =
  si_ClientId :: string
  si_KeyId :: string
  si_Message :: string
  si_MessageType :: "string option"
  si_SigningAlgorithm :: string

record SignResponse =
  sr_KeyId :: string
  sr_Signature :: string
  sr_SigningAlgorithm :: string
  sr_KeyVersion :: u32

record EncapsulateRequest =
  ec_ClientId :: string
  ec_KeyId :: string

record EncapsulateResponse =
  eo_KeyId :: string
  eo_Ciphertext :: string
  eo_SharedKey :: string
  eo_KeyAgreementAlgorithm :: string

record DecapsulateRequest =
  dc_ClientId :: string
  dc_KeyId :: string
  dc_Ciphertext :: string

record DecapsulateResponse =
  do_KeyId :: string
  do_KeyAgreementAlgorithm :: string
  do_SharedKey :: string

record GenerateDataKeyRequest =
  gd_ClientId :: string
  gd_KeyId :: string
  gd_DataKeySpec :: "string option"
  gd_NumberOfBytes :: "u32 option"

record GenerateDataKeyResponse =
  gr_KeyId :: string
  gr_Plaintext :: string
  gr_CiphertextBlob :: string

record publicKeyRecord =
  pk_PublicKey :: string
  pk_Version :: u32

datatype transit_error =
    NoEncryption | NoSigning | NoPublicKey | PublicKeyVersionNotFound | NoDataKey

datatype ethereum_error =
    NoEthereumSigning | EthereumAlgorithm | EthereumMessageType | RawNotBase64 | DigestEncoding | DigestLength
  | HashMismatch | MethodMismatch

datatype pqc_error =
    KeyVariantMismatch | UnsupportedPQCKeySpec string | NoPQCSigning | PQCAlgorithm | PQCMessageType
  | PQCMessageNotBase64 | SignatureMissing | SignVariantMismatch | SignatureNotBase64

datatype mlkem_error =
    NoPQCAgreement | PublicKeyMissing | PublicKeyNotBase64 | PublicKeySize nat | PublicKeyParse
  | UnsupportedMLKEMSpec string | CiphertextNotBase64 | DecapVariantMismatch | SharedKeyMissing
  | SharedKeyNotBase64

datatype capability_error =
    NoCipher string | NoSigner string | NoPublicKeys string | NoKeyAgreement string | NoDataKeys string
  | NoRotation string

datatype request_error =
    ClientIDRequired | AliasExists | KeyNotOwned | KeyIdMismatch | BlobNotOwned | VersionZero

datatype store_error =
    SecretNotObject | SecretTrailing | DeniedByPolicy | KeyStoreBackend | EntryNotFound | EntryNotOwned
  | StoredSecretInvalid

datatype kms_error =
    NameErr name_error | BaoErr bao_error | ClientErr client_error | BlobErr blob_error | KeyNameErr key_name_error
  | TransitErr transit_error | EthereumErr ethereum_error | PQCErr pqc_error | MLKEMErr mlkem_error
  | Unsupported capability_error | RequestErr request_error | StoreErr store_error

type_synonym status = "grpc_code \<times> kms_error"
type_synonym mlkem_fun = "nat \<Rightarrow> bytes \<Rightarrow> (bytes \<times> bytes) option"

definition named :: "grpc_code \<Rightarrow> name_error + 'a \<Rightarrow> ('w, status, 'a) act" where
  "named code r = check (rmap_err (\<lambda>e. (code, NameErr e)) r)"

definition internal :: "('w, bao_error, 'a) act \<Rightarrow> ('w, status, 'a) act" where
  "internal m = wrapErr (\<lambda>e. (Internal, BaoErr e)) m"

definition toRecordTags :: "pluginTag list \<Rightarrow> pluginTag option list option" where
  "toRecordTags tags = Some (map (\<lambda>t. Some \<lparr>TagKey = TagKey t, TagValue = TagValue t\<rparr>) tags)"

section \<open>Public keys from metadata\<close>

definition publicKeyFromMetadata :: "keyMetadataRecord \<Rightarrow> u32 \<Rightarrow> ('w, status, publicKeyRecord) act" where
  "publicKeyFromMetadata metadata version0 =
     andThen (require (PublicKey metadata \<noteq> []) (FailedPrecondition, TransitErr NoPublicKey)) (\<lambda>_.
       let version = (if version0 = 0 then PrimaryVersion metadata else version0)
       in andThen (require (version = PrimaryVersion metadata) (NotFound, TransitErr PublicKeyVersionNotFound)) (\<lambda>_.
            ret \<lparr>pk_PublicKey = PublicKey metadata, pk_Version = version\<rparr>))"

section \<open>Transit\<close>

definition transit_CreateKey ::
    "'w server \<Rightarrow> openBaoClient \<Rightarrow> CreateKeyRequest \<Rightarrow> string \<Rightarrow> string \<Rightarrow> ('w, status, keyMetadataRecord) act" where
  "transit_CreateKey srv c req keyID now =
     andThen (named InvalidArgument (validateTransitKeyUsage (ck_KeySpec req) (ck_KeyUsage req))) (\<lambda>_.
     andThen (named InvalidArgument (validateTransitKeySpec (ck_KeySpec req))) (\<lambda>_.
     andThen (named InvalidArgument (transitKeyType (ck_KeySpec req))) (\<lambda>keyType.
     andThen (named Internal (scopedBackendKey (ck_ClientId req) (ck_Alias req))) (\<lambda>providerKey.
     andThen (internal (createTransitKey srv c providerKey keyType)) (\<lambda>transitInfo.
       ret \<lparr>KeyID = keyID, ClientID = ck_ClientId req, Alias = ck_Alias req, Scheme = schemeTransit,
            ProviderKey = providerKey, TransitKey = [], Description = ck_Description req,
            KeySpec = ck_KeySpec req, KeyUsage = ck_KeyUsage req, Enabled = True,
            PrimaryVersion = LatestVersion transitInfo, CreatedAt = now,
            PublicKey = exportedPublicKey transitInfo, Address = [], Tags = toRecordTags (ck_Tags req)\<rparr>)))))"

definition transit_Encrypt ::
    "'w server \<Rightarrow> openBaoClient \<Rightarrow> keyMetadataRecord \<Rightarrow> EncryptRequest \<Rightarrow> ('w, status, EncryptResponse) act" where
  "transit_Encrypt srv c metadata req =
     andThen (named InvalidArgument (normalizeEncryptionAlgorithm (optionalString (en_EncryptionAlgorithm req)))) (\<lambda>algorithm.
     andThen (require (supportsEncryption (KeySpec metadata) \<and> KeyUsage metadata = encryptDecryptUsage)
       (FailedPrecondition, TransitErr NoEncryption)) (\<lambda>_.
     andThen (internal (bao_encrypt srv c (metadata_backendKey metadata) (en_Plaintext req))) (\<lambda>ciphertext.
       ret \<lparr>er_CiphertextBlob = encodeCiphertextBlob (Scheme metadata) (KeyID metadata)
              (metadata_backendKey metadata) ciphertext algorithm,
            er_KeyId = KeyID metadata, er_EncryptionAlgorithm = algorithm\<rparr>)))"

definition transit_Decrypt ::
    "'w server \<Rightarrow> openBaoClient \<Rightarrow> ciphertextBlob \<Rightarrow> DecryptRequest \<Rightarrow> ('w, status, DecryptResponse) act" where
  "transit_Decrypt srv c blob req =
     andThen (internal (bao_decrypt srv c (blob_backendKey blob) (bCiphertext blob))) (\<lambda>plaintext.
       ret \<lparr>dr_Plaintext = plaintext, dr_KeyId = bKeyID blob, dr_EncryptionAlgorithm = bAlgorithm blob\<rparr>)"

definition transit_Sign ::
    "'w server \<Rightarrow> openBaoClient \<Rightarrow> keyMetadataRecord \<Rightarrow> SignRequest \<Rightarrow> ('w, status, SignResponse) act" where
  "transit_Sign srv c metadata req =
     andThen (named InvalidArgument (signingConfig (si_SigningAlgorithm req) (optionalString (si_MessageType req)))) (\<lambda>mapping.
     andThen (require (supportsSigning (KeySpec metadata) \<and> KeyUsage metadata = signVerifyUsage)
       (FailedPrecondition, TransitErr NoSigning)) (\<lambda>_.
     andThen (internal (bao_sign srv c (metadata_backendKey metadata) (si_Message req) mapping (PrimaryVersion metadata))) (\<lambda>signature.
       ret \<lparr>sr_KeyId = KeyID metadata, sr_Signature = signature, sr_SigningAlgorithm = si_SigningAlgorithm req,
            sr_KeyVersion = 0\<rparr>)))"

definition transit_GetPublicKey ::
    "'w server \<Rightarrow> openBaoClient \<Rightarrow> keyMetadataRecord \<Rightarrow> u32 \<Rightarrow> ('w, status, publicKeyRecord) act" where
  "transit_GetPublicKey srv c metadata version0 =
     andThen (require (supportsSigning (KeySpec metadata) \<and> KeyUsage metadata = signVerifyUsage)
       (FailedPrecondition, TransitErr NoPublicKey)) (\<lambda>_.
     andThen (internal (readTransitKey srv c (metadata_backendKey metadata))) (\<lambda>transitInfo.
       let version = (if version0 = 0 then PrimaryVersion metadata else version0);
           publicKey = publicKeyForVersion transitInfo version
       in andThen (require (publicKey \<noteq> []) (NotFound, TransitErr PublicKeyVersionNotFound)) (\<lambda>_.
            ret \<lparr>pk_PublicKey = publicKey, pk_Version = version\<rparr>)))"

definition transit_GenerateDataKey ::
    "'w server \<Rightarrow> openBaoClient \<Rightarrow> keyMetadataRecord \<Rightarrow> GenerateDataKeyRequest \<Rightarrow> ('w, status, GenerateDataKeyResponse) act" where
  "transit_GenerateDataKey srv c metadata req =
     andThen (require (supportsEncryption (KeySpec metadata) \<and> KeyUsage metadata = encryptDecryptUsage)
       (FailedPrecondition, TransitErr NoDataKey)) (\<lambda>_.
     andThen (named InvalidArgument (dataKeyBits (optionalString (gd_DataKeySpec req)) (optionalUint32 (gd_NumberOfBytes req)))) (\<lambda>bits.
     andThen (internal (generateDataKey srv c (metadata_backendKey metadata) bits)) (\<lambda>(plaintext, ciphertext).
       ret \<lparr>gr_KeyId = KeyID metadata, gr_Plaintext = plaintext,
            gr_CiphertextBlob = encodeCiphertextBlob (Scheme metadata) (KeyID metadata)
              (metadata_backendKey metadata) ciphertext encryptionAlgorithmAES256GCM96\<rparr>)))"

definition transit_RotateKey ::
    "'w server \<Rightarrow> openBaoClient \<Rightarrow> keyMetadataRecord \<Rightarrow> ('w, status, keyMetadataRecord) act" where
  "transit_RotateKey srv c metadata =
     andThen (internal (rotateTransitKey srv c (metadata_backendKey metadata))) (\<lambda>transitInfo.
       ret (metadata\<lparr>PrimaryVersion := LatestVersion transitInfo, PublicKey := exportedPublicKey transitInfo\<rparr>))"

section \<open>Ethereum\<close>

definition ethereum_CreateKey ::
    "'w server \<Rightarrow> openBaoClient \<Rightarrow> CreateKeyRequest \<Rightarrow> string \<Rightarrow> string \<Rightarrow> ('w, status, keyMetadataRecord) act" where
  "ethereum_CreateKey srv c req keyID now =
     andThen (named InvalidArgument (validateEthereumKeyUsage (ck_KeySpec req) (ck_KeyUsage req))) (\<lambda>_.
     andThen (named Internal (scopedBackendKey (ck_ClientId req) (ck_Alias req))) (\<lambda>providerKey.
     andThen (internal (createEthereumKey srv c providerKey)) (\<lambda>keyInfo.
       let createdAt = (if eCreatedAt keyInfo = [] then now else eCreatedAt keyInfo)
       in ret \<lparr>KeyID = keyID, ClientID = ck_ClientId req, Alias = ck_Alias req, Scheme = schemeEthereum,
            ProviderKey = providerKey, TransitKey = [], Description = ck_Description req,
            KeySpec = ck_KeySpec req, KeyUsage = ck_KeyUsage req, Enabled = True,
            PrimaryVersion = 1, CreatedAt = createdAt,
            PublicKey = ePublicKey keyInfo, Address = eAddress keyInfo, Tags = toRecordTags (ck_Tags req)\<rparr>)))"

definition rawEthereumHash :: "(bytes \<Rightarrow> bytes) \<Rightarrow> string \<Rightarrow> kms_error + string" where
  "rawEthereumHash keccak message =
     (case std_decode message of
        None \<Rightarrow> Inl (EthereumErr RawNotBase64)
      | Some rawBytes \<Rightarrow> Inr (''0x'' @ hex_encode (keccak rawBytes)))"

definition normalizeEthereumDigest :: "string \<Rightarrow> kms_error + string" where
  "normalizeEthereumDigest message =
     (case (if prefix ''0x'' message \<or> prefix ''0X'' message then hex_decode (drop 2 message)
            else std_decode message) of
        None \<Rightarrow> Inl (EthereumErr DigestEncoding)
      | Some rawBytes \<Rightarrow>
          if length rawBytes \<noteq> 32 then Inl (EthereumErr DigestLength) else Inr (''0x'' @ hex_encode rawBytes))"

definition validateEthereumHashSignResponse :: "ethereumSignInfo \<Rightarrow> string \<Rightarrow> string \<Rightarrow> kms_error + unit" where
  "validateEthereumHashSignResponse signResp expectedHash expectedMethod =
     (if sHash signResp \<noteq> expectedHash then Inl (EthereumErr HashMismatch)
      else if sMethod signResp \<noteq> expectedMethod then Inl (EthereumErr MethodMismatch)
      else Inr ())"

text \<open>Signing a hash, for the message types \<^verbatim>\<open>RAW\<close> and \<^verbatim>\<open>DIGEST\<close>: the response must name the hash that was sent.\<close>

definition ethereum_sign_hash ::
    "'w server \<Rightarrow> openBaoClient \<Rightarrow> keyMetadataRecord \<Rightarrow> kms_error + string \<Rightarrow> ('w, status, ethereumSignInfo) act" where
  "ethereum_sign_hash srv c metadata hash =
     andThen (check (rmap_err (\<lambda>e. (InvalidArgument, e)) hash)) (\<lambda>hashHex.
     andThen (internal (signEthereumHash srv c (metadata_backendKey metadata) hashHex)) (\<lambda>signResp.
     andThen (check (rmap_err (\<lambda>e. (Internal, e))
       (validateEthereumHashSignResponse signResp hashHex ethereumSignMethodRawHash))) (\<lambda>_. ret signResp)))"

definition ethereum_Sign ::
    "'w server \<Rightarrow> openBaoClient \<Rightarrow> (bytes \<Rightarrow> bytes) \<Rightarrow> keyMetadataRecord \<Rightarrow> SignRequest \<Rightarrow> ('w, status, SignResponse) act" where
  "ethereum_Sign srv c keccak metadata req =
     andThen (require (KeySpec metadata = keySpecECCSecgP256K1 \<and> KeyUsage metadata = signVerifyUsage)
       (FailedPrecondition, EthereumErr NoEthereumSigning)) (\<lambda>_.
     andThen (require (si_SigningAlgorithm req = signingAlgorithmEthereumSecp256k1)
       (InvalidArgument, EthereumErr EthereumAlgorithm)) (\<lambda>_.
     andThen
       (let messageType = optionalString (si_MessageType req)
        in if messageType = [] \<or> messageType = messageTypeRaw then
             ethereum_sign_hash srv c metadata (rawEthereumHash keccak (si_Message req))
           else if messageType = messageTypeEIP191 then
             internal (signEthereumMessage srv c (metadata_backendKey metadata) (si_Message req))
           else if messageType = messageTypeDigest then
             ethereum_sign_hash srv c metadata (normalizeEthereumDigest (si_Message req))
           else fail (InvalidArgument, EthereumErr EthereumMessageType))
       (\<lambda>signResp. ret \<lparr>sr_KeyId = KeyID metadata, sr_Signature = sSignature signResp,
          sr_SigningAlgorithm = si_SigningAlgorithm req, sr_KeyVersion = 0\<rparr>)))"

definition ethereum_GetPublicKey :: "keyMetadataRecord \<Rightarrow> u32 \<Rightarrow> ('w, status, publicKeyRecord) act" where
  "ethereum_GetPublicKey metadata version = publicKeyFromMetadata metadata version"

section \<open>Post-quantum keys\<close>

definition createPQCKey ::
    "'w server \<Rightarrow> openBaoClient \<Rightarrow> string \<Rightarrow> string \<Rightarrow> ('w, status, pqcKeyInfo \<times> string) act" where
  "createPQCKey srv c providerKey keySpec =
     (if isPQCSigningKey keySpec then
        andThen (named InvalidArgument (pqcMLDSAVariant keySpec)) (\<lambda>variant.
        andThen (internal (bao_createPQCKey srv c providerKey variant)) (\<lambda>keyInfo. ret (keyInfo, variant)))
      else if isPQCKEMKey keySpec then
        andThen (named InvalidArgument (pqcMLKEMVariant keySpec)) (\<lambda>variant.
        andThen (internal (createPQCKEMKey srv c providerKey variant)) (\<lambda>keyInfo. ret (keyInfo, variant)))
      else fail (InvalidArgument, PQCErr (UnsupportedPQCKeySpec keySpec)))"

definition pqc_CreateKey ::
    "'w server \<Rightarrow> openBaoClient \<Rightarrow> CreateKeyRequest \<Rightarrow> string \<Rightarrow> string \<Rightarrow> ('w, status, keyMetadataRecord) act" where
  "pqc_CreateKey srv c req keyID now =
     andThen (named InvalidArgument (validatePQCKeyUsage (ck_KeySpec req) (ck_KeyUsage req))) (\<lambda>_.
     andThen (named Internal (scopedBackendKey (ck_ClientId req) (ck_Alias req))) (\<lambda>providerKey.
     andThen (createPQCKey srv c providerKey (ck_KeySpec req)) (\<lambda>(keyInfo, variant).
     andThen (require (pVariant keyInfo = [] \<or> pVariant keyInfo = variant) (Internal, PQCErr KeyVariantMismatch)) (\<lambda>_.
       let createdAt = (if pCreatedAt keyInfo = [] then now else pCreatedAt keyInfo);
           version = (if pVersion keyInfo = 0 then 1 else pVersion keyInfo)
       in ret \<lparr>KeyID = keyID, ClientID = ck_ClientId req, Alias = ck_Alias req, Scheme = schemePQC,
            ProviderKey = providerKey, TransitKey = [], Description = ck_Description req,
            KeySpec = ck_KeySpec req, KeyUsage = ck_KeyUsage req, Enabled = True,
            PrimaryVersion = version, CreatedAt = createdAt,
            PublicKey = pPublicKey keyInfo, Address = [], Tags = toRecordTags (ck_Tags req)\<rparr>))))"

text \<open>\<^verbatim>\<open>if err := validatePQCKeyUsage(...); err != nil\<close> with an error of its own.\<close>

definition pqc_usage_ok :: "keyMetadataRecord \<Rightarrow> bool" where
  "pqc_usage_ok metadata \<longleftrightarrow> validatePQCKeyUsage (KeySpec metadata) (KeyUsage metadata) = Inr ()"

definition pqc_Sign ::
    "'w server \<Rightarrow> openBaoClient \<Rightarrow> keyMetadataRecord \<Rightarrow> SignRequest \<Rightarrow> ('w, status, SignResponse) act" where
  "pqc_Sign srv c metadata req =
     andThen (require (pqc_usage_ok metadata) (FailedPrecondition, PQCErr NoPQCSigning)) (\<lambda>_.
     andThen (require (isPQCSigningKey (KeySpec metadata)) (FailedPrecondition, PQCErr NoPQCSigning)) (\<lambda>_.
     andThen (require (si_SigningAlgorithm req = signingAlgorithmMLDSA) (InvalidArgument, PQCErr PQCAlgorithm)) (\<lambda>_.
     andThen (require (optionalString (si_MessageType req) = [] \<or> optionalString (si_MessageType req) = messageTypeRaw)
       (InvalidArgument, PQCErr PQCMessageType)) (\<lambda>_.
     andThen (require (std_decode (si_Message req) \<noteq> None) (InvalidArgument, PQCErr PQCMessageNotBase64)) (\<lambda>_.
     andThen (internal (signPQC srv c (metadata_backendKey metadata) (si_Message req))) (\<lambda>signResp.
     andThen (named Internal (pqcMLDSAVariant (KeySpec metadata))) (\<lambda>variant.
     andThen (require (qSignature signResp \<noteq> []) (Internal, PQCErr SignatureMissing)) (\<lambda>_.
     andThen (require (qVariant signResp = [] \<or> qVariant signResp = variant) (Internal, PQCErr SignVariantMismatch)) (\<lambda>_.
     andThen (require (std_decode (qSignature signResp) \<noteq> None) (Internal, PQCErr SignatureNotBase64)) (\<lambda>_.
       ret \<lparr>sr_KeyId = KeyID metadata, sr_Signature = qSignature signResp,
            sr_SigningAlgorithm = si_SigningAlgorithm req, sr_KeyVersion = 0\<rparr>))))))))))"

definition pqc_GetPublicKey :: "keyMetadataRecord \<Rightarrow> u32 \<Rightarrow> ('w, status, publicKeyRecord) act" where
  "pqc_GetPublicKey metadata version = publicKeyFromMetadata metadata version"

text \<open>The sizes \<^verbatim>\<open>EncapsulationKeySize768\<close> and \<^verbatim>\<open>EncapsulationKeySize1024\<close> of \<^verbatim>\<open>crypto/mlkem\<close>.\<close>

definition encapsulateMLKEMPublicKey :: "mlkem_fun \<Rightarrow> string \<Rightarrow> string \<Rightarrow> kms_error + string \<times> string" where
  "encapsulateMLKEMPublicKey mlkem keySpec publicKeyB64 =
     (if publicKeyB64 = [] then Inl (MLKEMErr PublicKeyMissing)
      else case std_decode publicKeyB64 of
        None \<Rightarrow> Inl (MLKEMErr PublicKeyNotBase64)
      | Some publicKey \<Rightarrow>
          if keySpec = keySpecMLKEM768 \<or> keySpec = keySpecMLKEM1024 then
            (let (set, keySize) = (if keySpec = keySpecMLKEM768 then (768, 1184) else (1024, 1568))
             in if length publicKey \<noteq> keySize then Inl (MLKEMErr (PublicKeySize (length publicKey)))
                else (case mlkem set publicKey of
                        None \<Rightarrow> Inl (MLKEMErr PublicKeyParse)
                      | Some (sharedKey, ciphertext) \<Rightarrow> Inr (std_encode sharedKey, std_encode ciphertext)))
          else Inl (MLKEMErr (UnsupportedMLKEMSpec keySpec)))"

definition pqc_Encapsulate ::
    "mlkem_fun \<Rightarrow> keyMetadataRecord \<Rightarrow> EncapsulateRequest \<Rightarrow> ('w, status, EncapsulateResponse) act" where
  "pqc_Encapsulate mlkem metadata req =
     andThen (require (pqc_usage_ok metadata) (FailedPrecondition, MLKEMErr NoPQCAgreement)) (\<lambda>_.
     andThen (require (isPQCKEMKey (KeySpec metadata)) (FailedPrecondition, MLKEMErr NoPQCAgreement)) (\<lambda>_.
     andThen (check (rmap_err (\<lambda>e. (FailedPrecondition, e))
       (encapsulateMLKEMPublicKey mlkem (KeySpec metadata) (PublicKey metadata)))) (\<lambda>(sharedKey, ciphertext).
       ret \<lparr>eo_KeyId = KeyID metadata, eo_Ciphertext = ciphertext, eo_SharedKey = sharedKey,
            eo_KeyAgreementAlgorithm = keyAgreementAlgorithmMLKEM\<rparr>)))"

definition pqc_Decapsulate ::
    "'w server \<Rightarrow> openBaoClient \<Rightarrow> keyMetadataRecord \<Rightarrow> DecapsulateRequest \<Rightarrow> ('w, status, DecapsulateResponse) act" where
  "pqc_Decapsulate srv c metadata req =
     andThen (require (pqc_usage_ok metadata) (FailedPrecondition, MLKEMErr NoPQCAgreement)) (\<lambda>_.
     andThen (require (isPQCKEMKey (KeySpec metadata)) (FailedPrecondition, MLKEMErr NoPQCAgreement)) (\<lambda>_.
     andThen (require (std_decode (dc_Ciphertext req) \<noteq> None) (InvalidArgument, MLKEMErr CiphertextNotBase64)) (\<lambda>_.
     andThen (internal (decapsulatePQC srv c (metadata_backendKey metadata) (dc_Ciphertext req))) (\<lambda>decapResp.
     andThen (named Internal (pqcMLKEMVariant (KeySpec metadata))) (\<lambda>variant.
     andThen (require (dVariant decapResp = [] \<or> dVariant decapResp = variant) (Internal, MLKEMErr DecapVariantMismatch)) (\<lambda>_.
     andThen (require (dSharedKey decapResp \<noteq> []) (Internal, MLKEMErr SharedKeyMissing)) (\<lambda>_.
     andThen (require (std_decode (dSharedKey decapResp) \<noteq> None) (Internal, MLKEMErr SharedKeyNotBase64)) (\<lambda>_.
       ret \<lparr>do_KeyId = KeyID metadata, do_KeyAgreementAlgorithm = keyAgreementAlgorithmMLKEM,
            do_SharedKey = dSharedKey decapResp\<rparr>))))))))"

section \<open>Capabilities\<close>

text \<open>
  The providers behind the interface \<^verbatim>\<open>kmsProvider\<close>. Which of the further interfaces a provider has is a type
  assertion in the code; here it is whether the operation is there at all.
\<close>

datatype provider = TransitProvider | EthereumProvider | PQCProvider

definition provider_CreateKey ::
    "'w server \<Rightarrow> openBaoClient \<Rightarrow> provider \<Rightarrow> CreateKeyRequest \<Rightarrow> string \<Rightarrow> string \<Rightarrow> ('w, status, keyMetadataRecord) act" where
  "provider_CreateKey srv c p =
     (case p of TransitProvider \<Rightarrow> transit_CreateKey srv c | EthereumProvider \<Rightarrow> ethereum_CreateKey srv c
      | PQCProvider \<Rightarrow> pqc_CreateKey srv c)"

definition requireCipherProvider ::
    "'w server \<Rightarrow> openBaoClient \<Rightarrow> provider \<Rightarrow> string
     \<Rightarrow> ('w, status, (keyMetadataRecord \<Rightarrow> EncryptRequest \<Rightarrow> ('w, status, EncryptResponse) act)
          \<times> (ciphertextBlob \<Rightarrow> DecryptRequest \<Rightarrow> ('w, status, DecryptResponse) act)) act" where
  "requireCipherProvider srv c p scheme =
     (case p of TransitProvider \<Rightarrow> ret (transit_Encrypt srv c, transit_Decrypt srv c)
      | _ \<Rightarrow> fail (FailedPrecondition, Unsupported (NoCipher scheme)))"

definition requireSignProvider ::
    "'w server \<Rightarrow> openBaoClient \<Rightarrow> (bytes \<Rightarrow> bytes) \<Rightarrow> provider \<Rightarrow> string
     \<Rightarrow> ('w, status, keyMetadataRecord \<Rightarrow> SignRequest \<Rightarrow> ('w, status, SignResponse) act) act" where
  "requireSignProvider srv c keccak p scheme =
     (case p of TransitProvider \<Rightarrow> ret (transit_Sign srv c) | EthereumProvider \<Rightarrow> ret (ethereum_Sign srv c keccak)
      | PQCProvider \<Rightarrow> ret (pqc_Sign srv c))"

definition requirePublicKeyProvider ::
    "'w server \<Rightarrow> openBaoClient \<Rightarrow> provider \<Rightarrow> string
     \<Rightarrow> ('w, status, keyMetadataRecord \<Rightarrow> u32 \<Rightarrow> ('w, status, publicKeyRecord) act) act" where
  "requirePublicKeyProvider srv c p scheme =
     (case p of TransitProvider \<Rightarrow> ret (transit_GetPublicKey srv c) | EthereumProvider \<Rightarrow> ret ethereum_GetPublicKey
      | PQCProvider \<Rightarrow> ret pqc_GetPublicKey)"

definition requireKeyAgreementProvider ::
    "'w server \<Rightarrow> openBaoClient \<Rightarrow> mlkem_fun \<Rightarrow> provider \<Rightarrow> string
     \<Rightarrow> ('w, status, (keyMetadataRecord \<Rightarrow> EncapsulateRequest \<Rightarrow> ('w, status, EncapsulateResponse) act)
          \<times> (keyMetadataRecord \<Rightarrow> DecapsulateRequest \<Rightarrow> ('w, status, DecapsulateResponse) act)) act" where
  "requireKeyAgreementProvider srv c mlkem p scheme =
     (case p of PQCProvider \<Rightarrow> ret (pqc_Encapsulate mlkem, pqc_Decapsulate srv c)
      | _ \<Rightarrow> fail (FailedPrecondition, Unsupported (NoKeyAgreement scheme)))"

definition requireDataKeyProvider ::
    "'w server \<Rightarrow> openBaoClient \<Rightarrow> provider \<Rightarrow> string
     \<Rightarrow> ('w, status, keyMetadataRecord \<Rightarrow> GenerateDataKeyRequest \<Rightarrow> ('w, status, GenerateDataKeyResponse) act) act" where
  "requireDataKeyProvider srv c p scheme =
     (case p of TransitProvider \<Rightarrow> ret (transit_GenerateDataKey srv c)
      | _ \<Rightarrow> fail (FailedPrecondition, Unsupported (NoDataKeys scheme)))"

definition requireRotateKeyProvider ::
    "'w server \<Rightarrow> openBaoClient \<Rightarrow> provider \<Rightarrow> string
     \<Rightarrow> ('w, status, keyMetadataRecord \<Rightarrow> ('w, status, keyMetadataRecord) act) act" where
  "requireRotateKeyProvider srv c p scheme =
     (case p of TransitProvider \<Rightarrow> ret (transit_RotateKey srv c)
      | _ \<Rightarrow> fail (Unimplemented, Unsupported (NoRotation scheme)))"

section \<open>The contract of key creation\<close>

text \<open>
  What the plugin relies on when a provider creates a key: the record carries the identity of the request, the
  scheme of the provider and the backend key that belongs to the client and the alias.
\<close>

locale key_creator =
  fixes scheme :: string
    and create :: "CreateKeyRequest \<Rightarrow> string \<Rightarrow> string \<Rightarrow> ('w, status, keyMetadataRecord) act"
  assumes scheme_known: "normalizeScheme scheme = Inr scheme"
    and create_law: "create req keyID now w = (Ok m, w') \<Longrightarrow>
      KeyID m = keyID \<and> ClientID m = ck_ClientId req \<and> Alias m = ck_Alias req \<and> Scheme m = scheme
      \<and> scopedBackendKey (ck_ClientId req) (ck_Alias req) = Inr (ProviderKey m)
      \<and> KeySpec m = ck_KeySpec req \<and> KeyUsage m = ck_KeyUsage req \<and> Enabled m
      \<and> Description m = ck_Description req \<and> Tags m = toRecordTags (ck_Tags req)"
begin

lemma scheme_nonempty: "scheme \<noteq> []"
  using scheme_known by (auto simp: normalizeScheme_def)

text \<open>A created record has nothing left to fill in, and its backend key is the scoped one.\<close>

lemma created_normal:
  assumes "create req keyID now w = (Ok m, w')"
  shows "metadata_normalize m = m" "metadata_backendKey m = tenantNamespace (ck_ClientId req) @ ''_'' @ TrimSpace (ck_Alias req)"
proof -
  have "ProviderKey m = tenantNamespace (ck_ClientId req) @ ''_'' @ TrimSpace (ck_Alias req)" "Scheme m \<noteq> []"
    using create_law [OF assms] scheme_nonempty by (auto simp: scopedBackendKey_Inr_iff)
  then show "metadata_normalize m = m"
    "metadata_backendKey m = tenantNamespace (ck_ClientId req) @ ''_'' @ TrimSpace (ck_Alias req)"
    by (simp_all add: metadata_normalize_def metadata_backendKey_def Let_def)
qed

text \<open>Keys of different tenants have different backend keys.\<close>

lemma created_separate:
  assumes "create req keyID now w = (Ok m, w')" "create req' keyID' now' v = (Ok m', v')"
    and "metadata_backendKey m = metadata_backendKey m'"
  shows "tenantNamespace (ck_ClientId req) = tenantNamespace (ck_ClientId req')"
    "TrimSpace (ck_Alias req) = TrimSpace (ck_Alias req')"
  using created_normal(2) [OF assms(1)] created_normal(2) [OF assms(2)] assms(3)
  by (simp_all add: append_eq_append_conv)

end

lemma named_Ok_iff: "named code r w = (Ok x, w') \<longleftrightarrow> r = Inr x \<and> w' = w"
  by (cases r) (auto simp: named_def)

lemma internal_Ok_iff: "internal m w = (Ok x, w') \<longleftrightarrow> m w = (Ok x, w')"
  by (simp add: internal_def wrapErr_Ok_iff)

lemmas prov_Ok = act_Ok named_Ok_iff internal_Ok_iff

lemmas creator_defs = transit_CreateKey_def ethereum_CreateKey_def pqc_CreateKey_def

interpretation transit: key_creator schemeTransit "transit_CreateKey srv c"
  by unfold_locales (simp add: normalizeScheme_def, auto simp: creator_defs prov_Ok)

interpretation ethereum: key_creator schemeEthereum "ethereum_CreateKey srv c"
  by unfold_locales (simp add: normalizeScheme_def, auto simp: creator_defs prov_Ok Let_def)

interpretation pqc: key_creator schemePQC "pqc_CreateKey srv c"
  by unfold_locales (simp add: normalizeScheme_def, auto simp: creator_defs prov_Ok Let_def split: prod.splits)

section \<open>Properties\<close>

lemma normalizeEthereumDigest_canonical:
  assumes "normalizeEthereumDigest s = Inr h"
  shows "length h = 66 \<and> normalizeEthereumDigest h = Inr h"
proof -
  from assms obtain bs where "length bs = 32" "h = ''0x'' @ hex_encode bs"
    by (auto simp: normalizeEthereumDigest_def split: option.splits if_splits)
  then show ?thesis by (simp add: normalizeEthereumDigest_def)
qed

text \<open>
  C25. An Ethereum signature belongs to the message. When signing a raw message or a digest succeeds, exactly one
  request was made, for the Keccak hash of the decoded message or for the digest in canonical form (32 bytes, of which
  normalising gives itself again); the backend confirmed that it signed that very hash, as a raw hash; and the
  signature returned is the one of that answer, of a secp256k1 signing key.
\<close>

theorem ethereum_signature_bound:
  assumes "ethereum_Sign srv c keccak m req w = (Ok r, w')" "optionalString (si_MessageType req) \<noteq> messageTypeEIP191"
  shows "\<exists>h info. signEthereumHash srv c (metadata_backendKey m) h w = (Ok info, w')
    \<and> (if optionalString (si_MessageType req) = messageTypeDigest
       then normalizeEthereumDigest (si_Message req) = Inr h \<and> normalizeEthereumDigest h = Inr h \<and> length h = 66
       else rawEthereumHash keccak (si_Message req) = Inr h)
    \<and> sHash info = h \<and> sMethod info = ethereumSignMethodRawHash \<and> sr_Signature r = sSignature info
    \<and> KeySpec m = keySpecECCSecgP256K1 \<and> KeyUsage m = signVerifyUsage \<and> sr_KeyId r = KeyID m"
proof -
  let ?ty = "optionalString (si_MessageType req)"
  let ?hash = "if ?ty = messageTypeDigest then normalizeEthereumDigest (si_Message req) else rawEthereumHash keccak (si_Message req)"
  from assms obtain info where spec: "KeySpec m = keySpecECCSecgP256K1" "KeyUsage m = signVerifyUsage"
    and sign: "ethereum_sign_hash srv c m ?hash w = (Ok info, w')"
    and r: "sr_Signature r = sSignature info" "sr_KeyId r = KeyID m"
    unfolding ethereum_Sign_def by (auto simp: prov_Ok Let_def split: if_splits)
  from sign obtain h where h: "?hash = Inr h" "signEthereumHash srv c (metadata_backendKey m) h w = (Ok info, w')"
    "sHash info = h" "sMethod info = ethereumSignMethodRawHash"
    unfolding ethereum_sign_hash_def
    by (cases ?hash) (auto simp: prov_Ok rmap_err_def validateEthereumHashSignResponse_def split: if_splits)
  have canon: "?ty = messageTypeDigest \<Longrightarrow> normalizeEthereumDigest h = Inr h \<and> length h = 66"
    using normalizeEthereumDigest_canonical h(1) by simp
  show ?thesis using spec r h canon by (intro exI [of _ h] exI [of _ info]) (simp split: if_splits)
qed

theorem ethereum_signature_bound_witness:
  "\<exists>r. ethereum_Sign (\<lambda>w req. (Response 200 [] (json_print (JObj [(''data'', JObj [(''signature'', JStr ''s''),
        (''hash'', JStr ''0x''), (''method'', JStr ''raw_hash'')])])), w)) client0 (\<lambda>_. [])
      (metadata_zero\<lparr>KeySpec := keySpecECCSecgP256K1, KeyUsage := signVerifyUsage, ProviderKey := ''b''\<rparr>)
      \<lparr>si_ClientId = [], si_KeyId = [], si_Message = [], si_MessageType = None,
       si_SigningAlgorithm = signingAlgorithmEthereumSecp256k1\<rparr> () = (Ok r, ()) \<and> sr_Signature r = ''s''"
proof -
  define j where "j = JObj [(''data'', JObj [(''signature'', JStr ''s''), (''hash'', JStr ''0x''), (''method'', JStr ''raw_hash'')])]"
  let ?srv = "\<lambda>w req. (Response 200 [] (json_print j), w)"
  let ?m = "metadata_zero\<lparr>KeySpec := keySpecECCSecgP256K1, KeyUsage := signVerifyUsage, ProviderKey := ''b''\<rparr>"
  let ?req = "\<lparr>si_ClientId = [], si_KeyId = [], si_Message = [], si_MessageType = None,
       si_SigningAlgorithm = signingAlgorithmEthereumSecp256k1\<rparr>"
  let ?info = "\<lparr>sSignature = ''s'', sHash = ''0x'', sMethod = ''raw_hash'', sAddress = []\<rparr>"
  have "printable j" by (simp add: j_def printable_def max_depth_def rune_len_ascii)
  then have parse: "json_parse (json_print j) = Some j" by (rule json.dec_enc)
  have fields: "ethereum_sign_field ''signature'' = dec_field sSignature sSignature_update dec_string"
    "ethereum_sign_field ''hash'' = dec_field sHash sHash_update dec_string"
    "ethereum_sign_field ''method'' = dec_field sMethod sMethod_update dec_string"
    by (simp_all add: ethereum_sign_field_def is_field_lower lower_char_def)
  have into: "into_data (dec_struct ethereum_sign_field) \<lparr>sSignature = [], sHash = [], sMethod = [], sAddress = []\<rparr> (json_print j)
      = Some ?info"
    unfolding into_data_def json_unmarshal_def parse option.case by (simp add: j_def dec_struct_step fields)
  obtain t where t: "ethereumPath client0 [''sign'', ''b''] = Some t"
    by (simp add: ethereumPath_def joinPath_def client0_def Let_def)
  have sign: "signEthereumHash ?srv client0 ''b'' ''0x'' () = (Ok ?info, ())"
    using t into by (simp add: signEthereumHash_def signEthereum_def Post_def do_request_def)
  have hash: "rawEthereumHash (\<lambda>_. []) [] = Inr ''0x''" by (simp add: rawEthereumHash_def b64_decode_def hex_encode_def)
  obtain r where r: "ethereum_Sign ?srv client0 (\<lambda>_. []) ?m ?req () = (Ok r, ())"
    using sign hash by (simp add: ethereum_Sign_def ethereum_sign_hash_def metadata_backendKey_def andThen_def internal_def
        wrapErr_def attempt_def rmap_err_def validateEthereumHashSignResponse_def Let_def)
  obtain h info where "signEthereumHash ?srv client0 (metadata_backendKey ?m) h () = (Ok info, ())" "sr_Signature r = sSignature info"
    "rawEthereumHash (\<lambda>_. []) [] = Inr h"
    using ethereum_signature_bound [OF r] by auto
  then have "sr_Signature r = ''s''" using sign hash by (simp add: metadata_backendKey_def)
  with r show ?thesis by (auto simp: j_def)
qed

end
