(* ===== verification/KmsPlugin.thy ===== *)
theory KmsPlugin
  imports KmsProviders
begin

text \<open>
  The handlers of the KMS plugin (\<^verbatim>\<open>kms/plugin.go\<close>). Each handler is one action on the state of the OpenBao server;
  the plugin itself keeps no state between requests. The three providers share the plugin's client.
\<close>

section \<open>Data\<close>

record kmsPlugin =
  kp_client :: openBaoClient
  kp_providers :: "string \<Rightarrow> provider option"

record KeyMetadata =
  km_KeyId :: string
  km_Alias :: string
  km_Description :: string
  km_KeySpec :: string
  km_KeyUsage :: string
  km_Enabled :: bool
  km_PrimaryVersion :: u32
  km_CreationDate :: string
  km_Scheme :: string
  km_PublicKey :: "string option"
  km_Address :: "string option"
  km_Tags :: "pluginTag list"

record GetKeyMetadataRequest =
  gm_ClientId :: string
  gm_KeyId :: string

record GetPublicKeyRequest =
  gp_ClientId :: string
  gp_KeyId :: string
  gp_Version :: "u32 option"

record RotateKeyRequest =
  rk_ClientId :: string
  rk_KeyId :: string

definition newProviders :: "string \<Rightarrow> provider option" where
  "newProviders = [schemeTransit \<mapsto> TransitProvider, schemeEthereum \<mapsto> EthereumProvider, schemePQC \<mapsto> PQCProvider]"

definition newKmsPlugin :: "openBaoClient \<Rightarrow> kmsPlugin" where
  "newKmsPlugin client = \<lparr>kp_client = client, kp_providers = newProviders\<rparr>"

section \<open>Helpers\<close>

definition requireClientID :: "string \<Rightarrow> ('w, status, unit) act" where
  "requireClientID clientID = require (TrimSpace clientID \<noteq> []) (InvalidArgument, RequestErr ClientIDRequired)"

definition isOpenBaoStatus :: "client_error \<Rightarrow> int \<Rightarrow> bool" where
  "isOpenBaoStatus e code = (case e of Bao (StatusError c _ _) \<Rightarrow> c = code | _ \<Rightarrow> False)"

definition providerForScheme :: "kmsPlugin \<Rightarrow> string \<Rightarrow> ('w, status, provider) act" where
  "providerForScheme p scheme =
     andThen (named InvalidArgument (normalizeScheme scheme)) (\<lambda>normalized.
       case kp_providers p normalized of
         None \<Rightarrow> fail (InvalidArgument, NameErr (UnsupportedScheme normalized))
       | Some prov \<Rightarrow> ret prov)"

definition resolveKeyID :: "string \<Rightarrow> name_error + string" where
  "resolveKeyID keyRef = rbind (resolveKeyRef keyRef) (\<lambda>(resolvedKeyID, _). Inr resolvedKeyID)"

definition metadataProvider ::
    "'w server \<Rightarrow> kmsPlugin \<Rightarrow> string \<Rightarrow> string \<Rightarrow> ('w, status, keyMetadataRecord \<times> provider) act" where
  "metadataProvider srv p clientID keyID =
     andThen (named InvalidArgument (resolveKeyID keyID)) (\<lambda>resolvedKeyID.
     attempt (getMetadata srv (kp_client p) clientID resolvedKeyID) (\<lambda>r.
       case r of
         Inl e \<Rightarrow>
           if isOpenBaoStatus e 404 then fail (PermissionDenied, RequestErr KeyNotOwned)
           else fail (Internal, ClientErr e)
       | Inr metadata \<Rightarrow>
           andThen (providerForScheme p (Scheme metadata)) (\<lambda>prov. ret (metadata, prov))))"

text \<open>A nil tag, which a stored record can hold, makes \<^verbatim>\<open>toProtoTags\<close> panic.\<close>

definition toProtoTags :: "pluginTag option list option \<Rightarrow> ('w, status, pluginTag list) act" where
  "toProtoTags tags =
     (let ts = (case tags of None \<Rightarrow> [] | Some ts \<Rightarrow> ts)
      in if None \<in> set ts then panic
         else ret (map (\<lambda>t. \<lparr>TagKey = TagKey (the t), TagValue = TagValue (the t)\<rparr>) ts))"

definition toProtoMetadata :: "keyMetadataRecord \<Rightarrow> ('w, status, KeyMetadata) act" where
  "toProtoMetadata record0 =
     (let record = metadata_normalize record0
      in andThen (toProtoTags (Tags record)) (\<lambda>tags.
           ret \<lparr>km_KeyId = KeyID record, km_Alias = Alias record, km_Description = Description record,
                km_KeySpec = KeySpec record, km_KeyUsage = KeyUsage record, km_Enabled = Enabled record,
                km_PrimaryVersion = PrimaryVersion record, km_CreationDate = CreatedAt record,
                km_Scheme = Scheme record,
                km_PublicKey = (if PublicKey record \<noteq> [] then Some (PublicKey record) else None),
                km_Address = (if Address record \<noteq> [] then Some (Address record) else None),
                km_Tags = tags\<rparr>))"

section \<open>Handlers\<close>

definition Encrypt :: "'w server \<Rightarrow> kmsPlugin \<Rightarrow> EncryptRequest \<Rightarrow> ('w, status, EncryptResponse) act" where
  "Encrypt srv p req =
     andThen (requireClientID (en_ClientId req)) (\<lambda>_.
     andThen (metadataProvider srv p (en_ClientId req) (en_KeyId req)) (\<lambda>(metadata, provider).
     andThen (requireCipherProvider srv (kp_client p) provider (Scheme metadata)) (\<lambda>(encrypt, _).
       encrypt metadata req)))"

definition Decrypt :: "'w server \<Rightarrow> kmsPlugin \<Rightarrow> DecryptRequest \<Rightarrow> ('w, status, DecryptResponse) act" where
  "Decrypt srv p req =
     andThen (requireClientID (de_ClientId req)) (\<lambda>_.
     andThen (check (rmap_err (\<lambda>e. (InvalidArgument, BlobErr e)) (decodeCiphertextBlob (de_CiphertextBlob req)))) (\<lambda>blob.
     andThen
       (case de_KeyId req of
          None \<Rightarrow> ret ()
        | Some keyId \<Rightarrow>
            andThen (named InvalidArgument (resolveKeyID keyId)) (\<lambda>resolvedKeyID.
              require (resolvedKeyID = bKeyID blob) (InvalidArgument, RequestErr KeyIdMismatch))) (\<lambda>_.
     andThen (metadataProvider srv p (de_ClientId req) (bKeyID blob)) (\<lambda>(metadata, provider).
     andThen (require (KeyID metadata = bKeyID blob \<and> metadata_backendKey metadata = blob_backendKey blob)
       (PermissionDenied, RequestErr BlobNotOwned)) (\<lambda>_.
     andThen (requireCipherProvider srv (kp_client p) provider (Scheme metadata)) (\<lambda>(_, decrypt).
       decrypt blob req))))))"

definition Sign ::
    "'w server \<Rightarrow> kmsPlugin \<Rightarrow> (bytes \<Rightarrow> bytes) \<Rightarrow> SignRequest \<Rightarrow> ('w, status, SignResponse) act" where
  "Sign srv p keccak req =
     andThen (requireClientID (si_ClientId req)) (\<lambda>_.
     andThen (metadataProvider srv p (si_ClientId req) (si_KeyId req)) (\<lambda>(metadata, provider).
     andThen (requireSignProvider srv (kp_client p) keccak provider (Scheme metadata)) (\<lambda>sign.
     andThen (sign metadata req) (\<lambda>resp. ret (resp\<lparr>sr_KeyVersion := PrimaryVersion metadata\<rparr>)))))"

definition Encapsulate ::
    "'w server \<Rightarrow> kmsPlugin \<Rightarrow> mlkem_fun \<Rightarrow> EncapsulateRequest \<Rightarrow> ('w, status, EncapsulateResponse) act" where
  "Encapsulate srv p mlkem req =
     andThen (requireClientID (ec_ClientId req)) (\<lambda>_.
     andThen (metadataProvider srv p (ec_ClientId req) (ec_KeyId req)) (\<lambda>(metadata, provider).
     andThen (requireKeyAgreementProvider srv (kp_client p) mlkem provider (Scheme metadata)) (\<lambda>(encapsulate, _).
       encapsulate metadata req)))"

definition Decapsulate ::
    "'w server \<Rightarrow> kmsPlugin \<Rightarrow> mlkem_fun \<Rightarrow> DecapsulateRequest \<Rightarrow> ('w, status, DecapsulateResponse) act" where
  "Decapsulate srv p mlkem req =
     andThen (requireClientID (dc_ClientId req)) (\<lambda>_.
     andThen (metadataProvider srv p (dc_ClientId req) (dc_KeyId req)) (\<lambda>(metadata, provider).
     andThen (requireKeyAgreementProvider srv (kp_client p) mlkem provider (Scheme metadata)) (\<lambda>(_, decapsulate).
       decapsulate metadata req)))"

definition CreateKey ::
    "'w server \<Rightarrow> kmsPlugin \<Rightarrow> string \<Rightarrow> CreateKeyRequest \<Rightarrow> ('w, status, KeyMetadata) act" where
  "CreateKey srv p now req =
     andThen (requireClientID (ck_ClientId req)) (\<lambda>_.
     andThen (named InvalidArgument (normalizeScheme (optionalString (ck_Scheme req)))) (\<lambda>scheme.
     let alias = TrimSpace (ck_Alias req)
     in andThen (named InvalidArgument (validateAlias alias)) (\<lambda>_.
        andThen (named InvalidArgument (canonicalKeyID alias)) (\<lambda>keyID.
        attempt (getMetadata srv (kp_client p) (ck_ClientId req) keyID) (\<lambda>r.
          case r of
            Inr _ \<Rightarrow> fail (AlreadyExists, RequestErr AliasExists)
          | Inl e \<Rightarrow>
              if \<not> isOpenBaoStatus e 404 then fail (Internal, ClientErr e)
              else
                andThen (providerForScheme p scheme) (\<lambda>provider.
                andThen (provider_CreateKey srv (kp_client p) provider (req\<lparr>ck_Alias := alias\<rparr>) keyID now) (\<lambda>record0.
                let record = metadata_normalize record0
                in andThen (internal (putMetadata srv (kp_client p) (ck_ClientId req) keyID record)) (\<lambda>_.
                   toProtoMetadata record))))))))"

definition GetKeyMetadata :: "'w server \<Rightarrow> kmsPlugin \<Rightarrow> GetKeyMetadataRequest \<Rightarrow> ('w, status, KeyMetadata) act" where
  "GetKeyMetadata srv p req =
     andThen (requireClientID (gm_ClientId req)) (\<lambda>_.
     andThen (metadataProvider srv p (gm_ClientId req) (gm_KeyId req)) (\<lambda>(metadata, _).
       toProtoMetadata metadata))"

definition GetPublicKey :: "'w server \<Rightarrow> kmsPlugin \<Rightarrow> GetPublicKeyRequest \<Rightarrow> ('w, status, publicKeyRecord) act" where
  "GetPublicKey srv p req =
     andThen (requireClientID (gp_ClientId req)) (\<lambda>_.
     let version = optionalUint32 (gp_Version req)
     in andThen (require (\<not> (gp_Version req \<noteq> None \<and> version = 0)) (InvalidArgument, RequestErr VersionZero)) (\<lambda>_.
        andThen (metadataProvider srv p (gp_ClientId req) (gp_KeyId req)) (\<lambda>(metadata, provider).
        andThen (requirePublicKeyProvider srv (kp_client p) provider (Scheme metadata)) (\<lambda>getPublicKey.
          getPublicKey metadata version))))"

definition GenerateDataKey ::
    "'w server \<Rightarrow> kmsPlugin \<Rightarrow> GenerateDataKeyRequest \<Rightarrow> ('w, status, GenerateDataKeyResponse) act" where
  "GenerateDataKey srv p req =
     andThen (requireClientID (gd_ClientId req)) (\<lambda>_.
     andThen (metadataProvider srv p (gd_ClientId req) (gd_KeyId req)) (\<lambda>(metadata, provider).
     andThen (requireDataKeyProvider srv (kp_client p) provider (Scheme metadata)) (\<lambda>generate.
       generate metadata req)))"

definition RotateKey :: "'w server \<Rightarrow> kmsPlugin \<Rightarrow> RotateKeyRequest \<Rightarrow> ('w, status, KeyMetadata) act" where
  "RotateKey srv p req =
     andThen (requireClientID (rk_ClientId req)) (\<lambda>_.
     andThen (metadataProvider srv p (rk_ClientId req) (rk_KeyId req)) (\<lambda>(metadata, provider).
     andThen (requireRotateKeyProvider srv (kp_client p) provider (Scheme metadata)) (\<lambda>rotate.
     andThen (rotate metadata) (\<lambda>updated0.
     let updated = metadata_normalize updated0
     in andThen (internal (putMetadata srv (kp_client p) (rk_ClientId req) (KeyID updated) updated)) (\<lambda>_.
        toProtoMetadata updated)))))"

section \<open>Lemmas\<close>

lemma requireClientID_Ok_iff: "requireClientID cl w = (Ok x, w') \<longleftrightarrow> TrimSpace cl \<noteq> [] \<and> w' = w"
  by (simp add: requireClientID_def require_Ok_iff)

lemma normalizeScheme_idem: "normalizeScheme s = Inr n \<Longrightarrow> normalizeScheme n = Inr n"
  by (auto simp: normalizeScheme_def split: if_splits)

lemma providerForScheme_Ok_iff:
  "providerForScheme p scheme w = (Ok prov, w') \<longleftrightarrow>
     w' = w \<and> (\<exists>n. normalizeScheme scheme = Inr n \<and> kp_providers p n = Some prov)"
  by (auto simp: providerForScheme_def prov_Ok split: option.splits)

lemma resolveKeyID_Inr_iff: "resolveKeyID s = Inr k \<longleftrightarrow> (\<exists>a. resolveKeyRef s = Inr (k, a))"
  by (auto simp: resolveKeyID_def rbind_Inr_iff)

lemma metadataProvider_Ok_iff:
  "metadataProvider srv p cl kid w = (Ok (m, prov), w') \<longleftrightarrow>
     (\<exists>k a n. resolveKeyRef kid = Inr (k, a) \<and> getMetadata srv (kp_client p) cl k w = (Ok m, w')
        \<and> normalizeScheme (Scheme m) = Inr n \<and> kp_providers p n = Some prov)"
  unfolding metadataProvider_def
  by (auto simp: prov_Ok resolveKeyID_Inr_iff providerForScheme_Ok_iff)

lemma getMetadata_owner:
  assumes "getMetadata srv c cl k w = (Ok m, w')"
  shows "ClientID m = [] \<or> ClientID m = cl" "Scheme m \<noteq> []" "metadata_normalize m = m"
proof -
  from assms obtain m0 where m: "m = metadata_normalize m0" "ClientID m = [] \<or> ClientID m = cl"
    by (auto simp: getMetadata_def prov_Ok Let_def split: if_splits)
  then show "ClientID m = [] \<or> ClientID m = cl" by simp
  show "Scheme m \<noteq> []" "metadata_normalize m = m" using m(1) by (auto simp: metadata_normalize_def Let_def)
qed

text \<open>
  What entitles a caller to use a key: in this very request the metadata of the resolved key was read under the
  caller's own name, and the record names no other client.
\<close>

definition caller_key :: "'w server \<Rightarrow> kmsPlugin \<Rightarrow> string \<Rightarrow> string \<Rightarrow> 'w \<Rightarrow> keyMetadataRecord \<Rightarrow> 'w \<Rightarrow> bool" where
  "caller_key srv p cl kid w m w1 \<longleftrightarrow>
     TrimSpace cl \<noteq> [] \<and> (ClientID m = [] \<or> ClientID m = cl)
     \<and> (\<exists>k a. resolveKeyRef kid = Inr (k, a) \<and> getMetadata srv (kp_client p) cl k w = (Ok m, w1))"

lemma caller_keyI:
  "TrimSpace cl \<noteq> [] \<Longrightarrow> metadataProvider srv p cl kid w = (Ok (m, prov), w1) \<Longrightarrow> caller_key srv p cl kid w m w1"
  by (auto simp: caller_key_def metadataProvider_Ok_iff dest: getMetadata_owner(1))

text \<open>The common start of the handlers.\<close>

lemma handler_start:
  assumes "andThen (requireClientID cl) (\<lambda>_. andThen (metadataProvider srv p cl kid) f) w = (Ok r, w')"
  shows "\<exists>m prov w1. caller_key srv p cl kid w m w1 \<and> metadataProvider srv p cl kid w = (Ok (m, prov), w1)
    \<and> f (m, prov) w1 = (Ok r, w')"
  using assms caller_keyI by (fastforce simp: andThen_Ok_iff requireClientID_Ok_iff)

lemma cipher_provider_Ok:
  "requireCipherProvider srv c prov s w = (Ok ed, w') \<longleftrightarrow>
     prov = TransitProvider \<and> ed = (transit_Encrypt srv c, transit_Decrypt srv c) \<and> w' = w"
  by (cases prov) (auto simp: requireCipherProvider_def)

lemma Decrypt_Ok:
  assumes "Decrypt srv p req w = (Ok r, w')"
  shows "\<exists>blob m w1 pt. decodeCiphertextBlob (de_CiphertextBlob req) = Inr blob
    \<and> caller_key srv p (de_ClientId req) (bKeyID blob) w m w1
    \<and> KeyID m = bKeyID blob \<and> metadata_backendKey m = blob_backendKey blob
    \<and> (\<forall>kid. de_KeyId req = Some kid \<longrightarrow> resolveKeyID kid = Inr (bKeyID blob))
    \<and> bao_decrypt srv (kp_client p) (metadata_backendKey m) (bCiphertext blob) w1 = (Ok pt, w')
    \<and> r = \<lparr>dr_Plaintext = pt, dr_KeyId = bKeyID blob, dr_EncryptionAlgorithm = bAlgorithm blob\<rparr>"
proof -
  from assms obtain blob m prov w1 where
    cl: "TrimSpace (de_ClientId req) \<noteq> []" and blob: "decodeCiphertextBlob (de_CiphertextBlob req) = Inr blob"
    and kid: "\<forall>kid. de_KeyId req = Some kid \<longrightarrow> resolveKeyID kid = Inr (bKeyID blob)"
    and mp: "metadataProvider srv p (de_ClientId req) (bKeyID blob) w = (Ok (m, prov), w1)"
    and own: "KeyID m = bKeyID blob" "metadata_backendKey m = blob_backendKey blob"
    and dec: "transit_Decrypt srv (kp_client p) blob req w1 = (Ok r, w')"
    unfolding Decrypt_def
    by (auto simp: prov_Ok requireClientID_Ok_iff cipher_provider_Ok split: option.splits)
  from dec obtain pt where pt: "bao_decrypt srv (kp_client p) (blob_backendKey blob) (bCiphertext blob) w1 = (Ok pt, w')"
    "r = \<lparr>dr_Plaintext = pt, dr_KeyId = bKeyID blob, dr_EncryptionAlgorithm = bAlgorithm blob\<rparr>"
    by (auto simp: transit_Decrypt_def prov_Ok)
  show ?thesis using blob caller_keyI [OF cl mp] own kid pt by (metis (no_types, lifting))
qed

lemma provider_contract:
  assumes "provider_CreateKey srv c prov req keyID now w = (Ok m, w')"
  shows "KeyID m = keyID \<and> ClientID m = ck_ClientId req \<and> Alias m = ck_Alias req
      \<and> Scheme m = (case prov of TransitProvider \<Rightarrow> schemeTransit | EthereumProvider \<Rightarrow> schemeEthereum | PQCProvider \<Rightarrow> schemePQC)
      \<and> metadata_normalize m = m
      \<and> metadata_backendKey m = tenantNamespace (ck_ClientId req) @ ''_'' @ TrimSpace (ck_Alias req)
      \<and> KeySpec m = ck_KeySpec req \<and> KeyUsage m = ck_KeyUsage req \<and> Enabled m
      \<and> Description m = ck_Description req \<and> Tags m = toRecordTags (ck_Tags req)"
  using assms
  by (cases prov)
    (auto simp: provider_CreateKey_def
      dest: transit.create_law ethereum.create_law pqc.create_law transit.created_normal ethereum.created_normal
        pqc.created_normal)

lemma newProviders_scheme:
  "normalizeScheme s = Inr n \<Longrightarrow> newProviders n = Some prov \<Longrightarrow>
   n = (case prov of TransitProvider \<Rightarrow> schemeTransit | EthereumProvider \<Rightarrow> schemeEthereum | PQCProvider \<Rightarrow> schemePQC)"
  by (auto simp: normalizeScheme_def newProviders_def split: if_splits)

lemma toProtoTags_record: "toProtoTags (toRecordTags ts) = ret ts"
proof -
  have "map ((\<lambda>t. \<lparr>TagKey = TagKey (the t), TagValue = TagValue (the t)\<rparr>)
      \<circ> (\<lambda>t. Some \<lparr>TagKey = TagKey t, TagValue = TagValue t\<rparr>)) ts = ts"
    by (induction ts) simp_all
  then show ?thesis by (auto simp: toProtoTags_def toRecordTags_def Let_def)
qed

lemma canonicalKeyID_valid:
  "validateAlias a = Inr () \<Longrightarrow> canonicalKeyID a = Inr (keyIDPrefix @ a)"
  by (simp add: canonicalKeyID_def canonicalAlias_Inr_iff valid_alias_trimmed rbind_Inr_iff)

lemma CreateKey_Ok:
  assumes "CreateKey srv p now req w = (Ok r, w')"
  shows "\<exists>scheme prov b st w1 m w2. validateAlias (TrimSpace (ck_Alias req)) = Inr ()
    \<and> TrimSpace (ck_ClientId req) \<noteq> []
    \<and> normalizeScheme (optionalString (ck_Scheme req)) = Inr scheme \<and> kp_providers p scheme = Some prov
    \<and> getMetadata srv (kp_client p) (ck_ClientId req) (keyIDPrefix @ TrimSpace (ck_Alias req)) w
        = (Err (Bao (StatusError 404 st b)), w1)
    \<and> provider_CreateKey srv (kp_client p) prov (req\<lparr>ck_Alias := TrimSpace (ck_Alias req)\<rparr>)
        (keyIDPrefix @ TrimSpace (ck_Alias req)) now w1 = (Ok m, w2)
    \<and> putMetadata srv (kp_client p) (ck_ClientId req) (keyIDPrefix @ TrimSpace (ck_Alias req)) m w2 = (Ok (), w')
    \<and> toProtoMetadata m w' = (Ok r, w')"
proof -
  let ?a = "TrimSpace (ck_Alias req)"
  from assms obtain scheme n k e w1 prov m0 w2 w3 where
    cl: "TrimSpace (ck_ClientId req) \<noteq> []" and sch: "normalizeScheme (optionalString (ck_Scheme req)) = Inr scheme"
    and a: "validateAlias ?a = Inr ()" and k: "canonicalKeyID ?a = Inr k"
    and g: "getMetadata srv (kp_client p) (ck_ClientId req) k w = (Err e, w1)" "isOpenBaoStatus e 404"
    and prov: "normalizeScheme scheme = Inr n" "kp_providers p n = Some prov"
    and c: "provider_CreateKey srv (kp_client p) prov (req\<lparr>ck_Alias := ?a\<rparr>) k now w1 = (Ok m0, w2)"
    and put: "putMetadata srv (kp_client p) (ck_ClientId req) k (metadata_normalize m0) w2 = (Ok (), w3)"
    and resp: "toProtoMetadata (metadata_normalize m0) w3 = (Ok r, w')"
    unfolding CreateKey_def Let_def
    by (auto simp: prov_Ok requireClientID_Ok_iff providerForScheme_Ok_iff split: if_splits)
  have k': "k = keyIDPrefix @ ?a" using canonicalKeyID_valid [OF a] k by simp
  obtain b st where e: "e = Bao (StatusError 404 st b)"
    using g(2) by (auto simp: isOpenBaoStatus_def split: client_error.splits bao_error.splits)
  have n: "metadata_normalize m0 = m0" using provider_contract [OF c] by blast
  have p: "kp_providers p scheme = Some prov"
    using prov normalizeScheme_idem [OF sch] by simp
  have "w3 = w'" using resp by (auto simp: toProtoMetadata_def Let_def prov_Ok toProtoTags_def split: if_splits)
  then show ?thesis using cl sch p a g(1) c put resp unfolding k' e n by blast
qed

lemma Encrypt_Ok:
  assumes "Encrypt srv p req w = (Ok r, w')" "resolveKeyRef (en_KeyId req) = Inr (k, a)"
    and "getMetadata srv (kp_client p) (en_ClientId req) k w = (Ok m, w1)"
  shows "\<exists>n ct. TrimSpace (en_ClientId req) \<noteq> [] \<and> normalizeScheme (Scheme m) = Inr n
    \<and> kp_providers p n = Some TransitProvider \<and> supportsEncryption (KeySpec m) \<and> KeyUsage m = encryptDecryptUsage
    \<and> bao_encrypt srv (kp_client p) (metadata_backendKey m) (en_Plaintext req) w1 = (Ok ct, w')
    \<and> r = \<lparr>er_CiphertextBlob = encodeCiphertextBlob (Scheme m) (KeyID m) (metadata_backendKey m) ct
              encryptionAlgorithmAES256GCM96,
            er_KeyId = KeyID m, er_EncryptionAlgorithm = encryptionAlgorithmAES256GCM96\<rparr>"
proof -
  from assms obtain prov n where "TrimSpace (en_ClientId req) \<noteq> []"
    "normalizeScheme (Scheme m) = Inr n" "kp_providers p n = Some prov"
    "prov = TransitProvider" "transit_Encrypt srv (kp_client p) m req w1 = (Ok r, w')"
    unfolding Encrypt_def
    by (auto simp: prov_Ok requireClientID_Ok_iff metadataProvider_Ok_iff cipher_provider_Ok)
  moreover from this(5) have "supportsEncryption (KeySpec m)" "KeyUsage m = encryptDecryptUsage"
    "\<exists>ct. bao_encrypt srv (kp_client p) (metadata_backendKey m) (en_Plaintext req) w1 = (Ok ct, w')
    \<and> r = \<lparr>er_CiphertextBlob = encodeCiphertextBlob (Scheme m) (KeyID m) (metadata_backendKey m) ct
              encryptionAlgorithmAES256GCM96,
            er_KeyId = KeyID m, er_EncryptionAlgorithm = encryptionAlgorithmAES256GCM96\<rparr>"
    by (auto simp: transit_Encrypt_def prov_Ok normalizeEncryptionAlgorithm_def split: if_splits)
  ultimately show ?thesis by blast
qed

lemma normalizeScheme_ascii: "normalizeScheme s = Inr n \<Longrightarrow> valid_utf8 s"
  by (rule ascii_valid) (auto simp: normalizeScheme_def split: if_splits)

lemma keyID_utf8: "resolveKeyRef kid = Inr (k, a) \<Longrightarrow> valid_utf8 k \<and> k \<noteq> []"
proof -
  assume "resolveKeyRef kid = Inr (k, a)"
  then have k: "k = keyIDPrefix @ a" and a: "validateAlias a = Inr ()"
    by (auto simp: resolveKeyRef_Inr_iff canonicalAlias_Inr_iff)
  have "(of_char c :: nat) < 128" if "c \<in> set a" for c
    using that a alias_char_range [of c] by (auto simp: validateAlias_ok_iff list_all_iff)
  then have "valid_utf8 k" unfolding k by (intro ascii_valid) (auto simp: list_all_iff)
  then show ?thesis using k by simp
qed

section \<open>Properties\<close>

text \<open>
  C9. Keys are used by their owners only. Whenever one of the handlers that use an existing key succeeds, it read, in
  that request, the metadata of the resolved key under the caller's own tenant namespace, and the record names no
  other client. For decryption the key is the one named in the blob, and no other backend key is used than the one of
  that record.
\<close>

theorem keys_used_are_owned:
  "(Encrypt srv p en w = (Ok r1, w') \<longrightarrow> (\<exists>m w1. caller_key srv p (en_ClientId en) (en_KeyId en) w m w1))
   \<and> (Decrypt srv p de w = (Ok r2, w') \<longrightarrow> (\<exists>m w1 blob. decodeCiphertextBlob (de_CiphertextBlob de) = Inr blob
        \<and> caller_key srv p (de_ClientId de) (bKeyID blob) w m w1 \<and> metadata_backendKey m = blob_backendKey blob))
   \<and> (Sign srv p keccak si w = (Ok r3, w') \<longrightarrow> (\<exists>m w1. caller_key srv p (si_ClientId si) (si_KeyId si) w m w1))
   \<and> (Encapsulate srv p mlkem ec w = (Ok r4, w') \<longrightarrow> (\<exists>m w1. caller_key srv p (ec_ClientId ec) (ec_KeyId ec) w m w1))
   \<and> (Decapsulate srv p mlkem dc w = (Ok r5, w') \<longrightarrow> (\<exists>m w1. caller_key srv p (dc_ClientId dc) (dc_KeyId dc) w m w1))
   \<and> (GetKeyMetadata srv p gm w = (Ok r6, w') \<longrightarrow> (\<exists>m w1. caller_key srv p (gm_ClientId gm) (gm_KeyId gm) w m w1))
   \<and> (GetPublicKey srv p gp w = (Ok r7, w') \<longrightarrow> (\<exists>m w1. caller_key srv p (gp_ClientId gp) (gp_KeyId gp) w m w1))
   \<and> (GenerateDataKey srv p gd w = (Ok r8, w') \<longrightarrow> (\<exists>m w1. caller_key srv p (gd_ClientId gd) (gd_KeyId gd) w m w1))
   \<and> (RotateKey srv p rk w = (Ok r9, w') \<longrightarrow> (\<exists>m w1. caller_key srv p (rk_ClientId rk) (rk_KeyId rk) w m w1))"
proof (intro conjI impI)
  assume "Decrypt srv p de w = (Ok r2, w')"
  then show "\<exists>m w1 blob. decodeCiphertextBlob (de_CiphertextBlob de) = Inr blob
        \<and> caller_key srv p (de_ClientId de) (bKeyID blob) w m w1 \<and> metadata_backendKey m = blob_backendKey blob"
    using Decrypt_Ok by metis
next
  assume "GetPublicKey srv p gp w = (Ok r7, w')"
  then show "\<exists>m w1. caller_key srv p (gp_ClientId gp) (gp_KeyId gp) w m w1"
    by (auto simp: GetPublicKey_def Let_def prov_Ok requireClientID_Ok_iff intro: caller_keyI)
qed (unfold Encrypt_def Sign_def Encapsulate_def Decapsulate_def GetKeyMetadata_def GenerateDataKey_def RotateKey_def,
  (drule handler_start, blast)+)

definition stored_server :: "keyMetadataRecord \<Rightarrow> json \<Rightarrow> unit server" where
  "stored_server m j w r =
     (Response 200 ''200 OK'' (json_print (if req_method r = GET then nested_json m else j)), w)"

lemma stored_server_getMetadata:
  assumes "validateAlias a = Inr ()" "metadata_utf8 m" "ClientID m = []"
  shows "getMetadata (stored_server m j) client0 cl (keyIDPrefix @ a) () = (Ok (metadata_normalize m), ())"
proof -
  obtain t where t: "metadataPath client0 cl (keyIDPrefix @ a) = Some t"
    using metadataPath_form [of client0 "[]" a cl] assms(1) by (simp add: client0_def)
  have "stored_server m j () \<lparr>req_method = GET, req_path = t, req_body = []\<rparr>
      = (Response 200 ''200 OK'' (json_print (nested_json m)), ())"
    by (simp add: stored_server_def)
  from getMetadata_of_stored [where srv = "stored_server m j" and w = "()", OF t assms(2) this] show ?thesis using assms(3) by simp
qed

lemma valid_alias_k: "validateAlias ''k'' = Inr ()"
  by (simp add: validateAlias_ok_iff alias_char_def is_alnum_def is_digit_def)

lemma trim_k: "TrimSpace ''k'' \<noteq> []"
  using valid_alias_trimmed [OF valid_alias_k] by simp

theorem keys_used_are_owned_witness:
  "\<exists>r m. GetKeyMetadata (stored_server metadata_zero JNull) (newKmsPlugin client0) \<lparr>gm_ClientId = ''k'', gm_KeyId = ''k''\<rparr> ()
       = (Ok r, ()) \<and> caller_key (stored_server metadata_zero JNull) (newKmsPlugin client0) ''k'' ''k'' () m ()"
proof -
  let ?srv = "stored_server metadata_zero JNull"
  have "metadata_utf8 metadata_zero" by (simp add: metadata_utf8_def metadata_strings_def metadata_zero_def)
  then have g: "getMetadata ?srv client0 ''k'' ''kms:k'' () = (Ok (metadata_normalize metadata_zero), ())"
    using stored_server_getMetadata [OF valid_alias_k, of metadata_zero JNull "''k''"] by (simp add: metadata_zero_def)
  have "metadataProvider ?srv (newKmsPlugin client0) ''k'' ''k'' () = (Ok (metadata_normalize metadata_zero, TransitProvider), ())"
    using g resolveKeyRef_of_alias(1) [OF valid_alias_k]
    by (simp add: metadataProvider_Ok_iff newKmsPlugin_def newProviders_def normalizeScheme_def metadata_normalize_def
        metadata_zero_def)
  then have ok: "\<exists>r. GetKeyMetadata ?srv (newKmsPlugin client0) \<lparr>gm_ClientId = ''k'', gm_KeyId = ''k''\<rparr> () = (Ok r, ())"
    using trim_k by (simp add: GetKeyMetadata_def requireClientID_def andThen_def toProtoMetadata_def toProtoTags_def
        metadata_normalize_def metadata_zero_def)
  then obtain r where r: "GetKeyMetadata ?srv (newKmsPlugin client0) \<lparr>gm_ClientId = ''k'', gm_KeyId = ''k''\<rparr> () = (Ok r, ())" ..
  have "\<exists>m w1. caller_key ?srv (newKmsPlugin client0) ''k'' ''k'' () m w1"
    using keys_used_are_owned [of ?srv "newKmsPlugin client0" undefined "()" undefined "()"] r by fastforce
  with r show ?thesis by auto
qed

text \<open>
  A key the caller does not have is refused. When the store answers 404 to the read of the key's metadata under
  the caller's namespace, every handler that uses a key fails with \<^verbatim>\<open>PermissionDenied\<close>, and that read is the only
  thing that happened to the server.
\<close>

theorem unknown_key_denied:
  assumes "TrimSpace cl \<noteq> []" "resolveKeyRef kid = Inr (k, a)" "gp_Version gp \<noteq> Some 0"
    and "getMetadata srv (kp_client p) cl k w = (Err (Bao (StatusError 404 st body)), w1)"
  shows "Encrypt srv p (en\<lparr>en_ClientId := cl, en_KeyId := kid\<rparr>) w = (Err (PermissionDenied, RequestErr KeyNotOwned), w1)
    \<and> Sign srv p keccak (si\<lparr>si_ClientId := cl, si_KeyId := kid\<rparr>) w = (Err (PermissionDenied, RequestErr KeyNotOwned), w1)
    \<and> Encapsulate srv p mlkem (ec\<lparr>ec_ClientId := cl, ec_KeyId := kid\<rparr>) w
        = (Err (PermissionDenied, RequestErr KeyNotOwned), w1)
    \<and> Decapsulate srv p mlkem (dc\<lparr>dc_ClientId := cl, dc_KeyId := kid\<rparr>) w
        = (Err (PermissionDenied, RequestErr KeyNotOwned), w1)
    \<and> GetKeyMetadata srv p (gm\<lparr>gm_ClientId := cl, gm_KeyId := kid\<rparr>) w
        = (Err (PermissionDenied, RequestErr KeyNotOwned), w1)
    \<and> GetPublicKey srv p (gp\<lparr>gp_ClientId := cl, gp_KeyId := kid\<rparr>) w
        = (Err (PermissionDenied, RequestErr KeyNotOwned), w1)
    \<and> GenerateDataKey srv p (gd\<lparr>gd_ClientId := cl, gd_KeyId := kid\<rparr>) w
        = (Err (PermissionDenied, RequestErr KeyNotOwned), w1)
    \<and> RotateKey srv p (rk\<lparr>rk_ClientId := cl, rk_KeyId := kid\<rparr>) w
        = (Err (PermissionDenied, RequestErr KeyNotOwned), w1)"
proof -
  have "metadataProvider srv p cl kid w = (Err (PermissionDenied, RequestErr KeyNotOwned), w1)"
    using assms(2,4)
    by (simp add: metadataProvider_def named_def resolveKeyID_def rmap_err_def attempt_def isOpenBaoStatus_def)
  then have h: "andThen (metadataProvider srv p cl kid) f w = (Err (PermissionDenied, RequestErr KeyNotOwned), w1)" for f
      :: "keyMetadataRecord \<times> provider \<Rightarrow> ('a, status, 'x) act"
    by (simp add: andThen_def)
  have cl: "requireClientID cl = ret ()" using assms(1) by (simp add: requireClientID_def)
  have v: "\<not> (gp_Version gp \<noteq> None \<and> optionalUint32 (gp_Version gp) = 0)"
    using assms(3) by (auto simp: optionalUint32_def)
  show ?thesis
    unfolding Encrypt_def Sign_def Encapsulate_def Decapsulate_def GetKeyMetadata_def GetPublicKey_def
      GenerateDataKey_def RotateKey_def Let_def
    using v by (simp add: cl h)
qed

theorem unknown_key_denied_witness:
  "RotateKey (\<lambda>w r. (Response 404 ''404 Not Found'' [], Suc w)) (newKmsPlugin client0) \<lparr>rk_ClientId = ''k'', rk_KeyId = ''k''\<rparr> 0
     = (Err (PermissionDenied, RequestErr KeyNotOwned), 1)"
proof -
  let ?srv = "\<lambda>w r. (Response 404 ''404 Not Found'' [], Suc w)"
  have t: "TrimSpace [] = []" by (rule TrimSpace_space_free) (simp add: space_free_def)
  have g: "getMetadata ?srv (kp_client (newKmsPlugin client0)) ''k'' ''kms:k'' 0
      = (Err (Bao (StatusError 404 ''404 Not Found'' [])), 1)"
    using metadataPath_form [of client0 "[]", OF _ valid_alias_k, of "''k''"] t
    by (simp add: getMetadata_def newKmsPlugin_def client0_def andThen_def wrapErr_def attempt_def Get_def do_request_def)
  have "resolveKeyRef ''k'' = Inr (''kms:k'', ''k'')" using resolveKeyRef_of_alias(1) [OF valid_alias_k] by simp
  from unknown_key_denied [OF trim_k this _ g,
      of "\<lparr>gp_ClientId = [], gp_KeyId = [], gp_Version = None\<rparr>" _ _ _ _ _ _ _ _ "\<lparr>rk_ClientId = [], rk_KeyId = []\<rparr>"]
  show ?thesis by simp
qed

text \<open>
  C22. What was encrypted is decrypted. Suppose a client's encryption under a key succeeded with record \<open>m\<close>, the store
  still answers with \<open>m\<close> in a later state \<open>v\<close>, and the server decrypts what it encrypted there. Then decrypting the
  returned blob, with or without naming the key, gives the plaintext, the key and the algorithm back.
\<close>

theorem Encrypt_Decrypt_roundtrip:
  assumes "resolveKeyRef (en_KeyId req) = Inr (k, a)"
    and read: "getMetadata srv (kp_client p) (en_ClientId req) k w = (Ok m, w1)"
      "getMetadata srv (kp_client p) (en_ClientId req) k v = (Ok m, v1)"
    and rec: "KeyID m = k" "metadata_backendKey m \<noteq> []" "valid_utf8 (metadata_backendKey m)"
    and enc: "Encrypt srv p req w = (Ok r, w')"
    and law: "\<And>ct. bao_encrypt srv (kp_client p) (metadata_backendKey m) (en_Plaintext req) w1 = (Ok ct, w') \<Longrightarrow>
      ct \<noteq> [] \<and> valid_utf8 ct \<and> bao_decrypt srv (kp_client p) (metadata_backendKey m) ct v1 = (Ok (en_Plaintext req), v2)"
    and kid: "kid = None \<or> kid = Some (er_KeyId r) \<or> kid = Some (en_KeyId req)"
  shows "Decrypt srv p \<lparr>de_ClientId = en_ClientId req, de_CiphertextBlob = er_CiphertextBlob r, de_KeyId = kid\<rparr> v
    = (Ok \<lparr>dr_Plaintext = en_Plaintext req, dr_KeyId = k, dr_EncryptionAlgorithm = er_EncryptionAlgorithm r\<rparr>, v2)"
proof -
  from Encrypt_Ok [OF enc assms(1) read(1)] obtain n ct where cl: "TrimSpace (en_ClientId req) \<noteq> []"
    and n: "normalizeScheme (Scheme m) = Inr n" "kp_providers p n = Some TransitProvider"
    and ct: "bao_encrypt srv (kp_client p) (metadata_backendKey m) (en_Plaintext req) w1 = (Ok ct, w')"
    and r: "r = \<lparr>er_CiphertextBlob = encodeCiphertextBlob (Scheme m) (KeyID m) (metadata_backendKey m) ct
              encryptionAlgorithmAES256GCM96,
            er_KeyId = KeyID m, er_EncryptionAlgorithm = encryptionAlgorithmAES256GCM96\<rparr>" by blast
  note l = law [OF ct]
  have k: "resolveKeyRef k = Inr (k, a)"
    using assms(1) resolveKeyRef_of_alias(2) by (auto simp: resolveKeyRef_Inr_iff canonicalAlias_Inr_iff)
  have utf8: "list_all valid_utf8 [Scheme m, k, metadata_backendKey m, ct, encryptionAlgorithmAES256GCM96]"
    using normalizeScheme_ascii [OF n(1)] keyID_utf8 [OF k] rec(3) l
    by (simp add: ascii_valid del: valid_utf8.simps)
  have sch: "Scheme m \<noteq> []" using getMetadata_owner(2) [OF read(1)] .
  let ?blob = "\<lparr>bVersion = 1, bScheme = Scheme m, bKeyID = k, bProviderKey = metadata_backendKey m, bTransitKey = [],
    bCiphertext = ct, bAlgorithm = encryptionAlgorithmAES256GCM96\<rparr>"
  have blob: "decodeCiphertextBlob (er_CiphertextBlob r) = Inr ?blob"
    using decode_encode_blob [OF utf8] keyID_utf8 [OF k] rec l sch by (simp add: r)
  have mp: "metadataProvider srv p (en_ClientId req) k v = (Ok (m, TransitProvider), v1)"
    using k read(2) n by (auto simp: metadataProvider_Ok_iff)
  have named: "(case kid of None \<Rightarrow> ret () | Some keyId \<Rightarrow>
      andThen (named InvalidArgument (resolveKeyID keyId)) (\<lambda>resolvedKeyID.
        require (resolvedKeyID = bKeyID ?blob) (InvalidArgument, RequestErr KeyIdMismatch))) = ret ()"
    using kid assms(1) k rec(1) by (auto simp: r resolveKeyID_def named_def rmap_err_def)
  show ?thesis
    using cl mp l rec
    by (simp add: Decrypt_def requireClientID_def blob named rmap_err_def)
      (simp add: requireCipherProvider_def blob_backendKey_def transit_Decrypt_def internal_def andThen_def wrapErr_def
        attempt_def r)
qed

definition aes_record :: keyMetadataRecord where
  "aes_record = metadata_zero\<lparr>KeyID := ''kms:k'', Scheme := schemeTransit, ProviderKey := ''b'',
     KeySpec := keySpecAES256GCM96, KeyUsage := encryptDecryptUsage\<rparr>"

theorem Encrypt_Decrypt_roundtrip_witness:
  "\<exists>r. Encrypt (stored_server aes_record (JObj [(''data'', JObj [(''ciphertext'', JStr ''x''), (''plaintext'', JStr ''p'')])]))
      (newKmsPlugin client0) \<lparr>en_ClientId = ''k'', en_KeyId = ''k'', en_Plaintext = ''p'', en_EncryptionAlgorithm = None\<rparr> ()
        = (Ok r, ())
    \<and> Decrypt (stored_server aes_record (JObj [(''data'', JObj [(''ciphertext'', JStr ''x''), (''plaintext'', JStr ''p'')])]))
      (newKmsPlugin client0) \<lparr>de_ClientId = ''k'', de_CiphertextBlob = er_CiphertextBlob r, de_KeyId = Some ''k''\<rparr> ()
        = (Ok \<lparr>dr_Plaintext = ''p'', dr_KeyId = ''kms:k'', dr_EncryptionAlgorithm = er_EncryptionAlgorithm r\<rparr>, ())"
proof -
  define j where "j = JObj [(''data'', JObj [(''ciphertext'', JStr ''x''), (''plaintext'', JStr ''p'')])]"
  let ?srv = "stored_server aes_record j"
  let ?req = "\<lparr>en_ClientId = ''k'', en_KeyId = ''k'', en_Plaintext = ''p'', en_EncryptionAlgorithm = None\<rparr>"
  have "printable j" by (simp add: j_def printable_def max_depth_def rune_len_ascii)
  then have parse: "json_parse (json_print j) = Some j" by (rule json.dec_enc)
  have into: "into_data (dec_single ''ciphertext'' dec_string) [] (json_print j) = Some ''x''"
    "into_data (dec_single ''plaintext'' dec_string) [] (json_print j) = Some ''p''"
    unfolding into_data_def json_unmarshal_def parse option.case
    by (simp_all add: j_def dec_single_def dec_struct_def is_field_lower lower_char_def dec_skip_def)
  have m: "metadata_utf8 aes_record" "metadata_normalize aes_record = aes_record"
    by (simp_all add: aes_record_def metadata_utf8_def metadata_strings_def metadata_zero_def metadata_normalize_def
        rune_len_ascii)
  have g: "getMetadata ?srv client0 ''k'' ''kms:k'' () = (Ok aes_record, ())"
    using stored_server_getMetadata [OF valid_alias_k m(1), of j "''k''"] m(2) by (simp add: aes_record_def metadata_zero_def)
  obtain t t' where t: "transitPath client0 [''encrypt'', ''b''] = Some t" "transitPath client0 [''decrypt'', ''b''] = Some t'"
    by (simp add: transitPath_def joinPath_def client0_def Let_def)
  have enc: "bao_encrypt ?srv client0 ''b'' ''p'' () = (Ok ''x'', ())" "bao_decrypt ?srv client0 ''b'' ''x'' () = (Ok ''p'', ())"
    using t into by (simp_all add: bao_encrypt_def bao_decrypt_def Post_def do_request_def stored_server_def)
  have res: "resolveKeyRef ''k'' = Inr (''kms:k'', ''k'')" using resolveKeyRef_of_alias(1) [OF valid_alias_k] by simp
  have b: "metadata_backendKey aes_record = ''b''" by (simp add: metadata_backendKey_def aes_record_def)
  have "metadataProvider ?srv (newKmsPlugin client0) ''k'' ''k'' () = (Ok (aes_record, TransitProvider), ())"
    using g res by (simp add: metadataProvider_Ok_iff newKmsPlugin_def newProviders_def normalizeScheme_def aes_record_def)
  then have "\<exists>r. Encrypt ?srv (newKmsPlugin client0) ?req () = (Ok r, ())"
    using trim_k enc b by (simp add: Encrypt_def requireClientID_def andThen_def requireCipherProvider_def transit_Encrypt_def
        normalizeEncryptionAlgorithm_def named_def rmap_err_def internal_def wrapErr_def attempt_def supportsEncryption_def
        newKmsPlugin_def aes_record_def)
  then obtain r where r: "Encrypt ?srv (newKmsPlugin client0) ?req () = (Ok r, ())" ..
  have c: "kp_client (newKmsPlugin client0) = client0" by (simp add: newKmsPlugin_def)
  have "Decrypt ?srv (newKmsPlugin client0) \<lparr>de_ClientId = en_ClientId ?req, de_CiphertextBlob = er_CiphertextBlob r,
      de_KeyId = Some ''k''\<rparr> () = (Ok \<lparr>dr_Plaintext = en_Plaintext ?req, dr_KeyId = ''kms:k'',
        dr_EncryptionAlgorithm = er_EncryptionAlgorithm r\<rparr>, ())"
    by (rule Encrypt_Decrypt_roundtrip [where m = aes_record and a = "''k''"])
      (use g res b enc r in \<open>auto simp: c aes_record_def rune_len_ascii\<close>)
  with r show ?thesis by (auto simp: j_def)
qed

end
