(* ===== verification/Traces.thy ===== *)
theory Traces
  imports OpenBao
begin

text \<open>
  Reasoning about the requests that an action makes, on every path through it. A server is wrapped so that it
  keeps a log; \<open>traced I P m Q\<close> says that, run in a state of the server that satisfies \<open>I\<close>, the action \<open>m\<close> leaves a
  state that satisfies \<open>I\<close>, appends to the log only requests that satisfy \<open>P\<close>, and that a value it returns satisfies
  \<open>Q\<close>. One rule per combinator.
\<close>

type_synonym 'w log = "'w \<times> http_request list"

definition logged :: "'w server \<Rightarrow> 'w log server" where
  "logged srv = (\<lambda>(w, log) r. let (outcome, w') = srv w r in (outcome, (w', log @ [r])))"

definition traced :: "('w \<Rightarrow> bool) \<Rightarrow> (http_request \<Rightarrow> bool) \<Rightarrow> ('w log, 'e, 'a) act \<Rightarrow> ('a \<Rightarrow> bool) \<Rightarrow> bool" where
  "traced I P m Q \<longleftrightarrow>
     (\<forall>w log r w' log'. I w \<longrightarrow> m (w, log) = (r, (w', log')) \<longrightarrow>
        I w' \<and> (\<exists>new. log' = log @ new \<and> list_all P new) \<and> (\<forall>x. r = Ok x \<longrightarrow> Q x))"

lemma tracedI:
  "(\<And>w log r w' log'. I w \<Longrightarrow> m (w, log) = (r, (w', log')) \<Longrightarrow>
      I w' \<and> (\<exists>new. log' = log @ new \<and> list_all P new) \<and> (\<forall>x. r = Ok x \<longrightarrow> Q x)) \<Longrightarrow> traced I P m Q"
  by (simp add: traced_def)

lemma tracedD:
  assumes "traced I P m Q" "I w" "m (w, log) = (r, (w', log'))"
  shows "I w'" "\<exists>new. log' = log @ new \<and> list_all P new" "r = Ok x \<Longrightarrow> Q x"
  using assms unfolding traced_def by blast+

named_theorems trace_rules

lemma traced_ret [trace_rules]: "Q x \<Longrightarrow> traced I P (ret x) Q"
  by (simp add: traced_def)

lemma traced_fail [trace_rules]: "traced I P (fail e) Q"
  by (simp add: traced_def)

lemma traced_panic [trace_rules]: "traced I P panic Q"
  by (simp add: traced_def)

lemma traced_require [trace_rules]: "traced I P (require b e) (\<lambda>_. b)"
  by (cases b) (simp_all add: traced_def)

lemma traced_check [trace_rules]: "traced I P (check r) (\<lambda>x. r = Inr x)"
  by (cases r) (simp_all add: traced_def)

lemma traced_attempt:
  assumes "traced I P m R" "\<And>x. R x \<Longrightarrow> traced I P (f (Inr x)) Q" "\<And>e. traced I P (f (Inl e)) Q"
  shows "traced I P (attempt m f) Q"
proof (rule tracedI)
  fix w log r w' log' assume w: "I w" and run: "attempt m f (w, log) = (r, (w', log'))"
  obtain r1 w1 log1 where m: "m (w, log) = (r1, (w1, log1))" by (metis prod.collapse)
  note d = tracedD [OF assms(1) w m]
  from d(2) obtain new where new: "log1 = log @ new" "list_all P new" by auto
  have rest: "I w'" "\<exists>new. log' = log @ new \<and> list_all P new" "\<forall>x. r = Ok x \<longrightarrow> Q x"
    if "g (w1, log1) = (r, (w', log'))" "traced I P g Q" for g
    using tracedD [OF that(2) d(1) that(1)] new by auto
  show "I w' \<and> (\<exists>new. log' = log @ new \<and> list_all P new) \<and> (\<forall>x. r = Ok x \<longrightarrow> Q x)"
  proof (cases r1)
    case (Ok x)
    then have "R x" using d(3) by simp
    then show ?thesis using rest [OF _ assms(2)] run m Ok by (simp add: attempt_def)
  next
    case (Err e)
    then show ?thesis using rest [OF _ assms(3)] run m by (simp add: attempt_def)
  next
    case Panics
    then show ?thesis using run m new d(1) by (auto simp: attempt_def)
  qed
qed

lemma andThen_attempt: "andThen m f = attempt m (\<lambda>r. case r of Inl e \<Rightarrow> fail e | Inr x \<Rightarrow> f x)"
  by (auto simp: andThen_def attempt_def fun_eq_iff split: prod.split res.split)

lemma traced_andThen:
  "traced I P m R \<Longrightarrow> (\<And>x. R x \<Longrightarrow> traced I P (f x) Q) \<Longrightarrow> traced I P (andThen m f) Q"
  unfolding andThen_attempt by (rule traced_attempt [where R = R]) (auto intro: traced_fail)

lemma traced_wrapErr [trace_rules]: "traced I P m Q \<Longrightarrow> traced I P (wrapErr g m) Q"
  unfolding wrapErr_def by (rule traced_attempt [where R = Q]) (auto intro: traced_ret traced_fail)

lemma traced_weaken: "traced I P m R \<Longrightarrow> (\<And>x. R x \<Longrightarrow> Q x) \<Longrightarrow> traced I P m Q"
  unfolding traced_def by blast

lemma traced_true: "traced I P m Q \<Longrightarrow> traced I P m (\<lambda>_. True)"
  by (rule traced_weaken [where R = Q]) simp_all

lemma traced_result: "traced I P m Q \<Longrightarrow> (\<And>s x s'. m s = (Ok x, s') \<Longrightarrow> R x) \<Longrightarrow> traced I P m R"
  unfolding traced_def by blast

text \<open>A request: \<open>Q\<close> holds of what its answers decode to, and the server's step keeps \<open>I\<close>.\<close>

lemma traced_request:
  assumes "P req" "\<And>w out w'. I w \<Longrightarrow> srv w req = (out, w') \<Longrightarrow> I w'"
    and "\<And>w code st body w' x. I w \<Longrightarrow> srv w req = (Response code st body, w') \<Longrightarrow> code < 400 \<Longrightarrow>
      into body = Some x \<Longrightarrow> Q x"
  shows "traced I P (do_request (logged srv) req into) Q"
proof (rule tracedI)
  fix w log r w' log' assume w: "I w" and run: "do_request (logged srv) req into (w, log) = (r, (w', log'))"
  obtain out v where o: "srv w req = (out, v)" by (metis prod.collapse)
  have "I v" using assms(2) [OF w o] .
  then show "I w' \<and> (\<exists>new. log' = log @ new \<and> list_all P new) \<and> (\<forall>x. r = Ok x \<longrightarrow> Q x)"
    using run o assms(1) assms(3) [OF w]
    by (cases out) (auto simp: do_request_def logged_def split: if_splits option.splits)
qed

lemmas traced_request_any = traced_request [where Q = "\<lambda>_. True", OF _ _ TrueI]

lemma traced_target: "(\<And>t. target = Some t \<Longrightarrow> traced I P (f t) Q) \<Longrightarrow> traced I P (withTarget target f) Q"
  by (cases target) (simp_all add: traced_panic)

text \<open>What the rules say of a run of the whole action.\<close>

lemma traced_run:
  assumes "traced I P m Q" "I w" "m (w, []) = (r, (w', log))"
  shows "I w'" "list_all P log"
  using tracedD [OF assms] by auto

end
