(* ===== verification/KmsTenancy.thy ===== *)
theory KmsTenancy
  imports KmsPlugin Traces
begin

text \<open>
  Tenant isolation of the KMS plugin: which requests the handlers send to OpenBao on behalf of a client, on every
  path through them, successful or not.
\<close>

section \<open>The requests of a tenant\<close>

definition tenant_key :: "string \<Rightarrow> string \<Rightarrow> bool" where
  "tenant_key cl k \<longleftrightarrow> (\<exists>a. validateAlias a = Inr () \<and> k = tenantNamespace cl @ ''_'' @ a)"

text \<open>The targets of the operations on one backend key, by engine.\<close>

definition transit_parts :: "string \<Rightarrow> string list set" where
  "transit_parts k =
     {[''keys'', k], [''keys'', k, ''rotate''], [''encrypt'', k], [''decrypt'', k], [''datakey'', ''plaintext'', k],
      [''sign'', k, ''sha2-256''], [''sign'', k, ''sha2-384''], [''sign'', k, ''sha2-512'']}"

definition ethereum_parts :: "string \<Rightarrow> string list set" where
  "ethereum_parts k = {[''keys'', k], [''sign'', k]}"

definition pqc_parts :: "string \<Rightarrow> string list set" where
  "pqc_parts k =
     {[''mldsa'', ''keys'', k], [''mlkem'', ''keys'', k], [''mldsa'', ''sign'', k], [''mlkem'', ''decapsulate'', k]}"

definition engine_targets :: "openBaoClient \<Rightarrow> string \<Rightarrow> string option set" where
  "engine_targets c k =
     transitPath c ` transit_parts k \<union> ethereumPath c ` ethereum_parts k \<union> pqcPath c ` pqc_parts k"

definition key_id :: "string \<Rightarrow> bool" where
  "key_id k \<longleftrightarrow> (\<exists>a. validateAlias a = Inr () \<and> k = keyIDPrefix @ a)"

text \<open>A record that may stand under a client's metadata path.\<close>

definition tenant_record :: "string \<Rightarrow> keyMetadataRecord \<Rightarrow> bool" where
  "tenant_record cl m \<longleftrightarrow>
     tenant_key cl (metadata_backendKey m) \<and> key_id (KeyID m) \<and> (ClientID m = [] \<or> ClientID m = cl)"

text \<open>
  A request on behalf of a client: it reads the client's metadata, writes a record of the client there, or goes to a
  backend key of the client.
\<close>

definition tenant_request :: "openBaoClient \<Rightarrow> string \<Rightarrow> http_request \<Rightarrow> bool" where
  "tenant_request c cl r \<longleftrightarrow>
     (\<exists>k. key_id k \<and> metadataPath c cl k = Some (req_path r)
        \<and> (req_method r = GET \<or> (\<exists>m. tenant_record cl m \<and> req_body r = json_print (JObj [(''data'', metadata_json m)]))))
     \<or> (\<exists>k. tenant_key cl k \<and> Some (req_path r) \<in> engine_targets c k)"

section \<open>Dispatch\<close>

datatype kms_request =
    EncryptCall EncryptRequest | DecryptCall DecryptRequest | SignCall SignRequest
  | EncapsulateCall EncapsulateRequest | DecapsulateCall DecapsulateRequest | CreateKeyCall CreateKeyRequest
  | GetKeyMetadataCall GetKeyMetadataRequest | GetPublicKeyCall GetPublicKeyRequest
  | GenerateDataKeyCall GenerateDataKeyRequest | RotateKeyCall RotateKeyRequest

fun caller :: "kms_request \<Rightarrow> string" where
  "caller (EncryptCall r) = en_ClientId r"
| "caller (DecryptCall r) = de_ClientId r"
| "caller (SignCall r) = si_ClientId r"
| "caller (EncapsulateCall r) = ec_ClientId r"
| "caller (DecapsulateCall r) = dc_ClientId r"
| "caller (CreateKeyCall r) = ck_ClientId r"
| "caller (GetKeyMetadataCall r) = gm_ClientId r"
| "caller (GetPublicKeyCall r) = gp_ClientId r"
| "caller (GenerateDataKeyCall r) = gd_ClientId r"
| "caller (RotateKeyCall r) = rk_ClientId r"

definition ignore :: "('w, 'e, 'a) act \<Rightarrow> ('w, 'e, unit) act" where
  "ignore m = andThen m (\<lambda>_. ret ())"

fun kms_handle ::
    "'w server \<Rightarrow> kmsPlugin \<Rightarrow> (bytes \<Rightarrow> bytes) \<Rightarrow> mlkem_fun \<Rightarrow> string \<Rightarrow> kms_request \<Rightarrow> ('w, status, unit) act" where
  "kms_handle srv p keccak mlkem now (EncryptCall r) = ignore (Encrypt srv p r)"
| "kms_handle srv p keccak mlkem now (DecryptCall r) = ignore (Decrypt srv p r)"
| "kms_handle srv p keccak mlkem now (SignCall r) = ignore (Sign srv p keccak r)"
| "kms_handle srv p keccak mlkem now (EncapsulateCall r) = ignore (Encapsulate srv p mlkem r)"
| "kms_handle srv p keccak mlkem now (DecapsulateCall r) = ignore (Decapsulate srv p mlkem r)"
| "kms_handle srv p keccak mlkem now (CreateKeyCall r) = ignore (CreateKey srv p now r)"
| "kms_handle srv p keccak mlkem now (GetKeyMetadataCall r) = ignore (GetKeyMetadata srv p r)"
| "kms_handle srv p keccak mlkem now (GetPublicKeyCall r) = ignore (GetPublicKey srv p r)"
| "kms_handle srv p keccak mlkem now (GenerateDataKeyCall r) = ignore (GenerateDataKey srv p r)"
| "kms_handle srv p keccak mlkem now (RotateKeyCall r) = ignore (RotateKey srv p r)"

section \<open>Lemmas\<close>

lemmas engine_defs = engine_targets_def transit_parts_def ethereum_parts_def pqc_parts_def

lemma signing_alg:
  "signingConfig alg ty = Inr mapping \<Longrightarrow> [''sign'', k, pathAlgorithm mapping] \<in> transit_parts k"
  by (auto simp: signingConfig_def transit_parts_def Let_def split: if_splits)

lemma scoped_tenant_key: "scopedBackendKey cl a = Inr k \<Longrightarrow> tenant_key cl k"
  by (auto simp: scopedBackendKey_Inr_iff tenant_key_def)

lemma backendKey_normalize [simp]: "metadata_backendKey (metadata_normalize m) = metadata_backendKey m"
  by (simp add: metadata_backendKey_def metadata_normalize_def Let_def)

lemma metadata_normalize_fields [simp]:
  "KeyID (metadata_normalize m) = KeyID m" "ClientID (metadata_normalize m) = ClientID m"
  by (simp_all add: metadata_normalize_def Let_def)

lemma tenant_record_normalize [simp]: "tenant_record cl (metadata_normalize m) = tenant_record cl m"
  by (simp add: tenant_record_def)

lemma resolved_key_id: "resolveKeyID kid = Inr k \<Longrightarrow> key_id k"
  by (auto simp: resolveKeyID_Inr_iff resolveKeyRef_Inr_iff canonicalAlias_Inr_iff key_id_def)

lemma canonical_key_id: "canonicalKeyID a = Inr k \<Longrightarrow> key_id k"
  by (auto simp: canonicalKeyID_def rbind_Inr_iff canonicalAlias_Inr_iff key_id_def)

lemma RotateKey_record:
  "transit_RotateKey srv c m w = (Ok m', w') \<Longrightarrow> tenant_record cl m \<Longrightarrow> tenant_record cl m'"
  by (auto simp: transit_RotateKey_def prov_Ok tenant_record_def metadata_backendKey_def)

lemma created_record:
  assumes "provider_CreateKey srv c prov req keyID now w = (Ok m, w')" "validateAlias (TrimSpace (ck_Alias req)) = Inr ()"
    and "key_id keyID"
  shows "tenant_record (ck_ClientId req) (metadata_normalize m)"
  using provider_contract [OF assms(1)] assms(2,3) by (auto simp: tenant_record_def tenant_key_def)

lemma traced_andThen2:
  "traced I P m R \<Longrightarrow> (\<And>a b. R (a, b) \<Longrightarrow> traced I P (f a b) Q) \<Longrightarrow> traced I P (andThen m (\<lambda>(a, b). f a b)) Q"
  by (rule traced_andThen [where R = R]) auto

lemma traced_named [trace_rules]: "traced I P (named code r) (\<lambda>x. r = Inr x)"
  unfolding named_def by (rule traced_weaken [OF traced_check]) (cases r; simp add: rmap_err_def)

lemma traced_internal [trace_rules]: "traced I P m Q \<Longrightarrow> traced I P (internal m) Q"
  unfolding internal_def by (rule traced_wrapErr)

lemma providerForScheme_traced: "traced I P (providerForScheme p scheme) (\<lambda>_. True)"
  unfolding providerForScheme_def
  by (rule traced_andThen [OF traced_named]) (auto intro: traced_fail traced_ret split: option.split)

lemma toProtoMetadata_traced: "traced I P (toProtoMetadata m) (\<lambda>_. True)"
  unfolding toProtoMetadata_def toProtoTags_def Let_def
  by (rule traced_andThen [where R = "\<lambda>_. True"]) (auto intro: traced_ret traced_panic)

lemma metadata_public_key_traced: "traced I P (publicKeyFromMetadata m v) (\<lambda>_. True)"
  unfolding publicKeyFromMetadata_def Let_def by (rule traced_andThen2 traced_andThen trace_rules | simp)+

lemma Encapsulate_provider_traced: "traced I P (pqc_Encapsulate mlkem m ec) (\<lambda>_. True)"
  unfolding pqc_Encapsulate_def by (rule traced_andThen2 traced_andThen trace_rules | simp)+

lemmas require_defs = requireCipherProvider_def requireSignProvider_def requirePublicKeyProvider_def
  requireKeyAgreementProvider_def requireDataKeyProvider_def requireRotateKeyProvider_def

section \<open>What the plugin relies on\<close>

text \<open>
  The contract of the store: there is an invariant of its states that requests on behalf of clients keep, and under it
  the metadata read under a client's path names a backend key of that client.
\<close>

locale tenant_store =
  fixes srv :: "'w server" and p :: kmsPlugin and I :: "'w \<Rightarrow> bool"
  assumes keeps: "I w \<Longrightarrow> tenant_request (kp_client p) cl r \<Longrightarrow> srv w r = (out, w') \<Longrightarrow> I w'"
    and reads: "I w \<Longrightarrow> key_id k \<Longrightarrow> metadataPath (kp_client p) cl k = Some t \<Longrightarrow>
      srv w \<lparr>req_method = GET, req_path = t, req_body = []\<rparr> = (Response code st body, w') \<Longrightarrow> code < 400 \<Longrightarrow>
      into_data (dec_data (dec_struct metadata_field)) metadata_zero body = Some m \<Longrightarrow>
      tenant_key cl (metadata_backendKey m) \<and> key_id (KeyID m)"
begin

text \<open>Requests of the client operations.\<close>

lemma engine_request:
  "tenant_key cl k \<Longrightarrow> target \<in> engine_targets (kp_client p) k \<Longrightarrow> target = Some t \<Longrightarrow>
   tenant_request (kp_client p) cl \<lparr>req_method = meth, req_path = t, req_body = body\<rparr>"
  by (auto simp: tenant_request_def)

lemma tenant_request_traced:
  "tenant_request (kp_client p) cl r \<Longrightarrow> traced I (tenant_request (kp_client p) cl) (do_request (logged srv) r into) (\<lambda>_. True)"
  by (rule traced_request) (auto dest: keeps)

lemma engine_post:
  "tenant_key cl k \<Longrightarrow> target \<in> engine_targets (kp_client p) k \<Longrightarrow>
   traced I (tenant_request (kp_client p) cl) (withTarget target (\<lambda>t. Post (logged srv) t payload into)) (\<lambda>_. True)"
  unfolding Post_def by (rule traced_target, rule tenant_request_traced, rule engine_request)

lemma engine_get:
  "tenant_key cl k \<Longrightarrow> target \<in> engine_targets (kp_client p) k \<Longrightarrow>
   traced I (tenant_request (kp_client p) cl) (withTarget target (\<lambda>t. Get (logged srv) t into)) (\<lambda>_. True)"
  unfolding Get_def by (rule traced_target, rule tenant_request_traced, rule engine_request)

lemma readTransitKey_traced:
  "tenant_key cl k \<Longrightarrow> traced I (tenant_request (kp_client p) cl) (readTransitKey (logged srv) (kp_client p) k) (\<lambda>_. True)"
  unfolding readTransitKey_def by (erule engine_get) (simp add: engine_defs)

lemma engine_ops_traced:
  assumes "tenant_key cl k"
  shows "traced I (tenant_request (kp_client p) cl) (createTransitKey (logged srv) (kp_client p) k ty) (\<lambda>_. True)"
    and "traced I (tenant_request (kp_client p) cl) (rotateTransitKey (logged srv) (kp_client p) k) (\<lambda>_. True)"
    and "traced I (tenant_request (kp_client p) cl) (bao_encrypt (logged srv) (kp_client p) k x) (\<lambda>_. True)"
    and "traced I (tenant_request (kp_client p) cl) (bao_decrypt (logged srv) (kp_client p) k x) (\<lambda>_. True)"
    and "[''sign'', k, pathAlgorithm mapping] \<in> transit_parts k \<Longrightarrow>
      traced I (tenant_request (kp_client p) cl) (bao_sign (logged srv) (kp_client p) k x mapping v) (\<lambda>_. True)"
    and "traced I (tenant_request (kp_client p) cl) (generateDataKey (logged srv) (kp_client p) k bits) (\<lambda>_. True)"
    and "traced I (tenant_request (kp_client p) cl) (createEthereumKey (logged srv) (kp_client p) k) (\<lambda>_. True)"
    and "traced I (tenant_request (kp_client p) cl) (signEthereumHash (logged srv) (kp_client p) k x) (\<lambda>_. True)"
    and "traced I (tenant_request (kp_client p) cl) (signEthereumMessage (logged srv) (kp_client p) k x) (\<lambda>_. True)"
    and "traced I (tenant_request (kp_client p) cl) (bao_createPQCKey (logged srv) (kp_client p) k x) (\<lambda>_. True)"
    and "traced I (tenant_request (kp_client p) cl) (createPQCKEMKey (logged srv) (kp_client p) k x) (\<lambda>_. True)"
    and "traced I (tenant_request (kp_client p) cl) (signPQC (logged srv) (kp_client p) k x) (\<lambda>_. True)"
    and "traced I (tenant_request (kp_client p) cl) (decapsulatePQC (logged srv) (kp_client p) k x) (\<lambda>_. True)"
proof -
  note post = engine_post [OF assms]
  show "traced I (tenant_request (kp_client p) cl) (createTransitKey (logged srv) (kp_client p) k ty) (\<lambda>_. True)"
    unfolding createTransitKey_def
    by (rule traced_andThen [OF post readTransitKey_traced [OF assms]]) (simp add: engine_defs)
  show "traced I (tenant_request (kp_client p) cl) (rotateTransitKey (logged srv) (kp_client p) k) (\<lambda>_. True)"
    unfolding rotateTransitKey_def
    by (rule traced_andThen [OF post readTransitKey_traced [OF assms]]) (simp add: engine_defs)
qed (unfold bao_encrypt_def bao_decrypt_def bao_sign_def generateDataKey_def createEthereumKey_def signEthereumHash_def
    signEthereumMessage_def signEthereum_def bao_createPQCKey_def createPQCKEMKey_def signPQC_def decapsulatePQC_def,
  (rule engine_post [OF assms], auto simp: engine_defs)+)

text \<open>Requests of the providers.\<close>

lemmas store_step = traced_andThen2 traced_andThen trace_rules engine_ops_traced readTransitKey_traced

lemma createPQCKey_traced:
  "tenant_key cl k \<Longrightarrow> traced I (tenant_request (kp_client p) cl) (createPQCKey (logged srv) (kp_client p) k spec) (\<lambda>_. True)"
  unfolding createPQCKey_def by (simp split: if_split) (intro conjI impI; (rule store_step | assumption | simp)+)

lemma provider_CreateKey_traced:
  "traced I (tenant_request (kp_client p) (ck_ClientId req)) (provider_CreateKey (logged srv) (kp_client p) prov req keyID now) (\<lambda>_. True)"
  unfolding provider_CreateKey_def creator_defs Let_def
  by (cases prov; simp; (rule store_step createPQCKey_traced scoped_tenant_key | assumption | simp)+)

lemma provider_ops_traced:
  assumes "tenant_key cl (metadata_backendKey m)"
  shows "traced I (tenant_request (kp_client p) cl) (transit_Encrypt (logged srv) (kp_client p) m en) (\<lambda>_. True)"
    and "traced I (tenant_request (kp_client p) cl) (transit_Sign (logged srv) (kp_client p) m si) (\<lambda>_. True)"
    and "traced I (tenant_request (kp_client p) cl) (transit_GetPublicKey (logged srv) (kp_client p) m v) (\<lambda>_. True)"
    and "traced I (tenant_request (kp_client p) cl) (transit_GenerateDataKey (logged srv) (kp_client p) m gd) (\<lambda>_. True)"
    and "traced I (tenant_request (kp_client p) cl) (transit_RotateKey (logged srv) (kp_client p) m) (\<lambda>_. True)"
    and "traced I (tenant_request (kp_client p) cl) (ethereum_sign_hash (logged srv) (kp_client p) m h) (\<lambda>_. True)"
    and "traced I (tenant_request (kp_client p) cl) (pqc_Sign (logged srv) (kp_client p) m si) (\<lambda>_. True)"
    and "traced I (tenant_request (kp_client p) cl) (pqc_Decapsulate (logged srv) (kp_client p) m dc) (\<lambda>_. True)"
  using assms
  unfolding transit_Encrypt_def transit_Sign_def transit_GetPublicKey_def transit_GenerateDataKey_def transit_RotateKey_def
    ethereum_sign_hash_def pqc_Sign_def pqc_Decapsulate_def Let_def
  by - (rule store_step signing_alg | assumption | simp)+

lemma ethereum_Sign_traced:
  assumes "tenant_key cl (metadata_backendKey m)"
  shows "traced I (tenant_request (kp_client p) cl) (ethereum_Sign (logged srv) (kp_client p) keccak m si) (\<lambda>_. True)"
proof -
  have "traced I (tenant_request (kp_client p) cl)
     (let messageType = optionalString (si_MessageType si)
        in if messageType = [] \<or> messageType = messageTypeRaw then
             ethereum_sign_hash (logged srv) (kp_client p) m (rawEthereumHash keccak (si_Message si))
           else if messageType = messageTypeEIP191 then
             internal (signEthereumMessage (logged srv) (kp_client p) (metadata_backendKey m) (si_Message si))
           else if messageType = messageTypeDigest then
             ethereum_sign_hash (logged srv) (kp_client p) m (normalizeEthereumDigest (si_Message si))
           else fail (InvalidArgument, EthereumErr EthereumMessageType)) (\<lambda>_. True)"
    unfolding Let_def
    by (auto intro!: traced_internal traced_fail provider_ops_traced(6) [OF assms] engine_ops_traced(9) [OF assms])
  note msg = this
  show ?thesis
    unfolding ethereum_Sign_def
    by (rule traced_andThen [OF traced_require], rule traced_andThen [OF traced_require], rule traced_andThen [OF msg],
      rule traced_ret, rule TrueI)
qed

text \<open>Requests of the handlers.\<close>

lemma getMetadata_traced:
  assumes "key_id k"
  shows "traced I (tenant_request (kp_client p) cl) (getMetadata (logged srv) (kp_client p) cl k) (tenant_record cl)"
  unfolding getMetadata_def Get_def Let_def
proof (rule traced_andThen [where R = "\<lambda>m. tenant_key cl (metadata_backendKey m) \<and> key_id (KeyID m)"])
  show "traced I (tenant_request (kp_client p) cl) (wrapErr Bao (withTarget (metadataPath (kp_client p) cl k) (\<lambda>t. do_request (logged srv)
      \<lparr>req_method = GET, req_path = t, req_body = []\<rparr> (into_data (dec_data (dec_struct metadata_field)) metadata_zero))))
    (\<lambda>m. tenant_key cl (metadata_backendKey m) \<and> key_id (KeyID m))"
  proof (rule traced_wrapErr, rule traced_target, rule traced_request)
    fix t assume t: "metadataPath (kp_client p) cl k = Some t"
    let ?r = "\<lparr>req_method = GET, req_path = t, req_body = []\<rparr>"
    show r: "tenant_request (kp_client p) cl ?r" using t assms by (auto simp: tenant_request_def)
    show "I w \<Longrightarrow> srv w ?r = (out, w') \<Longrightarrow> I w'" for w out w' using keeps [OF _ r] .
    show "I w \<Longrightarrow> srv w ?r = (Response code st body, w') \<Longrightarrow> code < 400 \<Longrightarrow>
        into_data (dec_data (dec_struct metadata_field)) metadata_zero body = Some x \<Longrightarrow>
        tenant_key cl (metadata_backendKey x) \<and> key_id (KeyID x)" for w code st body w' x
      using reads [OF _ assms t] .
  qed
qed (auto intro: traced_ret traced_fail simp: tenant_record_def metadata_normalize_fields)

lemma putMetadata_traced:
  "tenant_record cl m \<Longrightarrow> key_id k \<Longrightarrow>
   traced I (tenant_request (kp_client p) cl) (putMetadata (logged srv) (kp_client p) cl k m) (\<lambda>_. True)"
  unfolding putMetadata_def Post_def
  by (rule traced_target, rule tenant_request_traced) (auto simp: tenant_request_def)

lemma metadataProvider_traced:
  "traced I (tenant_request (kp_client p) cl) (metadataProvider (logged srv) p cl kid) (\<lambda>(m, prov). tenant_record cl m)"
  unfolding metadataProvider_def
  by (rule traced_andThen [OF traced_named])
    (rule traced_attempt [OF getMetadata_traced [OF resolved_key_id]];
      auto intro!: traced_andThen [OF providerForScheme_traced] traced_fail traced_ret)

lemma with_key_traced:
  assumes "\<And>m prov. tenant_record cl m \<Longrightarrow> tenant_key cl (metadata_backendKey m) \<Longrightarrow>
      traced I (tenant_request (kp_client p) cl) (f m prov) Q"
  shows "traced I (tenant_request (kp_client p) cl)
    (andThen (requireClientID cl) (\<lambda>_. andThen (metadataProvider (logged srv) p cl kid) (\<lambda>(m, prov). f m prov))) Q"
  unfolding requireClientID_def
  by (rule traced_andThen [OF traced_require], rule traced_andThen2 [OF metadataProvider_traced])
    (rule assms; simp add: tenant_record_def)

lemma CreateKey_traced:
  shows "traced I (tenant_request (kp_client p) (ck_ClientId req)) (CreateKey (logged srv) p now req) (\<lambda>_. True)"
proof -
  let ?cl = "ck_ClientId req" and ?P = "tenant_request (kp_client p) (ck_ClientId req)"
  let ?req = "req\<lparr>ck_Alias := TrimSpace (ck_Alias req)\<rparr>"
  have create: "traced I ?P (andThen (provider_CreateKey (logged srv) (kp_client p) prov ?req keyID now) (\<lambda>m.
      andThen (internal (putMetadata (logged srv) (kp_client p) ?cl keyID (metadata_normalize m))) (\<lambda>_.
        toProtoMetadata (metadata_normalize m)))) (\<lambda>_. True)"
    if a: "validateAlias (TrimSpace (ck_Alias req)) = Inr ()" and k: "key_id keyID" for prov keyID
  proof (rule traced_andThen)
    have "traced I ?P (provider_CreateKey (logged srv) (kp_client p) prov ?req keyID now) (\<lambda>_. True)"
      using provider_CreateKey_traced [of ?req] by simp
    then show "traced I ?P (provider_CreateKey (logged srv) (kp_client p) prov ?req keyID now)
        (\<lambda>m. tenant_record ?cl (metadata_normalize m))"
      by (rule traced_result) (use created_record [where req = ?req] a k valid_alias_trimmed [OF a] in auto)
  qed (rule traced_andThen [OF traced_internal [OF putMetadata_traced [OF _ k]] toProtoMetadata_traced])
  show ?thesis
    unfolding CreateKey_def requireClientID_def Let_def
    by (rule traced_andThen [OF traced_require], (rule traced_andThen [OF traced_named])+,
        rule traced_attempt [OF getMetadata_traced [OF canonical_key_id]])
      (auto intro!: traced_fail traced_andThen [OF providerForScheme_traced] create canonical_key_id)
qed

lemma Decrypt_traced:
  shows "traced I (tenant_request (kp_client p) (de_ClientId req)) (Decrypt (logged srv) p req) (\<lambda>_. True)"
proof -
  let ?cl = "de_ClientId req" and ?P = "tenant_request (kp_client p) (de_ClientId req)"
  have named: "traced I ?P (case de_KeyId req of None \<Rightarrow> ret () | Some keyId \<Rightarrow>
      andThen (named InvalidArgument (resolveKeyID keyId)) (\<lambda>resolvedKeyID.
        require (resolvedKeyID = bKeyID blob) (InvalidArgument, RequestErr KeyIdMismatch))) (\<lambda>_. True)" for blob
    by (auto intro!: traced_ret traced_andThen [OF traced_named] traced_true [OF traced_require] split: option.split)
  have decrypt: "traced I ?P (andThen (requireCipherProvider (logged srv) (kp_client p) prov (Scheme m)) (\<lambda>(_, decrypt).
      decrypt blob req)) (\<lambda>_. True)"
    if "tenant_record ?cl m" "metadata_backendKey m = blob_backendKey blob" for m prov blob
  proof -
    have "tenant_key ?cl (blob_backendKey blob)" using that by (simp add: tenant_record_def)
    note d = engine_ops_traced(4) [OF this]
    show ?thesis
      by (cases prov) (auto simp: require_defs transit_Decrypt_def
          intro!: traced_fail traced_ret traced_andThen [OF traced_internal [OF d]])
  qed
  show ?thesis
    unfolding Decrypt_def requireClientID_def
    by (rule traced_andThen [OF traced_require], rule traced_andThen [OF traced_check], rule traced_andThen [OF named],
        rule traced_andThen2 [OF metadataProvider_traced], rule traced_andThen [OF traced_require])
      (use decrypt in auto)
qed

lemma handlers_traced:
  shows "en_ClientId en = cl \<Longrightarrow> traced I (tenant_request (kp_client p) cl) (Encrypt (logged srv) p en) (\<lambda>_. True)"
    and "si_ClientId si = cl \<Longrightarrow> traced I (tenant_request (kp_client p) cl) (Sign (logged srv) p keccak si) (\<lambda>_. True)"
    and "ec_ClientId ec = cl \<Longrightarrow> traced I (tenant_request (kp_client p) cl) (Encapsulate (logged srv) p mlkem ec) (\<lambda>_. True)"
    and "dc_ClientId dc = cl \<Longrightarrow> traced I (tenant_request (kp_client p) cl) (Decapsulate (logged srv) p mlkem dc) (\<lambda>_. True)"
    and "gm_ClientId gm = cl \<Longrightarrow> traced I (tenant_request (kp_client p) cl) (GetKeyMetadata (logged srv) p gm) (\<lambda>_. True)"
    and "gd_ClientId gd = cl \<Longrightarrow> traced I (tenant_request (kp_client p) cl) (GenerateDataKey (logged srv) p gd) (\<lambda>_. True)"
    and "gp_ClientId gp = cl \<Longrightarrow> traced I (tenant_request (kp_client p) cl) (GetPublicKey (logged srv) p gp) (\<lambda>_. True)"
    and "rk_ClientId rk = cl \<Longrightarrow> traced I (tenant_request (kp_client p) cl) (RotateKey (logged srv) p rk) (\<lambda>_. True)"
proof -
  note start = with_key_traced
  note ops = provider_ops_traced ethereum_Sign_traced Encapsulate_provider_traced metadata_public_key_traced
  show "en_ClientId en = cl \<Longrightarrow> traced I (tenant_request (kp_client p) cl) (Encrypt (logged srv) p en) (\<lambda>_. True)"
    unfolding Encrypt_def by (simp, rule start, rename_tac m q, case_tac q) (auto simp: require_defs intro: ops traced_fail)
  show "si_ClientId si = cl \<Longrightarrow> traced I (tenant_request (kp_client p) cl) (Sign (logged srv) p keccak si) (\<lambda>_. True)"
    unfolding Sign_def by (simp, rule start, rename_tac m q, case_tac q)
      (auto simp: require_defs intro!: traced_ret traced_andThen [where R = "\<lambda>_. True"] intro: ops)
  show "ec_ClientId ec = cl \<Longrightarrow> traced I (tenant_request (kp_client p) cl) (Encapsulate (logged srv) p mlkem ec) (\<lambda>_. True)"
    unfolding Encapsulate_def by (simp, rule start, rename_tac m q, case_tac q) (auto simp: require_defs intro: ops traced_fail)
  show "dc_ClientId dc = cl \<Longrightarrow> traced I (tenant_request (kp_client p) cl) (Decapsulate (logged srv) p mlkem dc) (\<lambda>_. True)"
    unfolding Decapsulate_def by (simp, rule start, rename_tac m q, case_tac q) (auto simp: require_defs intro: ops traced_fail)
  show "gm_ClientId gm = cl \<Longrightarrow> traced I (tenant_request (kp_client p) cl) (GetKeyMetadata (logged srv) p gm) (\<lambda>_. True)"
    unfolding GetKeyMetadata_def by (simp, rule start) (rule toProtoMetadata_traced)
  show "gd_ClientId gd = cl \<Longrightarrow> traced I (tenant_request (kp_client p) cl) (GenerateDataKey (logged srv) p gd) (\<lambda>_. True)"
    unfolding GenerateDataKey_def by (simp, rule start, rename_tac m q, case_tac q) (auto simp: require_defs intro: ops traced_fail)
  show "traced I (tenant_request (kp_client p) cl) (GetPublicKey (logged srv) p gp) (\<lambda>_. True)" if cl: "gp_ClientId gp = cl"
    unfolding GetPublicKey_def requireClientID_def Let_def cl
    by (rule traced_andThen [OF traced_require], rule traced_andThen [OF traced_require],
        rule traced_andThen2 [OF metadataProvider_traced], rename_tac m q, case_tac q)
      (auto simp: require_defs ethereum_GetPublicKey_def pqc_GetPublicKey_def tenant_record_def intro: ops)
  show "traced I (tenant_request (kp_client p) cl) (RotateKey (logged srv) p rk) (\<lambda>_. True)" if cl: "rk_ClientId rk = cl"
  proof -
    have "traced I (tenant_request (kp_client p) cl) (andThen (transit_RotateKey (logged srv) (kp_client p) m) (\<lambda>m'.
        andThen (internal (putMetadata (logged srv) (kp_client p) cl (KeyID (metadata_normalize m')) (metadata_normalize m')))
          (\<lambda>_. toProtoMetadata (metadata_normalize m')))) (\<lambda>_. True)" if m: "tenant_record cl m" for m
    proof (rule traced_andThen)
      show "traced I (tenant_request (kp_client p) cl) (transit_RotateKey (logged srv) (kp_client p) m)
          (\<lambda>m'. tenant_record cl (metadata_normalize m'))"
        using m by (intro traced_result [OF provider_ops_traced(5)])
          (simp add: tenant_record_def, simp add: RotateKey_record [OF _ m])
    qed (rule traced_andThen [OF traced_internal [OF putMetadata_traced] toProtoMetadata_traced], assumption,
        simp add: tenant_record_def)
    then show ?thesis
      unfolding RotateKey_def cl Let_def
      by (intro start, rename_tac m q, case_tac q) (auto simp: require_defs intro: traced_fail)
  qed
qed

lemma kms_handle_traced:
  shows "traced I (tenant_request (kp_client p) (caller req)) (kms_handle (logged srv) p keccak mlkem now req) (\<lambda>_. True)"
  by (cases req) (auto simp: ignore_def intro!: traced_andThen [where R = "\<lambda>_. True"] traced_ret
      intro: handlers_traced Decrypt_traced CreateKey_traced)

end

section \<open>A store that keeps the contract\<close>

text \<open>
  The key-value engine of OpenBao, version 2, as the plugin uses it for metadata: documents by path, a write replaces
  the document, a read answers it under \<^verbatim>\<open>data\<close>, deleting removes it. It is a model of the documented behaviour, an instance
  of the server that the definitions take as an argument: a document is answered as it was posted, without what the engine
  adds to it and the plugin does not read, and no request for metadata fails. Every other path goes to an engine of which
  nothing is assumed.
\<close>

definition metadata_dir :: "openBaoClient \<Rightarrow> string \<Rightarrow> bool" where
  "metadata_dir c t \<longleftrightarrow>
     (case baseURL c of None \<Rightarrow> False
      | Some b \<Rightarrow> prefix (path_front b [''v1'', kvMount c, ''data''] @ ''/kms/metadata/'') t)"

definition data_doc :: "string \<Rightarrow> string" where
  "data_doc body = CHR ''{'' # quote ''data'' @ CHR '':'' # body @ ''}''"

fun kv_server :: "openBaoClient \<Rightarrow> 'v server \<Rightarrow> ((string \<Rightarrow> string option) \<times> 'v) server" where
  "kv_server c engine (docs, v) r =
     (if metadata_dir c (req_path r) then
        (case req_method r of
           GET \<Rightarrow>
             (case docs (req_path r) of
                None \<Rightarrow> (Response 404 ''404 Not Found'' ''{}'', (docs, v))
              | Some body \<Rightarrow> (Response 200 ''200 OK'' (data_doc body), (docs, v)))
         | POST \<Rightarrow> (Response 200 ''200 OK'' ''{}'', (docs(req_path r \<mapsto> req_body r), v))
         | DELETE \<Rightarrow> (Response 204 ''204 No Content'' [], (docs(req_path r := None), v))
         | LIST \<Rightarrow> (Response 200 ''200 OK'' ''{}'', (docs, v)))
      else (let (out, v') = engine v r in (out, (docs, v'))))"

definition docs_ok :: "openBaoClient \<Rightarrow> (string \<Rightarrow> string option) \<times> 'v \<Rightarrow> bool" where
  "docs_ok c s \<longleftrightarrow>
     (\<forall>t body. fst s t = Some body \<longrightarrow>
        (\<exists>cl k m. key_id k \<and> metadataPath c cl k = Some t \<and> tenant_record cl m
           \<and> body = json_print (JObj [(''data'', metadata_json m)])))"

text \<open>The mounts of the engines lie outside the metadata directory.\<close>

definition mounts_apart :: "openBaoClient \<Rightarrow> bool" where
  "mounts_apart c \<longleftrightarrow> (\<forall>cl k t. tenant_key cl k \<and> Some t \<in> engine_targets c k \<longrightarrow> \<not> metadata_dir c t)"

lemma nested_doc: "data_doc (json_print (JObj [(''data'', metadata_json m)])) = json_print (nested_json m)"
  by (simp add: data_doc_def nested_json_def)

lemma metadataPath_key_id:
  assumes "key_id k" "metadataPath c cl k = Some t"
  shows "\<exists>b. baseURL c = Some b \<and> t = path_front b [''v1'', kvMount c, ''data''] @ ''/kms/metadata/'' @ tenantNamespace cl @ ''/'' @ k"
proof -
  obtain b where b: "baseURL c = Some b"
    using assms(2) by (cases "baseURL c") (auto simp: metadataPath_def kvPath_def joinPath_def)
  then show ?thesis using assms metadataPath_form [OF b] by (auto simp: key_id_def)
qed

lemma metadataPath_dir: "key_id k \<Longrightarrow> metadataPath c cl k = Some t \<Longrightarrow> metadata_dir c t"
  by (auto dest!: metadataPath_key_id simp: metadata_dir_def prefix_def)

lemma metadataPath_tenant:
  "key_id k \<Longrightarrow> metadataPath c cl k = Some t \<Longrightarrow> key_id k' \<Longrightarrow> metadataPath c cl' k' = Some t \<Longrightarrow>
   tenantNamespace cl = tenantNamespace cl' \<and> k = k'"
  by (auto dest!: metadataPath_key_id simp: append_eq_append_conv)

lemma tenant_key_utf8: "tenant_key cl k \<Longrightarrow> valid_utf8 k"
proof -
  assume "tenant_key cl k"
  then obtain a where a: "validateAlias a = Inr ()" and k: "k = tenantNamespace cl @ ''_'' @ a" by (auto simp: tenant_key_def)
  have "(of_char x :: nat) < 128" if "x \<in> set k" for x
    using that a k tenantNamespace_chars [of x cl] is_alnum_range [of x] alias_char_range [of x]
    by (auto simp: validateAlias_ok_iff list_all_iff)
  then show "valid_utf8 k" by (intro ascii_valid) (simp add: list_all_iff)
qed

lemma tenant_key_ascii: "tenant_key cl k \<Longrightarrow> to_valid k = k"
  by (rule to_valid_id) (rule tenant_key_utf8)

lemma key_id_ascii: "key_id k \<Longrightarrow> to_valid k = k"
  using keyID_utf8 resolveKeyRef_of_alias(2) unfolding key_id_def by (metis to_valid_id)

lemma san_record:
  assumes "tenant_record cl m"
  shows "tenant_key cl (metadata_backendKey (san_metadata m))" "key_id (KeyID (san_metadata m))"
proof -
  have "metadata_backendKey (san_metadata m) = to_valid (metadata_backendKey m)"
    by (simp add: metadata_backendKey_def san_metadata_def)
  then show "tenant_key cl (metadata_backendKey (san_metadata m))" "key_id (KeyID (san_metadata m))"
    using assms tenant_key_ascii key_id_ascii by (auto simp: tenant_record_def san_metadata_def)
qed

lemma kv_keeps:
  assumes "mounts_apart c" "docs_ok c s" "tenant_request c cl r" "kv_server c engine s r = (out, s')"
  shows "docs_ok c s'"
proof -
  obtain docs v where s: "s = (docs, v)" by (cases s)
  from assms(3) consider
      (meta) k where "key_id k" "metadataPath c cl k = Some (req_path r)" "req_method r = GET \<or>
        (\<exists>m. tenant_record cl m \<and> req_body r = json_print (JObj [(''data'', metadata_json m)]))"
    | (eng) k where "tenant_key cl k" "Some (req_path r) \<in> engine_targets c k"
    by (auto simp: tenant_request_def)
  then show ?thesis
  proof cases
    case meta
    note dir = metadataPath_dir [OF meta(1,2)]
    show ?thesis
    proof (cases "req_method r = POST")
      case True
      then obtain m where m: "tenant_record cl m" "req_body r = json_print (JObj [(''data'', metadata_json m)])"
        using meta(3) by auto
      have "fst s' = docs(req_path r \<mapsto> req_body r)" using assms(4) dir True by (auto simp: s)
      then show ?thesis using assms(2) m meta unfolding docs_ok_def s by (auto split: if_splits)
    next
      case False
      have "\<forall>t. fst s' t = docs t \<or> fst s' t = None"
        using assms(4) dir False by (cases "req_method r") (auto simp: s split: option.splits if_splits)
      then show ?thesis using assms(2) unfolding docs_ok_def s by (metis fst_conv option.distinct(1))
    qed
  next
    case eng
    then have "\<not> metadata_dir c (req_path r)" using assms(1) by (auto simp: mounts_apart_def)
    then have "fst s' = docs" using assms(4) by (auto simp: s Let_def split: prod.splits)
    then show ?thesis using assms(2) by (simp add: docs_ok_def s)
  qed
qed

lemma kv_reads:
  assumes "docs_ok c s" "key_id k" "metadataPath c cl k = Some t"
    and "kv_server c engine s \<lparr>req_method = GET, req_path = t, req_body = []\<rparr> = (Response code st body, s')" "code < 400"
    and "into_data (dec_data (dec_struct metadata_field)) metadata_zero body = Some m"
  shows "tenant_key cl (metadata_backendKey m) \<and> key_id (KeyID m)"
proof -
  obtain docs v where s: "s = (docs, v)" by (cases s)
  obtain stored where d: "docs t = Some stored" "body = data_doc stored"
    using assms(4,5) metadataPath_dir [OF assms(2,3)] by (auto simp: s split: option.splits)
  then obtain cl0 k0 m0 where o: "key_id k0" "metadataPath c cl0 k0 = Some t" "tenant_record cl0 m0"
    and body: "stored = json_print (JObj [(''data'', metadata_json m0)])"
    using assms(1) unfolding docs_ok_def s fst_conv by blast
  have "m = san_metadata m0" using assms(6) into_metadata_san [of m0] unfolding d(2) body nested_doc by simp
  moreover have "tenantNamespace cl0 = tenantNamespace cl" using metadataPath_tenant [OF o(1,2) assms(2,3)] by simp
  ultimately show ?thesis using san_record [OF o(3)] by (simp add: tenant_key_def)
qed

lemma kv_tenant_store:
  "mounts_apart (kp_client p) \<Longrightarrow> tenant_store (kv_server (kp_client p) engine) p (docs_ok (kp_client p))"
  by unfold_locales (auto intro: kv_keeps dest: kv_reads)

text \<open>With the default mounts the contract holds for every base URL and every engine.\<close>

lemma joinPath_v1:
  "list_all plain_seg ps \<Longrightarrow> ps \<noteq> [] \<Longrightarrow>
   joinPath (Some b) (''v1'' # ps) = Some (path_front b [''v1''] @ ''/'' @ JoinChar (CHR ''/'') ps)"
  using joinPath_plain [of "[''v1'']" ps b] TrimChar_plain [of "CHR ''/''" "''v1''"] by simp

lemma path_front_v1_seg:
  assumes "plain_seg m" "plain_seg d"
  shows "path_front b [''v1'', m, d] = path_front b [''v1''] @ ''/'' @ m @ ''/'' @ d"
proof -
  have "joinPath (Some b) ([''v1'', m, d] @ [''x'']) = Some (path_front b [''v1'', m, d] @ ''/x'')"
    using joinPath_plain [of "[''v1'', m, d]" "[''x'']" b] TrimChar_plain [of "CHR ''/''" "''v1''"]
    by (simp add: plain_seg_def)
  moreover have "joinPath (Some b) (''v1'' # [m, d, ''x'']) = Some (path_front b [''v1''] @ ''/'' @ m @ ''/'' @ d @ ''/x'')"
    using joinPath_v1 [of "[m, d, ''x'']" b] assms by (simp add: plain_seg_def)
  ultimately show ?thesis by simp
qed

lemma path_front_v1:
  "plain_seg m \<Longrightarrow> path_front b [''v1'', m, ''data''] = path_front b [''v1''] @ ''/'' @ m @ ''/data''"
  using path_front_v1_seg [of m "''data''" b] by (simp add: plain_seg_def)

lemma tenant_key_plain: "tenant_key cl k \<Longrightarrow> plain_seg k"
proof -
  assume "tenant_key cl k"
  then obtain a where a: "validateAlias a = Inr ()" and k: "k = tenantNamespace cl @ ''_'' @ a" by (auto simp: tenant_key_def)
  have "CHR ''/'' \<notin> set a"
    using a alnum_neq by (auto simp: validateAlias_ok_iff list_all_iff alias_char_def)
  moreover have "CHR ''/'' \<notin> set (tenantNamespace cl)" using tenantNamespace_plain [of cl] by (simp add: plain_seg_def)
  ultimately have "CHR ''/'' \<notin> set k" unfolding k by simp
  moreover have "2 < length k" unfolding k by simp
  ultimately show "plain_seg k" unfolding plain_seg_def by auto
qed

lemma engine_target_form:
  assumes "Some t \<in> engine_targets c k" "plain_seg k" "baseURL c = Some b"
    and "list_all plain_seg [transitMount c, ethereumMount c, pqcMount c]"
  shows "\<exists>m rest. m \<in> {transitMount c, ethereumMount c, pqcMount c} \<and> t = path_front b [''v1''] @ ''/'' @ m @ ''/'' @ rest"
proof -
  have form: "\<exists>rest. joinPath (Some b) ([''v1'', m] @ ps) = Some (path_front b [''v1''] @ ''/'' @ m @ ''/'' @ rest)"
    if "plain_seg m" "list_all plain_seg ps" "ps \<noteq> []" for m ps
    using joinPath_v1 [of "m # ps" b] that by (simp add: JoinChar_Cons)
  have parts: "list_all plain_seg ps \<and> ps \<noteq> []" if "ps \<in> transit_parts k \<union> ethereum_parts k \<union> pqc_parts k" for ps
    using that assms(2) unfolding transit_parts_def ethereum_parts_def pqc_parts_def
    by (elim UnE insertE emptyE) (simp_all add: plain_seg_def)
  from assms(1) consider ps where "ps \<in> transit_parts k" "Some t = transitPath c ps"
    | ps where "ps \<in> ethereum_parts k" "Some t = ethereumPath c ps" | ps where "ps \<in> pqc_parts k" "Some t = pqcPath c ps"
    by (auto simp: engine_targets_def)
  then show ?thesis
  proof cases
    case 1
    with form [of "transitMount c" ps] parts [of ps] assms show ?thesis by (auto simp: transitPath_def)
  next
    case 2
    with form [of "ethereumMount c" ps] parts [of ps] assms show ?thesis by (auto simp: ethereumPath_def)
  next
    case 3
    with form [of "pqcMount c" ps] parts [of ps] assms show ?thesis by (auto simp: pqcPath_def)
  qed
qed

lemma segment_unique: "CHR ''/'' \<notin> set x \<Longrightarrow> CHR ''/'' \<notin> set y \<Longrightarrow> x @ CHR ''/'' # u = y @ CHR ''/'' # v \<Longrightarrow> x = y"
proof (induction x arbitrary: y)
  case Nil
  then show ?case by (cases y) auto
next
  case (Cons a x)
  then show ?case by (cases y) auto
qed

lemma plain_mounts_apart:
  assumes "list_all plain_seg [kvMount c, transitMount c, ethereumMount c, pqcMount c]"
    and "kvMount c \<notin> {transitMount c, ethereumMount c, pqcMount c}"
  shows "mounts_apart c"
  unfolding mounts_apart_def
proof (intro allI impI notI)
  fix cl k t assume t: "tenant_key cl k \<and> Some t \<in> engine_targets c k" and dir: "metadata_dir c t"
  then obtain b where b: "baseURL c = Some b" by (auto simp: metadata_dir_def split: option.splits)
  obtain m rest where m: "m \<in> {transitMount c, ethereumMount c, pqcMount c}" "t = path_front b [''v1''] @ ''/'' @ m @ ''/'' @ rest"
    using engine_target_form [of t c k b] tenant_key_plain [of cl k] t assms(1) b by auto
  obtain u where "t = path_front b [''v1''] @ ''/'' @ kvMount c @ ''/data'' @ ''/kms/metadata/'' @ u"
    using dir b path_front_v1 [of "kvMount c" b] assms(1) by (auto simp: metadata_dir_def prefix_def)
  then have "m @ CHR ''/'' # rest = kvMount c @ CHR ''/'' # ''data/kms/metadata/'' @ u" using m(2) by simp
  moreover have "CHR ''/'' \<notin> set m" "CHR ''/'' \<notin> set (kvMount c)" using m(1) assms(1) by (auto simp: plain_seg_def)
  ultimately have "m = kvMount c" using segment_unique by blast
  then show False using m(1) assms(2) by auto
qed

lemma default_mounts_apart: "mounts_apart (newOpenBaoClient None (Some b))"
  by (rule plain_mounts_apart) (simp_all add: newOpenBaoClient_def withKMSConfigDefaults_def orDefault_def Let_def plain_seg_def)

interpretation kv: tenant_store "kv_server (newOpenBaoClient None (Some b)) engine"
    "newKmsPlugin (newOpenBaoClient None (Some b))" "docs_ok (newOpenBaoClient None (Some b))"
  using kv_tenant_store [of "newKmsPlugin (newOpenBaoClient None (Some b))"] default_mounts_apart
  by (simp add: newKmsPlugin_def)

section \<open>Runs\<close>

text \<open>Calls of any clients in any order, with the requests that each of them made.\<close>

fun kms_serve ::
    "'w server \<Rightarrow> kmsPlugin \<Rightarrow> (bytes \<Rightarrow> bytes) \<Rightarrow> mlkem_fun \<Rightarrow> (string \<times> kms_request) list \<Rightarrow> 'w
     \<Rightarrow> (kms_request \<times> http_request list) list" where
  "kms_serve srv p keccak mlkem [] w = []"
| "kms_serve srv p keccak mlkem ((now, req) # calls) w =
     (let (_, (w', requests)) = kms_handle (logged srv) p keccak mlkem now req (w, [])
      in (req, requests) # kms_serve srv p keccak mlkem calls w')"

context tenant_store
begin

lemma kms_serve_isolated:
  "I w \<Longrightarrow> (req, requests) \<in> set (kms_serve srv p keccak mlkem calls w) \<Longrightarrow>
   list_all (tenant_request (kp_client p) (caller req)) requests"
proof (induction calls arbitrary: w)
  case (Cons call calls)
  obtain now q where call: "call = (now, q)" by (cases call)
  obtain r w' log where run: "kms_handle (logged srv) p keccak mlkem now q (w, []) = (r, (w', log))" by (metis prod.collapse)
  note t = traced_run [OF kms_handle_traced Cons.prems(1) run]
  show ?case
  proof (cases "(req, requests) = (q, log)")
    case True
    then show ?thesis using t(2) by simp
  next
    case False
    then show ?thesis using Cons.prems(2) Cons.IH [OF t(1)] by (auto simp: call run)
  qed
qed simp

end

section \<open>Properties\<close>

text \<open>
  C1. Tenant isolation. Whatever the server's answers satisfy, if it keeps the contract of the store (an invariant
  under which metadata read under a client's path names a backend key of that client, and which requests on behalf of
  clients keep), then every request that any handler sends on behalf of a client, whether the call succeeds or fails,
  reads the client's own metadata, writes a record of the client there, or addresses a backend key of the client; and the
  invariant holds again afterwards.
\<close>

theorem tenant_isolation:
  assumes "tenant_store srv p I" "I w"
    and "kms_handle (logged srv) p keccak mlkem now req (w, []) = (r, (w', requests))"
  shows "list_all (tenant_request (kp_client p) (caller req)) requests \<and> I w'"
  using traced_run [OF tenant_store.kms_handle_traced [OF assms(1)] assms(2,3)] by blast

theorem tenant_isolation_witness:
  "list_all (tenant_request client0 ''k'') (snd (snd (kms_handle (logged (\<lambda>(w :: nat) r. (TransportFailed, w)))
       (newKmsPlugin client0) id (\<lambda>_ _. None) [] (RotateKeyCall \<lparr>rk_ClientId = ''k'', rk_KeyId = ''k''\<rparr>) (0, []))))"
proof -
  let ?srv = "\<lambda>(w :: nat) r. (TransportFailed, w)"
  let ?req = "RotateKeyCall \<lparr>rk_ClientId = ''k'', rk_KeyId = ''k''\<rparr>"
  have o: "tenant_store ?srv (newKmsPlugin client0) (\<lambda>_. True)" by unfold_locales simp_all
  obtain r w' requests where run: "kms_handle (logged ?srv) (newKmsPlugin client0) id (\<lambda>_ _. None) [] ?req (0, [])
      = (r, (w', requests))" by (metis prod.collapse)
  show ?thesis using tenant_isolation [OF o TrueI run] unfolding run by (simp add: newKmsPlugin_def)
qed

text \<open>
  C8. Isolation of the closed system. The model \<open>kv_server\<close> of OpenBao's key-value engine starts without metadata, the mounts of the other engines
  lie outside the metadata directory, and nothing is assumed of those engines. Then in every sequence of calls of any
  clients, each call sends only requests of its own caller's tenant.
\<close>

theorem system_isolation:
  assumes "mounts_apart c"
    and "(req, requests) \<in> set (kms_serve (kv_server c engine) (newKmsPlugin c) keccak mlkem calls (Map.empty, v))"
  shows "list_all (tenant_request c (caller req)) requests"
proof -
  have "tenant_store (kv_server c engine) (newKmsPlugin c) (docs_ok c)"
    using kv_tenant_store [of "newKmsPlugin c"] assms(1) by (simp add: newKmsPlugin_def)
  moreover have "docs_ok c (Map.empty, v)" by (simp add: docs_ok_def)
  ultimately have "list_all (tenant_request (kp_client (newKmsPlugin c)) (caller req)) requests"
    using assms(2) by (rule tenant_store.kms_serve_isolated)
  then show ?thesis by (simp add: newKmsPlugin_def)
qed

theorem system_isolation_witness:
  "list_all (\<lambda>(req, requests). list_all (tenant_request (newOpenBaoClient None (Some [])) (caller req)) requests)
     (kms_serve (kv_server (newOpenBaoClient None (Some [])) (\<lambda>(v :: nat) r. (TransportFailed, v)))
        (newKmsPlugin (newOpenBaoClient None (Some []))) id (\<lambda>_ _. None)
        [([], RotateKeyCall \<lparr>rk_ClientId = ''k'', rk_KeyId = ''k''\<rparr>),
         ([], GetKeyMetadataCall \<lparr>gm_ClientId = ''c'', gm_KeyId = ''k''\<rparr>)] (Map.empty, 0))"
  using system_isolation [OF default_mounts_apart] by (fastforce simp: list_all_iff simp del: kms_serve.simps)

end
