(* ===== verification/KmsLifecycle.thy ===== *)
theory KmsLifecycle
  imports KmsTenancy
begin

text \<open>
  The life of a key across calls, on the key-value store of \<^verbatim>\<open>KmsTenancy\<close>: what creation leaves behind, what the
  other handlers then find, and what rotation changes.
\<close>

section \<open>Lemmas\<close>

definition response_strings :: "KeyMetadata \<Rightarrow> string list" where
  "response_strings r =
     [km_KeyId r, km_Alias r, km_Description r, km_KeySpec r, km_KeyUsage r, km_CreationDate r, km_Scheme r,
      optionalString (km_PublicKey r), optionalString (km_Address r)]
     @ concat (map (\<lambda>t. [TagKey t, TagValue t]) (km_Tags r))"

lemma toProtoMetadata_Ok:
  assumes "toProtoMetadata m w = (Ok r, w')" "metadata_normalize m = m" "Tags m = toRecordTags ts"
  shows "w' = w" "km_KeyId r = KeyID m" "km_Scheme r = Scheme m" "km_Enabled r = Enabled m"
    "km_PrimaryVersion r = PrimaryVersion m" "km_Tags r = ts"
    "list_all valid_utf8 (response_strings r) \<Longrightarrow> valid_utf8 (ClientID m) \<Longrightarrow> valid_utf8 (ProviderKey m) \<Longrightarrow>
     valid_utf8 (TransitKey m) \<Longrightarrow> metadata_utf8 m"
proof -
  have r: "w' = w" "r = \<lparr>km_KeyId = KeyID m, km_Alias = Alias m, km_Description = Description m,
                km_KeySpec = KeySpec m, km_KeyUsage = KeyUsage m, km_Enabled = Enabled m,
                km_PrimaryVersion = PrimaryVersion m, km_CreationDate = CreatedAt m,
                km_Scheme = Scheme m,
                km_PublicKey = (if PublicKey m \<noteq> [] then Some (PublicKey m) else None),
                km_Address = (if Address m \<noteq> [] then Some (Address m) else None), km_Tags = ts\<rparr>"
    using assms by (simp_all add: toProtoMetadata_def toProtoTags_record)
  then show "w' = w" "km_KeyId r = KeyID m" "km_Scheme r = Scheme m" "km_Enabled r = Enabled m"
    "km_PrimaryVersion r = PrimaryVersion m" "km_Tags r = ts" by simp_all
  have opt: "optionalString (if x \<noteq> [] then Some x else None) = x" for x by (cases x) simp_all
  have tags: "concat (map (\<lambda>t. case t of None \<Rightarrow> [] | Some t \<Rightarrow> [TagKey t, TagValue t]) (case Tags m of None \<Rightarrow> [] | Some ts \<Rightarrow> ts))
      = concat (map (\<lambda>t. [TagKey t, TagValue t]) ts)"
    unfolding assms(3) toRecordTags_def by (simp add: comp_def)
  show "list_all valid_utf8 (response_strings r) \<Longrightarrow> valid_utf8 (ClientID m) \<Longrightarrow> valid_utf8 (ProviderKey m) \<Longrightarrow>
     valid_utf8 (TransitKey m) \<Longrightarrow> metadata_utf8 m"
    unfolding metadata_utf8_def metadata_strings_def tags response_strings_def r(2)
    by (simp add: opt del: valid_utf8.simps if_split)
qed

text \<open>A write to the metadata directory and the read after it.\<close>

lemma kv_put:
  assumes "key_id k" "putMetadata (kv_server c engine) c cl k m s = (Ok (), s')"
  shows "\<exists>t. metadataPath c cl k = Some t \<and> fst s' = (fst s)(t \<mapsto> json_print (JObj [(''data'', metadata_json m)]))"
proof -
  obtain docs v where s: "s = (docs, v)" by (cases s)
  obtain t where t: "metadataPath c cl k = Some t"
    using assms(2) by (cases "metadataPath c cl k") (auto simp: putMetadata_def)
  note metadataPath_dir [OF assms(1) t]
  then show ?thesis
    using assms(2) t by (auto simp: putMetadata_def s Post_def do_request_def into_nil_def)
qed

lemma kv_get:
  assumes "key_id k" "metadataPath c cl k = Some t" "fst s t = Some (json_print (JObj [(''data'', metadata_json m)]))"
    and "metadata_utf8 m" "ClientID m = [] \<or> ClientID m = cl"
  shows "getMetadata (kv_server c engine) c cl k s = (Ok (metadata_normalize m), s)"
proof -
  obtain docs v where s: "s = (docs, v)" by (cases s)
  have "kv_server c engine s \<lparr>req_method = GET, req_path = t, req_body = []\<rparr>
      = (Response 200 ''200 OK'' (json_print (nested_json m)), s)"
    using metadataPath_dir [OF assms(1,2)] assms(3) unfolding nested_doc [symmetric] by (simp add: s)
  from getMetadata_of_stored [where srv = "kv_server c engine" and w = s, OF assms(2,4) this] assms(5)
  show ?thesis by simp
qed

lemma CreateKey_stores:
  assumes "CreateKey (kv_server c engine) (newKmsPlugin c) now req s = (Ok r, s')"
    and "list_all valid_utf8 (response_strings r)" "valid_utf8 (ck_ClientId req)"
  shows "\<exists>m prov. validateAlias (TrimSpace (ck_Alias req)) = Inr () \<and> km_KeyId r = keyIDPrefix @ TrimSpace (ck_Alias req)
    \<and> normalizeScheme (optionalString (ck_Scheme req)) = Inr (Scheme m) \<and> newProviders (Scheme m) = Some prov
    \<and> tenant_record (ck_ClientId req) m \<and> KeyID m = km_KeyId r
    \<and> getMetadata (kv_server c engine) c (ck_ClientId req) (km_KeyId r) s' = (Ok m, s')
    \<and> toProtoMetadata m s' = (Ok r, s') \<and> TrimSpace (ck_ClientId req) \<noteq> []"
proof -
  let ?srv = "kv_server c engine" and ?a = "TrimSpace (ck_Alias req)" and ?cl = "ck_ClientId req"
  have c: "kp_client (newKmsPlugin c) = c" "kp_providers (newKmsPlugin c) = newProviders" by (simp_all add: newKmsPlugin_def)
  from CreateKey_Ok [OF assms(1)] obtain scheme prov s1 m s2 where
    a: "validateAlias ?a = Inr ()" and cl: "TrimSpace ?cl \<noteq> []"
    and sch: "normalizeScheme (optionalString (ck_Scheme req)) = Inr scheme" "newProviders scheme = Some prov"
    and create: "provider_CreateKey ?srv c prov (req\<lparr>ck_Alias := ?a\<rparr>) (keyIDPrefix @ ?a) now s1 = (Ok m, s2)"
    and put: "putMetadata ?srv c ?cl (keyIDPrefix @ ?a) m s2 = (Ok (), s')"
    and resp: "toProtoMetadata m s' = (Ok r, s')" unfolding c by blast
  note pc = provider_contract [OF create]
  have k: "key_id (keyIDPrefix @ ?a)" using a by (auto simp: key_id_def)
  have tr: "tenant_record ?cl m" using created_record [OF create] a k valid_alias_trimmed [OF a] pc by simp
  have scheme: "Scheme m = scheme" using newProviders_scheme [OF sch] pc by simp
  note tp = toProtoMetadata_Ok [OF resp]
  have ts: "Tags m = toRecordTags (ck_Tags req)" and norm: "metadata_normalize m = m" using pc by simp_all
  have "TransitKey m = [] \<and> ProviderKey m = metadata_backendKey m"
    using create by (cases prov) (auto simp: provider_CreateKey_def creator_defs prov_Ok Let_def metadata_backendKey_def
        scopedBackendKey_Inr_iff split: prod.splits)
  moreover have "valid_utf8 (metadata_backendKey m)" using tr tenant_key_utf8 [of ?cl] by (simp add: tenant_record_def)
  ultimately have utf8: "metadata_utf8 m" using tp(7) [OF norm ts assms(2)] assms(3) pc by simp
  have rk: "km_KeyId r = keyIDPrefix @ ?a" using tp(2) [OF norm ts] pc by simp
  obtain t where t: "metadataPath c ?cl (keyIDPrefix @ ?a) = Some t"
    "fst s' = (fst s2)(t \<mapsto> json_print (JObj [(''data'', metadata_json m)]))" using kv_put [OF k put] by blast
  have "getMetadata ?srv c ?cl (keyIDPrefix @ ?a) s' = (Ok (metadata_normalize m), s')"
    using t(2) pc by (intro kv_get [OF k t(1) _ utf8]) simp_all
  then show ?thesis using a cl sch scheme tr resp rk pc norm by (intro exI [of _ m] exI [of _ prov]) simp
qed

section \<open>Properties\<close>

text \<open>
  C23. A created key is there. On the model \<open>kv_server\<close> of the key-value engine, after a successful creation (with UTF-8 strings, as the wire
  format requires) the same client reads exactly the metadata that creation returned, by alias or by id and whatever
  the surrounding spaces; nothing was left to chance between the two calls. A second creation under the same alias is
  refused with \<^verbatim>\<open>AlreadyExists\<close> and changes nothing.
\<close>

theorem created_key_is_read:
  assumes "CreateKey (kv_server c engine) (newKmsPlugin c) now req s = (Ok r, s')"
    and "list_all valid_utf8 (response_strings r)" "valid_utf8 (ck_ClientId req)"
    and "resolveKeyRef kid = Inr (km_KeyId r, a)"
    and "ck_ClientId req' = ck_ClientId req" "TrimSpace (ck_Alias req') = TrimSpace (ck_Alias req)"
    and "normalizeScheme (optionalString (ck_Scheme req')) = Inr scheme'"
  shows "GetKeyMetadata (kv_server c engine) (newKmsPlugin c) \<lparr>gm_ClientId = ck_ClientId req, gm_KeyId = kid\<rparr> s' = (Ok r, s')
    \<and> CreateKey (kv_server c engine) (newKmsPlugin c) now' req' s' = (Err (AlreadyExists, RequestErr AliasExists), s')"
proof -
  let ?srv = "kv_server c engine" and ?p = "newKmsPlugin c"
  from CreateKey_stores [OF assms(1-3)] obtain m prov where
    al: "validateAlias (TrimSpace (ck_Alias req)) = Inr ()" "km_KeyId r = keyIDPrefix @ TrimSpace (ck_Alias req)"
    and sch: "normalizeScheme (optionalString (ck_Scheme req)) = Inr (Scheme m)" "newProviders (Scheme m) = Some prov"
    and get: "getMetadata ?srv c (ck_ClientId req) (km_KeyId r) s' = (Ok m, s')"
    and resp: "toProtoMetadata m s' = (Ok r, s')" and cl: "TrimSpace (ck_ClientId req) \<noteq> []" by blast
  have "metadataProvider ?srv ?p (ck_ClientId req) kid s' = (Ok (m, prov), s')"
    using assms(4) get sch normalizeScheme_idem [OF sch(1)]
    by (auto simp: metadataProvider_Ok_iff newKmsPlugin_def)
  then have "GetKeyMetadata ?srv ?p \<lparr>gm_ClientId = ck_ClientId req, gm_KeyId = kid\<rparr> s' = (Ok r, s')"
    using cl resp by (simp add: GetKeyMetadata_def requireClientID_def andThen_def)
  moreover have "CreateKey ?srv ?p now' req' s' = (Err (AlreadyExists, RequestErr AliasExists), s')"
    using cl al get assms(5-7) canonicalKeyID_valid [OF al(1)]
    by (simp add: CreateKey_def requireClientID_def named_def rmap_err_def Let_def newKmsPlugin_def attempt_def)
  ultimately show ?thesis ..
qed

definition example_engine :: "nat server" where
  "example_engine v r = (Response 200 ''200 OK'' (json_print (JObj [(''data'', JObj [])])), v)"

definition example_request :: CreateKeyRequest where
  "example_request = \<lparr>ck_ClientId = ''k'', ck_Alias = ''k'', ck_Description = [], ck_KeySpec = keySpecECCSecgP256K1,
     ck_KeyUsage = signVerifyUsage, ck_Scheme = Some schemeEthereum, ck_Tags = []\<rparr>"

abbreviation default_client :: openBaoClient where
  "default_client \<equiv> newOpenBaoClient None (Some [])"

lemma example_create:
  "\<exists>r s'. CreateKey (kv_server default_client example_engine) (newKmsPlugin default_client) ''now'' example_request (Map.empty, 0)
     = (Ok r, s') \<and> list_all valid_utf8 (response_strings r) \<and> km_KeyId r = ''kms:k''"
proof -
  let ?c = default_client
  let ?srv = "kv_server ?c example_engine" and ?s = "(Map.empty :: string \<Rightarrow> string option, 0 :: nat)"
  have k: "key_id ''kms:k''" using valid_alias_k by (auto simp: key_id_def)
  have key: "scopedBackendKey ''k'' ''k'' = Inr (tenantNamespace ''k'' @ ''_k'')"
    using valid_alias_k valid_alias_trimmed [OF valid_alias_k] by (simp add: scopedBackendKey_Inr_iff)
  then have tk: "tenant_key ''k'' (tenantNamespace ''k'' @ ''_k'')" by (rule scoped_tenant_key)
  have base: "baseURL ?c = Some []" by (simp add: newOpenBaoClient_def Let_def)
  obtain t where t: "metadataPath ?c ''k'' ''kms:k'' = Some t"
    using metadataPath_form [OF base valid_alias_k, of "''k''"] by simp
  note dir = metadataPath_dir [OF k t]
  have trim: "TrimSpace ''{}'' = ''{}''" by (rule TrimSpace_space_free, rule ascii_graph_space_free) simp
  have miss: "getMetadata ?srv ?c ''k'' ''kms:k'' ?s = (Err (Bao (StatusError 404 ''404 Not Found'' ''{}'')), ?s)"
    using dir by (simp add: getMetadata_def t Get_def do_request_def andThen_def wrapErr_def attempt_def trim)
  obtain e where e: "ethereumPath ?c [''keys'', tenantNamespace ''k'' @ ''_k''] = Some e"
    by (simp add: ethereumPath_def joinPath_def base Let_def)
  then have out: "\<not> metadata_dir ?c e"
    using default_mounts_apart [of "[]"] tk unfolding mounts_apart_def engine_targets_def ethereum_parts_def
    by (metis UnI1 UnI2 imageI insertI1)
  define j where "j = JObj [(''data'', JObj [])]"
  have "printable j" by (simp add: j_def printable_def max_depth_def rune_len_ascii)
  then have parse: "json_parse (json_print j) = Some j" by (rule json.dec_enc)
  have into: "into_data (dec_struct ethereum_key_field) z (json_print j) = Some z" for z
    unfolding into_data_def json_unmarshal_def parse option.case by (simp add: j_def dec_struct_def dec_data_def)
  have create: "createEthereumKey ?srv ?c (tenantNamespace ''k'' @ ''_k'') ?s
      = (Ok \<lparr>eName = [], eAddress = [], ePublicKey = [], eCreatedAt = []\<rparr>, ?s)"
    using e out into by (simp add: createEthereumKey_def Post_def do_request_def example_engine_def j_def)
  define m where "m = \<lparr>KeyID = ''kms:k'', ClientID = ''k'', Alias = ''k'', Scheme = schemeEthereum,
            ProviderKey = tenantNamespace ''k'' @ ''_k'', TransitKey = [], Description = [],
            KeySpec = keySpecECCSecgP256K1, KeyUsage = signVerifyUsage, Enabled = True,
            PrimaryVersion = 1, CreatedAt = ''now'', PublicKey = [], Address = [], Tags = toRecordTags []\<rparr>"
  have prov: "provider_CreateKey ?srv ?c EthereumProvider (example_request\<lparr>ck_Alias := ''k''\<rparr>) ''kms:k'' ''now'' ?s = (Ok m, ?s)"
    using create by (simp add: provider_CreateKey_def ethereum_CreateKey_def example_request_def named_def rmap_err_def
        validateEthereumKeyUsage_def key internal_def andThen_def wrapErr_def attempt_def m_def)
  have put: "\<exists>s'. putMetadata ?srv ?c ''k'' ''kms:k'' m ?s = (Ok (), s')"
    using dir by (simp add: putMetadata_def t Post_def do_request_def into_nil_def)
  then obtain s' where put: "putMetadata ?srv ?c ''k'' ''kms:k'' m ?s = (Ok (), s')" ..
  have norm: "metadata_normalize m = m" by (simp add: metadata_normalize_def m_def)
  obtain r where r: "toProtoMetadata m s' = (Ok r, s')" "list_all valid_utf8 (response_strings r)" "km_KeyId r = ''kms:k''"
    by (simp add: toProtoMetadata_def norm) (simp add: m_def toProtoTags_record response_strings_def rune_len_ascii)
  have a: "TrimSpace ''k'' = ''k''" using valid_alias_trimmed [OF valid_alias_k] .
  have "CreateKey ?srv (newKmsPlugin ?c) ''now'' example_request ?s = (Ok r, s')"
    using miss prov put r(1) valid_alias_k canonicalKeyID_valid [OF valid_alias_k]
    by (simp add: CreateKey_def requireClientID_def example_request_def a named_def rmap_err_def normalizeScheme_def
        newKmsPlugin_def attempt_def isOpenBaoStatus_def providerForScheme_def newProviders_def andThen_def internal_def
        wrapErr_def norm Let_def)
  then show ?thesis using r by blast
qed

theorem created_key_is_read_witness:
  "\<exists>r s'. CreateKey (kv_server default_client example_engine) (newKmsPlugin default_client) ''now'' example_request (Map.empty, 0)
       = (Ok r, s')
     \<and> GetKeyMetadata (kv_server default_client example_engine) (newKmsPlugin default_client) \<lparr>gm_ClientId = ''k'', gm_KeyId = ''k''\<rparr> s'
       = (Ok r, s')"
proof -
  obtain r s' where c: "CreateKey (kv_server default_client example_engine) (newKmsPlugin default_client) ''now'' example_request
      (Map.empty, 0) = (Ok r, s')" "list_all valid_utf8 (response_strings r)" "km_KeyId r = ''kms:k''"
    using example_create by blast
  have "valid_utf8 (ck_ClientId example_request)" by (simp add: example_request_def rune_len_ascii)
  moreover have "resolveKeyRef ''k'' = Inr (km_KeyId r, ''k'')" using resolveKeyRef_of_alias(1) [OF valid_alias_k] c(3) by simp
  moreover have "normalizeScheme (optionalString (ck_Scheme example_request)) = Inr schemeEthereum"
    by (simp add: example_request_def normalizeScheme_def)
  ultimately show ?thesis
    using created_key_is_read [OF c(1,2) _ _ refl refl] c(1) by (auto simp: example_request_def)
qed

end
