(* ===== verification/ChaCha20.thy ===== *)
theory ChaCha20
  imports Prelude
begin

text \<open>
  The \<^verbatim>\<open>rand_chacha\<close>-compatible generator of \<^verbatim>\<open>plugins/pkg/chacha20/chacha20_rng.go\<close>: the
  record \<open>ChaCha20Rng\<close> with its 16-word state, its 64-byte buffer and the read position, and
  every operation of the file. The specification is a byte stream with random access; the
  locale \<open>byte_stream\<close> states the laws of such a generator and is interpreted on the model.
\<close>

unbundle bit_operations_syntax

record ChaCha20Rng =
  state :: "u32 list"
  buf :: bytes
  bufPos :: nat

section \<open>Operations\<close>

text \<open>\<^verbatim>\<open>binary.LittleEndian.Uint32\<close> and \<^verbatim>\<open>PutUint32\<close>.\<close>

definition le_u32 :: "bytes \<Rightarrow> u32" where
  "le_u32 bs = (of_char (bs ! 0) OR push_bit 8 (of_char (bs ! 1))
     OR push_bit 16 (of_char (bs ! 2)) OR push_bit 24 (of_char (bs ! 3)))"

definition put_le_u32 :: "u32 \<Rightarrow> bytes" where
  "put_le_u32 w = map (\<lambda>k. char_of (uint (drop_bit (8 * k) w))) [0 ..< 4]"

definition New :: "bytes \<Rightarrow> ChaCha20Rng" where
  "New seed =
     \<lparr>state = [0x61707865, 0x3320646e, 0x79622d32, 0x6b206574]
        @ map (\<lambda>i. le_u32 (take 4 (drop (i * 4) seed))) [0 ..< 8]
        @ [0, 0, 0, 0],
      buf = replicate 64 (CHR 0x00),
      bufPos = 64\<rparr>"

definition rotl32 :: "u32 \<Rightarrow> nat \<Rightarrow> u32" where
  "rotl32 v n = (push_bit n v OR drop_bit (32 - n) v)"

definition quarterRound :: "nat \<Rightarrow> nat \<Rightarrow> nat \<Rightarrow> nat \<Rightarrow> u32 list \<Rightarrow> u32 list" where
  "quarterRound a b c d x0 =
     (let x1 = x0[a := x0 ! a + x0 ! b];
          x2 = x1[d := x1 ! d XOR x1 ! a];
          x3 = x2[d := rotl32 (x2 ! d) 16];
          x4 = x3[c := x3 ! c + x3 ! d];
          x5 = x4[b := x4 ! b XOR x4 ! c];
          x6 = x5[b := rotl32 (x5 ! b) 12];
          x7 = x6[a := x6 ! a + x6 ! b];
          x8 = x7[d := x7 ! d XOR x7 ! a];
          x9 = x8[d := rotl32 (x8 ! d) 8];
          x10 = x9[c := x9 ! c + x9 ! d];
          x11 = x10[b := x10 ! b XOR x10 ! c]
      in x11[b := rotl32 (x11 ! b) 7])"

definition doubleRound :: "u32 list \<Rightarrow> u32 list" where
  "doubleRound x =
     quarterRound 3 4 9 14 (quarterRound 2 7 8 13 (quarterRound 1 6 11 12 (quarterRound 0 5 10 15
       (quarterRound 3 7 11 15 (quarterRound 2 6 10 14 (quarterRound 1 5 9 13 (quarterRound 0 4 8 12 x)))))))"

definition incrementCounter :: "ChaCha20Rng \<Rightarrow> ChaCha20Rng" where
  "incrementCounter r =
     (let s = (state r)[12 := state r ! 12 + 1]
      in if s ! 12 = 0 then r\<lparr>state := s[13 := s ! 13 + 1]\<rparr> else r\<lparr>state := s\<rparr>)"

definition refillBlock :: "ChaCha20Rng \<Rightarrow> ChaCha20Rng" where
  "refillBlock r =
     (let x = (doubleRound ^^ 10) (state r);
          y = map2 (+) x (state r)
      in incrementCounter (r\<lparr>buf := concat (map put_le_u32 y), bufPos := 0\<rparr>))"

text \<open>
  \<^verbatim>\<open>FillBytes\<close> with a destination of \<open>n\<close> bytes. A read position behind the buffer would make
  the slice expressions of the source panic: that is the value \<open>None\<close>.
\<close>

function FillBytes :: "nat \<Rightarrow> ChaCha20Rng \<Rightarrow> (bytes \<times> ChaCha20Rng) option" where
  "FillBytes len r =
     (if len = 0 then Some ([], r)
      else
        let r1 = (if bufPos r = 64 then refillBlock r else r);
            n = min (64 - bufPos r1) len
        in if 64 \<le> bufPos r1 then None
           else
             let out = take n (drop (bufPos r1) (buf r1));
                 r2 = r1\<lparr>bufPos := bufPos r1 + n\<rparr>
             in (case FillBytes (len - n) r2 of
                   None \<Rightarrow> None
                 | Some (rest, r3) \<Rightarrow> Some (out @ rest, r3)))"
  by pat_completeness auto
termination
  by (relation "measure fst") auto

declare FillBytes.simps [simp del]

definition Counter :: "ChaCha20Rng \<Rightarrow> u64" where
  "Counter r = (push_bit 32 (ucast (state r ! 13)) OR ucast (state r ! 12))"

definition SetCounter :: "u64 \<Rightarrow> ChaCha20Rng \<Rightarrow> ChaCha20Rng" where
  "SetCounter c r = r\<lparr>state := (state r)[12 := ucast c, 13 := ucast (drop_bit 32 c)], bufPos := 64\<rparr>"

text \<open>The second and third step of \<^verbatim>\<open>DiscardBytesFast\<close>, from a block boundary.\<close>

definition discard_aligned :: "u64 \<Rightarrow> ChaCha20Rng \<Rightarrow> ChaCha20Rng" where
  "discard_aligned n r =
     (let blocks = n div 64; rem = n mod 64;
          r1 = (if 0 < blocks then SetCounter (Counter r + blocks) r else r)
      in if 0 < rem then (refillBlock r1)\<lparr>bufPos := unat rem\<rparr> else r1)"

definition DiscardBytesFast :: "u64 \<Rightarrow> ChaCha20Rng \<Rightarrow> ChaCha20Rng" where
  "DiscardBytesFast n r =
     (if n = 0 then r
      else if bufPos r < 64 then
        let avail = of_nat (64 - bufPos r)
        in if n < avail then r\<lparr>bufPos := bufPos r + unat n\<rparr>
           else discard_aligned (n - avail) (r\<lparr>bufPos := 64\<rparr>)
      else discard_aligned n r)"

section \<open>Specification: a byte stream with random access\<close>

text \<open>The 64 bytes of the block with counter \<open>c\<close>, for the key and stream words of \<open>st\<close>.\<close>

definition with_counter :: "u64 \<Rightarrow> u32 list \<Rightarrow> u32 list" where
  "with_counter c st = st[12 := ucast c, 13 := ucast (drop_bit 32 c)]"

definition block_bytes :: "u32 list \<Rightarrow> bytes" where
  "block_bytes st = concat (map put_le_u32 (map2 (+) ((doubleRound ^^ 10) st) st))"

definition block :: "u32 list \<Rightarrow> u64 \<Rightarrow> bytes" where
  "block st c = block_bytes (with_counter c st)"

text \<open>The keystream of a seed: byte \<open>i\<close> is byte \<open>i mod 64\<close> of block \<open>i div 64\<close>.\<close>

definition keystream :: "bytes \<Rightarrow> nat \<Rightarrow> byte" where
  "keystream seed i = block (state (New seed)) (of_nat (i div 64)) ! (i mod 64)"

text \<open>The \<open>i\<close>-th byte that a generator will still produce.\<close>

definition next_byte :: "ChaCha20Rng \<Rightarrow> nat \<Rightarrow> byte" where
  "next_byte r i =
     (let avail = 64 - bufPos r
      in if i < avail then buf r ! (bufPos r + i)
         else block (state r) (Counter r + of_nat ((i - avail) div 64)) ! ((i - avail) mod 64))"

definition rng_wf :: "ChaCha20Rng \<Rightarrow> bool" where
  "rng_wf r \<longleftrightarrow> length (state r) = 16 \<and> length (buf r) = 64 \<and> bufPos r \<le> 64"

text \<open>The contract of a generator that clients rely on.\<close>

locale byte_stream =
  fixes wf :: "'s \<Rightarrow> bool"
    and ahead :: "'s \<Rightarrow> nat \<Rightarrow> byte"
    and fill :: "nat \<Rightarrow> 's \<Rightarrow> (bytes \<times> 's) option"
    and skip :: "u64 \<Rightarrow> 's \<Rightarrow> 's"
  assumes fill_law: "wf s \<Longrightarrow>
      \<exists>s'. fill n s = Some (map (ahead s) [0 ..< n], s') \<and> wf s' \<and> (\<forall>i. ahead s' i = ahead s (n + i))"
    and skip_wf: "wf s \<Longrightarrow> wf (skip k s)"
    and skip_law: "wf s \<Longrightarrow> ahead (skip k s) i = ahead s (unat k + i)"
begin

lemma fill_total: "wf s \<Longrightarrow> \<exists>out s'. fill n s = Some (out, s') \<and> length out = n \<and> wf s'"
  using fill_law [of s n] by auto

text \<open>Reading in two portions is reading once.\<close>

lemma fill_fill:
  assumes "wf s" "fill m s = Some (a, s1)" "fill n s1 = Some (b, s2)"
  shows "\<exists>s3. fill (m + n) s = Some (a @ b, s3) \<and> (\<forall>i. ahead s3 i = ahead s2 i)"
proof -
  from fill_law [OF assms(1), of m] assms(2)
  have a: "a = map (ahead s) [0 ..< m]" and s1: "wf s1" "\<And>i. ahead s1 i = ahead s (m + i)"
    by auto
  from fill_law [OF s1(1), of n] assms(3)
  have b: "b = map (ahead s1) [0 ..< n]" and s2: "\<And>i. ahead s2 i = ahead s1 (n + i)"
    by auto
  have ab: "a @ b = map (ahead s) [0 ..< m + n]"
  proof (rule nth_equalityI)
    fix i assume "i < length (a @ b)"
    then show "(a @ b) ! i = map (ahead s) [0 ..< m + n] ! i"
      by (auto simp: a b nth_append s1(2))
  qed (simp add: a b)
  from fill_law [OF assms(1), of "m + n"] obtain s3
    where "fill (m + n) s = Some (map (ahead s) [0 ..< m + n], s3)" "\<forall>i. ahead s3 i = ahead s (m + n + i)"
    by auto
  then show ?thesis using ab s1(2) s2 by (auto simp: add.assoc)
qed

text \<open>Skipping is reading and throwing away: the two leave the same stream ahead.\<close>

lemma skip_as_fill:
  assumes "wf s"
  shows "\<exists>out s'. fill (unat k) s = Some (out, s') \<and> (\<forall>i. ahead (skip k s) i = ahead s' i)"
  using fill_law [OF assms, of "unat k"] skip_law [OF assms, of k] by auto

lemma skip_then_fill:
  assumes "wf s"
  shows "\<exists>s'. fill n (skip k s) = Some (map (\<lambda>i. ahead s (unat k + i)) [0 ..< n], s') \<and> wf s'"
proof -
  have "ahead (skip k s) = (\<lambda>i. ahead s (unat k + i))" by (rule ext) (rule skip_law [OF assms])
  then show ?thesis using fill_law [OF skip_wf [OF assms, of k], of n] by auto
qed

end

section \<open>Lemmas\<close>

subsection \<open>Shapes\<close>

lemma length_quarterRound [simp]: "length (quarterRound a b c d x) = length x"
  by (simp add: quarterRound_def Let_def)

lemma length_doubleRound [simp]: "length (doubleRound x) = length x"
  by (simp add: doubleRound_def)

lemma length_doubleRounds [simp]: "length ((doubleRound ^^ n) x) = length x"
  by (induction n) auto

lemma length_put_le_u32 [simp]: "length (put_le_u32 w) = 4"
  by (simp add: put_le_u32_def)

lemma length_concat_put [simp]: "length (concat (map put_le_u32 xs)) = 4 * length xs"
  by (induction xs) auto

lemma length_block_bytes [simp]: "length (block_bytes st) = 4 * length st"
  unfolding block_bytes_def length_concat_put by simp

lemma length_with_counter [simp]: "length (with_counter c st) = length st"
  by (simp add: with_counter_def)

lemma length_block [simp]: "length (block st c) = 4 * length st"
  by (simp add: block_def)

lemma with_counter_twice [simp]: "with_counter c (with_counter d st) = with_counter c st"
  by (simp add: with_counter_def list_update_swap)

lemma block_with_counter [simp]: "block (with_counter c st) = block st"
  by (rule ext) (simp add: block_def)

subsection \<open>The 64-bit counter held in two 32-bit words\<close>

lemma counter_split:
  fixes c :: u64
  shows "push_bit 32 (ucast (ucast (drop_bit 32 c) :: u32)) OR ucast (ucast c :: u32) = c"
  by (rule bit_word_eqI) (auto simp: bit_simps)

lemma counter_low: "ucast (push_bit 32 (ucast (h :: u32)) OR ucast (l :: u32) :: u64) = l"
  by (rule bit_word_eqI) (auto simp: bit_simps)

lemma counter_high: "ucast (drop_bit 32 (push_bit 32 (ucast (h :: u32)) OR ucast (l :: u32) :: u64)) = h"
  by (rule bit_word_eqI) (auto simp: bit_simps dest: bit_imp_le_length)

lemma Counter_with_counter:
  "length (state r) = 16 \<Longrightarrow> state r = with_counter c st \<Longrightarrow> Counter r = c"
  by (auto simp: Counter_def with_counter_def counter_split)

lemma state_with_Counter: "length (state r) = 16 \<Longrightarrow> with_counter (Counter r) (state r) = state r"
  unfolding with_counter_def Counter_def counter_low counter_high by simp

lemma unat_low32: "unat (ucast (c :: u64) :: u32) = unat c mod 2 ^ 32"
  by (simp add: unsigned_ucast_eq take_bit_eq_mod)

lemma unat_high32: "unat (ucast (drop_bit 32 (c :: u64)) :: u32) = unat c div 2 ^ 32"
proof -
  have "unat c < 2 ^ 64" using unsigned_less [of c] by simp
  then have "unat c div 2 ^ 32 < 2 ^ 32" by (intro less_mult_imp_div_less) simp
  moreover have "unat (drop_bit 32 c) = unat c div 2 ^ 32"
    by (metis drop_bit_eq_div unat_drop_bit_eq)
  ultimately show ?thesis by (simp only: unat_low32 mod_less)
qed

lemma div_mod_square:
  fixes n B :: nat
  assumes "n < B * B"
  shows "Suc n mod (B * B) div B = (if Suc n mod B = 0 then Suc (n div B) mod B else n div B)"
proof -
  from assms have B: "0 < B" by (cases B) auto
  from assms B have "n div B < B" by (simp add: less_mult_imp_div_less)
  moreover have "Suc n mod (B * B) div B = Suc n div B mod B"
    using B by (simp add: mod_mult2_eq)
  ultimately show ?thesis by (simp add: div_Suc)
qed

lemma low32_inc: "(ucast (c + 1) :: u32) = ucast (c :: u64) + 1"
proof -
  have "unat (c + 1) mod 2 ^ 32 = (unat c + 1) mod 2 ^ 32"
    by (simp only: unat_word_ariths unsigned_1) (simp add: mod_mod_cancel)
  then show ?thesis
    by (simp add: word_unat_eq_iff unat_low32 unat_word_ariths mod_simps)
qed

lemma high32_inc:
  fixes c :: u64
  shows "(ucast (drop_bit 32 (c + 1)) :: u32) =
    (if (ucast c :: u32) + 1 = 0 then ucast (drop_bit 32 c) + 1 else ucast (drop_bit 32 c))"
proof -
  define B :: nat where "B = 2 ^ 32"
  have n: "unat c < B * B" unfolding B_def using unsigned_less [of c] by simp
  have "(ucast c :: u32) + 1 = 0 \<longleftrightarrow> Suc (unat c) mod B = 0"
    by (simp add: word_unat_eq_iff unat_low32 unat_word_ariths B_def mod_simps)
  moreover have "unat (c + 1) = Suc (unat c) mod (B * B)"
    by (simp add: unat_word_ariths B_def)
  moreover have "unat (ucast (drop_bit 32 c) + 1 :: u32) = Suc (unat c div B) mod B"
    by (simp add: unat_word_ariths unat_high32 B_def)
  ultimately show ?thesis
    using div_mod_square [OF n] by (auto simp: word_unat_eq_iff unat_high32 [folded B_def])
qed

lemma state_words:
  assumes "length (state r) = 16"
  shows "state r ! 12 = ucast (Counter r)" and "state r ! 13 = ucast (drop_bit 32 (Counter r))"
  unfolding Counter_def counter_low counter_high by simp_all

lemma incrementCounter_eq:
  assumes "length (state r) = 16"
  shows "incrementCounter r = r\<lparr>state := with_counter (Counter r + 1) (state r)\<rparr>"
proof -
  let ?c = "Counter r" and ?st = "state r"
  have keep: "?st[12 := v, 13 := ?st ! 13] = ?st[12 := v]" for v
    by (subst list_update_swap) simp_all
  have inc: "incrementCounter r =
      (if ?st ! 12 + 1 = 0 then r\<lparr>state := ?st[12 := ?st ! 12 + 1, 13 := ?st ! 13 + 1]\<rparr>
       else r\<lparr>state := ?st[12 := ?st ! 12 + 1]\<rparr>)"
    using assms by (simp add: incrementCounter_def Let_def)
  have new: "with_counter (?c + 1) ?st =
      ?st[12 := ?st ! 12 + 1, 13 := (if ?st ! 12 + 1 = 0 then ?st ! 13 + 1 else ?st ! 13)]"
    unfolding with_counter_def low32_inc high32_inc state_words [OF assms] ..
  show ?thesis unfolding inc new by (cases "?st ! 12 + 1 = 0") (simp_all add: keep)
qed

subsection \<open>Blocks\<close>

lemma refillBlock_eq:
  assumes "length (state r) = 16"
  shows "refillBlock r =
    r\<lparr>state := with_counter (Counter r + 1) (state r), buf := block (state r) (Counter r), bufPos := 0\<rparr>"
proof -
  have "block (state r) (Counter r) = block_bytes (state r)"
    by (simp add: block_def state_with_Counter assms)
  then show ?thesis
    by (simp add: refillBlock_def Let_def block_bytes_def incrementCounter_eq assms Counter_def)
qed

lemma refillBlock_wf: "rng_wf r \<Longrightarrow> rng_wf (refillBlock r)"
  by (simp add: rng_wf_def refillBlock_eq)

lemma Counter_upd [simp]:
  "Counter (r\<lparr>buf := b\<rparr>) = Counter r" "Counter (r\<lparr>bufPos := p\<rparr>) = Counter r"
  by (simp_all add: Counter_def)

lemma Counter_state_upd: "length st = 16 \<Longrightarrow> Counter (r\<lparr>state := with_counter c st\<rparr>) = c"
  by (rule Counter_with_counter) simp_all

lemma next_byte_refill:
  assumes "rng_wf r" "bufPos r = 64"
  shows "next_byte (refillBlock r) i = next_byte r i"
proof -
  from assms have len: "length (state r) = 16" by (simp add: rng_wf_def)
  show ?thesis
  proof (cases "i < 64")
    case True
    then show ?thesis using assms(2) len by (simp add: next_byte_def refillBlock_eq Let_def)
  next
    case False
    then obtain k where i: "i = k + 64" by (metis add.commute le_Suc_ex not_less)
    have "(k + 64) div 64 = k div 64 + 1" "(k + 64) mod 64 = k mod 64" by simp_all
    then show ?thesis using assms(2) len unfolding i
      by (simp add: next_byte_def refillBlock_eq Let_def Counter_state_upd algebra_simps)
  qed
qed

lemma next_byte_advance:
  assumes "bufPos r + n \<le> 64"
  shows "next_byte (r\<lparr>bufPos := bufPos r + n\<rparr>) i = next_byte r (n + i)"
proof -
  have "i - (64 - (bufPos r + n)) = n + i - (64 - bufPos r)" if "\<not> i < 64 - (bufPos r + n)"
    using that assms by linarith
  moreover have "i < 64 - (bufPos r + n) \<longleftrightarrow> n + i < 64 - bufPos r"
    using assms by linarith
  ultimately show ?thesis
    by (simp add: next_byte_def Let_def add.assoc)
qed

subsection \<open>The operations obey the stream laws\<close>

lemma take_drop_buf:
  assumes "bufPos r + n \<le> 64" "length (buf r) = 64"
  shows "take n (drop (bufPos r) (buf r)) = map (next_byte r) [0 ..< n]"
proof (rule nth_equalityI)
  fix i assume "i < length (take n (drop (bufPos r) (buf r)))"
  then show "take n (drop (bufPos r) (buf r)) ! i = map (next_byte r) [0 ..< n] ! i"
    using assms by (auto simp: next_byte_def Let_def)
qed (use assms in simp)

lemma map_upt_split:
  assumes "n \<le> (m :: nat)" "\<And>i. g i = f (n + i)"
  shows "map f [0 ..< n] @ map g [0 ..< m - n] = map f [0 ..< m]"
  by (rule nth_equalityI) (use assms in \<open>auto simp: nth_append\<close>)

lemma FillBytes_law:
  "rng_wf r \<Longrightarrow> \<exists>r'. FillBytes n r = Some (map (next_byte r) [0 ..< n], r') \<and> rng_wf r'
     \<and> (\<forall>i. next_byte r' i = next_byte r (n + i))"
proof (induction n r rule: FillBytes.induct)
  case (1 len r)
  define r1 where "r1 = (if bufPos r = 64 then refillBlock r else r)"
  define n where "n = min (64 - bufPos r1) len"
  define r2 where "r2 = r1\<lparr>bufPos := bufPos r1 + n\<rparr>"
  show ?case
  proof (cases "len = 0")
    case True
    with 1 show ?thesis by (auto simp: FillBytes.simps)
  next
    case False
    from 1(2) have pos: "bufPos r1 < 64" and wf1: "rng_wf r1"
      by (auto simp: r1_def rng_wf_def refillBlock_eq)
    have same: "next_byte r1 i = next_byte r i" for i
      using 1(2) by (auto simp: r1_def next_byte_refill)
    have le: "bufPos r1 + n \<le> 64" using pos by (simp add: n_def)
    have wf2: "rng_wf r2" using wf1 le by (simp add: r2_def rng_wf_def)
    from 1(1) [OF False r1_def n_def _ _ r2_def] pos wf2 obtain r3 where
      r3: "FillBytes (len - n) r2 = Some (map (next_byte r2) [0 ..< len - n], r3)" "rng_wf r3"
        "\<And>i. next_byte r3 i = next_byte r2 (len - n + i)"
      by auto
    have adv: "next_byte r2 i = next_byte r (n + i)" for i
      by (simp add: r2_def next_byte_advance [OF le] same)
    have out: "take n (drop (bufPos r1) (buf r1)) = map (next_byte r) [0 ..< n]"
      using take_drop_buf [OF le] wf1 by (simp add: rng_wf_def same cong: map_cong)
    have nle: "n \<le> len" by (simp add: n_def)
    have "FillBytes len r = Some (map (next_byte r) [0 ..< n] @ map (next_byte r2) [0 ..< len - n], r3)"
      using False pos r3(1)
      by (simp add: FillBytes.simps [of len r] Let_def out flip: r1_def n_def r2_def)
    moreover have "next_byte r3 i = next_byte r (len + i)" for i
      using nle by (simp add: r3(3) adv)
    ultimately show ?thesis
      using r3(2) map_upt_split [OF nle, of "next_byte r2" "next_byte r"] adv by auto
  qed
qed

lemma SetCounter_eq: "SetCounter c r = r\<lparr>state := with_counter c (state r), bufPos := 64\<rparr>"
  by (simp add: SetCounter_def with_counter_def)

lemma discard_aligned_law:
  assumes "rng_wf r" "bufPos r = 64"
  shows "rng_wf (discard_aligned n r)" and "next_byte (discard_aligned n r) i = next_byte r (unat n + i)"
proof -
  from assms have len: "length (state r) = 16" by (simp add: rng_wf_def)
  define r1 where "r1 = (if 0 < n div 64 then SetCounter (Counter r + n div 64) r else r)"
  have state1: "state r1 = with_counter (Counter r + n div 64) (state r)"
    using len by (auto simp: r1_def SetCounter_eq state_with_Counter word_neq_0_conv [symmetric])
  have r1: "bufPos r1 = 64" "rng_wf r1" "Counter r1 = Counter r + n div 64"
    using assms len Counter_with_counter [OF _ state1] by (auto simp: r1_def SetCounter_eq rng_wf_def state1)
  have next1: "next_byte r1 i = next_byte r (64 * (unat n div 64) + i)" for i
  proof -
    have "unat n div 64 = unat (n div 64)" by (simp add: unat_div_distrib)
    then have "(of_nat (unat n div 64) :: u64) = n div 64" by simp
    then show ?thesis using r1 assms by (simp add: next_byte_def Let_def state1 add.assoc)
  qed
  have mod: "unat (n mod 64) = unat n mod 64" "unat (n mod 64) < 64"
    by (simp_all add: unat_mod_distrib)
  have d: "discard_aligned n r =
      (if 0 < n mod 64 then (refillBlock r1)\<lparr>bufPos := 0 + unat (n mod 64)\<rparr> else r1)"
    by (simp add: discard_aligned_def Let_def r1_def)
  have p0: "bufPos (refillBlock r1) = 0" using r1(2) by (simp add: rng_wf_def refillBlock_eq)
  show "rng_wf (discard_aligned n r)"
    using refillBlock_wf [OF r1(2)] r1(2) mod(2) by (auto simp: d rng_wf_def)
  have "next_byte (discard_aligned n r) i = next_byte r1 (unat (n mod 64) + i)"
  proof (cases "0 < n mod 64")
    case True
    then show ?thesis
      using next_byte_advance [of "refillBlock r1" "unat (n mod 64)" i] mod(2) p0
        next_byte_refill [OF r1(2,1)] by (simp add: d)
  next
    case False
    then have "n mod 64 = 0" by (simp add: word_gt_0)
    then show ?thesis by (simp add: d)
  qed
  also have "\<dots> = next_byte r (unat n + i)"
    unfolding next1 mod by (simp add: add.assoc [symmetric])
  finally show "next_byte (discard_aligned n r) i = next_byte r (unat n + i)" .
qed

lemma DiscardBytesFast_law:
  assumes "rng_wf r"
  shows "rng_wf (DiscardBytesFast n r)"
    and "next_byte (DiscardBytesFast n r) i = next_byte r (unat n + i)"
proof -
  define avail :: u64 where "avail = of_nat (64 - bufPos r)"
  have av: "unat avail = 64 - bufPos r"
    unfolding avail_def unat_of_nat by simp
  have lt: "n < avail \<longleftrightarrow> unat n < 64 - bufPos r"
    by (simp add: word_less_nat_alt av)
  let ?r = "r\<lparr>bufPos := 64\<rparr>"
  have wf: "rng_wf ?r" using assms by (simp add: rng_wf_def)
  have full: "next_byte ?r j = next_byte r (64 - bufPos r + j)" if "bufPos r < 64" for j
    using next_byte_advance [of r "64 - bufPos r" j] that by simp
  have sub: "unat (n - avail) = unat n - (64 - bufPos r)" if "\<not> n < avail"
    using that by (simp add: av unat_sub not_less)
  note laws = discard_aligned_law [OF wf, simplified]
  have step: "DiscardBytesFast n r =
     (if n = 0 then r else if bufPos r < 64
      then if n < avail then r\<lparr>bufPos := bufPos r + unat n\<rparr> else discard_aligned (n - avail) ?r
      else discard_aligned n r)"
    by (simp add: DiscardBytesFast_def avail_def Let_def)
  have al: "bufPos r = 64" if "\<not> bufPos r < 64" using that assms by (simp add: rng_wf_def)
  show "rng_wf (DiscardBytesFast n r)"
    using assms laws(1) discard_aligned_law(1) [OF assms al] lt
    by (auto simp: step rng_wf_def)
  show "next_byte (DiscardBytesFast n r) i = next_byte r (unat n + i)"
    using laws(2) discard_aligned_law(2) [OF assms al] lt full sub
      next_byte_advance [of r "unat n" i]
    by (auto simp: step)
qed

interpretation chacha: byte_stream rng_wf next_byte FillBytes DiscardBytesFast
  by unfold_locales (use FillBytes_law DiscardBytesFast_law in blast)+

subsection \<open>A fresh generator\<close>

lemma New_wf: "rng_wf (New seed)"
  by (simp add: rng_wf_def New_def)

lemma Counter_New: "Counter (New seed) = 0"
  by (simp add: Counter_def New_def nth_append)

lemma next_byte_New: "next_byte (New seed) i = keystream seed i"
  by (simp add: next_byte_def keystream_def Counter_New Let_def) (simp add: New_def)

text \<open>Evaluation of a chain of \<open>let\<close>s one value at a time.\<close>

lemma let_step: "x = y \<Longrightarrow> f y = z \<Longrightarrow> Let x f = z"
  by simp

section \<open>Properties\<close>

text \<open>
  C31. Skipping is reading and throwing away. In every well-formed state of the generator, for every 64-bit
  distance (whatever the position in the buffer and across wrap-around of the block counter), the bytes
  produced after \<^verbatim>\<open>DiscardBytesFast(k)\<close> are those produced after a read of \<open>k\<close> bytes, and neither panics.
\<close>

theorem discard_is_read:
  assumes "rng_wf r"
  shows "\<exists>out r1. FillBytes (unat k) r = Some (out, r1) \<and> length out = unat k
    \<and> (\<forall>n. \<exists>bs r2 r3. FillBytes n (DiscardBytesFast k r) = Some (bs, r2) \<and> FillBytes n r1 = Some (bs, r3)
         \<and> length bs = n)"
proof -
  obtain r1 where r1: "FillBytes (unat k) r = Some (map (next_byte r) [0 ..< unat k], r1)" "rng_wf r1"
      "\<And>i. next_byte r1 i = next_byte r (unat k + i)"
    using chacha.fill_law [OF assms, of "unat k"] by blast
  have "\<exists>bs r2 r3. FillBytes n (DiscardBytesFast k r) = Some (bs, r2) \<and> FillBytes n r1 = Some (bs, r3)
      \<and> length bs = n" for n
  proof -
    obtain r2 where "FillBytes n (DiscardBytesFast k r) = Some (map (\<lambda>i. next_byte r (unat k + i)) [0 ..< n], r2)"
      using chacha.skip_then_fill [OF assms] by blast
    moreover obtain r3 where "FillBytes n r1 = Some (map (next_byte r1) [0 ..< n], r3)"
      using chacha.fill_law [OF r1(2)] by blast
    ultimately show ?thesis by (simp add: r1(3))
  qed
  with r1(1) show ?thesis by simp
qed

theorem discard_is_read_witness:
  "rng_wf (New (replicate 32 (CHR 0x07)))
   \<and> (\<exists>out r1. FillBytes 100 (New (replicate 32 (CHR 0x07))) = Some (out, r1) \<and> length out = 100)"
  using discard_is_read [OF New_wf, of "100" "replicate 32 (CHR 0x07)"] New_wf by auto

text \<open>
  Random access to the keystream of a seed. A fresh generator that skips \<open>k\<close> bytes and is read for \<open>n\<close> bytes
  gives bytes \<open>k \<dots> k + n - 1\<close> of the keystream, whose byte \<open>i\<close> is byte \<open>i mod 64\<close> of the block with
  counter \<open>i div 64\<close>, and a read in two portions gives the bytes of one read.
\<close>

theorem keystream_access:
  "(\<exists>r. FillBytes n (DiscardBytesFast k (New seed)) = Some (map (\<lambda>i. keystream seed (unat k + i)) [0 ..< n], r))
   \<and> (\<exists>a r1 b r2 r3. FillBytes m (New seed) = Some (a, r1) \<and> FillBytes n r1 = Some (b, r2)
        \<and> FillBytes (m + n) (New seed) = Some (a @ b, r3) \<and> a @ b = map (keystream seed) [0 ..< m + n])"
proof -
  note w = New_wf [of seed]
  obtain a r1 where a: "FillBytes m (New seed) = Some (a, r1)" "rng_wf r1" using chacha.fill_total [OF w] by blast
  obtain b r2 where b: "FillBytes n r1 = Some (b, r2)" using chacha.fill_total [OF a(2)] by blast
  obtain r3 where "FillBytes (m + n) (New seed) = Some (a @ b, r3)" using chacha.fill_fill [OF w a(1) b] by blast
  moreover from this have "a @ b = map (keystream seed) [0 ..< m + n]"
    using chacha.fill_law [OF w, of "m + n"] by (auto simp: next_byte_New)
  ultimately show ?thesis
    using a(1) b chacha.skip_then_fill [OF w, of n k] by (auto simp: next_byte_New)
qed

text \<open>
  The quarter round is the one of RFC 8439: on the test vector of its section 2.1.1 it gives the words listed
  there.
\<close>

theorem quarterRound_rfc8439:
  "quarterRound 0 1 2 3 [0x11111111, 0x01020304, 0x9b8d6f43, 0x01234567]
     = [0xea2a92f4, 0xcb1cf8ce, 0x4581472e, 0x5881c4bb]"
  unfolding quarterRound_def by ((rule let_step, simp add: rotl32_def)+) (simp add: rotl32_def)

end
