(* ===== verification/MasterSeed.thy ===== *)
theory MasterSeed
  imports ChaCha20 Sha2
begin

text \<open>
  The \<^verbatim>\<open>masterseed\<close> plugin (\<^verbatim>\<open>plugins/pkg/plugin/masterseed\<close>): configuration, derivation of
  values from a seed at a byte offset of its keystream, the rolling pool of seeds with a read
  cursor per seed, and the \<^verbatim>\<open>GetSeeds\<close> handler. Each method that holds \<^verbatim>\<open>p.mu\<close> is one atomic
  operation on the plugin record. Random draws are an argument: the successive results of
  \<^verbatim>\<open>rand.Read\<close> on a 4-byte buffer (\<open>None\<close> is an error of the reader).
\<close>

section \<open>Data\<close>

record MasterSeed =
  Seed :: string
  Offset :: u64

datatype ms_error =
    SeedNotHex | SeedLength nat
  | ByteRequirementOverflow | RequestTooLarge
  | NoValueProduced
  | InvalidN int | RandFailed
  | InvalidCount int | CountTooLarge int | NoMasterSeed | SeedOffsetOverflow
  | AptosClientFailed
  | Panic

record masterSeedConfig =
  MasterSeedDefaultMasterSeeds :: "string list"
  MasterSeedTRNGSize :: int
  MasterSeedMaxMasterSeeds :: int
  MaserSeedPeriod :: int
  MasterSeedMaxCountPerRequest :: int

record Plugin =
  masterSeeds :: "MasterSeed list"
  seedInterval :: int
  trngSize :: int
  maxMasterSeeds :: int
  maxCountPerRequest :: int

section \<open>Checked arithmetic\<close>

definition maxUint64 :: u64 where
  "maxUint64 = - 1"

definition mulUint64Checked :: "u64 \<Rightarrow> u64 \<Rightarrow> u64 \<times> bool" where
  "mulUint64Checked a b =
     (if a = 0 \<or> b = 0 then (0, True)
      else if maxUint64 div b < a then (0, False)
      else (a * b, True))"

definition addUint64Checked :: "u64 \<Rightarrow> u64 \<Rightarrow> u64 \<times> bool" where
  "addUint64Checked a b = (if maxUint64 - b < a then (0, False) else (a + b, True))"

section \<open>Derivation\<close>

definition parseTRNGBlock :: "MasterSeed \<Rightarrow> ms_error + bytes" where
  "parseTRNGBlock m =
     (case hex_decode (Seed m) of
        None \<Rightarrow> Inl SeedNotHex
      | Some raw \<Rightarrow> if length raw \<noteq> 32 then Inl (SeedLength (length raw)) else Inr raw)"

definition DeriveBulkAtOffset :: "MasterSeed \<Rightarrow> int \<Rightarrow> u64 \<Rightarrow> int \<Rightarrow> ms_error + string list" where
  "DeriveBulkAtOffset m n offsetBytes outLen0 =
     (if n \<le> 0 then Inr []
      else
        let outLen = (if outLen0 \<le> 0 \<or> 1024 < outLen0 then 32 else outLen0);
            (need, ok) = mulUint64Checked (of_int n) (of_int outLen)
        in if \<not> ok then Inl ByteRequirementOverflow
           else if of_int (2 ^ 63 - 1) < need then Inl RequestTooLarge
           else (case parseTRNGBlock m of
                   Inl e \<Rightarrow> Inl e
                 | Inr seedBlock \<Rightarrow>
                     (case FillBytes (unat need) (DiscardBytesFast offsetBytes (New seedBlock)) of
                        None \<Rightarrow> Inl Panic
                      | Some (out, _) \<Rightarrow>
                          Inr (map (\<lambda>i. hex_encode (take (nat outLen) (drop (i * nat outLen) out)))
                                 [0 ..< nat n]))))"

definition DeriveBulk :: "MasterSeed \<Rightarrow> int \<Rightarrow> int \<Rightarrow> ms_error + string list" where
  "DeriveBulk m n outLen = DeriveBulkAtOffset m n 0 outLen"

definition DeriveOneFromSeedHex :: "string \<Rightarrow> ms_error + string" where
  "DeriveOneFromSeedHex seedHex =
     (case DeriveBulk \<lparr>Seed = seedHex, Offset = 0\<rparr> 1 32 of
        Inl e \<Rightarrow> Inl e
      | Inr [] \<Rightarrow> Inl NoValueProduced
      | Inr (v # _) \<Rightarrow> Inr v)"

definition DeriveBulkFromSeedHex :: "string \<Rightarrow> int \<Rightarrow> ms_error + string list" where
  "DeriveBulkFromSeedHex seedHex n = DeriveBulk \<lparr>Seed = seedHex, Offset = 0\<rparr> n 32"

section \<open>Configuration and start\<close>

text \<open>\<^verbatim>\<open>extractSeeds\<close> on the value of \<^verbatim>\<open>DEFAULT_MASTER_SEEDS\<close>.\<close>

definition extractSeeds :: "string \<Rightarrow> string list" where
  "extractSeeds raw =
     (let rawSeeds = TrimSpace raw
      in if rawSeeds = [] then []
         else filter (\<lambda>s. s \<noteq> []) (map TrimSpace (SplitChar CHR '','' rawSeeds)))"

definition masterSeedCount :: "Plugin \<Rightarrow> int" where
  "masterSeedCount p = int (length (masterSeeds p))"

text \<open>
  \<^verbatim>\<open>addMasterSeed\<close>. When the pool is over its capacity the slice is shifted by one place, its last
  element overwritten by the zero value and cut off.
\<close>

definition addMasterSeed :: "string \<Rightarrow> Plugin \<Rightarrow> Plugin" where
  "addMasterSeed seed p =
     (if seed = [] then p
      else
        let m = \<lparr>Seed = seed, Offset = 0\<rparr>
        in (case parseTRNGBlock m of
              Inl _ \<Rightarrow> p
            | Inr _ \<Rightarrow>
                let pool = masterSeeds p @ [m]
                in if maxMasterSeeds p < int (length pool) then
                     let shifted = tl pool @ [last pool];
                         zeroed = shifted[length shifted - 1 := \<lparr>Seed = [], Offset = 0\<rparr>]
                     in p\<lparr>masterSeeds := take (length zeroed - 1) zeroed\<rparr>
                   else p\<lparr>masterSeeds := pool\<rparr>))"

definition saltDefaultSeed :: "string \<Rightarrow> int \<Rightarrow> ms_error + string" where
  "saltDefaultSeed seedHex bootNonceNanos =
     (case hex_decode seedHex of
        None \<Rightarrow> Inl SeedNotHex
      | Some raw \<Rightarrow>
          if length raw \<noteq> 32 then Inl (SeedLength (length raw))
          else Inr (hex_encode (take 32 (sha256 (raw @ put_be 8 (unat (of_int bootNonceNanos :: u64)))))))"

text \<open>The first part of \<^verbatim>\<open>startSeedFetch\<close>: the salted default seeds enter the pool.\<close>

definition insertDefault :: "int \<Rightarrow> string \<Rightarrow> Plugin \<Rightarrow> Plugin" where
  "insertDefault bootNonceNanos s p =
     (case saltDefaultSeed s bootNonceNanos of Inl _ \<Rightarrow> p | Inr salted \<Rightarrow> addMasterSeed salted p)"

definition startSeedFetch :: "int \<Rightarrow> string list \<Rightarrow> Plugin \<Rightarrow> Plugin" where
  "startSeedFetch bootNonceNanos defaults p = fold (insertDefault bootNonceNanos) defaults p"

text \<open>
  One tick of the fetch loop; the argument is the outcome of \<^verbatim>\<open>aptosClient.GetTrng\<close>: an error, or
  the values of the response.
\<close>

definition fetchTick :: "string list option \<Rightarrow> Plugin \<Rightarrow> Plugin" where
  "fetchTick resp p =
     (case resp of
        None \<Rightarrow> p
      | Some [] \<Rightarrow> p
      | Some (seed # _) \<Rightarrow> addMasterSeed seed p)"

text \<open>
  The plugin value that \<^verbatim>\<open>NewPlugin\<close> builds from the configuration. The interval is a
  \<^verbatim>\<open>time.Duration\<close>, a signed 64-bit number of nanoseconds.
\<close>

definition pluginOfConfig :: "masterSeedConfig \<Rightarrow> Plugin" where
  "pluginOfConfig cfg =
     (let size = MasterSeedTRNGSize cfg;
          maxSeeds = MasterSeedMaxMasterSeeds cfg;
          period = MaserSeedPeriod cfg;
          maxCount = MasterSeedMaxCountPerRequest cfg;
          period' = (if period \<le> 0 then 3600 else period)
      in \<lparr>masterSeeds = [],
          seedInterval = sint (of_int (period' * 1000000000) :: u64),
          trngSize = (if size \<le> 0 \<or> 1024 < size then 32 else size),
          maxMasterSeeds = (if maxSeeds \<le> 0 then 100 else maxSeeds),
          maxCountPerRequest = (if maxCount \<le> 0 then 25000 else maxCount)\<rparr>)"

text \<open>\<^verbatim>\<open>NewPlugin\<close>: \<open>connected\<close> says whether the gRPC client to the Aptos plugin could be made.\<close>

definition NewPlugin :: "masterSeedConfig \<Rightarrow> bool \<Rightarrow> int \<Rightarrow> ms_error + Plugin" where
  "NewPlugin cfg connected bootNonceNanos =
     (if \<not> connected then Inl AptosClientFailed
      else Inr (startSeedFetch bootNonceNanos (MasterSeedDefaultMasterSeeds cfg) (pluginOfConfig cfg)))"

section \<open>Selection and reservation\<close>

type_synonym draws = "bytes option list"

text \<open>
  The rejection loop. The loop ends only when a draw is below the limit, so the draws are consumed
  in order and \<open>None\<close> means that they ran out before the loop ended.
\<close>

fun rand_loop :: "u32 \<Rightarrow> u32 \<Rightarrow> draws \<Rightarrow> ((ms_error + int) \<times> draws) option" where
  "rand_loop un limit [] = None"
| "rand_loop un limit (None # ds) = Some (Inl RandFailed, ds)"
| "rand_loop un limit (Some b # ds) =
     (let v = le_u32 b in if v < limit then Some (Inr (uint (v mod un)), ds) else rand_loop un limit ds)"

definition rand_limit :: "u32 \<Rightarrow> u32" where
  "rand_limit un = - 1 - (- 1 mod un)"

definition cryptoRandIndex :: "int \<Rightarrow> draws \<Rightarrow> ((ms_error + int) \<times> draws) option" where
  "cryptoRandIndex n ds =
     (if n \<le> 0 then Some (Inl (InvalidN n), ds)
      else
        let un = (of_int n :: u32)
        in if un = 0 then Some (Inl Panic, ds) else rand_loop un (rand_limit un) ds)"

definition reserveSeedOffset ::
    "int \<Rightarrow> draws \<Rightarrow> Plugin \<Rightarrow> ((ms_error + string \<times> u64) \<times> Plugin \<times> draws) option" where
  "reserveSeedOffset count ds p =
     (if count \<le> 0 then Some (Inl (InvalidCount count), p, ds)
      else if maxCountPerRequest p < count then Some (Inl (CountTooLarge count), p, ds)
      else
        let (need, ok) = mulUint64Checked (of_int count) (of_int (trngSize p))
        in if \<not> ok then Some (Inl ByteRequirementOverflow, p, ds)
           else if masterSeeds p = [] then Some (Inl NoMasterSeed, p, ds)
           else (case cryptoRandIndex (int (length (masterSeeds p))) ds of
                   None \<Rightarrow> None
                 | Some (Inl e, ds') \<Rightarrow> Some (Inl e, p, ds')
                 | Some (Inr idx, ds') \<Rightarrow>
                     let m = masterSeeds p ! nat idx;
                         start = Offset m;
                         (end', ok') = addUint64Checked start need
                     in if \<not> ok' then Some (Inl SeedOffsetOverflow, p, ds')
                        else Some (Inr (Seed m, start),
                               p\<lparr>masterSeeds := (masterSeeds p)[nat idx := m\<lparr>Offset := end'\<rparr>]\<rparr>, ds')))"

definition GetSeeds :: "u32 \<Rightarrow> draws \<Rightarrow> Plugin \<Rightarrow> ((ms_error + string list) \<times> Plugin \<times> draws) option" where
  "GetSeeds reqCount ds p =
     (let count = (if uint reqCount \<le> 0 then 1 else uint reqCount)
      in case reserveSeedOffset count ds p of
           None \<Rightarrow> None
         | Some (Inl e, p', ds') \<Rightarrow> Some (Inl e, p', ds')
         | Some (Inr (seedHex, startOff), p', ds') \<Rightarrow>
             Some (DeriveBulkAtOffset \<lparr>Seed = seedHex, Offset = 0\<rparr> count startOff (trngSize p'), p', ds'))"

section \<open>Invariant and specification\<close>

definition seed_ok :: "string \<Rightarrow> bool" where
  "seed_ok s \<longleftrightarrow> (\<exists>b. hex_decode s = Some b \<and> length b = 32)"

definition plugin_inv :: "Plugin \<Rightarrow> bool" where
  "plugin_inv p \<longleftrightarrow>
     1 \<le> trngSize p \<and> trngSize p \<le> 1024 \<and> 1 \<le> maxMasterSeeds p \<and> 1 \<le> maxCountPerRequest p
     \<and> int (length (masterSeeds p)) \<le> maxMasterSeeds p
     \<and> (\<forall>m \<in> set (masterSeeds p). seed_ok (Seed m))"

text \<open>The value served for the window of \<open>k\<close> bytes at position \<open>pos\<close> of the keystream of a block.\<close>

definition window :: "bytes \<Rightarrow> nat \<Rightarrow> nat \<Rightarrow> string" where
  "window b pos k = hex_encode (map (\<lambda>j. keystream b (pos + j)) [0 ..< k])"

section \<open>Lemmas\<close>

subsection \<open>Checked arithmetic\<close>

lemma unat_max: "unat maxUint64 = 2 ^ 64 - 1"
  by (simp add: maxUint64_def unsigned_minus_1_eq_mask mask_eq_exp_minus_1)

lemma mulUint64Checked_ok_iff: "snd (mulUint64Checked a b) \<longleftrightarrow> unat a * unat b < 2 ^ 64"
proof (cases "a = 0 \<or> b = 0")
  case True
  then show ?thesis by (auto simp: mulUint64Checked_def)
next
  case False
  then have b: "0 < unat b" by (simp add: unat_gt_0)
  have "maxUint64 div b < a \<longleftrightarrow> unat maxUint64 div unat b < unat a"
    by (simp add: word_less_nat_alt unat_div_distrib)
  also have "\<dots> \<longleftrightarrow> unat maxUint64 < unat a * unat b"
    using b by (rule div_less_iff_less_mult)
  also have "\<dots> \<longleftrightarrow> \<not> unat a * unat b < 2 ^ 64"
    by (simp add: unat_max) linarith
  finally show ?thesis using False by (simp add: mulUint64Checked_def)
qed

lemma mulUint64Checked_value:
  assumes "snd (mulUint64Checked a b)"
  shows "unat (fst (mulUint64Checked a b)) = unat a * unat b"
  using assms mulUint64Checked_ok_iff [of a b]
  by (auto simp: mulUint64Checked_def unat_word_ariths split: if_splits)

lemma addUint64Checked_ok_iff: "snd (addUint64Checked a b) \<longleftrightarrow> unat a + unat b < 2 ^ 64"
proof -
  have "b \<le> maxUint64" by (simp add: maxUint64_def)
  then have "unat (maxUint64 - b) = 2 ^ 64 - 1 - unat b"
    by (simp add: unat_sub unat_max)
  moreover have "unat b < 2 ^ 64" using unsigned_less [of b, where ?'a = nat] by simp
  ultimately show ?thesis
    by (simp add: addUint64Checked_def word_less_nat_alt) linarith
qed

lemma addUint64Checked_value:
  assumes "snd (addUint64Checked a b)"
  shows "unat (fst (addUint64Checked a b)) = unat a + unat b"
  using assms addUint64Checked_ok_iff [of a b]
  by (auto simp: addUint64Checked_def unat_word_ariths split: if_splits)

lemma unat_of_int_u64: "0 \<le> n \<Longrightarrow> n < 2 ^ 64 \<Longrightarrow> unat (of_int n :: u64) = nat n"
  by (simp add: unat_eq_nat_uint uint_word_of_int)

lemma mulUint64Checked_int:
  assumes "0 \<le> n" "0 \<le> k" "n < 2 ^ 64" "k < 2 ^ 64" "n * k < 2 ^ 64"
  shows "\<exists>need. mulUint64Checked (of_int n) (of_int k) = (need, True) \<and> unat need = nat n * nat k"
proof -
  have eq: "unat (of_int n :: u64) * unat (of_int k :: u64) = nat n * nat k"
    using assms by (simp add: unat_of_int_u64)
  have "nat n * nat k < 2 ^ 64"
    using assms by (simp add: nat_mult_distrib [symmetric])
  then have "snd (mulUint64Checked (of_int n) (of_int k))"
    by (simp add: mulUint64Checked_ok_iff eq)
  with mulUint64Checked_value [OF this] show ?thesis
    by (metis eq prod.collapse)
qed

subsection \<open>Derivation\<close>

lemma parseTRNGBlock_Inr_iff:
  "parseTRNGBlock m = Inr b \<longleftrightarrow> hex_decode (Seed m) = Some b \<and> length b = 32"
  by (auto simp: parseTRNGBlock_def split: option.splits)

lemma seed_ok_iff: "seed_ok (Seed m) \<longleftrightarrow> (\<exists>b. parseTRNGBlock m = Inr b)"
  by (auto simp: seed_ok_def parseTRNGBlock_Inr_iff)

lemma fill_discard_New:
  "\<exists>r. FillBytes n (DiscardBytesFast k (New b)) = Some (map (\<lambda>j. keystream b (unat k + j)) [0 ..< n], r)"
  using chacha.skip_then_fill [OF New_wf, of n k b] by (auto simp: next_byte_New)

lemma chunk_window:
  assumes "(i + 1) * k \<le> n"
  shows "take k (drop (i * k) (map (\<lambda>j. keystream b (p + j)) [0 ..< n]))
    = map (\<lambda>j. keystream b (p + i * k + j)) [0 ..< k]"
  using assms by (intro nth_equalityI) (auto simp: algebra_simps)

text \<open>The length of one value: the argument when it is in \<open>1 \<dots> 1024\<close>, otherwise 32.\<close>

definition value_len :: "int \<Rightarrow> int" where
  "value_len outLen = (if outLen \<le> 0 \<or> 1024 < outLen then 32 else outLen)"

lemma value_len_bounds: "1 \<le> value_len k" "value_len k \<le> 1024"
  by (auto simp: value_len_def)

lemma DeriveBulkAtOffset_value:
  assumes b: "parseTRNGBlock m = Inr b"
    and n: "0 < n" "n * value_len outLen < 2 ^ 63"
  shows "DeriveBulkAtOffset m n off outLen =
    Inr (map (\<lambda>i. window b (unat off + i * nat (value_len outLen)) (nat (value_len outLen))) [0 ..< nat n])"
proof -
  let ?l = "value_len outLen"
  note l = value_len_bounds [of outLen]
  have "n * 1 \<le> n * ?l" using n(1) l(1) by (intro mult_left_mono) auto
  then have nb: "n < 2 ^ 63" using n(2) by linarith
  obtain need where need: "mulUint64Checked (of_int n) (of_int ?l) = (need, True)"
      "unat need = nat n * nat ?l"
    using mulUint64Checked_int [of n ?l] n nb l by auto
  have small: "\<not> (of_int (2 ^ 63 - 1) < need)"
  proof -
    have "nat n * nat ?l = nat (n * ?l)" using n(1) l(1) by (simp add: nat_mult_distrib)
    then have "unat need < 2 ^ 63" using need(2) n(2) by (simp add: nat_less_iff)
    then show ?thesis by (simp add: word_less_nat_alt)
  qed
  obtain r where r: "FillBytes (nat n * nat ?l) (DiscardBytesFast off (New b))
      = Some (map (\<lambda>j. keystream b (unat off + j)) [0 ..< nat n * nat ?l], r)"
    using fill_discard_New by blast
  have "(i + 1) * nat ?l \<le> nat n * nat ?l" if "i < nat n" for i
    using that by (intro mult_le_mono1) simp
  then have "map (\<lambda>i. hex_encode (take (nat ?l) (drop (i * nat ?l)
        (map (\<lambda>j. keystream b (unat off + j)) [0 ..< nat n * nat ?l])))) [0 ..< nat n]
      = map (\<lambda>i. window b (unat off + i * nat ?l) (nat ?l)) [0 ..< nat n]"
    by (intro map_cong refl) (simp only: atLeastLessThan_iff set_upt chunk_window window_def)
  then show ?thesis
    using n(1) need r small b
    by (simp add: DeriveBulkAtOffset_def Let_def value_len_def [symmetric] del: of_int_diff of_int_power)
qed

subsection \<open>The pool\<close>

text \<open>
  The pool after an insertion: the new entry at the end with its cursor at 0 and, over capacity,
  without the oldest entry. An empty or malformed seed changes nothing.
\<close>

lemma masterSeeds_addMasterSeed:
  "masterSeeds (addMasterSeed seed p) =
     (if seed_ok seed then
        let pool = masterSeeds p @ [\<lparr>Seed = seed, Offset = 0\<rparr>]
        in if maxMasterSeeds p < int (length pool) then tl pool else pool
      else masterSeeds p)"
proof (cases "seed_ok seed")
  case True
  then obtain b where b: "parseTRNGBlock \<lparr>Seed = seed, Offset = 0\<rparr> = Inr b"
    using seed_ok_iff [of "\<lparr>Seed = seed, Offset = 0\<rparr>"] by auto
  from True have "seed \<noteq> []" by (auto simp: seed_ok_def)
  with b True show ?thesis
    by (cases "masterSeeds p") (simp_all add: addMasterSeed_def Let_def list_update_append)
next
  case False
  then have "parseTRNGBlock \<lparr>Seed = seed, Offset = 0\<rparr> \<noteq> Inr b" for b
    using seed_ok_iff [of "\<lparr>Seed = seed, Offset = 0\<rparr>"] by auto
  then show ?thesis using False
    by (auto simp: addMasterSeed_def Let_def split: sum.splits)
qed

lemma addMasterSeed_config [simp]:
  "trngSize (addMasterSeed s p) = trngSize p"
  "maxMasterSeeds (addMasterSeed s p) = maxMasterSeeds p"
  "maxCountPerRequest (addMasterSeed s p) = maxCountPerRequest p"
  "seedInterval (addMasterSeed s p) = seedInterval p"
  by (auto simp: addMasterSeed_def Let_def split: sum.splits)

lemma set_tl_snoc: "set (tl (xs @ [x])) \<subseteq> insert x (set xs)"
  by (cases xs) auto

lemma addMasterSeed_inv: "plugin_inv p \<Longrightarrow> plugin_inv (addMasterSeed s p)"
  using set_tl_snoc [of "masterSeeds p" "\<lparr>Seed = s, Offset = 0\<rparr>"]
  by (fastforce simp: plugin_inv_def masterSeeds_addMasterSeed Let_def)

lemma insertDefault_inv: "plugin_inv p \<Longrightarrow> plugin_inv (insertDefault t s p)"
  by (simp add: insertDefault_def addMasterSeed_inv split: sum.split)

lemma startSeedFetch_inv: "plugin_inv p \<Longrightarrow> plugin_inv (startSeedFetch t ds p)"
  unfolding startSeedFetch_def
  by (induction ds arbitrary: p) (auto intro: insertDefault_inv)

lemma fetchTick_inv: "plugin_inv p \<Longrightarrow> plugin_inv (fetchTick resp p)"
  by (simp add: fetchTick_def addMasterSeed_inv split: option.split list.split)

lemma pluginOfConfig_inv: "plugin_inv (pluginOfConfig cfg)"
  by (simp add: pluginOfConfig_def plugin_inv_def Let_def del: of_int_mult)

lemma NewPlugin_inv: "NewPlugin cfg c t = Inr p \<Longrightarrow> plugin_inv p"
  using startSeedFetch_inv [OF pluginOfConfig_inv]
  by (auto simp: NewPlugin_def split: if_splits)

subsection \<open>The random index\<close>

text \<open>The limit is the largest multiple of the modulus below \<open>2\<^sup>32\<close>.\<close>

lemma unat_rand_limit: "unat (rand_limit un) = (2 ^ 32 - 1) div unat un * unat un"
proof -
  have m: "unat (- 1 :: u32) = 2 ^ 32 - 1"
    by (simp add: unsigned_minus_1_eq_mask mask_eq_exp_minus_1)
  have le: "(- 1 :: u32) mod un \<le> - 1" by simp
  have "unat (rand_limit un) = (2 ^ 32 - 1) - (2 ^ 32 - 1) mod unat un"
    unfolding rand_limit_def by (simp only: unat_sub [OF le] unat_mod_distrib m)
  then show ?thesis by (simp only: minus_mod_eq_div_mult)
qed

lemma rand_limit_pos: "un \<noteq> 0 \<Longrightarrow> 0 < unat (rand_limit un)"
proof -
  assume "un \<noteq> 0"
  then have "0 < unat un" by (simp add: unat_gt_0)
  moreover have "unat un \<le> 2 ^ 32 - 1" using unsigned_less [of un, where ?'a = nat] by simp
  ultimately have "0 < (2 ^ 32 - 1) div unat un" by (simp only: div_greater_zero_iff)
  with \<open>0 < unat un\<close> show ?thesis by (simp only: unat_rand_limit nat_0_less_mult_iff)
qed

lemma rand_loop_value:
  "rand_loop un limit ds = Some (Inr i, ds') \<Longrightarrow> \<exists>v < limit. i = uint (v mod un)"
proof (induction un limit ds rule: rand_loop.induct)
  case (3 un limit b ds)
  then show ?case by (cases "le_u32 b < limit") (auto simp only: rand_loop.simps Let_def if_True if_False
      option.inject prod.inject sum.inject)
qed auto

lemma rand_loop_range:
  assumes "rand_loop un limit ds = Some (Inr i, ds')" "un \<noteq> 0"
  shows "0 \<le> i" "nat i < unat un"
proof -
  obtain v where "i = uint (v mod un)" using rand_loop_value [OF assms(1)] by blast
  moreover have "unat (v mod un) < unat un"
    using assms(2) by (simp add: unat_mod_distrib unat_gt_0)
  ultimately show "0 \<le> i" "nat i < unat un"
    by (simp_all only: unat_eq_nat_uint uint_ge_0)
qed

lemma rand_loop_errors:
  "rand_loop un limit ds = Some (Inl e, ds') \<Longrightarrow> e = RandFailed"
  by (induction un limit ds rule: rand_loop.induct) (auto simp: Let_def split: if_splits)

text \<open>Each residue below \<open>m\<close> occurs equally often below a multiple of \<open>m\<close>.\<close>

lemma card_residue:
  assumes "0 < m" "i < (m :: nat)"
  shows "card {v. v < q * m \<and> v mod m = i} = q"
proof -
  have "{v. v < q * m \<and> v mod m = i} = (\<lambda>k. k * m + i) ` {..< q}"
  proof (intro equalityI subsetI)
    fix v assume v: "v \<in> {v. v < q * m \<and> v mod m = i}"
    then have "v = v div m * m + i" by (metis (mono_tags) div_mult_mod_eq mem_Collect_eq)
    moreover have "v div m < q" using v by (simp add: less_mult_imp_div_less)
    ultimately show "v \<in> (\<lambda>k. k * m + i) ` {..< q}" by blast
  next
    fix v assume "v \<in> (\<lambda>k. k * m + i) ` {..< q}"
    then obtain k where k: "k < q" "v = k * m + i" by auto
    from k(1) have "(k + 1) * m \<le> q * m" by (intro mult_le_mono1) simp
    with k assms show "v \<in> {v. v < q * m \<and> v mod m = i}" by auto
  qed
  moreover have "inj_on (\<lambda>k. k * m + i) {..< q}" using assms(1) by (auto intro: inj_onI)
  ultimately show ?thesis by (simp add: card_image)
qed

lemma card_accepted_draws:
  assumes "un \<noteq> 0" "i < unat un"
  shows "card {v. v < rand_limit un \<and> unat (v mod un) = i} = (2 ^ 32 - 1) div unat un"
proof -
  let ?q = "(2 ^ 32 - 1) div unat un"
  have "inj_on unat {v :: u32. v < rand_limit un \<and> unat (v mod un) = i}"
    by (auto intro: inj_onI simp: word_unat_eq_iff)
  then have "card {v. v < rand_limit un \<and> unat (v mod un) = i}
      = card (unat ` {v. v < rand_limit un \<and> unat (v mod un) = i})"
    by (simp add: card_image)
  also have "unat ` {v. v < rand_limit un \<and> unat (v mod un) = i}
      = {v. v < ?q * unat un \<and> v mod unat un = i}"
  proof (intro equalityI subsetI)
    fix v assume "v \<in> {v. v < ?q * unat un \<and> v mod unat un = i}"
    then have v: "v < ?q * unat un" "v mod unat un = i" by auto
    have "?q * unat un \<le> 2 ^ 32 - 1" by (rule div_times_less_eq_dividend)
    with v(1) have "v < 2 ^ 32" by linarith
    then have small: "unat (of_nat v :: u32) = v" by (simp add: unat_of_nat take_bit_eq_mod)
    with v have "of_nat v < rand_limit un"
      unfolding word_less_nat_alt unat_rand_limit by simp
    moreover have "unat ((of_nat v :: u32) mod un) = i"
      unfolding unat_mod_distrib small using v by simp
    ultimately show "v \<in> unat ` {v. v < rand_limit un \<and> unat (v mod un) = i}"
      using small by (metis (mono_tags, lifting) image_eqI mem_Collect_eq)
  qed (auto simp only: word_less_nat_alt unat_rand_limit unat_mod_distrib)
  also have "card \<dots> = ?q"
    using assms by (intro card_residue) (auto simp: unat_gt_0)
  finally show ?thesis .
qed

text \<open>A draw of four bytes is a 32-bit number, each number once.\<close>

lemma of_char_word: "(of_char (char_of (uint (w :: u32))) :: u32) = take_bit 8 w"
proof -
  have "(of_char (char_of (uint w)) :: u32) = of_int (of_char (char_of (uint w)))" by (simp only: of_int_of_char)
  also have "\<dots> = of_int (take_bit 8 (uint w))" by (simp add: take_bit_eq_mod)
  also have "\<dots> = take_bit 8 w" by (simp only: unsigned_take_bit_eq [symmetric] word_of_int_uint)
  finally show ?thesis .
qed

lemma le_u32_put: "le_u32 (put_le_u32 w) = w"
proof (rule bit_word_eqI)
  fix n assume "n < LENGTH(32)"
  have l: "[0 ..< 4] = [0, 1, 2, 3 :: nat]" by (simp add: upt_conv_Cons)
  show "bit (le_u32 (put_le_u32 w)) n = bit w n"
    unfolding le_u32_def put_le_u32_def l using \<open>n < LENGTH(32)\<close>
    by (cases "n < 8"; cases "n < 16"; cases "n < 24") (auto simp: of_char_word bit_simps simp del: push_bit_of_1)
qed

lemma le_u32_bij: "bij_betw le_u32 {b. length b = 4} UNIV"
proof -
  have fin: "finite {b :: bytes. length b = 4}" and card: "card {b :: bytes. length b = 4} = 2 ^ 32"
    using finite_lists_length_eq [of "UNIV :: char set" 4] card_lists_length_eq [of "UNIV :: char set" 4]
    by (simp_all add: card_UNIV_char)
  have "le_u32 ` {b. length b = 4} = UNIV" using le_u32_put by (auto intro!: image_eqI [where x = "put_le_u32 _"])
  moreover have "inj_on le_u32 {b. length b = 4}"
    by (rule eq_card_imp_inj_on [OF fin]) (simp add: calculation card card_word)
  ultimately show ?thesis by (simp add: bij_betw_def)
qed
lemma rand_loop_nonrefl: "rand_loop un limit ds \<noteq> Some (r, ds)"
proof
  assume "rand_loop un limit ds = Some (r, ds)"
  moreover have "rand_loop un limit ds = Some (r, ds') \<Longrightarrow> length ds' < length ds" for ds'
    by (induction un limit ds rule: rand_loop.induct) (auto simp: Let_def less_Suc_eq split: if_splits)
  ultimately show False by blast
qed

lemma cryptoRandIndex_draw:
  assumes "0 < n" "n < 2 ^ 32"
  shows "cryptoRandIndex n (Some b # ds) =
    (if le_u32 b < rand_limit (of_int n) then Some (Inr (uint (le_u32 b) mod n), ds) else cryptoRandIndex n ds)"
proof -
  have un: "uint (of_int n :: u32) = n" using assms by (simp add: uint_word_of_int)
  then have "(of_int n :: u32) \<noteq> 0" using assms(1) by auto
  then show ?thesis using assms un by (simp only: cryptoRandIndex_def Let_def rand_loop.simps uint_mod not_le [symmetric] if_False)
qed

lemma cryptoRandIndex_other:
  assumes "0 < n" "n < 2 ^ 32"
  shows "cryptoRandIndex n [] = None" "cryptoRandIndex n (None # ds) = Some (Inl RandFailed, ds)" "cryptoRandIndex n ds \<noteq> Some (r, ds)"
proof -
  have "uint (of_int n :: u32) = n" using assms by (simp add: uint_word_of_int)
  then have "(of_int n :: u32) \<noteq> 0" using assms(1) by auto
  then show "cryptoRandIndex n [] = None" "cryptoRandIndex n (None # ds) = Some (Inl RandFailed, ds)" "cryptoRandIndex n ds \<noteq> Some (r, ds)"
    using assms(1) rand_loop_nonrefl by (simp_all add: cryptoRandIndex_def Let_def)
qed

lemma draw_accepted_iff:
  assumes "0 < n" "n < 2 ^ 32"
  shows "cryptoRandIndex n (Some b # ds) = Some (Inr i, ds) \<longleftrightarrow> le_u32 b < rand_limit (of_int n) \<and> uint (le_u32 b) mod n = i"
  using cryptoRandIndex_other(3) [OF assms] by (simp add: cryptoRandIndex_draw [OF assms])

text \<open>The draws of four bytes for which an index is returned at once, and those which are skipped.\<close>

lemma card_draws: "card {b. length b = 4 \<and> P (le_u32 b)} = card {v. P v}"
proof -
  have "le_u32 ` {b. length b = 4 \<and> P (le_u32 b)} = {v. P v}"
    using bij_betw_imp_surj_on [OF le_u32_bij] by (auto simp: set_eq_iff image_iff) metis
  moreover have "inj_on le_u32 {b. length b = 4 \<and> P (le_u32 b)}"
    by (rule inj_on_subset [OF bij_betw_imp_inj_on [OF le_u32_bij]]) auto
  ultimately show ?thesis by (metis card_image)
qed

lemma card_index_draws:
  assumes "0 < n" "n < 2 ^ 32" "0 \<le> i" "i < n"
  shows "card {b. length b = 4 \<and> cryptoRandIndex n (Some b # ds) = Some (Inr i, ds)} = (2 ^ 32 - 1) div nat n"
proof -
  let ?un = "of_int n :: u32"
  have un: "unat ?un = nat n" "uint ?un = n" using assms by (simp_all add: unat_eq_nat_uint uint_word_of_int)
  then have nz: "?un \<noteq> 0" using assms(1) by auto
  have "(uint v mod n = i) = (unat (v mod ?un) = nat i)" for v
    using assms un by (auto simp: unat_eq_nat_uint uint_mod nat_eq_iff2)
  with card_draws [of "\<lambda>v. v < rand_limit ?un \<and> uint v mod n = i"] card_accepted_draws [OF nz, of "nat i"] assms un
  show ?thesis by (simp add: draw_accepted_iff)
qed

lemma card_skipped_draws:
  assumes "0 < n" "n < 2 ^ 32"
  shows "card {b. length b = 4 \<and> (\<forall>i. cryptoRandIndex n (Some b # ds) \<noteq> Some (Inr i, ds))} \<le> nat n"
proof -
  let ?un = "of_int n :: u32"
  have un: "unat ?un = nat n" using assms by (simp_all add: unat_eq_nat_uint uint_word_of_int)
  have "card {v. \<not> v < rand_limit ?un} = card (unat ` {v. \<not> v < rand_limit ?un})"
    by (rule card_image [symmetric]) (simp add: inj_on_def word_unat_eq_iff)
  also have "\<dots> \<le> card {unat (rand_limit ?un) ..< 2 ^ 32}"
    using unsigned_less [where ?'a = nat and ?'b = 32] by (intro card_mono) (auto simp: word_less_nat_alt)
  also have "\<dots> = 2 ^ 32 - (2 ^ 32 - 1) div nat n * nat n" unfolding unat_rand_limit un by simp
  also have "\<dots> \<le> nat n"
  proof -
    have "(2 ^ 32 - 1) div nat n * nat n + (2 ^ 32 - 1) mod nat n = (2 ^ 32 - 1 :: nat)" by (rule div_mult_mod_eq)
    moreover have "(2 ^ 32 - 1 :: nat) mod nat n < nat n" using assms(1) by simp
    ultimately show ?thesis by linarith
  qed
  finally show ?thesis using card_draws [of "\<lambda>v. \<not> v < rand_limit ?un"] by (simp add: draw_accepted_iff [OF assms])
qed

lemma cryptoRandIndex_returns:
  assumes "0 < n" "n < 2 ^ 32" "\<exists>d \<in> set ds. d = None \<or> (\<exists>b i. d = Some b \<and> cryptoRandIndex n [Some b] = Some (Inr i, []))"
  shows "\<exists>r ds'. cryptoRandIndex n ds = Some (r, ds') \<and> length ds' < length ds"
  using assms(3)
proof (induction ds)
  case (Cons d ds)
  show ?case
  proof (cases d)
    case (Some b)
    show ?thesis using Cons Some cryptoRandIndex_draw [OF assms(1,2), of b] cryptoRandIndex_other(1) [OF assms(1,2)] by (auto simp: less_Suc_eq split: if_splits)
  qed (simp add: cryptoRandIndex_other [OF assms(1,2)])
qed simp

subsection \<open>Reservation and serving\<close>

lemma cryptoRandIndex_range:
  assumes "cryptoRandIndex n ds = Some (Inr i, ds')" "n < 2 ^ 32"
  shows "0 \<le> i" "i < n"
proof -
  from assms have n: "0 < n" and un: "(of_int n :: u32) \<noteq> 0"
    and loop: "rand_loop (of_int n) (rand_limit (of_int n)) ds = Some (Inr i, ds')"
    by (auto simp: cryptoRandIndex_def Let_def split: if_splits)
  have "unat (of_int n :: u32) = nat n" using n assms(2) by (simp add: unat_eq_nat_uint uint_word_of_int)
  with rand_loop_range [OF loop un] show "0 \<le> i" "i < n" by auto
qed

text \<open>
  A successful reservation moves the cursor of one entry of the pool by exactly the number of bytes
  needed and leaves the rest alone; an error leaves the whole state alone.
\<close>

lemma reserveSeedOffset_error:
  "reserveSeedOffset count ds p = Some (Inl e, p', ds') \<Longrightarrow> p' = p"
  by (auto simp: reserveSeedOffset_def Let_def split: if_splits prod.splits option.splits sum.splits)

lemma reserveSeedOffset_success:
  assumes "reserveSeedOffset count ds p = Some (Inr (s, start), p', ds')"
    and "plugin_inv p" "maxMasterSeeds p < 2 ^ 32"
  obtains i m e where "i < length (masterSeeds p)" "m = masterSeeds p ! i"
    "0 < count" "count \<le> maxCountPerRequest p"
    "s = Seed m" "start = Offset m"
    "snd (mulUint64Checked (of_int count) (of_int (trngSize p)))"
    "unat e = unat start + unat (of_int count :: u64) * unat (of_int (trngSize p) :: u64)"
    "p' = p\<lparr>masterSeeds := (masterSeeds p)[i := m\<lparr>Offset := e\<rparr>]\<rparr>"
proof -
  obtain need ok where need: "mulUint64Checked (of_int count) (of_int (trngSize p)) = (need, ok)"
    by (cases "mulUint64Checked (of_int count) (of_int (trngSize p))")
  from assms(1) need have c: "0 < count" "count \<le> maxCountPerRequest p" "ok"
    by (auto simp: reserveSeedOffset_def Let_def split: if_splits)
  from assms(1) need c obtain idx ds2 where
    idx: "cryptoRandIndex (int (length (masterSeeds p))) ds = Some (Inr idx, ds2)"
    by (auto simp: reserveSeedOffset_def Let_def split: if_splits option.splits sum.splits)
  have "int (length (masterSeeds p)) < 2 ^ 32" using assms(2,3) by (simp add: plugin_inv_def)
  from cryptoRandIndex_range [OF idx this] have i: "nat idx < length (masterSeeds p)" by auto
  let ?m = "masterSeeds p ! nat idx"
  obtain e ok2 where e: "addUint64Checked (Offset ?m) need = (e, ok2)"
    by (cases "addUint64Checked (Offset ?m) need")
  from assms(1) need c idx e have r: "ok2" "s = Seed ?m" "start = Offset ?m"
      "p' = p\<lparr>masterSeeds := (masterSeeds p)[nat idx := ?m\<lparr>Offset := e\<rparr>]\<rparr>"
    by (auto simp: reserveSeedOffset_def Let_def split: if_splits)
  have "unat e = unat start + unat need"
    using addUint64Checked_value [of "Offset ?m" need] e r by simp
  moreover have "unat need = unat (of_int count :: u64) * unat (of_int (trngSize p) :: u64)"
    using mulUint64Checked_value [of "of_int count" "of_int (trngSize p)"] need c by simp
  ultimately show thesis using that [of "nat idx" ?m e] i r c need by simp
qed

lemma plugin_inv_update:
  "plugin_inv p \<Longrightarrow> i < length (masterSeeds p) \<Longrightarrow>
   plugin_inv (p\<lparr>masterSeeds := (masterSeeds p)[i := (masterSeeds p ! i)\<lparr>Offset := e\<rparr>]\<rparr>)"
  using set_update_subset_insert [of "masterSeeds p" i "(masterSeeds p ! i)\<lparr>Offset := e\<rparr>"]
  by (fastforce simp: plugin_inv_def)

text \<open>The number of values of a request: at least one.\<close>

definition request_count :: "u32 \<Rightarrow> int" where
  "request_count c = (if uint c \<le> 0 then 1 else uint c)"

lemma request_count_bounds: "1 \<le> request_count c" "request_count c < 2 ^ 32"
proof -
  have "uint c < 2 ^ 32" using uint_lt2p [of c] by simp
  then show "1 \<le> request_count c" "request_count c < 2 ^ 32"
    using uint_ge_0 [of c] by (simp_all add: request_count_def int_one_le_iff_zero_less less_le)
qed

text \<open>A served request, in terms of the pool entry it read.\<close>

lemma GetSeeds_success:
  assumes "GetSeeds c ds p = Some (Inr vs, p', ds')"
    and inv: "plugin_inv p" "maxMasterSeeds p < 2 ^ 32"
  obtains i m b e where "i < length (masterSeeds p)" "m = masterSeeds p ! i"
    "parseTRNGBlock m = Inr b"
    "vs = map (\<lambda>k. window b (unat (Offset m) + k * nat (trngSize p)) (nat (trngSize p)))
            [0 ..< nat (request_count c)]"
    "unat e = unat (Offset m) + nat (request_count c) * nat (trngSize p)"
    "p' = p\<lparr>masterSeeds := (masterSeeds p)[i := m\<lparr>Offset := e\<rparr>]\<rparr>"
proof -
  let ?n = "request_count c"
  from assms(1) obtain s start where
    res: "reserveSeedOffset ?n ds p = Some (Inr (s, start), p', ds')"
    and der: "DeriveBulkAtOffset \<lparr>Seed = s, Offset = 0\<rparr> ?n start (trngSize p') = Inr vs"
    by (auto simp: GetSeeds_def request_count_def Let_def split: option.splits sum.splits prod.splits)
  from reserveSeedOffset_success [OF res inv] obtain i m e where
    i: "i < length (masterSeeds p)" "m = masterSeeds p ! i" "s = Seed m" "start = Offset m"
    and e: "unat e = unat start + unat (of_int ?n :: u64) * unat (of_int (trngSize p) :: u64)"
    and p': "p' = p\<lparr>masterSeeds := (masterSeeds p)[i := m\<lparr>Offset := e\<rparr>]\<rparr>" .
  have size: "1 \<le> trngSize p" "trngSize p \<le> 1024" using inv(1) by (auto simp: plugin_inv_def)
  note n = request_count_bounds [of c]
  have "seed_ok (Seed m)" using inv(1) i(1,2) by (simp add: plugin_inv_def)
  then obtain b where b: "parseTRNGBlock m = Inr b" using seed_ok_iff by blast
  then have b': "parseTRNGBlock \<lparr>Seed = s, Offset = 0\<rparr> = Inr b"
    using i(3) by (simp add: parseTRNGBlock_def)
  have vl: "value_len (trngSize p) = trngSize p" using size by (simp add: value_len_def)
  have "?n * trngSize p \<le> ?n * 1024" using n size by (intro mult_left_mono) auto
  then have small: "?n * value_len (trngSize p) < 2 ^ 63"
    unfolding vl by (rule le_less_trans) (use n in simp)
  have "vs = map (\<lambda>k. window b (unat start + k * nat (trngSize p)) (nat (trngSize p))) [0 ..< nat ?n]"
    using der DeriveBulkAtOffset_value [OF b' _ small, of start] n size
    by (simp add: p' value_len_def)
  moreover have "unat (of_int ?n :: u64) = nat ?n" "unat (of_int (trngSize p) :: u64) = nat (trngSize p)"
    using n size by (simp_all add: unat_of_int_u64)
  ultimately show thesis using that [OF i(1,2) b] e p' i(4) by metis
qed

text \<open>A refusal comes from the reservation: after a reservation the derivation succeeds.\<close>

lemma GetSeeds_Inl:
  assumes g: "GetSeeds c ds p = Some (Inl e, p', ds')" and inv: "plugin_inv p" "maxMasterSeeds p < 2 ^ 32"
  shows "reserveSeedOffset (request_count c) ds p = Some (Inl e, p', ds')"
proof -
  let ?n = "request_count c"
  consider "reserveSeedOffset ?n ds p = Some (Inl e, p', ds')"
    | s start where "reserveSeedOffset ?n ds p = Some (Inr (s, start), p', ds')"
        "DeriveBulkAtOffset \<lparr>Seed = s, Offset = 0\<rparr> ?n start (trngSize p') = Inl e"
    using g by (auto simp: GetSeeds_def request_count_def Let_def split: option.splits sum.splits prod.splits)
  then show ?thesis
  proof cases
    case 1
    then show ?thesis .
  next
    case 2
    from reserveSeedOffset_success [OF 2(1) inv] obtain i m e' where
      i: "i < length (masterSeeds p)" "m = masterSeeds p ! i" "s = Seed m"
      and p': "p' = p\<lparr>masterSeeds := (masterSeeds p)[i := m\<lparr>Offset := e'\<rparr>]\<rparr>" .
    have "seed_ok (Seed m)" using inv(1) i by (simp add: plugin_inv_def)
    then obtain b where b: "parseTRNGBlock \<lparr>Seed = s, Offset = 0\<rparr> = Inr b"
      using i(3) by (auto simp: seed_ok_def parseTRNGBlock_def)
    note n = request_count_bounds [of c]
    have "?n * value_len (trngSize p') \<le> ?n * 1024"
      using n value_len_bounds [of "trngSize p'"] by (intro mult_left_mono) auto
    then have "?n * value_len (trngSize p') < 2 ^ 63" by (rule le_less_trans) (use n in simp)
    from DeriveBulkAtOffset_value [OF b _ this] n 2(2) show ?thesis by simp
  qed
qed

lemma GetSeeds_error:
  assumes "GetSeeds c ds p = Some (Inl e, p', ds')" "plugin_inv p" "maxMasterSeeds p < 2 ^ 32"
  shows "p' = p"
  by (rule reserveSeedOffset_error [OF GetSeeds_Inl [OF assms]])

lemma cryptoRandIndex_error:
  assumes "cryptoRandIndex n ds = Some (Inl e, ds')" "0 < n" "n < 2 ^ 32"
  shows "e = RandFailed"
proof -
  have "unat (of_int n :: u32) = nat n"
    using assms by (simp add: unat_eq_nat_uint uint_word_of_int)
  then have "(of_int n :: u32) \<noteq> 0" using assms(2) by auto
  then show ?thesis using assms rand_loop_errors [of "of_int n" "rand_limit (of_int n)" ds e ds']
    by (simp add: cryptoRandIndex_def Let_def)
qed

lemma reserveSeedOffset_refusals:
  assumes r: "reserveSeedOffset n ds p = Some (Inl e, p', ds')"
    and inv: "plugin_inv p" "maxMasterSeeds p < 2 ^ 32" and n: "0 < n" "n < 2 ^ 32"
  shows "e = CountTooLarge n \<and> maxCountPerRequest p < n
     \<or> e = NoMasterSeed \<and> masterSeeds p = []
     \<or> e = RandFailed
     \<or> e = SeedOffsetOverflow \<and> (\<exists>m \<in> set (masterSeeds p).
          2 ^ 64 \<le> unat (Offset m) + nat n * nat (trngSize p))"
proof -
  have size: "1 \<le> trngSize p" "trngSize p \<le> 1024" using inv(1) by (auto simp: plugin_inv_def)
  have "n * trngSize p \<le> n * 1024" using n size by (intro mult_left_mono) auto
  then have "n * trngSize p < 2 ^ 64" by (rule le_less_trans) (use n in simp)
  then obtain need where need: "mulUint64Checked (of_int n) (of_int (trngSize p)) = (need, True)"
      "unat need = nat n * nat (trngSize p)"
    using mulUint64Checked_int [of n "trngSize p"] n size by auto
  consider "maxCountPerRequest p < n" | "n \<le> maxCountPerRequest p" "masterSeeds p = []"
    | ds2 where "masterSeeds p \<noteq> []" "n \<le> maxCountPerRequest p"
        "cryptoRandIndex (int (length (masterSeeds p))) ds = Some (Inl e, ds2)"
    | i ds2 where "masterSeeds p \<noteq> []" "n \<le> maxCountPerRequest p"
        "cryptoRandIndex (int (length (masterSeeds p))) ds = Some (Inr i, ds2)"
    using r n need by (force simp: reserveSeedOffset_def split: option.splits sum.splits if_splits)
  then show ?thesis
  proof cases
    case 3
    have "int (length (masterSeeds p)) < 2 ^ 32" using inv by (simp add: plugin_inv_def)
    with cryptoRandIndex_error [OF 3(3)] 3(1) show ?thesis by simp
  next
    case (4 i)
    have "int (length (masterSeeds p)) < 2 ^ 32" using inv by (simp add: plugin_inv_def)
    from cryptoRandIndex_range [OF 4(3) this] have i: "masterSeeds p ! nat i \<in> set (masterSeeds p)" by auto
    let ?m = "masterSeeds p ! nat i"
    have "e = SeedOffsetOverflow \<and> \<not> snd (addUint64Checked (Offset ?m) need)"
      using r n need 4 by (auto simp: reserveSeedOffset_def Let_def split: prod.splits if_splits)
    then show ?thesis using i by (auto simp: addUint64Checked_ok_iff need(2) not_less)
  qed (use r n need in \<open>auto simp: reserveSeedOffset_def\<close>)
qed

section \<open>Runs: no byte of a keystream is served twice\<close>

text \<open>
  The ledger of a run has one entry \<open>(block, start, len)\<close> for each successful request: the decoded seed
  it read and the range of keystream bytes it was answered from.
\<close>

type_synonym served = "bytes \<times> nat \<times> nat"

definition block_of :: "MasterSeed \<Rightarrow> bytes" where
  "block_of m = the (hex_decode (Seed m))"

definition fresh :: "string \<Rightarrow> Plugin \<Rightarrow> served list \<Rightarrow> bool" where
  "fresh seed p L \<longleftrightarrow>
     (\<forall>b. hex_decode seed = Some b \<longrightarrow> b \<notin> block_of ` set (masterSeeds p) \<and> b \<notin> fst ` set L)"

inductive ms_step :: "Plugin \<times> served list \<Rightarrow> Plugin \<times> served list \<Rightarrow> bool" where
  insert: "fresh seed p L \<Longrightarrow> ms_step (p, L) (addMasterSeed seed p, L)"
| serve: "GetSeeds c ds p = Some (Inr vs, p', ds') \<Longrightarrow>
    reserveSeedOffset (request_count c) ds p = Some (Inr (s, start), p', ds') \<Longrightarrow>
    ms_step (p, L) (p', (the (hex_decode s), unat start, length vs * nat (trngSize p)) # L)"
| refuse: "GetSeeds c ds p = Some (Inl e, p', ds') \<Longrightarrow> ms_step (p, L) (p', L)"

inductive_cases ms_stepE: "ms_step (p, L) (p', L')"

text \<open>Two entries do not overlap: they read different blocks or disjoint ranges.\<close>

definition disjoint_served :: "served \<Rightarrow> served \<Rightarrow> bool" where
  "disjoint_served a b = (case (a, b) of ((x, s, n), (y, t, m)) \<Rightarrow> x \<noteq> y \<or> s + n \<le> t \<or> t + m \<le> s)"

fun pairwise_disjoint :: "served list \<Rightarrow> bool" where
  "pairwise_disjoint [] \<longleftrightarrow> True"
| "pairwise_disjoint (a # L) \<longleftrightarrow> list_all (disjoint_served a) L \<and> pairwise_disjoint L"

definition ledger_inv :: "Plugin \<times> served list \<Rightarrow> bool" where
  "ledger_inv st = (case st of (p, L) \<Rightarrow>
     plugin_inv p \<and> maxMasterSeeds p < 2 ^ 32 \<and> distinct (map block_of (masterSeeds p))
     \<and> (\<forall>(x, s, n) \<in> set L. \<forall>m \<in> set (masterSeeds p). block_of m = x \<longrightarrow> s + n \<le> unat (Offset m))
     \<and> pairwise_disjoint L)"

lemma ledger_invI:
  assumes "plugin_inv p" "maxMasterSeeds p < 2 ^ 32" "distinct (map block_of (masterSeeds p))"
    and "\<And>x s n m. (x, s, n) \<in> set L \<Longrightarrow> m \<in> set (masterSeeds p) \<Longrightarrow> block_of m = x \<Longrightarrow> s + n \<le> unat (Offset m)"
    and "pairwise_disjoint L"
  shows "ledger_inv (p, L)"
  unfolding ledger_inv_def prod.case using assms by (intro conjI ballI) (auto simp only: split: prod.splits)

lemma ledger_invD:
  assumes "ledger_inv (p, L)"
  shows "plugin_inv p" "maxMasterSeeds p < 2 ^ 32" "distinct (map block_of (masterSeeds p))"
    and "(x, s, n) \<in> set L \<Longrightarrow> m \<in> set (masterSeeds p) \<Longrightarrow> block_of m = x \<Longrightarrow> s + n \<le> unat (Offset m)"
    and "pairwise_disjoint L"
  using assms by (auto simp: ledger_inv_def)

lemma distinct_map_tl: "distinct (map f xs) \<Longrightarrow> distinct (map f (tl xs))"
  by (cases xs) auto

lemma ledger_inv_insert:
  assumes inv: "ledger_inv (p, L)" and fr: "fresh seed p L"
  shows "ledger_inv (addMasterSeed seed p, L)"
proof (cases "seed_ok seed")
  case False
  then have "masterSeeds (addMasterSeed seed p) = masterSeeds p" by (simp add: masterSeeds_addMasterSeed)
  then show ?thesis using inv addMasterSeed_inv [of p seed] by (auto simp: ledger_inv_def)
next
  case True
  let ?m = "\<lparr>Seed = seed, Offset = 0\<rparr>" and ?q = "masterSeeds (addMasterSeed seed p)"
  obtain b where b: "hex_decode seed = Some b" using True by (auto simp: seed_ok_def)
  with fr have new: "block_of ?m \<notin> block_of ` set (masterSeeds p)" "block_of ?m \<notin> fst ` set L"
    by (auto simp: fresh_def block_of_def)
  from True have q: "?q = masterSeeds p @ [?m] \<or> ?q = tl (masterSeeds p @ [?m])"
    by (simp add: masterSeeds_addMasterSeed Let_def)
  have "distinct (map block_of (masterSeeds p @ [?m]))"
    using inv new(1) by (simp add: ledger_inv_def)
  then have dist: "distinct (map block_of ?q)"
    using q distinct_map_tl [of block_of "masterSeeds p @ [?m]"] by (elim disjE) simp_all
  have sub: "set ?q \<subseteq> insert ?m (set (masterSeeds p))"
    using q set_tl_snoc [of "masterSeeds p" ?m] by (elim disjE) simp_all
  have "s + n \<le> unat (Offset m)"
    if "(x, s, n) \<in> set L" "m \<in> set ?q" "block_of m = x" for x s n m
  proof -
    have "block_of m \<in> fst ` set L" using that(1,3) by (intro rev_image_eqI [OF that(1)]) simp
    then have "m \<noteq> ?m" using new(2) by blast
    then have "m \<in> set (masterSeeds p)" using that sub by auto
    then show ?thesis using ledger_invD(4) [OF inv] that by blast
  qed
  with dist show ?thesis
    using addMasterSeed_inv [OF ledger_invD(1) [OF inv]] ledger_invD(2,5) [OF inv]
    by (intro ledger_invI) simp_all
qed

lemma map_block_update:
  "i < length ms \<Longrightarrow> map block_of (ms[i := (ms ! i)\<lparr>Offset := e\<rparr>]) = map block_of ms"
  by (simp add: map_update block_of_def list_update_same_conv)

lemma ledger_inv_serve:
  assumes inv: "ledger_inv (p, L)" and i: "i < length (masterSeeds p)"
    and m: "m = masterSeeds p ! i" and e: "unat e = unat (Offset m) + n"
  shows "ledger_inv (p\<lparr>masterSeeds := (masterSeeds p)[i := m\<lparr>Offset := e\<rparr>]\<rparr>,
    (block_of m, unat (Offset m), n) # L)"
proof -
  let ?ms = "(masterSeeds p)[i := m\<lparr>Offset := e\<rparr>]"
  note dist = ledger_invD(3) [OF inv] and old = ledger_invD(4) [OF inv]
  have mem: "m \<in> set (masterSeeds p)" using i m by simp
  have ms: "set ?ms \<subseteq> insert (m\<lparr>Offset := e\<rparr>) (set (masterSeeds p) - {m})"
  proof -
    have "distinct (masterSeeds p)" using dist by (simp add: distinct_map)
    then have "set ?ms = insert (m\<lparr>Offset := e\<rparr>) (set (masterSeeds p) - {masterSeeds p ! i})"
      using i by (rule set_update_distinct)
    then show ?thesis using m by simp
  qed
  have inj: "inj_on block_of (set (masterSeeds p))" using dist by (simp add: distinct_map)
  have blk: "block_of (m\<lparr>Offset := e\<rparr>) = block_of m" by (simp add: block_of_def)
  have new: "list_all (disjoint_served (block_of m, unat (Offset m), n)) L"
    using old [OF _ mem] by (auto simp: list_all_iff disjoint_served_def)
  have cur: "s + k \<le> unat (Offset m')"
    if "(x, s, k) \<in> set ((block_of m, unat (Offset m), n) # L)" "m' \<in> set ?ms" "block_of m' = x" for x s k m'
  proof (cases "m' = m\<lparr>Offset := e\<rparr>")
    case True
    with that blk old [of x s k m] mem e show ?thesis by auto
  next
    case False
    with that ms have m': "m' \<in> set (masterSeeds p)" "m' \<noteq> m" by auto
    then have "block_of m' \<noteq> block_of m" using inj mem by (auto dest: inj_onD)
    with that old m' show ?thesis by auto
  qed
  show ?thesis
  proof (rule ledger_invI)
    show "plugin_inv (p\<lparr>masterSeeds := ?ms\<rparr>)"
      unfolding m by (rule plugin_inv_update [OF ledger_invD(1) [OF inv] i])
    show "distinct (map block_of (masterSeeds (p\<lparr>masterSeeds := ?ms\<rparr>)))"
      using dist unfolding m by (simp add: map_block_update [OF i])
    show "pairwise_disjoint ((block_of m, unat (Offset m), n) # L)"
      using new ledger_invD(5) [OF inv] by simp
  qed (use ledger_invD(2) [OF inv] cur in simp_all)
qed

lemma ledger_inv_step: "ms_step (p, L) (p', L') \<Longrightarrow> ledger_inv (p, L) \<Longrightarrow> ledger_inv (p', L')"
proof (erule ms_stepE)
  fix seed assume "ledger_inv (p, L)" "p' = addMasterSeed seed p" "L' = L" "fresh seed p L"
  then show ?thesis using ledger_inv_insert by simp
next
  fix c ds e ds' assume "ledger_inv (p, L)" "GetSeeds c ds p = Some (Inl e, p', ds')" "L' = L"
  moreover from this have "p' = p" using GetSeeds_error ledger_invD(1,2) by blast
  ultimately show ?thesis by simp
next
  fix c ds vs ds' s start
  assume inv: "ledger_inv (p, L)" and g: "GetSeeds c ds p = Some (Inr vs, p', ds')"
    and r: "reserveSeedOffset (request_count c) ds p = Some (Inr (s, start), p', ds')"
    and L': "L' = (the (hex_decode s), unat start, length vs * nat (trngSize p)) # L"
  from inv have pinv: "plugin_inv p" "maxMasterSeeds p < 2 ^ 32" by (auto simp: ledger_inv_def)
  note n = request_count_bounds [of c]
  have size: "1 \<le> trngSize p" "trngSize p \<le> 1024" using pinv by (auto simp: plugin_inv_def)
  have len: "length vs = nat (request_count c)"
    by (rule GetSeeds_success [OF g pinv]) simp
  from reserveSeedOffset_success [OF r pinv] obtain i m e where
    i: "i < length (masterSeeds p)" "m = masterSeeds p ! i" "s = Seed m" "start = Offset m"
    and e: "unat e = unat start + unat (of_int (request_count c) :: u64) * unat (of_int (trngSize p) :: u64)"
    and p': "p' = p\<lparr>masterSeeds := (masterSeeds p)[i := m\<lparr>Offset := e\<rparr>]\<rparr>" .
  have "unat e = unat (Offset m) + length vs * nat (trngSize p)"
    using e n size i(4) by (simp add: unat_of_int_u64 len)
  from ledger_inv_serve [OF inv i(1,2) this] show ?thesis
    using p' L' i(3,4) by (simp add: block_of_def)
qed

lemma ledger_inv_run: "ms_step\<^sup>*\<^sup>* (p, L) (p', L') \<Longrightarrow> ledger_inv (p, L) \<Longrightarrow> ledger_inv (p', L')"
  by (induction rule: rtranclp_induct2) (auto intro: ledger_inv_step)

lemma GetSeeds_served:
  assumes inv: "plugin_inv p" "maxMasterSeeds p < 2 ^ 32"
    and idx: "cryptoRandIndex (int (length (masterSeeds p))) ds = Some (Inr i, ds')"
    and m: "m = masterSeeds p ! nat i" and b: "hex_decode (Seed m) = Some b"
    and count: "request_count c \<le> maxCountPerRequest p"
    and fits: "unat (Offset m) + nat (request_count c) * nat (trngSize p) < 2 ^ 64"
  shows "GetSeeds c ds p = Some (
    Inr (map (\<lambda>k. window b (unat (Offset m) + k * nat (trngSize p)) (nat (trngSize p)))
          [0 ..< nat (request_count c)]),
    p\<lparr>masterSeeds := (masterSeeds p)[nat i := m\<lparr>Offset :=
        Offset m + of_nat (nat (request_count c) * nat (trngSize p))\<rparr>]\<rparr>, ds')"
proof -
  let ?n = "request_count c" and ?k = "trngSize p"
  note n = request_count_bounds [of c]
  have size: "1 \<le> ?k" "?k \<le> 1024" using inv(1) by (auto simp: plugin_inv_def)
  have "int (length (masterSeeds p)) < 2 ^ 32" using inv by (simp add: plugin_inv_def)
  from cryptoRandIndex_range [OF idx this] have i: "nat i < length (masterSeeds p)" by auto
  then have ne: "masterSeeds p \<noteq> []" by auto
  have "seed_ok (Seed m)" using inv(1) i m by (simp add: plugin_inv_def)
  with b have b': "parseTRNGBlock \<lparr>Seed = Seed m, Offset = 0\<rparr> = Inr b"
    by (auto simp: seed_ok_def parseTRNGBlock_Inr_iff)
  have le: "?n * ?k \<le> ?n * 1024" using n size by (intro mult_left_mono) auto
  have lim: "?n * 1024 < 2 ^ 64" "?n * 1024 < 2 ^ 63" using n by simp_all
  obtain need where need: "mulUint64Checked (of_int ?n) (of_int ?k) = (need, True)"
      "unat need = nat ?n * nat ?k"
    using mulUint64Checked_int [of ?n ?k] n size le_less_trans [OF le lim(1)] by auto
  have nd: "need = of_nat (nat ?n * nat ?k)" unfolding need(2) [symmetric] by simp
  obtain e where e: "addUint64Checked (Offset m) need = (e, True)"
    using addUint64Checked_ok_iff [of "Offset m" need] fits need(2) by (metis prod.collapse)
  then have "e = Offset m + need" by (simp add: addUint64Checked_def split: if_splits)
  then have res: "reserveSeedOffset ?n ds p = Some (Inr (Seed m, Offset m),
      p\<lparr>masterSeeds := (masterSeeds p)[nat i := m\<lparr>Offset := Offset m + of_nat (nat ?n * nat ?k)\<rparr>]\<rparr>, ds')"
    using n count need idx e ne unfolding reserveSeedOffset_def nd
    by (simp add: Let_def m [symmetric])
  have vl: "value_len ?k = ?k" using size by (simp add: value_len_def)
  have "?n * value_len ?k < 2 ^ 63" unfolding vl by (rule le_less_trans [OF le lim(2)])
  from DeriveBulkAtOffset_value [OF b' _ this, of "Offset m"] n res show ?thesis
    unfolding vl GetSeeds_def request_count_def [symmetric] Let_def by simp
qed

lemma GetSeeds_reserved:
  "GetSeeds c ds p = Some (Inr vs, p', ds') \<Longrightarrow>
   \<exists>s start. reserveSeedOffset (request_count c) ds p = Some (Inr (s, start), p', ds')"
  by (auto simp: GetSeeds_def request_count_def Let_def split: option.splits sum.splits prod.splits)

lemma ledger_inv_start: "MasterSeedMaxMasterSeeds cfg < 2 ^ 32 \<Longrightarrow> ledger_inv (pluginOfConfig cfg, [])"
  using pluginOfConfig_inv [of cfg] by (intro ledger_invI) (simp_all add: pluginOfConfig_def Let_def)

lemma GetSeeds_inv:
  assumes "GetSeeds c ds p = Some (r, p', ds')" "plugin_inv p" "maxMasterSeeds p < 2 ^ 32"
  shows "plugin_inv p'"
proof (cases r)
  case (Inl e)
  then show ?thesis using GetSeeds_error [of c ds p e p' ds'] assms by simp
next
  case (Inr vs)
  show ?thesis
    by (rule GetSeeds_success [OF assms(1) [unfolded Inr] assms(2,3)]) (simp add: plugin_inv_update assms(2))
qed

lemma addMasterSeed_queue:
  assumes "plugin_inv p" "seed_ok s"
  defines "q \<equiv> masterSeeds p @ [\<lparr>Seed = s, Offset = 0\<rparr>]"
  shows "masterSeeds (addMasterSeed s p) = drop (length q - nat (maxMasterSeeds p)) q"
proof -
  have "int (length (masterSeeds p)) \<le> maxMasterSeeds p" "1 \<le> maxMasterSeeds p"
    using assms(1) by (simp_all add: plugin_inv_def)
  then consider "nat (maxMasterSeeds p) = length (masterSeeds p)" "maxMasterSeeds p < int (length q)"
    | "length q \<le> nat (maxMasterSeeds p)" "\<not> maxMasterSeeds p < int (length q)"
    unfolding q_def by (cases "maxMasterSeeds p = int (length (masterSeeds p))") auto
  then show ?thesis
  proof cases
    case 1
    then have "length q - nat (maxMasterSeeds p) = 1" by (simp add: q_def)
    then have "drop (length q - nat (maxMasterSeeds p)) q = tl q" by (simp only: drop_Suc One_nat_def drop_0)
    with 1(2) assms(2) show ?thesis by (simp add: masterSeeds_addMasterSeed q_def [symmetric] Let_def)
  qed (use assms(2) in \<open>simp add: masterSeeds_addMasterSeed q_def [symmetric] Let_def\<close>)
qed

text \<open>Keeping the last \<open>k\<close> elements after each append is keeping the last \<open>k\<close> at the end.\<close>

lemma drop_last_twice:
  "drop (length (drop (length q - k) q) + length r - k) (drop (length q - k) q @ r)
     = drop (length q + length r - k) (q @ r)"
proof (cases "length q \<le> k")
  case False
  then have "length q + length r - k = length r + (length q - k)" by simp
  with False show ?thesis by (simp del: drop_append add: drop_drop [symmetric]) simp
qed simp

text \<open>A configuration, a seed and a draw for the instances below.\<close>

definition cfg0 :: masterSeedConfig where
  "cfg0 = \<lparr>MasterSeedDefaultMasterSeeds = [], MasterSeedTRNGSize = 32, MasterSeedMaxMasterSeeds = 100,
     MaserSeedPeriod = 3600, MasterSeedMaxCountPerRequest = 25000\<rparr>"

definition block0 :: bytes where
  "block0 = replicate 32 (CHR 0x00)"

definition plugin0 :: Plugin where
  "plugin0 = addMasterSeed (hex_encode block0) (pluginOfConfig cfg0)"

definition draw0 :: draws where
  "draw0 = [Some (replicate 4 (CHR 0x00))]"

lemma seed_ok_block0: "seed_ok (hex_encode block0)"
  by (simp add: seed_ok_def block0_def)

lemma plugin0_simps:
  "masterSeeds plugin0 = [\<lparr>Seed = hex_encode block0, Offset = 0\<rparr>]"
  "trngSize plugin0 = 32" "maxMasterSeeds plugin0 = 100" "maxCountPerRequest plugin0 = 25000"
  unfolding plugin0_def masterSeeds_addMasterSeed using seed_ok_block0
  by (simp_all add: pluginOfConfig_def cfg0_def Let_def)

lemma plugin0_inv: "plugin_inv plugin0"
  using seed_ok_block0 by (simp add: plugin_inv_def plugin0_simps)

lemma cryptoRandIndex_draw0: "cryptoRandIndex 1 draw0 = Some (Inr 0, [])"
  by (simp add: word_gt_0 cryptoRandIndex_def draw0_def le_u32_def rand_limit_def Let_def)

lemma request_count_2: "request_count 2 = 2"
  by (simp add: request_count_def)

lemma GetSeeds_plugin0: "\<exists>vs p'. GetSeeds 2 draw0 plugin0 = Some (Inr vs, p', [])"
  using GetSeeds_served [of plugin0 draw0 0 "[]" _ block0 2] cryptoRandIndex_draw0
  by (simp add: plugin0_simps plugin0_inv request_count_2)

text \<open>A pool that holds the same seed twice, and the draw that selects its second entry.\<close>

definition plugin2 :: Plugin where
  "plugin2 = addMasterSeed (hex_encode block0) plugin0"

definition draw1 :: draws where
  "draw1 = [Some (CHR 0x01 # replicate 3 (CHR 0x00))]"

lemma plugin2_simps:
  "masterSeeds plugin2 = [\<lparr>Seed = hex_encode block0, Offset = 0\<rparr>, \<lparr>Seed = hex_encode block0, Offset = 0\<rparr>]"
  "trngSize plugin2 = 32" "maxMasterSeeds plugin2 = 100" "maxCountPerRequest plugin2 = 25000"
  unfolding plugin2_def masterSeeds_addMasterSeed using seed_ok_block0
  by (simp_all add: plugin0_simps Let_def)

lemma cryptoRandIndex_pool2:
  "cryptoRandIndex 2 draw0 = Some (Inr 0, [])" "cryptoRandIndex 2 draw1 = Some (Inr 1, [])"
  by (simp_all add: cryptoRandIndex_def draw0_def draw1_def le_u32_def rand_limit_def Let_def word_less_nat_alt
      unsigned_minus_1_eq_mask mask_eq_exp_minus_1)

section \<open>Properties\<close>



text \<open>
  C27. What a request is answered with. When the request is within the limits, the index drawn is \<open>i\<close> and
  the cursor of entry \<open>i\<close> has room, the handler returns \<open>count\<close> values, value \<open>k\<close> being the hex form of
  \<open>trngSize\<close> bytes of the ChaCha20 keystream of the entry's block at cursor \<open>+ k * trngSize\<close>, and advances
  that one cursor by \<open>count * trngSize\<close>.
\<close>

theorem GetSeeds_values:
  assumes "plugin_inv p" "maxMasterSeeds p < 2 ^ 32"
    and "cryptoRandIndex (int (length (masterSeeds p))) ds = Some (Inr i, ds')"
    and "m = masterSeeds p ! nat i" "hex_decode (Seed m) = Some b"
    and "request_count c \<le> maxCountPerRequest p"
    and "unat (Offset m) + nat (request_count c) * nat (trngSize p) < 2 ^ 64"
  shows "GetSeeds c ds p = Some (
    Inr (map (\<lambda>k. window b (unat (Offset m) + k * nat (trngSize p)) (nat (trngSize p)))
          [0 ..< nat (request_count c)]),
    p\<lparr>masterSeeds := (masterSeeds p)[nat i := m\<lparr>Offset :=
        Offset m + of_nat (nat (request_count c) * nat (trngSize p))\<rparr>]\<rparr>, ds')"
  by (rule GetSeeds_served [OF assms])

theorem GetSeeds_values_witness:
  "GetSeeds 2 draw0 plugin0 =
     Some (Inr [window block0 0 32, window block0 32 32],
       plugin0\<lparr>masterSeeds := [\<lparr>Seed = hex_encode block0, Offset = 64\<rparr>]\<rparr>, [])"
  using GetSeeds_values [of plugin0 draw0 0 "[]" _ block0 2] cryptoRandIndex_draw0
  by (simp add: plugin0_simps plugin0_inv request_count_2 upt_rec)

text \<open>
  When a request is refused, and that a refusal changes nothing: a count above the limit, an empty pool,
  a failing random source, and a cursor that the request would move past \<open>2\<^sup>64\<close> are the only reasons.
\<close>

theorem GetSeeds_refusals:
  assumes inv: "plugin_inv p" "maxMasterSeeds p < 2 ^ 32"
    and "GetSeeds c ds p = Some (Inl e, p', ds')"
  shows "p' = p \<and>
    (e = CountTooLarge (request_count c) \<and> maxCountPerRequest p < request_count c
     \<or> e = NoMasterSeed \<and> masterSeeds p = []
     \<or> e = RandFailed
     \<or> e = SeedOffsetOverflow \<and> (\<exists>m \<in> set (masterSeeds p).
          2 ^ 64 \<le> unat (Offset m) + nat (request_count c) * nat (trngSize p)))"
  using reserveSeedOffset_refusals [OF GetSeeds_Inl [OF assms(3) inv] inv] GetSeeds_error [OF assms(3) inv]
    request_count_bounds [of c] by simp

theorem GetSeeds_refusals_witness:
  "GetSeeds 2 [] (pluginOfConfig cfg0) = Some (Inl NoMasterSeed, pluginOfConfig cfg0, [])"
  using GetSeeds_refusals [of "pluginOfConfig cfg0" 2 "[]" NoMasterSeed "pluginOfConfig cfg0" "[]"]
    pluginOfConfig_inv [of cfg0]
  by (simp add: GetSeeds_def reserveSeedOffset_def mulUint64Checked_def maxUint64_def
      pluginOfConfig_def cfg0_def Let_def)

text \<open>
  C28. The random index is uniform. For a pool of \<open>n\<close> entries and whatever is drawn later, every index below \<open>n\<close> is the
  one returned at once for the same number of draws of four bytes; all but at most \<open>n\<close> of the \<open>2 ^ 32\<close> draws return one;
  a draw that does not is skipped as if it had not been made; and on every sequence with a draw that returns an index, or
  an error of the source, the loop returns and consumes a draw.
\<close>

theorem cryptoRandIndex_uniform:
  assumes "0 < n" "n < 2 ^ 32"
  shows "(\<forall>i. 0 \<le> i \<and> i < n \<longrightarrow>
        card {b. length b = 4 \<and> cryptoRandIndex n (Some b # ds) = Some (Inr i, ds)} = (2 ^ 32 - 1) div nat n)
    \<and> card {b. length b = 4 \<and> (\<forall>i. cryptoRandIndex n (Some b # ds) \<noteq> Some (Inr i, ds))} \<le> nat n
    \<and> (\<forall>b. cryptoRandIndex n (Some b # ds) = cryptoRandIndex n ds
         \<or> (\<exists>i. 0 \<le> i \<and> i < n \<and> cryptoRandIndex n (Some b # ds) = Some (Inr i, ds)))
    \<and> ((\<exists>d \<in> set ds. d = None \<or> (\<exists>b i. d = Some b \<and> cryptoRandIndex n [Some b] = Some (Inr i, [])))
        \<longrightarrow> (\<exists>r ds'. cryptoRandIndex n ds = Some (r, ds') \<and> length ds' < length ds))"
  using assms card_index_draws [OF assms] card_skipped_draws [OF assms] cryptoRandIndex_returns [OF assms]
  by (simp add: cryptoRandIndex_draw [OF assms])

theorem cryptoRandIndex_uniform_witness:
  "card {b. length b = 4 \<and> cryptoRandIndex 3 [Some b] = Some (Inr 2, [])} = 1431655765
   \<and> card {b. length b = 4 \<and> cryptoRandIndex 3 [Some b] = Some (Inr 0, [])} = 1431655765"
  using cryptoRandIndex_uniform [of 3 "[]"] by simp

text \<open>
  C29. The pool's invariant. The values in use after start are in range, the pool never exceeds its capacity
  and holds only seeds that decode to 32 bytes: this holds of every plugin \<^verbatim>\<open>NewPlugin\<close> returns and is
  kept by every operation.
\<close>

theorem plugin_inv_kept:
  assumes "NewPlugin cfg connected t = Inr p0" "plugin_inv p" "maxMasterSeeds p < 2 ^ 32"
  shows "plugin_inv p0 \<and> plugin_inv (addMasterSeed seed p) \<and> plugin_inv (insertDefault t seed p)
    \<and> plugin_inv (fetchTick resp p)
    \<and> (\<forall>r p' ds'. GetSeeds c ds p = Some (r, p', ds') \<longrightarrow> plugin_inv p')"
  using assms by (auto intro: NewPlugin_inv addMasterSeed_inv insertDefault_inv fetchTick_inv GetSeeds_inv)

theorem plugin_inv_kept_witness:
  "plugin_inv (pluginOfConfig cfg0) \<and> plugin_inv (addMasterSeed (hex_encode block0) plugin0)
   \<and> plugin_inv (fetchTick (Some [''zz'']) plugin0)"
  using plugin_inv_kept [of cfg0 True 0 "pluginOfConfig cfg0" plugin0 "hex_encode block0"]
    plugin_inv_kept [of cfg0 True 0 "pluginOfConfig cfg0" plugin0 _ "Some [''zz'']"] plugin0_inv
  by (simp add: plugin0_simps NewPlugin_def startSeedFetch_def cfg0_def)

text \<open>
  The pool is a bounded queue. Inserting valid seeds one after another keeps the most recent
  \<open>maxMasterSeeds\<close> entries in order, each new one with its cursor at 0.
\<close>

theorem addMasterSeed_fold:
  assumes "plugin_inv p" "list_all seed_ok ss"
  shows "masterSeeds (fold addMasterSeed ss p) =
    drop (length (masterSeeds p) + length ss - nat (maxMasterSeeds p))
      (masterSeeds p @ map (\<lambda>s. \<lparr>Seed = s, Offset = 0\<rparr>) ss)"
  using assms
proof (induction ss arbitrary: p)
  case (Cons s ss)
  let ?q = "masterSeeds p @ [\<lparr>Seed = s, Offset = 0\<rparr>]" and ?k = "nat (maxMasterSeeds p)"
  let ?r = "map (\<lambda>s. \<lparr>Seed = s, Offset = 0\<rparr>) ss"
  have "masterSeeds (addMasterSeed s p) = drop (length ?q - ?k) ?q"
    using addMasterSeed_queue Cons.prems by simp
  then have "masterSeeds (fold addMasterSeed (s # ss) p) =
      drop (length (drop (length ?q - ?k) ?q) + length ?r - ?k) (drop (length ?q - ?k) ?q @ ?r)"
    using Cons.IH [OF addMasterSeed_inv [OF Cons.prems(1)], of s] Cons.prems(2)
    by (simp only: fold_simps addMasterSeed_config list.pred_inject(2) simp_thms length_map)
  also have "\<dots> = drop (length ?q + length ?r - ?k) (?q @ ?r)" by (rule drop_last_twice)
  finally show ?case by simp
next
  case Nil
  then have "length (masterSeeds p) \<le> nat (maxMasterSeeds p)" by (simp add: plugin_inv_def le_nat_iff)
  then show ?case by simp
qed

theorem addMasterSeed_fold_witness:
  "masterSeeds (fold addMasterSeed [hex_encode block0, hex_encode block0] plugin0) =
     replicate 3 \<lparr>Seed = hex_encode block0, Offset = 0\<rparr>"
  using addMasterSeed_fold [of plugin0 "[hex_encode block0, hex_encode block0]"] plugin0_inv
  by (simp add: plugin0_simps seed_ok_block0 numeral_3_eq_3)

text \<open>
  Offsets and values agree. Deriving \<open>n + k\<close> values at an offset gives the \<open>n\<close> values at that offset
  followed by the \<open>k\<close> values at the offset \<open>n * outLen\<close> bytes further on: a cursor moved by exactly the bytes
  consumed continues the sequence with no gap.
\<close>

theorem DeriveBulkAtOffset_append:
  assumes "seed_ok (Seed m)" "0 < n" "0 < k" "1 \<le> outLen" "outLen \<le> 1024"
    and "(n + k) * outLen < 2 ^ 63" "unat off + nat n * nat outLen < 2 ^ 64"
  shows "\<exists>xs ys. DeriveBulkAtOffset m n off outLen = Inr xs
    \<and> DeriveBulkAtOffset m k (off + of_int (n * outLen)) outLen = Inr ys
    \<and> DeriveBulkAtOffset m (n + k) off outLen = Inr (xs @ ys)
    \<and> length xs = nat n \<and> length ys = nat k"
proof -
  obtain b where b: "parseTRNGBlock m = Inr b" using assms(1) seed_ok_iff by blast
  have vl: "value_len outLen = outLen" using assms by (simp add: value_len_def)
  have "n * outLen \<le> (n + k) * outLen" "k * outLen \<le> (n + k) * outLen"
    using assms by (auto intro: mult_right_mono)
  then have small: "n * outLen < 2 ^ 63" "k * outLen < 2 ^ 63" using assms(6) by linarith+
  have "unat (of_int (n * outLen) :: u64) = nat (n * outLen)"
    using assms small by (intro unat_of_int_u64) (auto intro: less_trans)
  then have off: "unat (off + of_int (n * outLen)) = unat off + nat n * nat outLen"
    using assms by (simp add: unat_word_ariths nat_mult_distrib)
  let ?w = "\<lambda>i. window b (unat off + i * nat outLen) (nat outLen)"
  have "map ?w [0 ..< nat (n + k)] = map ?w [0 ..< nat n]
      @ map (\<lambda>i. window b (unat off + nat n * nat outLen + i * nat outLen) (nat outLen)) [0 ..< nat k]"
    using assms(2,3) by (intro nth_equalityI) (auto simp: nth_append nat_add_distrib algebra_simps)
  with DeriveBulkAtOffset_value [OF b, of n outLen off] DeriveBulkAtOffset_value [OF b, of "n + k" outLen off]
    DeriveBulkAtOffset_value [OF b, of k outLen "off + of_int (n * outLen)"] small assms(2,3,6) off vl
  show ?thesis by auto
qed

theorem DeriveBulkAtOffset_append_witness:
  "\<exists>x y. DeriveBulkAtOffset \<lparr>Seed = hex_encode block0, Offset = 0\<rparr> 2 0 32 = Inr [x, y]
     \<and> DeriveBulkAtOffset \<lparr>Seed = hex_encode block0, Offset = 0\<rparr> 1 0 32 = Inr [x]
     \<and> DeriveBulkAtOffset \<lparr>Seed = hex_encode block0, Offset = 0\<rparr> 1 32 32 = Inr [y]"
  using DeriveBulkAtOffset_append [of "\<lparr>Seed = hex_encode block0, Offset = 0\<rparr>" 1 1 32 0] seed_ok_block0
  by (auto simp: length_Suc_conv)

lemma addMasterSeed_fold_other:
  "trngSize (fold addMasterSeed ss p) = trngSize p \<and> maxMasterSeeds (fold addMasterSeed ss p) = maxMasterSeeds p
   \<and> maxCountPerRequest (fold addMasterSeed ss p) = maxCountPerRequest p \<and> (plugin_inv p \<longrightarrow> plugin_inv (fold addMasterSeed ss p))"
  by (induction ss arbitrary: p) (auto simp: addMasterSeed_inv)

text \<open>Two entries of the pool that are alike: requests of the same size, served from the one and then from the other, are answered alike.\<close>

lemma equal_entries_repeat:
  assumes inv: "plugin_inv p" "maxMasterSeeds p < 2 ^ 32" and count: "request_count c \<le> maxCountPerRequest p"
    and first: "cryptoRandIndex (int (length (masterSeeds p))) ds = Some (Inr i, ds1)"
    and second: "cryptoRandIndex (int (length (masterSeeds p))) ds1 = Some (Inr j, ds2)"
    and alike: "nat i \<noteq> nat j" "masterSeeds p ! nat i = m" "masterSeeds p ! nat j = m"
    and fits: "unat (Offset m) + nat (request_count c) * nat (trngSize p) < 2 ^ 64"
  shows "\<exists>vs p1 p2. GetSeeds c ds p = Some (Inr vs, p1, ds1) \<and> GetSeeds c ds1 p1 = Some (Inr vs, p2, ds2)
    \<and> length vs = nat (request_count c)"
proof -
  have "int (length (masterSeeds p)) < 2 ^ 32" using inv by (simp add: plugin_inv_def)
  from cryptoRandIndex_range [OF first this] have i: "nat i < length (masterSeeds p)" by auto
  then obtain b where b: "hex_decode (Seed m) = Some b" using inv(1) alike(2) unfolding plugin_inv_def seed_ok_def by (metis nth_mem)
  let ?vs = "map (\<lambda>k. window b (unat (Offset m) + k * nat (trngSize p)) (nat (trngSize p))) [0 ..< nat (request_count c)]"
  define p1 where "p1 = p\<lparr>masterSeeds := (masterSeeds p)[nat i := m\<lparr>Offset := Offset m + of_nat (nat (request_count c) * nat (trngSize p))\<rparr>]\<rparr>"
  have one: "GetSeeds c ds p = Some (Inr ?vs, p1, ds1)"
    unfolding p1_def by (rule GetSeeds_served [OF inv first alike(2) [symmetric] b count fits])
  have p1: "trngSize p1 = trngSize p" "maxMasterSeeds p1 = maxMasterSeeds p" "maxCountPerRequest p1 = maxCountPerRequest p"
      "length (masterSeeds p1) = length (masterSeeds p)" "m = masterSeeds p1 ! nat j"
    using alike by (simp_all add: p1_def)
  note two = GetSeeds_served [OF GetSeeds_inv [OF one inv], of ds1 j ds2 m b c, unfolded p1(1-4), OF inv(2) second p1(5) b count fits]
  from one two show ?thesis by (intro exI [of _ ?vs] exI conjI) simp_all
qed

text \<open>
  C30. The freshness assumption of the disjointness property is needed. Whenever a valid seed enters a pool twice, with any
  valid seeds in between and room for all of them, the two entries have their cursors at 0, and two requests for the same
  number of values that select the one and then the other are answered with the same values.
\<close>

theorem duplicate_seed_repeats_values:
  assumes "plugin_inv p" "maxMasterSeeds p < 2 ^ 32" "list_all seed_ok (s # ss)"
    and "int (length (masterSeeds p) + length ss) + 2 \<le> maxMasterSeeds p" "request_count c \<le> maxCountPerRequest p"
    and "q = fold addMasterSeed (s # ss @ [s]) p"
    and "cryptoRandIndex (int (length (masterSeeds q))) ds = Some (Inr (int (length (masterSeeds p))), ds1)"
    and "cryptoRandIndex (int (length (masterSeeds q))) ds1 = Some (Inr (int (length (masterSeeds p) + length ss) + 1), ds2)"
  shows "\<exists>vs q1 q2. GetSeeds c ds q = Some (Inr vs, q1, ds1) \<and> GetSeeds c ds1 q1 = Some (Inr vs, q2, ds2)
    \<and> length vs = nat (request_count c)"
proof -
  have pool: "masterSeeds q = masterSeeds p @ map (\<lambda>s. \<lparr>Seed = s, Offset = 0\<rparr>) (s # ss @ [s])"
    using addMasterSeed_fold [OF assms(1), of "s # ss @ [s]"] assms(3,4,6) by (simp del: fold_simps)
  note kept = addMasterSeed_fold_other [of "s # ss @ [s]" p, folded assms(6)]
  have inv: "plugin_inv q" "maxMasterSeeds q < 2 ^ 32" "request_count c \<le> maxCountPerRequest q" using assms kept by auto
  have "1 \<le> trngSize p" "trngSize p \<le> 1024" using assms(1) by (simp_all add: plugin_inv_def)
  then have "nat (request_count c) * nat (trngSize q) \<le> 2 ^ 32 * 1024"
    using request_count_bounds [of c] kept by (intro mult_le_mono) auto
  then have fits: "unat (Offset \<lparr>Seed = s, Offset = 0\<rparr>) + nat (request_count c) * nat (trngSize q) < 2 ^ 64" by simp
  show ?thesis
    by (rule equal_entries_repeat [OF inv assms(7,8) _ _ _ fits]) (simp_all add: pool nth_append nat_add_distrib)
qed

theorem duplicate_seed_repeats_values_witness:
  "\<exists>vs p1 p2. GetSeeds 2 (draw0 @ draw1) plugin2 = Some (Inr vs, p1, draw1) \<and> GetSeeds 2 draw1 p1 = Some (Inr vs, p2, []) \<and> length vs = 2"
proof -
  have q: "plugin2 = fold addMasterSeed (hex_encode block0 # [] @ [hex_encode block0]) (pluginOfConfig cfg0)"
    by (simp add: plugin2_def plugin0_def)
  have "cryptoRandIndex 2 (draw0 @ draw1) = Some (Inr 0, draw1)"
    by (simp add: cryptoRandIndex_def draw0_def le_u32_def rand_limit_def Let_def word_less_nat_alt unsigned_minus_1_eq_mask mask_eq_exp_minus_1)
  with duplicate_seed_repeats_values [OF pluginOfConfig_inv _ _ _ _ q, of 2 "draw0 @ draw1" draw1 "[]"] cryptoRandIndex_pool2(2)
  show ?thesis using seed_ok_block0 unfolding plugin2_simps by (simp add: pluginOfConfig_def cfg0_def request_count_2)
qed

text \<open>
  The overflow checks are exact: the flag says whether the mathematical product, or sum, fits in 64 bits, and
  when it does the word returned is that number.
\<close>

theorem checked_arith_exact:
  "(snd (mulUint64Checked a b) \<longleftrightarrow> unat a * unat b < 2 ^ 64)
   \<and> (snd (addUint64Checked a b) \<longleftrightarrow> unat a + unat b < 2 ^ 64)
   \<and> (unat a * unat b < 2 ^ 64 \<longrightarrow> unat (fst (mulUint64Checked a b)) = unat a * unat b)
   \<and> (unat a + unat b < 2 ^ 64 \<longrightarrow> unat (fst (addUint64Checked a b)) = unat a + unat b)"
  using mulUint64Checked_value addUint64Checked_value
  by (simp add: mulUint64Checked_ok_iff addUint64Checked_ok_iff)

theorem checked_arith_exact_witness:
  "unat (fst (mulUint64Checked 25000 1024)) = 25600000 \<and> \<not> snd (addUint64Checked (- 1) 1)"
  using checked_arith_exact [of 25000 1024] checked_arith_exact [of "- 1" 1]
  by (simp add: unsigned_minus_1_eq_mask mask_eq_exp_minus_1)

end
