(* ===== verification/KmsKeyStore.thy ===== *)
theory KmsKeyStore
  imports KmsTenancy
begin

text \<open>
  The key store of the KMS plugin (\<^verbatim>\<open>kms/key_store.go\<close>, \<^verbatim>\<open>kms/key_store_authorizer.go\<close>) and the construction of the
  plugin. The policy engine \<^verbatim>\<open>cedar-go\<close> is a parameter: its parser gives the policies of a document by id, its decision
  procedure the decision and the number of evaluation errors. Entities have no parents and no tags, and all attributes
  are strings, so an attribute record is a map from names to strings.
\<close>

section \<open>Policies\<close>

record entity_uid =
  uid_type :: string
  uid_id :: string

record cedar_request =
  Principal :: entity_uid
  Action :: entity_uid
  Resource :: entity_uid
  Context :: "string \<Rightarrow> string option"

datatype decision = Allow | Deny

type_synonym attributes = "string \<Rightarrow> string option"
type_synonym 'pol policy_set = "string \<Rightarrow> 'pol option"
type_synonym 'pol cedar_parse = "string \<Rightarrow> string \<Rightarrow> (string \<times> 'pol) list option"
type_synonym 'pol cedar_authorize =
  "'pol policy_set \<Rightarrow> (entity_uid \<Rightarrow> attributes option) \<Rightarrow> cedar_request \<Rightarrow> decision \<times> nat"

record 'pol keyStoreAuthorizer =
  policies :: "'pol policy_set option"

datatype plugin_error = ProxyURLRequired | PolicyRead | PolicyParse string

abbreviation "keyStorePrincipalType \<equiv> ''KmsClient''"
abbreviation "keyStoreKeyType \<equiv> ''KeyStoreKey''"
abbreviation "keyStoreNamespaceType \<equiv> ''KeyStoreNamespace''"
abbreviation "keyStoreActionType \<equiv> ''Action''"
abbreviation "keyStoreActionPut \<equiv> ''kms_keystore.Put''"
abbreviation "keyStoreActionGet \<equiv> ''kms_keystore.Get''"
abbreviation "keyStoreActionList \<equiv> ''kms_keystore.List''"
abbreviation "keyStoreActionDelete \<equiv> ''kms_keystore.Delete''"

definition addPolicyDocument ::
    "'pol cedar_parse \<Rightarrow> 'pol policy_set \<Rightarrow> string \<Rightarrow> string \<Rightarrow> plugin_error + 'pol policy_set" where
  "addPolicyDocument parse target fileName document =
     (case parse fileName document of
        None \<Rightarrow> Inl (PolicyParse fileName)
      | Some ps \<Rightarrow> Inr (foldl (\<lambda>t (policyID, policy). t(fileName @ '':'' @ policyID \<mapsto> policy)) target ps))"

text \<open>\<open>readFile\<close> is \<^verbatim>\<open>os.ReadFile\<close>.\<close>

definition newKeyStoreAuthorizer ::
    "'pol cedar_parse \<Rightarrow> (string \<Rightarrow> string option) \<Rightarrow> kmsConfig \<Rightarrow> plugin_error + 'pol keyStoreAuthorizer" where
  "newKeyStoreAuthorizer parse readFile cfg =
     (if KeyStoreCedarPolicyPath cfg \<noteq> [] then
        (case readFile (KeyStoreCedarPolicyPath cfg) of
           None \<Rightarrow> Inl PolicyRead
         | Some document \<Rightarrow>
             rbind (addPolicyDocument parse Map.empty (KeyStoreCedarPolicyPath cfg) document) (\<lambda>ps.
               Inr \<lparr>policies = Some ps\<rparr>))
      else Inr \<lparr>policies = Some Map.empty\<rparr>)"

definition keyStoreResourceID :: "string \<Rightarrow> string \<Rightarrow> string \<Rightarrow> string" where
  "keyStoreResourceID owner name pre =
     (if name \<noteq> [] then ''owners/'' @ owner @ ''/'' @ name
      else if pre \<noteq> [] then ''owners/'' @ owner @ ''/'' @ pre
      else ''owners/'' @ owner)"

text \<open>What the policy engine is asked: the entities with their attributes, and the request.\<close>

definition policy_question ::
    "string \<Rightarrow> string \<Rightarrow> string \<Rightarrow> string \<Rightarrow> string \<Rightarrow> (entity_uid \<Rightarrow> attributes option) \<times> cedar_request" where
  "policy_question clientID action resourceType name pre =
     (let owner = tenantNamespace clientID;
          principalUID = \<lparr>uid_type = keyStorePrincipalType, uid_id = owner\<rparr>;
          resourceUID = \<lparr>uid_type = resourceType, uid_id = keyStoreResourceID owner name pre\<rparr>;
          principalAttrs = [''owner'' \<mapsto> owner, ''client_id'' \<mapsto> clientID];
          nameAttrs = (\<lambda>m. let m1 = (if name \<noteq> [] then m(''name'' \<mapsto> name) else m)
                           in if pre \<noteq> [] then m1(''prefix'' \<mapsto> pre) else m1);
          resourceAttrs = nameAttrs [''owner'' \<mapsto> owner];
          entities = [principalUID \<mapsto> principalAttrs, resourceUID \<mapsto> resourceAttrs];
          context = nameAttrs [''client_id'' \<mapsto> clientID, ''owner'' \<mapsto> owner]
      in (entities,
          \<lparr>Principal = principalUID, Action = \<lparr>uid_type = keyStoreActionType, uid_id = action\<rparr>,
           Resource = resourceUID, Context = context\<rparr>))"

definition authorize ::
    "'pol cedar_authorize \<Rightarrow> 'pol keyStoreAuthorizer option \<Rightarrow> string \<Rightarrow> string \<Rightarrow> string \<Rightarrow> string \<Rightarrow> string
     \<Rightarrow> ('w, status, unit) act" where
  "authorize cedar a clientID action resourceType name pre =
     (case (case a of None \<Rightarrow> None | Some auth \<Rightarrow> policies auth) of
        None \<Rightarrow> fail (PermissionDenied, StoreErr DeniedByPolicy)
      | Some ps \<Rightarrow>
          let (entities, request) = policy_question clientID action resourceType name pre;
              (decision, errors) = cedar ps entities request
          in if 0 < errors then fail (PermissionDenied, StoreErr DeniedByPolicy)
             else if decision \<noteq> Allow then fail (PermissionDenied, StoreErr DeniedByPolicy)
             else ret ())"

section \<open>The plugin\<close>

text \<open>The plugin's fields that the key handlers use, and the authorizer.\<close>

record 'pol keyStorePlugin = kmsPlugin +
  kp_authorizer :: "'pol keyStoreAuthorizer option"

definition newPluginWithConfig ::
    "'pol cedar_parse \<Rightarrow> (string \<Rightarrow> string option) \<Rightarrow> kmsConfig option \<Rightarrow> openBaoClient \<Rightarrow> plugin_error + 'pol keyStorePlugin" where
  "newPluginWithConfig parse readFile cfg0 client =
     (let cfg = withKMSConfigDefaults cfg0
      in rbind (newKeyStoreAuthorizer parse readFile cfg) (\<lambda>authorizer.
           Inr (kmsPlugin.extend (newKmsPlugin client) \<lparr>kp_authorizer = Some authorizer\<rparr>)))"

text \<open>\<open>urlPath\<close> is what \<^verbatim>\<open>url.Parse\<close> makes of the configured URL; the configuration is the one read from the environment.\<close>

definition NewKmsPlugin ::
    "'pol cedar_parse \<Rightarrow> (string \<Rightarrow> string option) \<Rightarrow> (string \<Rightarrow> string option) \<Rightarrow> kmsConfig \<Rightarrow> plugin_error + 'pol keyStorePlugin" where
  "NewKmsPlugin parse readFile urlPath env =
     (let cfg = withKMSConfigDefaults (Some env)
      in if OpenBaoProxyURL cfg = [] then Inl ProxyURLRequired
         else newPluginWithConfig parse readFile (Some cfg) (newOpenBaoClient (Some cfg) (urlPath (OpenBaoProxyURL cfg))))"

section \<open>Secrets\<close>

text \<open>\<^verbatim>\<open>json.Valid\<close>.\<close>

definition json_valid :: "string \<Rightarrow> bool" where
  "json_valid s \<longleftrightarrow> json_parse s \<noteq> None"

definition isKeyStoreJSONObject :: "string \<Rightarrow> bool" where
  "isKeyStoreJSONObject value =
     (let trimmed = TrimSpace value in trimmed \<noteq> [] \<and> hd trimmed = CHR ''{'' \<and> json_valid trimmed)"

text \<open>
  The first value of the input without the white space before it; a second value, or anything but white space, is
  refused.
\<close>

definition decodeKeyStoreSecretJSON :: "string \<Rightarrow> store_error + string" where
  "decodeKeyStoreSecretJSON value =
     (case json_decode value of
        None \<Rightarrow> Inl SecretNotObject
      | Some (_, rest) \<Rightarrow>
          let start = skip_ws value; secret = take (length start - length rest) start
          in if \<not> isKeyStoreJSONObject secret then Inl SecretNotObject
             else if skip_ws rest \<noteq> [] then Inl SecretTrailing
             else Inr secret)"

definition keyStoreRecordSecretJSON :: "keyStoreRecord \<Rightarrow> string \<times> bool" where
  "keyStoreRecordSecretJSON record =
     (if TrimSpace (kSecretJSON record) \<noteq> [] then (kSecretJSON record, isKeyStoreJSONObject (kSecretJSON record))
      else ([], False))"

definition encodeKeyStoreSecretJSON :: "keyStoreRecord \<Rightarrow> store_error + string" where
  "encodeKeyStoreSecretJSON record =
     (let (secretJSON, ok) = keyStoreRecordSecretJSON record
      in if ok then Inr secretJSON else Inl StoredSecretInvalid)"

definition isValidKeyStoreRecord :: "keyStoreRecord \<Rightarrow> string \<Rightarrow> string \<Rightarrow> bool" where
  "isValidKeyStoreRecord record clientID name \<longleftrightarrow>
     kOwner record = tenantNamespace clientID \<and> kName record = name \<and> snd (keyStoreRecordSecretJSON record)"

section \<open>Handlers\<close>

record KeyStorePutRequest =
  kp_ClientId :: string
  kp_Name :: string
  kp_SecretJson :: string

record KeyStorePutResponse =
  kpr_Name :: string
  kpr_Version :: u32

record KeyStoreGetRequest =
  kg_ClientId :: string
  kg_Name :: string

record KeyStoreGetResponse =
  kgr_Name :: string
  kgr_SecretJson :: string

record KeyStoreListRequest =
  kl_ClientId :: string
  kl_Prefix :: "string option"

record KeyStoreDeleteRequest =
  kd_ClientId :: string
  kd_Name :: string

definition keyStoreBackendStatus :: "client_error \<Rightarrow> status" where
  "keyStoreBackendStatus e = (Internal, StoreErr KeyStoreBackend)"

definition keyStoreNotFoundOrBackendStatus :: "client_error \<Rightarrow> status" where
  "keyStoreNotFoundOrBackendStatus e =
     (if isOpenBaoStatus e 404 then (NotFound, StoreErr EntryNotFound) else keyStoreBackendStatus e)"

definition invalid_name :: "key_name_error + 'a \<Rightarrow> ('w, status, 'a) act" where
  "invalid_name r = check (rmap_err (\<lambda>e. (InvalidArgument, KeyNameErr e)) r)"

definition KeyStorePut ::
    "'w server \<Rightarrow> 'pol cedar_authorize \<Rightarrow> 'pol keyStorePlugin \<Rightarrow> string \<Rightarrow> KeyStorePutRequest
     \<Rightarrow> ('w, status, KeyStorePutResponse) act" where
  "KeyStorePut srv cedar p now req =
     andThen (requireClientID (kp_ClientId req)) (\<lambda>_.
     andThen (invalid_name (normalizeKeyStoreName (kp_Name req))) (\<lambda>name.
     andThen (check (rmap_err (\<lambda>e. (InvalidArgument, StoreErr e)) (decodeKeyStoreSecretJSON (kp_SecretJson req)))) (\<lambda>secret.
     andThen (authorize cedar (kp_authorizer p) (kp_ClientId req) keyStoreActionPut keyStoreKeyType name []) (\<lambda>_.
     andThen (wrapErr keyStoreBackendStatus (putKeyStoreSecret srv (kp_client p) (kp_ClientId req) name secret now)) (\<lambda>version.
       ret \<lparr>kpr_Name = name, kpr_Version = version\<rparr>)))))"

definition KeyStoreGet ::
    "'w server \<Rightarrow> 'pol cedar_authorize \<Rightarrow> 'pol keyStorePlugin \<Rightarrow> KeyStoreGetRequest
     \<Rightarrow> ('w, status, KeyStoreGetResponse) act" where
  "KeyStoreGet srv cedar p req =
     andThen (requireClientID (kg_ClientId req)) (\<lambda>_.
     andThen (invalid_name (normalizeKeyStoreName (kg_Name req))) (\<lambda>name.
     andThen (authorize cedar (kp_authorizer p) (kg_ClientId req) keyStoreActionGet keyStoreKeyType name []) (\<lambda>_.
     andThen (wrapErr keyStoreNotFoundOrBackendStatus (getKeyStoreSecret srv (kp_client p) (kg_ClientId req) name)) (\<lambda>record.
     andThen (require (isValidKeyStoreRecord record (kg_ClientId req) name) (PermissionDenied, StoreErr EntryNotOwned)) (\<lambda>_.
     andThen (check (rmap_err (\<lambda>e. (Internal, StoreErr e)) (encodeKeyStoreSecretJSON record))) (\<lambda>secretJSON.
       ret \<lparr>kgr_Name = name, kgr_SecretJson = secretJSON\<rparr>))))))"

definition KeyStoreList ::
    "'w server \<Rightarrow> 'pol cedar_authorize \<Rightarrow> 'pol keyStorePlugin \<Rightarrow> KeyStoreListRequest \<Rightarrow> ('w, status, string list) act" where
  "KeyStoreList srv cedar p req =
     andThen (requireClientID (kl_ClientId req)) (\<lambda>_.
     andThen (invalid_name (normalizeKeyStorePrefix (optionalString (kl_Prefix req)))) (\<lambda>pre.
     andThen (authorize cedar (kp_authorizer p) (kl_ClientId req) keyStoreActionList keyStoreNamespaceType [] pre) (\<lambda>_.
     attempt (listKeyStoreSecrets srv (kp_client p) (kl_ClientId req) pre) (\<lambda>r.
       case r of
         Inl e \<Rightarrow> if isOpenBaoStatus e 404 then ret [] else fail (keyStoreBackendStatus e)
       | Inr names \<Rightarrow> ret names))))"

definition KeyStoreDelete ::
    "'w server \<Rightarrow> 'pol cedar_authorize \<Rightarrow> 'pol keyStorePlugin \<Rightarrow> KeyStoreDeleteRequest \<Rightarrow> ('w, status, string) act" where
  "KeyStoreDelete srv cedar p req =
     andThen (requireClientID (kd_ClientId req)) (\<lambda>_.
     andThen (invalid_name (normalizeKeyStoreName (kd_Name req))) (\<lambda>name.
     andThen (authorize cedar (kp_authorizer p) (kd_ClientId req) keyStoreActionDelete keyStoreKeyType name []) (\<lambda>_.
     andThen (wrapErr keyStoreNotFoundOrBackendStatus (ensureKeyStoreSecretExists srv (kp_client p) (kd_ClientId req) name)) (\<lambda>_.
     andThen (wrapErr keyStoreBackendStatus (deleteKeyStoreSecret srv (kp_client p) (kd_ClientId req) name)) (\<lambda>_.
       ret name)))))"

section \<open>Specification\<close>

text \<open>
  What the key store promises: a map from tenants and names to versioned secrets.
\<close>

type_synonym secret_map = "string \<times> string \<Rightarrow> (u32 \<times> string) option"

definition next_version :: "(u32 \<times> 'a) option \<Rightarrow> u32" where
  "next_version d = (case d of None \<Rightarrow> 1 | Some (v, _) \<Rightarrow> v + 1)"

definition spec_put :: "secret_map \<Rightarrow> string \<Rightarrow> string \<Rightarrow> string \<Rightarrow> secret_map" where
  "spec_put A owner name secret = A((owner, name) \<mapsto> (next_version (A (owner, name)), secret))"

text \<open>
  The versioned key-value engine behind the mount: documents by the path below \<^verbatim>\<open>data/\<close>; deleting the metadata of a
  path deletes the document. Listing is left out. It is a model of the documented behaviour, an instance of the server that
  the definitions take as an argument: a document is answered as it was posted, without what the engine adds to it and the
  plugin does not read, versions are counted in the 32 bits in which the plugin reads them, and no request fails in transport.
\<close>

definition doc_of :: "openBaoClient \<Rightarrow> string \<Rightarrow> string \<Rightarrow> string option" where
  "doc_of c kind path =
     (case baseURL c of
        None \<Rightarrow> None
      | Some b \<Rightarrow>
          let f = path_front b [''v1'', keyStoreMount c, kind] @ ''/''
          in if prefix f path then Some (drop (length f) path) else None)"

definition version_doc :: "u32 \<Rightarrow> string" where
  "version_doc v = json_print (JObj [(''data'', JObj [(''version'', JNum (Itoa (uint v)))])])"

definition secret_server :: "openBaoClient \<Rightarrow> (string \<Rightarrow> (u32 \<times> string) option) server" where
  "secret_server c docs r =
     (case doc_of c ''data'' (req_path r) of
        Some k \<Rightarrow>
          (case req_method r of
             GET \<Rightarrow>
               (case docs k of
                  None \<Rightarrow> (Response 404 ''404 Not Found'' ''{}'', docs)
                | Some (_, body) \<Rightarrow> (Response 200 ''200 OK'' (data_doc body), docs))
           | POST \<Rightarrow>
               (Response 200 ''200 OK'' (version_doc (next_version (docs k))),
                docs(k \<mapsto> (next_version (docs k), req_body r)))
           | _ \<Rightarrow> (Response 405 ''405 Method Not Allowed'' ''{}'', docs))
      | None \<Rightarrow>
          (case doc_of c ''metadata'' (req_path r) of
             Some k \<Rightarrow>
               (case req_method r of
                  GET \<Rightarrow>
                    (case docs k of
                       None \<Rightarrow> (Response 404 ''404 Not Found'' ''{}'', docs)
                     | Some _ \<Rightarrow> (Response 200 ''200 OK'' ''{}'', docs))
                | DELETE \<Rightarrow> (Response 204 ''204 No Content'' [], docs(k := None))
                | _ \<Rightarrow> (Response 405 ''405 Method Not Allowed'' ''{}'', docs))
           | None \<Rightarrow> (Response 404 ''404 Not Found'' ''{}'', docs)))"

definition entry :: "string \<Rightarrow> string \<Rightarrow> string" where
  "entry cl name = ''owners/'' @ tenantNamespace cl @ ''/'' @ name"

definition stored_secret :: "string \<Rightarrow> string \<Rightarrow> string \<Rightarrow> string \<Rightarrow> string" where
  "stored_secret cl name secret ts =
     json_print (JObj [(''data'', keystore_json \<lparr>kName = name, kOwner = tenantNamespace cl, kSecretJSON = secret, kUpdatedAt = ts\<rparr>)])"

definition entry_rel :: "string \<Rightarrow> string \<Rightarrow> (u32 \<times> string) option \<Rightarrow> (u32 \<times> string) option \<Rightarrow> bool" where
  "entry_rel cl n x d \<longleftrightarrow>
     (case x of
        None \<Rightarrow> d = None
      | Some (v, secret) \<Rightarrow>
          valid_utf8 secret \<and> isKeyStoreJSONObject secret
          \<and> (\<exists>ts. valid_utf8 ts \<and> d = Some (v, stored_secret cl n secret ts)))"

definition store_rel :: "secret_map \<Rightarrow> (string \<Rightarrow> (u32 \<times> string) option) \<Rightarrow> bool" where
  "store_rel A docs \<longleftrightarrow>
     (\<forall>cl n. normalizeKeyStoreName n = Inr n \<longrightarrow> entry_rel cl n (A (tenantNamespace cl, n)) (docs (entry cl n)))"

text \<open>The calls that read and write one entry, with what they answer, in the implementation and in the specification.\<close>

datatype store_call = PutCall (call_secret: string) (call_time: string) | GetCall | DeleteCall

datatype store_answer = Stored string u32 | Secret string string | Deleted string

fun store_handle ::
    "'w server \<Rightarrow> 'pol cedar_authorize \<Rightarrow> 'pol keyStorePlugin \<Rightarrow> string \<times> string \<times> store_call \<Rightarrow> ('w, status, store_answer) act" where
  "store_handle srv cedar p (cl, v, PutCall secret now) =
     andThen (KeyStorePut srv cedar p now \<lparr>kp_ClientId = cl, kp_Name = v, kp_SecretJson = secret\<rparr>)
       (\<lambda>r. ret (Stored (kpr_Name r) (kpr_Version r)))"
| "store_handle srv cedar p (cl, v, GetCall) =
     andThen (KeyStoreGet srv cedar p \<lparr>kg_ClientId = cl, kg_Name = v\<rparr>) (\<lambda>r. ret (Secret (kgr_Name r) (kgr_SecretJson r)))"
| "store_handle srv cedar p (cl, v, DeleteCall) =
     andThen (KeyStoreDelete srv cedar p \<lparr>kd_ClientId = cl, kd_Name = v\<rparr>) (\<lambda>n. ret (Deleted n))"

definition permitted :: "'pol cedar_authorize \<Rightarrow> 'pol keyStoreAuthorizer option \<Rightarrow> string \<Rightarrow> string \<Rightarrow> string \<Rightarrow> bool" where
  "permitted cedar a cl action n \<longleftrightarrow> authorize cedar a cl action keyStoreKeyType n [] () = (Ok (), ())"

fun call_action :: "store_call \<Rightarrow> string" where
  "call_action (PutCall _ _) = keyStoreActionPut"
| "call_action GetCall = keyStoreActionGet"
| "call_action DeleteCall = keyStoreActionDelete"

fun spec_call :: "string \<times> string \<Rightarrow> store_call \<Rightarrow> secret_map \<Rightarrow> (status, store_answer) res \<times> secret_map" where
  "spec_call (owner, n) (PutCall value _) A =
     (case decodeKeyStoreSecretJSON value of
        Inl e \<Rightarrow> (Err (InvalidArgument, StoreErr e), A)
      | Inr secret \<Rightarrow> (Ok (Stored n (next_version (A (owner, n)))), spec_put A owner n secret))"
| "spec_call (owner, n) GetCall A =
     (case A (owner, n) of
        None \<Rightarrow> (Err (NotFound, StoreErr EntryNotFound), A)
      | Some (_, secret) \<Rightarrow> (Ok (Secret n secret), A))"
| "spec_call (owner, n) DeleteCall A =
     (case A (owner, n) of
        None \<Rightarrow> (Err (NotFound, StoreErr EntryNotFound), A)
      | Some _ \<Rightarrow> (Ok (Deleted n), A((owner, n) := None)))"

fun malformed :: "store_call \<Rightarrow> bool" where
  "malformed (PutCall value _) \<longleftrightarrow> (\<exists>e. decodeKeyStoreSecretJSON value = Inl e)"
| "malformed _ \<longleftrightarrow> False"

definition spec_handle ::
    "(string \<Rightarrow> string \<Rightarrow> string \<Rightarrow> bool) \<Rightarrow> string \<times> string \<times> store_call \<Rightarrow> secret_map
     \<Rightarrow> (status, store_answer) res \<times> secret_map" where
  "spec_handle permits = (\<lambda>(cl, v, call) A.
     if TrimSpace cl = [] then (Err (InvalidArgument, RequestErr ClientIDRequired), A)
     else case normalizeKeyStoreName v of
       Inl e \<Rightarrow> (Err (InvalidArgument, KeyNameErr e), A)
     | Inr n \<Rightarrow>
         if \<not> malformed call \<and> \<not> permits cl (call_action call) n then (Err (PermissionDenied, StoreErr DeniedByPolicy), A)
         else spec_call (tenantNamespace cl, n) call A)"

definition store_config :: "openBaoClient \<Rightarrow> bool" where
  "store_config c \<longleftrightarrow> baseURL c \<noteq> None \<and> plain_seg (keyStoreMount c)"

fun call_utf8 :: "string \<times> string \<times> store_call \<Rightarrow> bool" where
  "call_utf8 (cl, v, PutCall secret now) \<longleftrightarrow> valid_utf8 secret \<and> valid_utf8 now"
| "call_utf8 _ \<longleftrightarrow> True"

section \<open>Lemmas\<close>

lemma SplitChar_chars: "x \<in> set n \<Longrightarrow> x = c \<or> (\<exists>s \<in> set (SplitChar c n). x \<in> set s)"
proof (induction n)
  case (Cons a n)
  obtain y ys where "SplitChar c n = y # ys" by (cases "SplitChar c n") auto
  with Cons show ?case by auto
qed simp

lemma normalized_name: "normalizeKeyStoreName v = Inr n \<Longrightarrow> normalizeKeyStoreName n = Inr n"
proof -
  assume n: "normalizeKeyStoreName v = Inr n"
  have "(of_char x :: nat) < 128 \<and> 33 \<le> (of_char x :: nat)" if "x \<in> set n" for x
  proof -
    have "x = CHR ''/'' \<or> (\<exists>s \<in> set (SplitChar (CHR ''/'') n). x \<in> set s)" using that by (rule SplitChar_chars)
    then have "x = CHR ''/'' \<or> segment_char x"
      using n by (auto simp: normalizeKeyStoreName_Inr_iff segment_ok_iff list_all_iff)
    then show ?thesis using is_alnum_range [of x] by (auto simp: segment_char_def)
  qed
  then have "TrimSpace n = n" by (intro TrimSpace_space_free ascii_graph_space_free) (auto simp: list_all_iff)
  then show ?thesis using n by (auto simp: normalizeKeyStoreName_Inr_iff)
qed

lemma entry_inj: "entry cl n = entry cl' n' \<longleftrightarrow> tenantNamespace cl = tenantNamespace cl' \<and> n = n'"
  by (auto simp: entry_def append_eq_append_conv)

lemma doc_of_entry:
  assumes "baseURL c = Some b" "plain_seg (keyStoreMount c)" "normalizeKeyStoreName n = Inr n"
  shows "\<exists>t. keyStoreDataPath c cl n = Inr (Some t) \<and> doc_of c ''data'' t = Some (entry cl n)"
    and "\<exists>t. keyStoreMetadataPath c cl n = Inr (Some t) \<and> doc_of c ''data'' t = None \<and> doc_of c ''metadata'' t = Some (entry cl n)"
proof -
  note paths = keyStore_paths_of_name [OF assms(3,1), of cl]
  have front: "path_front b [''v1'', keyStoreMount c, d] = path_front b [''v1''] @ ''/'' @ keyStoreMount c @ ''/'' @ d"
    if "plain_seg d" for d using path_front_v1_seg [OF assms(2) that] .
  show "\<exists>t. keyStoreDataPath c cl n = Inr (Some t) \<and> doc_of c ''data'' t = Some (entry cl n)"
    using paths(1) by (simp add: doc_of_def assms(1) entry_def)
  have "\<not> prefix (path_front b [''v1'', keyStoreMount c, ''data''] @ ''/'')
      (path_front b [''v1'', keyStoreMount c, ''metadata''] @ ''/owners/'' @ tenantNamespace cl @ ''/'' @ n)"
    using front [of "''data''"] front [of "''metadata''"] by (simp add: plain_seg_def)
  then show "\<exists>t. keyStoreMetadataPath c cl n = Inr (Some t) \<and> doc_of c ''data'' t = None \<and> doc_of c ''metadata'' t = Some (entry cl n)"
    using paths(2) by (simp add: doc_of_def assms(1) entry_def)
qed


subsection \<open>The stored record round trips\<close>

definition secret_doc :: "keyStoreRecord \<Rightarrow> json" where
  "secret_doc r = JObj [(''data'', JObj [(''data'', keystore_json r)])]"

definition record_utf8 :: "keyStoreRecord \<Rightarrow> bool" where
  "record_utf8 r \<longleftrightarrow> list_all valid_utf8 [kName r, kOwner r, kSecretJSON r, kUpdatedAt r]"

lemma keystore_field_names:
  "keystore_field ''name'' = dec_field kName kName_update dec_string"
  "keystore_field ''owner'' = dec_field kOwner kOwner_update dec_string"
  "keystore_field ''secret_json'' = dec_field kSecretJSON kSecretJSON_update dec_string"
  "keystore_field ''updated_at'' = dec_field kUpdatedAt kUpdatedAt_update dec_string"
  by (simp_all add: keystore_field_def is_field_lower lower_char_def)

lemma dec_keystore_json: "dec_struct keystore_field (keystore_json r) keystore_zero = (True, r)"
  unfolding keystore_json_def append_Cons append_Nil
  by (simp add: dec_struct_step dec_struct_omitempty keystore_field_names keystore_zero_def)

lemma printable_secret_doc:
  assumes "record_utf8 r"
  shows "printable (secret_doc r)"
proof -
  have keys: "valid_utf8 ''name''" "valid_utf8 ''owner''" "valid_utf8 ''secret_json''" "valid_utf8 ''updated_at''" "valid_utf8 ''data''"
    by (rule ascii_valid, simp)+
  have "wf_json (keystore_json r)"
    unfolding keystore_json_def wf_JObj_append append_Cons append_Nil wf_JObj_Cons
    using keys assms unfolding record_utf8_def by (intro conjI omitempty_wf) (simp_all del: valid_utf8.simps)
  moreover have "json_depth (secret_doc r) \<le> Suc (Suc (Suc 0))"
    unfolding secret_doc_def depth_members by (auto simp: depth_members keystore_json_def omitempty_def split: if_splits)
  ultimately show ?thesis using keys by (simp add: printable_def secret_doc_def max_depth_def del: valid_utf8.simps)
qed

interpretation secret_record: codec_chain record_utf8 secret_doc
    "decode_with (dec_data (dec_data (dec_struct keystore_field))) keystore_zero" printable json_print json_parse
  by unfold_locales (simp add: decode_with_def secret_doc_def dec_keystore_json, rule printable_secret_doc)

lemma into_secret:
  "record_utf8 r \<Longrightarrow> into_data (dec_data (dec_struct keystore_field)) keystore_zero (json_print (secret_doc r)) = Some r"
  unfolding into_data_def json_unmarshal_bind by (rule secret_record.chain.dec_enc)

lemma into_version:
  "into_data (dec_single ''version'' dec_uint32) 0 (version_doc v) = Some v"
proof -
  define j where "j = JObj [(''data'', JObj [(''version'', JNum (Itoa (uint v)))])]"
  have "valid_utf8 ''data''" "valid_utf8 ''version''" by (rule ascii_valid, simp)+
  then have "printable j" by (auto simp: j_def printable_def max_depth_def simp del: valid_utf8.simps)
  then have parse: "json_parse (json_print j) = Some j" by (rule json.dec_enc)
  show ?thesis unfolding into_data_def json_unmarshal_def version_doc_def j_def [symmetric] parse option.case
    by (simp add: j_def dec_data_def dec_single_def dec_struct_step is_field_lower lower_char_def)
qed


subsection \<open>Cutting white space off UTF-8\<close>

lemma rune_bytes: "1 \<le> i \<Longrightarrow> i < rune_len s \<Longrightarrow> 128 \<le> (of_char (s ! i) :: nat)"
proof -
  assume i: "1 \<le> i" "i < rune_len s"
  obtain k lo hi where l: "lead_byte (of_char (s ! 0)) = (k, lo, hi)" by (cases "lead_byte (of_char (s ! 0))")
  with i have k: "rune_len s = k" "k \<le> length s" "byte_in lo hi (s ! 1)" "list_all cont_byte (drop 2 (take k s))"
    by (auto simp: rune_len_def split: if_splits)
  have "128 \<le> lo" using l i k(1) by (auto simp: lead_byte_def split: if_splits)
  show ?thesis
  proof (cases "i = 1")
    case True
    then show ?thesis using k(3) \<open>128 \<le> lo\<close> by (simp add: byte_in_def)
  next
    case False
    then have "Suc (Suc (i - 2)) = i" using i by simp
    then have "drop 2 (take k s) ! (i - 2) = s ! i" "i - 2 < length (drop 2 (take k s))" using i k by auto
    then have "cont_byte (s ! i)" using k(4) by (metis list_all_length)
    then show ?thesis by (simp add: cont_byte_def)
  qed
qed

lemma valid_utf8_cut: "valid_utf8 (a @ b) \<Longrightarrow> list_all is_ws b \<Longrightarrow> valid_utf8 a"
proof (induction a rule: valid_utf8.induct)
  case (2 c cs)
  let ?k = "rune_len (c # cs @ b)"
  have k: "?k \<noteq> 0" "valid_utf8 (drop (?k - 1) (cs @ b))" using "2.prems"(1) by (auto simp: Let_def)
  have le: "?k \<le> length (c # cs)"
  proof (rule ccontr)
    assume long: "\<not> ?k \<le> length (c # cs)"
    then have "b \<noteq> []" using rune_len_le [of "c # cs @ b"] by auto
    then have "is_ws (hd b)" using "2.prems"(2) by (cases b) auto
    moreover have "(c # cs @ b) ! length (c # cs) = hd b" using \<open>b \<noteq> []\<close> by (simp add: nth_append hd_conv_nth)
    moreover have "128 \<le> (of_char ((c # cs @ b) ! length (c # cs)) :: nat)" using long by (intro rune_bytes) simp_all
    ultimately show False by (auto simp: is_ws_def)
  qed
  then have "take ?k (c # cs) = take ?k ((c # cs) @ b)" unfolding take_append by simp
  then have cut: "rune_len (c # cs) = ?k" using rune_len_cong [OF refl k(1) _ le] by simp
  have "drop (?k - 1) (cs @ b) = drop (?k - 1) cs @ b" using le by simp
  then have "valid_utf8 (drop (?k - 1) cs @ b)" using k(2) by (simp only:)
  then have "valid_utf8 (drop (?k - 1) cs)" using "2.IH" [OF cut [symmetric]] "2.prems"(2) by blast
  then show ?case unfolding valid_utf8.simps Let_def cut using k(1) by simp
qed simp

lemma valid_utf8_skip_ws: "valid_utf8 s \<Longrightarrow> valid_utf8 (skip_ws s)"
proof (induction s)
  case (Cons c s)
  show ?case
  proof (cases "is_ws c")
    case True
    then have "(of_char c :: nat) < 128" by (auto simp: is_ws_def)
    then show ?thesis using True Cons by (simp add: rune_len_ascii)
  qed (use Cons in simp)
qed simp

lemma decodeKeyStoreSecretJSON_Inr:
  assumes "decodeKeyStoreSecretJSON v = Inr secret"
  shows "isKeyStoreJSONObject secret" "valid_utf8 v \<Longrightarrow> valid_utf8 secret" "\<exists>rest. skip_ws v = secret @ rest \<and> list_all is_ws rest"
proof -
  from assms obtain j rest where j: "json_decode v = Some (j, rest)" and obj: "isKeyStoreJSONObject secret"
    and rest: "skip_ws rest = []" and secret: "secret = take (length (skip_ws v) - length rest) (skip_ws v)"
    by (auto simp: decodeKeyStoreSecretJSON_def Let_def split: option.splits if_splits)
  show "isKeyStoreJSONObject secret" by (rule obj)
  have "suffix rest (skip_ws v)" using parse_suffix(1) j unfolding json_decode_def by blast
  then have split: "skip_ws v = secret @ rest" unfolding secret by (auto simp: suffix_def)
  moreover have "list_all is_ws rest" using rest by (simp add: dropWhile_eq_Nil_conv list_all_iff)
  ultimately show "\<exists>rest. skip_ws v = secret @ rest \<and> list_all is_ws rest" by blast
  show "valid_utf8 v \<Longrightarrow> valid_utf8 secret"
    using valid_utf8_skip_ws [of v] valid_utf8_cut [of secret rest] split \<open>list_all is_ws rest\<close> by simp
qed


subsection \<open>The handlers simulate the specification\<close>

definition policy_allows ::
    "'pol cedar_authorize \<Rightarrow> 'pol keyStoreAuthorizer option \<Rightarrow> string \<Rightarrow> string \<Rightarrow> string \<Rightarrow> string \<Rightarrow> string \<Rightarrow> bool" where
  "policy_allows cedar a cl action rtype name pre \<longleftrightarrow>
     (\<exists>auth ps. a = Some auth \<and> policies auth = Some ps
        \<and> cedar ps (fst (policy_question cl action rtype name pre)) (snd (policy_question cl action rtype name pre)) = (Allow, 0))"

lemma authorize_iff:
  "authorize cedar a cl action rtype n pre =
     (if policy_allows cedar a cl action rtype n pre then ret () else fail (PermissionDenied, StoreErr DeniedByPolicy))"
proof (cases "case a of None \<Rightarrow> None | Some auth \<Rightarrow> policies auth")
  case (Some ps)
  then obtain auth where "a = Some auth" "policies auth = Some ps" by (cases a) auto
  then show ?thesis by (auto simp: authorize_def policy_allows_def Let_def split: prod.split)
qed (auto simp: authorize_def policy_allows_def split: option.splits)

lemma authorize_permitted:
  "authorize cedar a cl action keyStoreKeyType n [] =
     (if permitted cedar a cl action n then ret () else fail (PermissionDenied, StoreErr DeniedByPolicy))"
  by (simp add: permitted_def authorize_iff)

lemma name_utf8: "normalizeKeyStoreName v = Inr n \<Longrightarrow> valid_utf8 n"
proof (rule ascii_valid)
  assume n: "normalizeKeyStoreName v = Inr n"
  have "(of_char x :: nat) < 128" if "x \<in> set n" for x
  proof -
    have "x = CHR ''/'' \<or> (\<exists>s \<in> set (SplitChar (CHR ''/'') n). x \<in> set s)" using that by (rule SplitChar_chars)
    then have "x = CHR ''/'' \<or> segment_char x"
      using n by (auto simp: normalizeKeyStoreName_Inr_iff segment_ok_iff list_all_iff)
    then show ?thesis using is_alnum_range [of x] by (auto simp: segment_char_def)
  qed
  then show "list_all (\<lambda>c. (of_char c :: nat) < 128) n" by (simp add: list_all_iff)
qed

lemma tenantNamespace_utf8: "valid_utf8 (tenantNamespace cl)"
proof (rule ascii_valid)
  have "(of_char x :: nat) < 128" if "x \<in> set (tenantNamespace cl)" for x
    using tenantNamespace_chars [OF that] is_alnum_range [of x] by auto
  then show "list_all (\<lambda>c. (of_char c :: nat) < 128) (tenantNamespace cl)" by (simp add: list_all_iff)
qed

lemma stored_secret_doc:
  "data_doc (stored_secret cl n secret ts)
     = json_print (secret_doc \<lparr>kName = n, kOwner = tenantNamespace cl, kSecretJSON = secret, kUpdatedAt = ts\<rparr>)"
  by (simp add: data_doc_def stored_secret_def secret_doc_def)

lemma entry_rel_None [simp]: "entry_rel cl n None d \<longleftrightarrow> d = None"
  by (simp add: entry_rel_def)

lemma entry_rel_Some [simp]:
  "entry_rel cl n (Some (v, secret)) d \<longleftrightarrow>
     valid_utf8 secret \<and> isKeyStoreJSONObject secret \<and> (\<exists>ts. valid_utf8 ts \<and> d = Some (v, stored_secret cl n secret ts))"
  by (simp add: entry_rel_def)

lemma store_relD: "store_rel A docs \<Longrightarrow> normalizeKeyStoreName n = Inr n \<Longrightarrow> entry_rel cl n (A (tenantNamespace cl, n)) (docs (entry cl n))"
  by (simp add: store_rel_def)

lemma entry_rel_next: "entry_rel cl n x d \<Longrightarrow> next_version d = next_version x"
  by (cases x) (auto simp: next_version_def)

lemma store_rel_upd:
  assumes "store_rel A docs" "entry_rel cl n x d"
  shows "store_rel (A((tenantNamespace cl, n) := x)) (docs(entry cl n := d))"
  unfolding store_rel_def
proof (intro allI impI)
  fix cl' n' assume n': "normalizeKeyStoreName n' = Inr n'"
  show "entry_rel cl' n' ((A((tenantNamespace cl, n) := x)) (tenantNamespace cl', n')) ((docs(entry cl n := d)) (entry cl' n'))"
  proof (cases "entry cl n = entry cl' n'")
    case True
    then have eq: "tenantNamespace cl = tenantNamespace cl'" "n = n'" by (simp_all add: entry_inj)
    then have "stored_secret cl' n' = stored_secret cl n" by (simp add: stored_secret_def fun_eq_iff)
    then have "entry_rel cl' n' x d \<longleftrightarrow> entry_rel cl n x d" unfolding entry_rel_def by (simp only:)
    then show ?thesis using assms(2) True eq by simp
  next
    case False
    then have "(tenantNamespace cl', n') \<noteq> (tenantNamespace cl, n)" by (auto simp: entry_inj)
    then show ?thesis using store_relD [OF assms(1) n'] False by auto
  qed
qed

lemma put_simulates:
  assumes "store_config c" "store_rel A docs" "normalizeKeyStoreName n = Inr n"
    and "isKeyStoreJSONObject secret" "valid_utf8 secret" "valid_utf8 now"
  shows "\<exists>docs'. putKeyStoreSecret (secret_server c) c cl n secret now docs = (Ok (next_version (A (tenantNamespace cl, n))), docs')
    \<and> store_rel (spec_put A (tenantNamespace cl) n secret) docs'"
proof -
  obtain b where b: "baseURL c = Some b" "plain_seg (keyStoreMount c)" using assms(1) by (auto simp: store_config_def)
  obtain t where t: "keyStoreDataPath c cl n = Inr (Some t)" "doc_of c ''data'' t = Some (entry cl n)"
    using doc_of_entry(1) [OF b assms(3)] by blast
  let ?d = "Some (next_version (A (tenantNamespace cl, n)), stored_secret cl n secret now)"
  have nv: "next_version (docs (entry cl n)) = next_version (A (tenantNamespace cl, n))"
    using entry_rel_next [OF store_relD [OF assms(2,3)]] .
  have "putKeyStoreSecret (secret_server c) c cl n secret now docs =
      (Ok (next_version (A (tenantNamespace cl, n))), docs(entry cl n := ?d))"
    unfolding putKeyStoreSecret_def Let_def keyStoreTarget_def t(1)
    by (simp add: rmap_err_def secret_server_def t(2) Post_def do_request_def into_version nv stored_secret_def
        wrapErr_def attempt_def)
  moreover have "store_rel (spec_put A (tenantNamespace cl) n secret) (docs(entry cl n := ?d))"
    unfolding spec_put_def using assms by (intro store_rel_upd) auto
  ultimately show ?thesis by blast
qed

lemma get_simulates:
  assumes "store_config c" "store_rel A docs" "normalizeKeyStoreName n = Inr n"
  shows "A (tenantNamespace cl, n) = None \<Longrightarrow>
      \<exists>b. getKeyStoreSecret (secret_server c) c cl n docs = (Err (Bao (StatusError 404 ''404 Not Found'' b)), docs)"
    and "A (tenantNamespace cl, n) = Some (v, secret) \<Longrightarrow>
      \<exists>ts. getKeyStoreSecret (secret_server c) c cl n docs =
        (Ok \<lparr>kName = n, kOwner = tenantNamespace cl, kSecretJSON = secret, kUpdatedAt = ts\<rparr>, docs)"
proof -
  obtain b where b: "baseURL c = Some b" "plain_seg (keyStoreMount c)" using assms(1) by (auto simp: store_config_def)
  obtain t where t: "keyStoreDataPath c cl n = Inr (Some t)" "doc_of c ''data'' t = Some (entry cl n)"
    using doc_of_entry(1) [OF b assms(3)] by blast
  note rel = store_relD [OF assms(2,3), of cl]
  note simps = getKeyStoreSecret_def keyStoreTarget_def t rmap_err_def secret_server_def Get_def do_request_def wrapErr_def attempt_def
  show "A (tenantNamespace cl, n) = None \<Longrightarrow>
      \<exists>b. getKeyStoreSecret (secret_server c) c cl n docs = (Err (Bao (StatusError 404 ''404 Not Found'' b)), docs)"
    using rel by (simp add: simps)
  assume "A (tenantNamespace cl, n) = Some (v, secret)"
  with rel obtain ts where ts: "valid_utf8 secret" "valid_utf8 ts" "docs (entry cl n) = Some (v, stored_secret cl n secret ts)"
    by auto
  have "record_utf8 \<lparr>kName = n, kOwner = tenantNamespace cl, kSecretJSON = secret, kUpdatedAt = ts\<rparr>"
    using ts name_utf8 [OF assms(3)] tenantNamespace_utf8 by (simp add: record_utf8_def del: valid_utf8.simps)
  from into_secret [OF this] show "\<exists>ts. getKeyStoreSecret (secret_server c) c cl n docs =
        (Ok \<lparr>kName = n, kOwner = tenantNamespace cl, kSecretJSON = secret, kUpdatedAt = ts\<rparr>, docs)"
    using ts(3) by (auto simp: simps stored_secret_doc)
qed

lemma delete_simulates:
  assumes "store_config c" "store_rel A docs" "normalizeKeyStoreName n = Inr n"
  shows "A (tenantNamespace cl, n) = None \<Longrightarrow>
      \<exists>b. ensureKeyStoreSecretExists (secret_server c) c cl n docs = (Err (Bao (StatusError 404 ''404 Not Found'' b)), docs)"
    and "A (tenantNamespace cl, n) = Some x \<Longrightarrow> ensureKeyStoreSecretExists (secret_server c) c cl n docs = (Ok (), docs)"
    and "\<exists>docs'. deleteKeyStoreSecret (secret_server c) c cl n docs = (Ok (), docs')
      \<and> store_rel (A((tenantNamespace cl, n) := None)) docs'"
proof -
  obtain b where b: "baseURL c = Some b" "plain_seg (keyStoreMount c)" using assms(1) by (auto simp: store_config_def)
  obtain t where t: "keyStoreMetadataPath c cl n = Inr (Some t)" "doc_of c ''data'' t = None" "doc_of c ''metadata'' t = Some (entry cl n)"
    using doc_of_entry(2) [OF b assms(3)] by blast
  note rel = store_relD [OF assms(2,3), of cl]
  note simps = ensureKeyStoreSecretExists_def deleteKeyStoreSecret_def keyStoreTarget_def t rmap_err_def secret_server_def
    Get_def Delete_def do_request_def wrapErr_def attempt_def into_nil_def
  show "A (tenantNamespace cl, n) = None \<Longrightarrow>
      \<exists>b. ensureKeyStoreSecretExists (secret_server c) c cl n docs = (Err (Bao (StatusError 404 ''404 Not Found'' b)), docs)"
    "A (tenantNamespace cl, n) = Some x \<Longrightarrow> ensureKeyStoreSecretExists (secret_server c) c cl n docs = (Ok (), docs)"
    using rel by (simp add: simps) (use rel in \<open>cases x, auto simp: simps\<close>)
  have "store_rel (A((tenantNamespace cl, n) := None)) (docs(entry cl n := None))" using assms(2) by (rule store_rel_upd) simp
  then show "\<exists>docs'. deleteKeyStoreSecret (secret_server c) c cl n docs = (Ok (), docs')
      \<and> store_rel (A((tenantNamespace cl, n) := None)) docs'" by (simp add: simps)
qed


lemma valid_record:
  "isKeyStoreJSONObject secret \<Longrightarrow>
   isValidKeyStoreRecord \<lparr>kName = n, kOwner = tenantNamespace cl, kSecretJSON = secret, kUpdatedAt = ts\<rparr> cl n
   \<and> encodeKeyStoreSecretJSON \<lparr>kName = n, kOwner = tenantNamespace cl, kSecretJSON = secret, kUpdatedAt = ts\<rparr> = Inr secret"
  by (auto simp: isValidKeyStoreRecord_def encodeKeyStoreSecretJSON_def keyStoreRecordSecretJSON_def isKeyStoreJSONObject_def Let_def)

lemma store_handle_simulates:
  assumes "store_config (kp_client p)" "store_rel A docs" "call_utf8 x"
  shows "fst (store_handle (secret_server (kp_client p)) cedar p x docs) = fst (spec_handle (permitted cedar (kp_authorizer p)) x A)
    \<and> store_rel (snd (spec_handle (permitted cedar (kp_authorizer p)) x A)) (snd (store_handle (secret_server (kp_client p)) cedar p x docs))"
proof -
  obtain cl v call where x: "x = (cl, v, call)" by (cases x)
  let ?c = "kp_client p"
  note simps = spec_handle_def requireClientID_def invalid_name_def authorize_permitted rmap_err_def andThen_def wrapErr_def attempt_def
    keyStoreNotFoundOrBackendStatus_def isOpenBaoStatus_def
  show ?thesis
  proof (cases "TrimSpace cl = []")
    case True
    then show ?thesis using assms(2) by (cases call) (simp_all add: x KeyStorePut_def KeyStoreGet_def KeyStoreDelete_def simps)
  next
    case False
    note cl = this
    show ?thesis
    proof (cases "normalizeKeyStoreName v")
      case (Inl e)
      with cl show ?thesis using assms(2) by (cases call) (simp_all add: x KeyStorePut_def KeyStoreGet_def KeyStoreDelete_def simps)
    next
      case (Inr n)
      note name = this and n = normalized_name [OF this]
      show ?thesis
      proof (cases call)
        case (PutCall raw now)
        note put = this
        show ?thesis
        proof (cases "decodeKeyStoreSecretJSON raw")
          case (Inl e)
          with put cl name show ?thesis using assms(2) by (simp add: x KeyStorePut_def simps)
        next
          case (Inr secret)
          have utf8: "valid_utf8 raw" "valid_utf8 now" using assms(3) by (simp_all add: x put)
          obtain docs' where "putKeyStoreSecret (secret_server ?c) ?c cl n secret now docs
              = (Ok (next_version (A (tenantNamespace cl, n))), docs')"
            "store_rel (spec_put A (tenantNamespace cl) n secret) docs'"
            using put_simulates [OF assms(1,2) n decodeKeyStoreSecretJSON_Inr(1) [OF Inr] _ utf8(2)]
              decodeKeyStoreSecretJSON_Inr(2) [OF Inr utf8(1)] by blast
          with put cl name Inr show ?thesis using assms(2) by (simp add: x KeyStorePut_def simps)
        qed
      next
        case GetCall
        note get = this
        show ?thesis
        proof (cases "A (tenantNamespace cl, n)")
          case None
          then obtain b where "getKeyStoreSecret (secret_server ?c) ?c cl n docs = (Err (Bao (StatusError 404 ''404 Not Found'' b)), docs)"
            using get_simulates(1) [OF assms(1,2) n] by blast
          with None get cl name show ?thesis using assms(2) by (simp add: x KeyStoreGet_def simps)
        next
          case (Some e)
          then obtain ver secret where e: "A (tenantNamespace cl, n) = Some (ver, secret)" by (cases e) auto
          then have obj: "isKeyStoreJSONObject secret" using store_relD [OF assms(2) n, of cl] by simp
          obtain ts where "getKeyStoreSecret (secret_server ?c) ?c cl n docs =
              (Ok \<lparr>kName = n, kOwner = tenantNamespace cl, kSecretJSON = secret, kUpdatedAt = ts\<rparr>, docs)"
            using get_simulates(2) [OF assms(1,2) n e] by blast
          with valid_record [OF obj] get cl name e show ?thesis using assms(2) by (simp add: x KeyStoreGet_def simps)
        qed
      next
        case DeleteCall
        note del = this
        show ?thesis
        proof (cases "A (tenantNamespace cl, n)")
          case None
          then obtain b where "ensureKeyStoreSecretExists (secret_server ?c) ?c cl n docs
              = (Err (Bao (StatusError 404 ''404 Not Found'' b)), docs)"
            using delete_simulates(1) [OF assms(1,2) n] by blast
          with None del cl name show ?thesis using assms(2) by (simp add: x KeyStoreDelete_def simps)
        next
          case (Some e)
          obtain docs' where "deleteKeyStoreSecret (secret_server ?c) ?c cl n docs = (Ok (), docs')"
            "store_rel (A((tenantNamespace cl, n) := None)) docs'"
            using delete_simulates(3) [OF assms(1,2) n] by blast
          with Some delete_simulates(2) [OF assms(1,2) n Some] del cl name
          show ?thesis using assms(2) by (simp add: x KeyStoreDelete_def simps)
        qed
      qed
    qed
  qed
qed

interpretation key_store: simulation "store_handle (secret_server (kp_client p)) cedar p"
    "spec_handle (permitted cedar (kp_authorizer p))" call_utf8 "\<lambda>A docs. store_config (kp_client p) \<and> store_rel A docs"
  for cedar :: "'pol cedar_authorize" and p :: "'pol keyStorePlugin"
  by unfold_locales (use store_handle_simulates in blast)

subsection \<open>Requests of the key store\<close>

text \<open>A request inside the directory of a client's tenant.\<close>

definition store_request :: "openBaoClient \<Rightarrow> string \<Rightarrow> http_request \<Rightarrow> bool" where
  "store_request c cl r \<longleftrightarrow>
     (\<exists>b kind rest. baseURL c = Some b \<and> kind \<in> {''data'', ''metadata''}
        \<and> req_path r = path_front b [''v1'', keyStoreMount c, kind] @ ''/owners/'' @ tenantNamespace cl @ rest
        \<and> (rest = [] \<or> hd rest = CHR ''/'') \<and> (\<forall>s \<in> set (SplitChar (CHR ''/'') rest). s \<noteq> ''..''))"

lemma owner_path_confined:
  assumes "list_all plain_seg ps" "joinPath (baseURL c) ([''v1'', keyStoreMount c, kind, ''owners'', tenantNamespace cl] @ ps) = Some t"
    and "kind \<in> {''data'', ''metadata''}"
  shows "store_request c cl \<lparr>req_method = m, req_path = t, req_body = body\<rparr>"
proof -
  obtain b where b: "baseURL c = Some b" using assms(2) by (cases "baseURL c") (auto simp: joinPath_def)
  let ?rest = "if ps = [] then [] else CHR ''/'' # JoinChar (CHR ''/'') ps"
  have "set (SplitChar (CHR ''/'') ?rest) \<subseteq> insert [] (set ps)"
    using assms(1) by (simp add: SplitChar_JoinChar list_all_iff plain_seg_def)
  then have "\<forall>s \<in> set (SplitChar (CHR ''/'') ?rest). s \<noteq> ''..''"
    using assms(1) by (auto simp: list_all_iff plain_seg_def)
  moreover have "t = path_front b [''v1'', keyStoreMount c, kind] @ ''/owners/'' @ tenantNamespace cl @ ?rest"
    using owner_path_form [OF b assms(1), of "keyStoreMount c" kind cl] assms(2) by simp
  ultimately show ?thesis
    unfolding store_request_def http_request.simps using b assms(3) by (intro exI [of _ b] exI [of _ kind] exI [of _ ?rest]) simp
qed

lemma keyStore_target_confined:
  assumes "keyStoreDataPath c cl v = Inr (Some t) \<or> keyStoreMetadataPath c cl v = Inr (Some t)"
  shows "store_request c cl \<lparr>req_method = m, req_path = t, req_body = body\<rparr>"
  using assms owner_path_confined [OF keyStorePathParts_plain]
  by (auto simp: keyStoreDataPath_def keyStoreMetadataPath_def rbind_Inr_iff)

lemma traced_store_target:
  assumes "path = keyStoreDataPath c cl v \<or> path = keyStoreMetadataPath c cl v"
    and "\<And>t. (\<And>m body. P \<lparr>req_method = m, req_path = t, req_body = body\<rparr>) \<Longrightarrow> traced I P (f t) Q"
    and "\<And>r. store_request c cl r \<Longrightarrow> P r"
  shows "traced I P (keyStoreTarget path f) Q"
  unfolding keyStoreTarget_def
proof (rule traced_andThen [OF traced_check], rule traced_target)
  fix t u assume "rmap_err (\<lambda>_. UnsafeKeyStorePath) path = Inr t" and t: "t = Some u"
  then have "path = Inr (Some u)" by (cases path) (auto simp: rmap_err_def)
  then show "traced I P (f u) Q"
    using assms(1) keyStore_target_confined [of c cl v u] by (intro assms(2) assms(3)) auto
qed

lemmas store_calls_traced =
  traced_andThen [where R = "\<lambda>_. True"] traced_attempt [where R = "\<lambda>_. True"] traced_wrapErr
  traced_store_target [OF disjI1 [OF refl]] traced_store_target [OF disjI2 [OF refl]]
  traced_request_any traced_ret traced_fail traced_true [OF traced_check] traced_true [OF traced_require]

lemma keyStore_ops_traced:
  assumes "\<And>r. store_request c cl r \<Longrightarrow> P r"
  shows "traced (\<lambda>_. True) P (putKeyStoreSecret (logged srv) c cl n secret now) (\<lambda>_. True)"
    and "traced (\<lambda>_. True) P (getKeyStoreSecret (logged srv) c cl n) (\<lambda>_. True)"
    and "traced (\<lambda>_. True) P (ensureKeyStoreSecretExists (logged srv) c cl n) (\<lambda>_. True)"
    and "traced (\<lambda>_. True) P (deleteKeyStoreSecret (logged srv) c cl n) (\<lambda>_. True)"
    and "traced (\<lambda>_. True) P (listKeyStoreSecrets (logged srv) c cl pre) (\<lambda>_. True)"
  unfolding putKeyStoreSecret_def getKeyStoreSecret_def ensureKeyStoreSecretExists_def deleteKeyStoreSecret_def
    listKeyStoreSecrets_def Let_def Post_def Get_def Delete_def List_def
  by (rule store_calls_traced TrueI | erule assms | assumption)+

lemma traced_authorize: "traced I P (authorize cedar a cl action rtype n pre) (\<lambda>_. True)"
  by (simp add: authorize_iff traced_ret traced_fail)

lemma keyStore_handlers_traced:
  shows "traced (\<lambda>_. True) (store_request (kp_client p) (kp_ClientId put)) (KeyStorePut (logged srv) cedar p now put) (\<lambda>_. True)"
    and "traced (\<lambda>_. True) (store_request (kp_client p) (kg_ClientId get)) (KeyStoreGet (logged srv) cedar p get) (\<lambda>_. True)"
    and "traced (\<lambda>_. True) (store_request (kp_client p) (kl_ClientId lst)) (KeyStoreList (logged srv) cedar p lst) (\<lambda>_. True)"
    and "traced (\<lambda>_. True) (store_request (kp_client p) (kd_ClientId del)) (KeyStoreDelete (logged srv) cedar p del) (\<lambda>_. True)"
  unfolding KeyStorePut_def KeyStoreGet_def KeyStoreList_def KeyStoreDelete_def requireClientID_def invalid_name_def
  by (rule store_calls_traced traced_authorize keyStore_ops_traced TrueI | assumption | simp add: traced_ret traced_fail)+

section \<open>Properties\<close>

text \<open>
  C2. The key store refines a map from tenants and names to versioned secrets. On the model
  \<open>secret_server\<close> of OpenBao's key-value engine, starting empty, every sequence of puts, gets and deletes of any clients, with strings in UTF-8 as the wire format requires, gets
  exactly the answers of the specification: the text of the secret last put is returned byte for byte, versions count the
  puts, deleted and unknown entries are not found, malformed or forbidden requests are refused and change nothing, and
  the entries of different tenants do not interfere.
\<close>

theorem keyStore_refines:
  assumes "store_config (kp_client p)" "list_all call_utf8 calls"
  shows "fst (runs (store_handle (secret_server (kp_client p)) cedar p) calls Map.empty)
    = fst (runs (spec_handle (permitted cedar (kp_authorizer p))) calls Map.empty)"
proof -
  have "store_rel Map.empty Map.empty" by (simp add: store_rel_def)
  then show ?thesis using key_store.runs_agree [OF assms(2)] assms(1) by blast
qed

definition example_plugin :: "unit keyStorePlugin" where
  "example_plugin = kmsPlugin.extend (newKmsPlugin (newOpenBaoClient None (Some []))) \<lparr>kp_authorizer = Some \<lparr>policies = Some Map.empty\<rparr>\<rparr>"

lemma example_config: "store_config (kp_client example_plugin)" "kp_client example_plugin = newOpenBaoClient None (Some [])"
  by (simp_all add: store_config_def example_plugin_def kmsPlugin.defs newKmsPlugin_def newOpenBaoClient_def Let_def
      withKMSConfigDefaults_def orDefault_def plain_seg_def)

lemma example_name: "normalizeKeyStoreName ''k'' = Inr ''k''"
  using valid_alias_trimmed [OF valid_alias_k] by (simp add: normalizeKeyStoreName_Inr_iff segment_ok_iff segment_char_def is_alnum_def)

lemma example_secret: "decodeKeyStoreSecretJSON ''{}'' = Inr ''{}''"
proof -
  have "json_decode ''{}'' = Some (JObj [], [])"
    by (simp add: json_decode_def max_depth_def starts_def is_ws_def numeral_eq_Suc)
  moreover have "TrimSpace ''{}'' = ''{}''" by (rule TrimSpace_space_free, rule ascii_graph_space_free) simp
  ultimately show ?thesis
    by (simp add: decodeKeyStoreSecretJSON_def isKeyStoreJSONObject_def json_valid_def json_parse_def is_ws_def Let_def)
qed

theorem keyStore_refines_witness:
  "fst (runs (store_handle (secret_server (kp_client example_plugin)) (\<lambda>_ _ _. (Allow, 0)) example_plugin)
      [(''k'', ''k'', PutCall ''{}'' ''now''), (''k'', ''k'', GetCall), (''k'', ''k'', DeleteCall), (''k'', ''k'', GetCall)] Map.empty)
    = [Ok (Stored ''k'' 1), Ok (Secret ''k'' ''{}''), Ok (Deleted ''k''), Err (NotFound, StoreErr EntryNotFound)]"
proof -
  let ?calls = "[(''k'', ''k'', PutCall ''{}'' ''now''), (''k'', ''k'', GetCall), (''k'', ''k'', DeleteCall), (''k'', ''k'', GetCall)]"
  have utf8: "valid_utf8 ''{}''" "valid_utf8 ''now''" by (rule ascii_valid, simp)+
  then have calls: "list_all call_utf8 ?calls" by (simp del: valid_utf8.simps)
  have "permitted (\<lambda>_ _ _. (Allow, 0)) (kp_authorizer example_plugin) cl action n" for cl action n
    by (simp add: permitted_def authorize_iff policy_allows_def example_plugin_def kmsPlugin.defs)
  then show ?thesis
    unfolding keyStore_refines [OF example_config(1) calls] using trim_k
    by (simp add: spec_handle_def example_name example_secret spec_put_def next_version_def)
qed

text \<open>
  Key-store requests stay in the tenant's directory. Whatever the server answers and whatever the policies are, every
  request that the four handlers send goes to a path below \<^verbatim>\<open>data/owners/\<close> or \<^verbatim>\<open>metadata/owners/\<close> of the key-store mount
  followed by the caller's own namespace, without a parent segment in the rest.
\<close>

theorem keyStore_requests_confined:
  "list_all (store_request (kp_client p) (kp_ClientId put)) (snd (snd (KeyStorePut (logged srv) cedar p now put (w, []))))
   \<and> list_all (store_request (kp_client p) (kg_ClientId get)) (snd (snd (KeyStoreGet (logged srv) cedar p get (w, []))))
   \<and> list_all (store_request (kp_client p) (kl_ClientId lst)) (snd (snd (KeyStoreList (logged srv) cedar p lst (w, []))))
   \<and> list_all (store_request (kp_client p) (kd_ClientId del)) (snd (snd (KeyStoreDelete (logged srv) cedar p del (w, []))))"
  using traced_run(2) [OF keyStore_handlers_traced(1) TrueI] traced_run(2) [OF keyStore_handlers_traced(2) TrueI]
    traced_run(2) [OF keyStore_handlers_traced(3) TrueI] traced_run(2) [OF keyStore_handlers_traced(4) TrueI]
  by (metis prod.collapse)

text \<open>
  C24. The policy is a gate. A key-store handler succeeds, or does anything to the server's state, only if the name is
  well formed and the policy engine, asked with the tenant as principal, the handler's action and the entry of that
  tenant as resource, answered Allow without an evaluation error; without policies nothing is allowed.
\<close>

theorem keyStore_policy_gate:
  "(KeyStorePut srv cedar p now put w = (r1, w1) \<and> (w1 \<noteq> w \<or> (\<exists>x. r1 = Ok x)) \<longrightarrow>
      (\<exists>n. normalizeKeyStoreName (kp_Name put) = Inr n
         \<and> policy_allows cedar (kp_authorizer p) (kp_ClientId put) keyStoreActionPut keyStoreKeyType n []))
   \<and> (KeyStoreGet srv cedar p get w = (r2, w2) \<and> (w2 \<noteq> w \<or> (\<exists>x. r2 = Ok x)) \<longrightarrow>
      (\<exists>n. normalizeKeyStoreName (kg_Name get) = Inr n
         \<and> policy_allows cedar (kp_authorizer p) (kg_ClientId get) keyStoreActionGet keyStoreKeyType n []))
   \<and> (KeyStoreList srv cedar p lst w = (r3, w3) \<and> (w3 \<noteq> w \<or> (\<exists>x. r3 = Ok x)) \<longrightarrow>
      (\<exists>n. normalizeKeyStorePrefix (optionalString (kl_Prefix lst)) = Inr n
         \<and> policy_allows cedar (kp_authorizer p) (kl_ClientId lst) keyStoreActionList keyStoreNamespaceType [] n))
   \<and> (KeyStoreDelete srv cedar p del w = (r4, w4) \<and> (w4 \<noteq> w \<or> (\<exists>x. r4 = Ok x)) \<longrightarrow>
      (\<exists>n. normalizeKeyStoreName (kd_Name del) = Inr n
         \<and> policy_allows cedar (kp_authorizer p) (kd_ClientId del) keyStoreActionDelete keyStoreKeyType n []))"
proof -
  note gate = requireClientID_def require_def invalid_name_def check_def rmap_err_def andThen_def authorize_iff fail_def ret_def
  show ?thesis
    by (intro conjI)
      (auto simp: KeyStorePut_def gate split: if_splits sum.splits,
       auto simp: KeyStoreGet_def gate split: if_splits sum.splits,
       auto simp: KeyStoreList_def gate split: if_splits sum.splits,
       auto simp: KeyStoreDelete_def gate split: if_splits sum.splits)
qed

theorem keyStore_policy_gate_witness:
  "KeyStoreList (\<lambda>w _. (Response 404 ''404 Not Found'' ''{}'', Suc w)) (\<lambda>_ _ _. (Allow, 0)) example_plugin
      \<lparr>kl_ClientId = ''k'', kl_Prefix = None\<rparr> 0 = (Ok [], 1)
   \<and> policy_allows (\<lambda>_ _ _. (Allow, 0)) (kp_authorizer example_plugin) ''k'' keyStoreActionList keyStoreNamespaceType [] []"
proof -
  let ?srv = "\<lambda>w _. (Response 404 ''404 Not Found'' ''{}'', Suc w)"
  have "policy_allows (\<lambda>_ _ _. (Allow, 0)) (kp_authorizer example_plugin) ''k'' keyStoreActionList keyStoreNamespaceType [] []"
    by (simp add: policy_allows_def example_plugin_def kmsPlugin.defs)
  moreover have pre: "normalizeKeyStorePrefix [] = Inr []" by (simp add: normalizeKeyStorePrefix_def TrimChar_def TrimRightChar_def Let_def)
  moreover have "\<exists>t. keyStoreMetadataPath (kp_client example_plugin) ''k'' [] = Inr (Some t)"
    by (simp add: example_config newOpenBaoClient_def Let_def keyStoreMetadataPath_def keyStorePathParts_def joinPath_def TrimChar_def TrimRightChar_def)
  ultimately have run: "KeyStoreList ?srv (\<lambda>_ _ _. (Allow, 0)) example_plugin \<lparr>kl_ClientId = ''k'', kl_Prefix = None\<rparr> 0 = (Ok [], 1)"
    using trim_k
    by (auto simp: KeyStoreList_def requireClientID_def invalid_name_def rmap_err_def authorize_iff listKeyStoreSecrets_def
        keyStoreTarget_def List_def do_request_def andThen_def wrapErr_def attempt_def isOpenBaoStatus_def)
  show ?thesis
    using keyStore_policy_gate [THEN conjunct2, THEN conjunct2, THEN conjunct1, rule_format, OF conjI, OF run] run pre by auto
qed

end
