(* ===== verification/Dkg.thy ===== *)
theory Dkg
  imports Traces Sha2
begin

text \<open>
  The coordinator of distributed key generation (\<^verbatim>\<open>threshold/types.go\<close>, \<^verbatim>\<open>threshold/coordinator.go\<close>): bootstrap seeds, the
  four rounds, delivery of the messages between the members, retries.

  The members are reached through the interface \<^verbatim>\<open>GroupMemberClient\<close>, here a record of operations on a client and the state
  of the world; the client of \<^verbatim>\<open>threshold/openbao.go\<close> is in \<^verbatim>\<open>ThresholdPlugin\<close>. Time enters only where the code waits between
  attempts: \<open>wait\<close> says, for a state and a duration, whether the context was done first and in which state the wait ends.
  Fields carry a prefix for their struct. Maps are association lists; the order in which Go ranges over a map is the
  argument \<open>order\<close>.
\<close>

section \<open>Types\<close>

abbreviation "defaultMount \<equiv> ''threshold''"
abbreviation "keyStatusCompleted \<equiv> ''dkg_completed''"

definition defaultSeedBytes :: nat where
  "defaultSeedBytes = 32"

record 'c DKGParticipant =
  NodeID :: string
  PartyIndex :: int
  Client :: 'c

record 'c DKGRequest =
  dr_KeyName :: string
  dr_GroupName :: string
  dr_SessionID :: string
  dr_Threshold :: int
  dr_Participants :: "'c DKGParticipant list"

record StartDKGRequest =
  sr_KeyName :: string
  sr_GroupName :: string
  sr_SessionID :: string
  sr_CommonSeed :: string
  sr_PairwiseSeeds :: "(string \<times> string) list"
  sr_Algorithm :: string
  sr_Curve :: string
  sr_KeyEpoch :: int

record DeliverDKGRequest =
  dl_Round :: int
  dl_From :: string
  dl_Broadcast :: string
  dl_Unicast :: string

record DKGStatus =
  ds_Name :: string
  ds_Group :: string
  ds_SessionID :: string
  ds_NodeID :: string
  ds_Status :: string
  ds_Round :: int
  ds_Broadcast :: string
  ds_Unicasts :: "(string \<times> string) list"
  ds_PendingFrom :: "string list option"
  ds_PublicKey :: string

type_synonym outputs = "(string \<times> DKGStatus) list"

record DKGResult =
  rs_KeyName :: string
  rs_GroupName :: string
  rs_SessionID :: string
  rs_PublicKey :: string
  rs_Nodes :: outputs

datatype ctx_error = Canceled | DeadlineExceeded

datatype member_error = MemberBao bao_error | MemberContext ctx_error | RetryCanceled ctx_error

record ('c, 'w) GroupMemberClient =
  StartDKG :: "'c \<Rightarrow> StartDKGRequest \<Rightarrow> ('w, member_error, DKGStatus option) act"
  DeliverDKG :: "'c \<Rightarrow> string \<Rightarrow> DeliverDKGRequest \<Rightarrow> ('w, member_error, DKGStatus option) act"
  ProceedDKG :: "'c \<Rightarrow> string \<Rightarrow> int \<Rightarrow> ('w, member_error, DKGStatus option) act"
  ReadDKGStatus :: "'c \<Rightarrow> string \<Rightarrow> ('w, member_error, DKGStatus option) act"

datatype dkg_error =
    SessionSecretRequired
  | StartFailed string member_error
  | ProceedFailed int string member_error
  | DeliverFailed int string string member_error
  | MissingOutput int string
  | MissingUnicast string string
  | NilStatus string int
  | WrongRound string int int
  | EmptyBroadcast string int
  | NoUnicasts string
  | NotCompleted string string
  | NoPublicKey string
  | DifferentKey string

type_synonym 'w wait = "u64 \<Rightarrow> 'w \<Rightarrow> ctx_error option \<times> 'w"

section \<open>The coordinator\<close>

text \<open>Durations are nanoseconds in a signed 64-bit integer.\<close>

record Coordinator =
  seedBytes :: nat
  sessionSecret :: bytes
  retryAttempts :: int
  retryBackoff :: u64

definition NewCoordinator :: "(Coordinator \<Rightarrow> Coordinator) list \<Rightarrow> Coordinator" where
  "NewCoordinator options =
     foldl (\<lambda>c option. option c)
       \<lparr>seedBytes = defaultSeedBytes, sessionSecret = [], retryAttempts = 3, retryBackoff = 100 * 1000000\<rparr> options"

definition WithRetryPolicy :: "int \<Rightarrow> u64 \<Rightarrow> Coordinator \<Rightarrow> Coordinator" where
  "WithRetryPolicy attempts backoff c =
     (if 0 < attempts then c\<lparr>retryAttempts := attempts\<rparr> else c)\<lparr>retryBackoff := backoff\<rparr>"

definition WithSessionSecret :: "bytes \<Rightarrow> Coordinator \<Rightarrow> Coordinator" where
  "WithSessionSecret secret c = (if secret \<noteq> [] then c\<lparr>sessionSecret := secret\<rparr> else c)"

subsection \<open>Seeds\<close>

definition seed_message :: "string \<Rightarrow> string \<Rightarrow> string \<Rightarrow> bytes" where
  "seed_message sessionID keyName label =
     ''orbitport-threshold-bootstrap'' @ [CHR 0x00] @ sessionID @ [CHR 0x00] @ keyName @ [CHR 0x00] @ label"

definition deriveSeed :: "Coordinator \<Rightarrow> string \<Rightarrow> string \<Rightarrow> string \<Rightarrow> string" where
  "deriveSeed c sessionID keyName label =
     b64_encode False True (take (seedBytes c) (hmac_sha512 (sessionSecret c) (seed_message sessionID keyName label)))"

record dkgBootstrap =
  commonSeed :: string
  pairwiseSeedsByNode :: "(string \<times> (string \<times> string) list) list"

definition pair_label :: "string \<Rightarrow> string \<Rightarrow> string" where
  "pair_label left right = ''pairwise:'' @ left @ '':'' @ right"

text \<open>The two writes \<^verbatim>\<open>m[left][right] = seed; m[right][left] = seed\<close>, into inner maps that are there.\<close>

definition put_seed :: "string \<Rightarrow> string \<Rightarrow> string \<Rightarrow> (string \<times> (string \<times> string) list) list \<Rightarrow> (string \<times> (string \<times> string) list) list" where
  "put_seed a b seed m = put_entry a (put_entry b seed (the (map_of m a))) m"

fun pairwise_with ::
    "(string \<Rightarrow> string \<Rightarrow> string) \<Rightarrow> string \<Rightarrow> string list \<Rightarrow> (string \<times> (string \<times> string) list) list
     \<Rightarrow> (string \<times> (string \<times> string) list) list" where
  "pairwise_with seed left [] m = m"
| "pairwise_with seed left (right # rights) m =
     pairwise_with seed left rights (put_seed right left (seed left right) (put_seed left right (seed left right) m))"

fun pairwise_all ::
    "(string \<Rightarrow> string \<Rightarrow> string) \<Rightarrow> string list \<Rightarrow> (string \<times> (string \<times> string) list) list
     \<Rightarrow> (string \<times> (string \<times> string) list) list" where
  "pairwise_all seed [] m = m"
| "pairwise_all seed (left # rest) m = pairwise_all seed rest (pairwise_with seed left rest m)"

definition newDKGBootstrap :: "Coordinator \<Rightarrow> 'c DKGRequest \<Rightarrow> dkg_error + dkgBootstrap" where
  "newDKGBootstrap c req =
     (if sessionSecret c = [] then Inl SessionSecretRequired
      else
        let seed = deriveSeed c (dr_SessionID req) (dr_KeyName req);
            nodes = map NodeID (dr_Participants req);
            empties = foldl (\<lambda>m n. put_entry n [] m) [] nodes
        in Inr \<lparr>commonSeed = seed ''common'',
                pairwiseSeedsByNode = pairwise_all (\<lambda>left right. seed (pair_label left right)) nodes empties\<rparr>)"

subsection \<open>Retries\<close>

definition isRetryableOpenBaoError :: "member_error \<Rightarrow> bool" where
  "isRetryableOpenBaoError err =
     (case err of
        MemberContext _ \<Rightarrow> False
      | RetryCanceled _ \<Rightarrow> False
      | MemberBao (StatusError code _ _) \<Rightarrow> code = 408 \<or> code = 429 \<or> 500 \<le> code
      | MemberBao _ \<Rightarrow> True)"

function retry_loop :: "'w wait \<Rightarrow> u64 \<Rightarrow> int \<Rightarrow> int \<Rightarrow> ('w, member_error, 'a) act \<Rightarrow> ('w, member_error, 'a) act" where
  "retry_loop wait backoff attempts attemptNo call w =
     (case call w of
        (Ok status, w') \<Rightarrow> (Ok status, w')
      | (Panics, w') \<Rightarrow> (Panics, w')
      | (Err err, w') \<Rightarrow>
          if attempts \<le> attemptNo \<or> \<not> isRetryableOpenBaoError err then (Err err, w')
          else
            let delay = backoff * word_of_int attemptNo
            in if 0 < sint delay then
                 (case wait delay w' of
                    (Some e, w'') \<Rightarrow> (Err (RetryCanceled e), w'')
                  | (None, w'') \<Rightarrow> retry_loop wait backoff attempts (attemptNo + 1) call w'')
               else retry_loop wait backoff attempts (attemptNo + 1) call w')"
  by pat_completeness auto
termination
  by (relation "measure (\<lambda>(_, _, attempts, attemptNo, _, _). nat (attempts - attemptNo))") auto

declare retry_loop.simps [simp del]

definition callWithRetry :: "'w wait \<Rightarrow> Coordinator \<Rightarrow> ('w, member_error, 'a) act \<Rightarrow> ('w, member_error, 'a) act" where
  "callWithRetry wait c call =
     (let attempts = (if retryAttempts c < 1 then 1 else retryAttempts c)
      in retry_loop wait (retryBackoff c) attempts 1 call)"

subsection \<open>Rounds\<close>

definition requireRoundOutput :: "string \<Rightarrow> DKGStatus option \<Rightarrow> int \<Rightarrow> dkg_error + unit" where
  "requireRoundOutput nodeID status0 round =
     (case status0 of
        None \<Rightarrow> Inl (NilStatus nodeID round)
      | Some status \<Rightarrow>
          if ds_Round status \<noteq> round then Inl (WrongRound nodeID (ds_Round status) round)
          else if ds_Broadcast status = [] then Inl (EmptyBroadcast nodeID round)
          else if round = 2 \<and> ds_Unicasts status = [] then Inl (NoUnicasts nodeID)
          else Inr ())"

text \<open>\<^verbatim>\<open>*status\<close>\<close>

definition deref :: "'a option \<Rightarrow> ('w, 'e, 'a) act" where
  "deref p = (case p of None \<Rightarrow> panic | Some x \<Rightarrow> ret x)"

fun start_each ::
    "('c, 'w) GroupMemberClient \<Rightarrow> 'w wait \<Rightarrow> Coordinator \<Rightarrow> 'c DKGRequest \<Rightarrow> dkgBootstrap \<Rightarrow> 'c DKGParticipant list \<Rightarrow> outputs
     \<Rightarrow> ('w, dkg_error, outputs) act" where
  "start_each api wait c req bootstrap [] outs = ret outs"
| "start_each api wait c req bootstrap (p # ps) outs =
     andThen (wrapErr (StartFailed (NodeID p)) (callWithRetry wait c
       (StartDKG api (Client p)
          \<lparr>sr_KeyName = dr_KeyName req, sr_GroupName = dr_GroupName req, sr_SessionID = dr_SessionID req,
           sr_CommonSeed = commonSeed bootstrap,
           sr_PairwiseSeeds = (case map_of (pairwiseSeedsByNode bootstrap) (NodeID p) of None \<Rightarrow> [] | Some m \<Rightarrow> m),
           sr_Algorithm = [], sr_Curve = [], sr_KeyEpoch = 0\<rparr>))) (\<lambda>status.
     andThen (check (requireRoundOutput (NodeID p) status 1)) (\<lambda>_.
     andThen (deref status) (\<lambda>s.
       start_each api wait c req bootstrap ps (put_entry (NodeID p) s outs))))"

definition startDKG ::
    "('c, 'w) GroupMemberClient \<Rightarrow> 'w wait \<Rightarrow> Coordinator \<Rightarrow> 'c DKGRequest \<Rightarrow> 'c DKGParticipant list \<Rightarrow> dkgBootstrap
     \<Rightarrow> ('w, dkg_error, outputs) act" where
  "startDKG api wait c req participants bootstrap = start_each api wait c req bootstrap participants []"

fun proceed_each ::
    "('c, 'w) GroupMemberClient \<Rightarrow> 'w wait \<Rightarrow> Coordinator \<Rightarrow> string \<Rightarrow> int \<Rightarrow> 'c DKGParticipant list \<Rightarrow> outputs
     \<Rightarrow> ('w, dkg_error, outputs) act" where
  "proceed_each api wait c keyName round [] outs = ret outs"
| "proceed_each api wait c keyName round (p # ps) outs =
     andThen (wrapErr (ProceedFailed round (NodeID p)) (callWithRetry wait c (ProceedDKG api (Client p) keyName round))) (\<lambda>status.
     andThen (check (if round < 4 then requireRoundOutput (NodeID p) status round else Inr ())) (\<lambda>_.
     andThen (deref status) (\<lambda>s.
       proceed_each api wait c keyName round ps (put_entry (NodeID p) s outs))))"

definition proceedRound ::
    "('c, 'w) GroupMemberClient \<Rightarrow> 'w wait \<Rightarrow> Coordinator \<Rightarrow> string \<Rightarrow> 'c DKGParticipant list \<Rightarrow> int
     \<Rightarrow> ('w, dkg_error, outputs) act" where
  "proceedRound api wait c keyName participants round = proceed_each api wait c keyName round participants []"

text \<open>The inner loop over the senders, for one receiver, and the outer loop over the receivers.\<close>

fun deliver_to ::
    "('c, 'w) GroupMemberClient \<Rightarrow> 'w wait \<Rightarrow> Coordinator \<Rightarrow> string \<Rightarrow> outputs \<Rightarrow> int \<Rightarrow> 'c DKGParticipant \<Rightarrow> 'c DKGParticipant list
     \<Rightarrow> ('w, dkg_error, unit) act" where
  "deliver_to api wait c keyName outs round receiver [] = ret ()"
| "deliver_to api wait c keyName outs round receiver (sender # senders) =
     (if NodeID sender = NodeID receiver then deliver_to api wait c keyName outs round receiver senders
      else
        (case map_of outs (NodeID sender) of
           None \<Rightarrow> fail (MissingOutput round (NodeID sender))
         | Some out \<Rightarrow>
             let unicast = (if round = 2 then (case map_of (ds_Unicasts out) (NodeID receiver) of None \<Rightarrow> [] | Some u \<Rightarrow> u) else [])
             in if round = 2 \<and> unicast = [] then fail (MissingUnicast (NodeID sender) (NodeID receiver))
                else
                  andThen (wrapErr (DeliverFailed round (NodeID sender) (NodeID receiver)) (callWithRetry wait c
                    (DeliverDKG api (Client receiver) keyName
                       \<lparr>dl_Round = round, dl_From = NodeID sender, dl_Broadcast = ds_Broadcast out, dl_Unicast = unicast\<rparr>))) (\<lambda>_.
                  deliver_to api wait c keyName outs round receiver senders)))"

fun deliver_each ::
    "('c, 'w) GroupMemberClient \<Rightarrow> 'w wait \<Rightarrow> Coordinator \<Rightarrow> string \<Rightarrow> outputs \<Rightarrow> int \<Rightarrow> 'c DKGParticipant list \<Rightarrow> 'c DKGParticipant list
     \<Rightarrow> ('w, dkg_error, unit) act" where
  "deliver_each api wait c keyName outs round senders [] = ret ()"
| "deliver_each api wait c keyName outs round senders (receiver # receivers) =
     andThen (deliver_to api wait c keyName outs round receiver senders) (\<lambda>_.
       deliver_each api wait c keyName outs round senders receivers)"

definition deliverRound ::
    "('c, 'w) GroupMemberClient \<Rightarrow> 'w wait \<Rightarrow> Coordinator \<Rightarrow> string \<Rightarrow> 'c DKGParticipant list \<Rightarrow> outputs \<Rightarrow> int
     \<Rightarrow> ('w, dkg_error, unit) act" where
  "deliverRound api wait c keyName participants outs round =
     deliver_each api wait c keyName outs round participants participants"

text \<open>The loop over the final statuses, with the key found so far.\<close>

fun group_key :: "string \<Rightarrow> outputs \<Rightarrow> dkg_error + string" where
  "group_key publicKey [] = Inr publicKey"
| "group_key publicKey ((nodeID, status) # rest) =
     (if ds_Status status \<noteq> keyStatusCompleted then Inl (NotCompleted nodeID (ds_Status status))
      else if ds_PublicKey status = [] then Inl (NoPublicKey nodeID)
      else if publicKey = [] then group_key (ds_PublicKey status) rest
      else if ds_PublicKey status \<noteq> publicKey then Inl (DifferentKey nodeID)
      else group_key publicKey rest)"

definition CoordinateDKG ::
    "('c, 'w) GroupMemberClient \<Rightarrow> 'w wait \<Rightarrow> (outputs \<Rightarrow> outputs) \<Rightarrow> Coordinator \<Rightarrow> 'c DKGRequest \<Rightarrow> ('w, dkg_error, DKGResult) act" where
  "CoordinateDKG api wait order c req =
     andThen (check (newDKGBootstrap c req)) (\<lambda>bootstrap.
     andThen (startDKG api wait c req (dr_Participants req) bootstrap) (\<lambda>round1.
     andThen (deliverRound api wait c (dr_KeyName req) (dr_Participants req) round1 1) (\<lambda>_.
     andThen (proceedRound api wait c (dr_KeyName req) (dr_Participants req) 2) (\<lambda>round2.
     andThen (deliverRound api wait c (dr_KeyName req) (dr_Participants req) round2 2) (\<lambda>_.
     andThen (proceedRound api wait c (dr_KeyName req) (dr_Participants req) 3) (\<lambda>round3.
     andThen (deliverRound api wait c (dr_KeyName req) (dr_Participants req) round3 3) (\<lambda>_.
     andThen (proceedRound api wait c (dr_KeyName req) (dr_Participants req) 4) (\<lambda>completed.
     andThen (check (group_key [] (order completed))) (\<lambda>publicKey.
       ret \<lparr>rs_KeyName = dr_KeyName req, rs_GroupName = dr_GroupName req, rs_SessionID = dr_SessionID req,
            rs_PublicKey = publicKey, rs_Nodes = completed\<rparr>)))))))))"

section \<open>Transcripts\<close>

text \<open>
  The members' side of a run: the calls that were answered, in order. A member client is wrapped so that the world also
  holds the transcript; calls that fail leave nothing in it.
\<close>

datatype 'c event =
    Started 'c StartDKGRequest "DKGStatus option"
  | Delivered 'c string DeliverDKGRequest
  | Proceeded 'c string int "DKGStatus option"

type_synonym ('c, 'w) transcript = "'w \<times> 'c event list"

definition recording :: "('a \<Rightarrow> 'c event) \<Rightarrow> ('w, 'e, 'a) act \<Rightarrow> (('c, 'w) transcript, 'e, 'a) act" where
  "recording ev m = (\<lambda>(w, l).
     case m w of (Ok x, w') \<Rightarrow> (Ok x, (w', l @ [ev x])) | (Err e, w') \<Rightarrow> (Err e, (w', l)) | (Panics, w') \<Rightarrow> (Panics, (w', l)))"

definition recorded :: "('c, 'w) GroupMemberClient \<Rightarrow> ('c, ('c, 'w) transcript) GroupMemberClient" where
  "recorded api =
     \<lparr>StartDKG = (\<lambda>c r. recording (Started c r) (StartDKG api c r)),
      DeliverDKG = (\<lambda>c k r. recording (\<lambda>_. Delivered c k r) (DeliverDKG api c k r)),
      ProceedDKG = (\<lambda>c k n. recording (Proceeded c k n) (ProceedDKG api c k n)),
      ReadDKGStatus = (\<lambda>c k. (\<lambda>(w, l). let (r, w') = ReadDKGStatus api c k w in (r, (w', l))))\<rparr>"

definition waiting :: "'w wait \<Rightarrow> ('c, 'w) transcript wait" where
  "waiting wait = (\<lambda>d (w, l). let (r, w') = wait d w in (r, (w', l)))"

text \<open>The transcript that the protocol prescribes, from the members' outputs.\<close>

definition start_request :: "'c DKGRequest \<Rightarrow> dkgBootstrap \<Rightarrow> 'c DKGParticipant \<Rightarrow> StartDKGRequest" where
  "start_request req b p =
     \<lparr>sr_KeyName = dr_KeyName req, sr_GroupName = dr_GroupName req, sr_SessionID = dr_SessionID req,
      sr_CommonSeed = commonSeed b, sr_PairwiseSeeds = (case map_of (pairwiseSeedsByNode b) (NodeID p) of None \<Rightarrow> [] | Some m \<Rightarrow> m),
      sr_Algorithm = [], sr_Curve = [], sr_KeyEpoch = 0\<rparr>"

definition starts_of :: "'c DKGRequest \<Rightarrow> dkgBootstrap \<Rightarrow> (string \<Rightarrow> DKGStatus) \<Rightarrow> 'c DKGParticipant list \<Rightarrow> 'c event list" where
  "starts_of req b out ps = map (\<lambda>p. Started (Client p) (start_request req b p) (Some (out (NodeID p)))) ps"

definition proceeds_of :: "string \<Rightarrow> int \<Rightarrow> (string \<Rightarrow> DKGStatus) \<Rightarrow> 'c DKGParticipant list \<Rightarrow> 'c event list" where
  "proceeds_of key round out ps = map (\<lambda>p. Proceeded (Client p) key round (Some (out (NodeID p)))) ps"

definition message :: "int \<Rightarrow> (string \<Rightarrow> DKGStatus) \<Rightarrow> string \<Rightarrow> string \<Rightarrow> DeliverDKGRequest" where
  "message round out sender receiver =
     \<lparr>dl_Round = round, dl_From = sender, dl_Broadcast = ds_Broadcast (out sender),
      dl_Unicast = (if round = 2 then the (map_of (ds_Unicasts (out sender)) receiver) else [])\<rparr>"

definition deliveries_to :: "string \<Rightarrow> int \<Rightarrow> (string \<Rightarrow> DKGStatus) \<Rightarrow> 'c DKGParticipant list \<Rightarrow> 'c DKGParticipant \<Rightarrow> 'c event list" where
  "deliveries_to key round out senders r =
     map (\<lambda>s. Delivered (Client r) key (message round out (NodeID s) (NodeID r))) (filter (\<lambda>s. NodeID s \<noteq> NodeID r) senders)"

definition deliveries_of :: "string \<Rightarrow> int \<Rightarrow> (string \<Rightarrow> DKGStatus) \<Rightarrow> 'c DKGParticipant list \<Rightarrow> 'c event list" where
  "deliveries_of key round out ps = concat (map (deliveries_to key round out ps) ps)"

section \<open>Lemmas\<close>

subsection \<open>Retries\<close>

text \<open>What one call does to a measure of the state, a retried call does.\<close>

lemma retry_loop_Ok:
  assumes "retry_loop wait backoff attempts n call w = (Ok s, w')"
    and "\<And>w e w'. I w \<Longrightarrow> call w = (Err e, w') \<Longrightarrow> I w'" "\<And>d w r w'. I w \<Longrightarrow> wait d w = (r, w') \<Longrightarrow> I w'" "I w"
  shows "\<exists>v. I v \<and> call v = (Ok s, w')"
  using assms
proof (induction wait backoff attempts n call w rule: retry_loop.induct)
  case (1 wait backoff attempts n call w)
  obtain r v where c: "call w = (r, v)" by (cases "call w")
  show ?case
  proof (cases r)
    case (Ok x)
    then show ?thesis using "1.prems"(1,4) c by (auto simp: retry_loop.simps [of _ _ _ n])
  next
    case Panics
    then show ?thesis using "1.prems"(1) c by (simp add: retry_loop.simps [of _ _ _ n])
  next
    case (Err e)
    have v: "I v" using "1.prems"(2,4) c Err by blast
    have go: "\<not> (attempts \<le> n \<or> \<not> isRetryableOpenBaoError e)"
      using "1.prems"(1) c Err by (auto simp: retry_loop.simps [of _ _ _ n] split: if_splits)
    obtain r2 v2 where w2: "wait (backoff * word_of_int n) v = (r2, v2)" by (cases "wait (backoff * word_of_int n) v")
    have v2: "I v2" using "1.prems"(3) v w2 by blast
    show ?thesis
    proof (cases "0 < sint (backoff * word_of_int n)")
      case True
      then have "r2 = None" "retry_loop wait backoff attempts (n + 1) call v2 = (Ok s, w')"
        using "1.prems"(1) c Err go w2 by (auto simp: retry_loop.simps [of _ _ _ n] Let_def split: option.splits)
      then show ?thesis using "1.IH"(1) [OF c [symmetric] Err go refl True w2 [symmetric]] "1.prems"(2,3) v2 by blast
    next
      case False
      then have "retry_loop wait backoff attempts (n + 1) call v = (Ok s, w')"
        using "1.prems"(1) c Err go by (auto simp: retry_loop.simps [of _ _ _ n] Let_def)
      then show ?thesis using "1.IH"(2) [OF c [symmetric] Err go refl False] "1.prems"(2,3) v by blast
    qed
  qed
qed

lemma recording_run:
  "recording ev m (w, l) = (Ok x, (w', l')) \<longleftrightarrow> m w = (Ok x, w') \<and> l' = l @ [ev x]"
  "recording ev m (w, l) = (Err e, (w', l')) \<longleftrightarrow> m w = (Err e, w') \<and> l' = l"
  by (cases "m w"; cases "fst (m w)"; auto simp: recording_def)+

lemma recorded_simps [simp]:
  "StartDKG (recorded api) c r = recording (Started c r) (StartDKG api c r)"
  "DeliverDKG (recorded api) c k d = recording (\<lambda>_. Delivered c k d) (DeliverDKG api c k d)"
  "ProceedDKG (recorded api) c k n = recording (Proceeded c k n) (ProceedDKG api c k n)"
  by (simp_all add: recorded_def)

lemma callWithRetry_recording:
  assumes "callWithRetry (waiting wait) c (recording ev m) (w, l) = (Ok s, (w', l'))"
  shows "l' = l @ [ev s]"
proof -
  have err: "snd u' = l" if "snd u = l" "recording ev m u = (Err e, u')" for u e u'
    using that by (cases u; cases u') (simp add: recording_run)
  have wait: "snd u' = l" if "snd u = l" "waiting wait d u = (r, u')" for d u r u'
    using that by (auto simp: waiting_def split: prod.splits)
  have "\<exists>v. snd v = l \<and> recording ev m v = (Ok s, (w', l'))"
    by (rule retry_loop_Ok [where I = "\<lambda>u. snd u = l", OF assms [unfolded callWithRetry_def Let_def]])
      (erule (1) err, erule (1) wait, simp)
  then show ?thesis by (auto simp: recording_run)
qed


subsection \<open>Outputs of a round\<close>

lemma map_of_put_entry [simp]: "map_of (put_entry k v m) = (map_of m)(k \<mapsto> v)"
  by (induction k v m rule: put_entry.induct) (auto simp: fun_eq_iff)

lemma fst_put_entry: "fst ` set (put_entry k v m) = insert k (fst ` set m)"
  by (induction k v m rule: put_entry.induct) auto

lemma distinct_put_entry: "distinct (map fst m) \<Longrightarrow> distinct (map fst (put_entry k v m))"
  using fst_put_entry by (induction k v m rule: put_entry.induct) (fastforce simp: image_iff)+

lemma deref_Ok_iff [simp]: "deref p w = (Ok x, w') \<longleftrightarrow> p = Some x \<and> w' = w"
  by (cases p) (auto simp: deref_def)

definition round_ok :: "int \<Rightarrow> DKGStatus \<Rightarrow> bool" where
  "round_ok round s \<longleftrightarrow> ds_Round s = round \<and> ds_Broadcast s \<noteq> [] \<and> (round = 2 \<longrightarrow> ds_Unicasts s \<noteq> [])"

lemma requireRoundOutput_ok: "requireRoundOutput n (Some s) round = Inr () \<longleftrightarrow> round_ok round s"
  by (auto simp: requireRoundOutput_def round_ok_def)

text \<open>The outputs that a loop over members has collected, and the ones it started with.\<close>

definition collected :: "(DKGStatus \<Rightarrow> bool) \<Rightarrow> string list \<Rightarrow> outputs \<Rightarrow> outputs \<Rightarrow> bool" where
  "collected good ids outs res \<longleftrightarrow>
     fst ` set res = fst ` set outs \<union> set ids
     \<and> (\<forall>n. if n \<in> set ids then \<exists>s. map_of res n = Some s \<and> good s else map_of res n = map_of outs n)
     \<and> (distinct (map fst outs) \<longrightarrow> distinct (map fst res))"

lemma collected_Nil [simp]: "collected good [] outs outs"
  by (simp add: collected_def)

lemma collected_Cons:
  assumes "collected good ids (put_entry n s outs) res" "good s"
  shows "collected good (n # ids) outs res"
proof -
  have c: "if m \<in> set ids then \<exists>s. map_of res m = Some s \<and> good s else map_of res m = ((map_of outs)(n \<mapsto> s)) m" for m
    using assms(1) by (simp add: collected_def)
  have "if m \<in> set (n # ids) then \<exists>s. map_of res m = Some s \<and> good s else map_of res m = map_of outs m" for m
    using c [of m] assms(2) by (auto split: if_splits)
  moreover have "fst ` set res = fst ` set outs \<union> set (n # ids)"
    using assms(1) by (simp add: collected_def fst_put_entry)
  ultimately show ?thesis using assms(1) distinct_put_entry [of outs n s] unfolding collected_def by blast
qed

lemma start_each_Ok:
  assumes "start_each (recorded api) (waiting wait) c req b ps outs (w, l) = (Ok res, (w', l'))" "distinct (map NodeID ps)"
  shows "collected (round_ok 1) (map NodeID ps) outs res \<and> l' = l @ starts_of req b (\<lambda>n. the (map_of res n)) ps"
  using assms
proof (induction ps arbitrary: outs w l)
  case (Cons p ps)
  from Cons.prems(1) obtain s v l1 where call: "callWithRetry (waiting wait) c
        (recording (Started (Client p) (start_request req b p)) (StartDKG api (Client p) (start_request req b p))) (w, l) = (Ok (Some s), (v, l1))"
    and ok: "round_ok 1 s"
    and rest: "start_each (recorded api) (waiting wait) c req b ps (put_entry (NodeID p) s outs) (v, l1) = (Ok res, (w', l'))"
    by (auto simp: act_Ok start_each.simps(2) [folded start_request_def] requireRoundOutput_ok simp del: start_each.simps(2))
  note IH = Cons.IH [OF rest] and l1 = callWithRetry_recording [OF call]
  have "map_of res (NodeID p) = Some s" using IH Cons.prems(2) by (auto simp: collected_def split: if_splits)
  then show ?case using IH Cons.prems(2) l1 collected_Cons [of "round_ok 1" _ "NodeID p" s outs res] ok
    by (simp add: starts_of_def)
qed (simp add: starts_of_def)

lemma proceed_each_Ok:
  assumes "proceed_each (recorded api) (waiting wait) c key round ps outs (w, l) = (Ok res, (w', l'))" "distinct (map NodeID ps)"
  shows "collected (\<lambda>s. round < 4 \<longrightarrow> round_ok round s) (map NodeID ps) outs res
    \<and> l' = l @ proceeds_of key round (\<lambda>n. the (map_of res n)) ps"
  using assms
proof (induction ps arbitrary: outs w l)
  case (Cons p ps)
  from Cons.prems(1) obtain s v l1 where call: "callWithRetry (waiting wait) c
        (recording (Proceeded (Client p) key round) (ProceedDKG api (Client p) key round)) (w, l) = (Ok (Some s), (v, l1))"
    and ok: "round < 4 \<longrightarrow> round_ok round s"
    and rest: "proceed_each (recorded api) (waiting wait) c key round ps (put_entry (NodeID p) s outs) (v, l1) = (Ok res, (w', l'))"
    by (auto simp: act_Ok requireRoundOutput_ok split: if_splits)
  note IH = Cons.IH [OF rest] and l1 = callWithRetry_recording [OF call]
  have "map_of res (NodeID p) = Some s" using IH Cons.prems(2) by (auto simp: collected_def split: if_splits)
  then show ?case
    using IH Cons.prems(2) l1 collected_Cons [of "\<lambda>s. round < 4 \<longrightarrow> round_ok round s" _ "NodeID p" s outs res] ok
    by (simp add: proceeds_of_def)
qed (simp add: proceeds_of_def)

lemma deliver_to_Ok:
  assumes "deliver_to (recorded api) (waiting wait) c key outs round r senders (w, l) = (Ok x, (w', l'))"
  shows "l' = l @ deliveries_to key round (\<lambda>n. the (map_of outs n)) senders r
    \<and> (\<forall>s \<in> set senders. NodeID s \<noteq> NodeID r \<longrightarrow> round = 2 \<longrightarrow>
         (\<exists>u. u \<noteq> [] \<and> map_of (ds_Unicasts (the (map_of outs (NodeID s)))) (NodeID r) = Some u))"
  using assms
proof (induction senders arbitrary: w l)
  case (Cons s senders)
  show ?case
  proof (cases "NodeID s = NodeID r")
    case True
    with Cons.prems have "deliver_to (recorded api) (waiting wait) c key outs round r senders (w, l) = (Ok x, (w', l'))" by simp
    from Cons.IH [OF this] True show ?thesis by (simp add: deliveries_to_def)
  next
    case False
    with Cons.prems obtain out where out: "map_of outs (NodeID s) = Some out" by (auto split: option.splits)
    define u where "u = (case map_of (ds_Unicasts out) (NodeID r) of None \<Rightarrow> [] | Some u \<Rightarrow> u)"
    define msg where "msg = \<lparr>dl_Round = round, dl_From = NodeID s, dl_Broadcast = ds_Broadcast out, dl_Unicast = (if round = 2 then u else [])\<rparr>"
    from Cons.prems False out obtain y v l1 where u: "round = 2 \<longrightarrow> u \<noteq> []"
      and call: "callWithRetry (waiting wait) c (recording (\<lambda>_. Delivered (Client r) key msg) (DeliverDKG api (Client r) key msg)) (w, l)
        = (Ok y, (v, l1))"
      and rest: "deliver_to (recorded api) (waiting wait) c key outs round r senders (v, l1) = (Ok x, (w', l'))"
      by (auto simp: act_Ok u_def [symmetric] msg_def Let_def split: if_splits)
    have "msg = message round (\<lambda>n. the (map_of outs n)) (NodeID s) (NodeID r)"
      using u out by (auto simp: msg_def message_def u_def split: option.splits)
    then show ?thesis using Cons.IH [OF rest] callWithRetry_recording [OF call] False u out
      by (auto simp: deliveries_to_def u_def split: option.splits)
  qed
qed (simp add: deliveries_to_def)

lemma deliver_each_Ok:
  assumes "deliver_each (recorded api) (waiting wait) c key outs round senders rs (w, l) = (Ok x, (w', l'))"
  shows "l' = l @ concat (map (deliveries_to key round (\<lambda>n. the (map_of outs n)) senders) rs)
    \<and> (\<forall>r \<in> set rs. \<forall>s \<in> set senders. NodeID s \<noteq> NodeID r \<longrightarrow> round = 2 \<longrightarrow>
         (\<exists>u. u \<noteq> [] \<and> map_of (ds_Unicasts (the (map_of outs (NodeID s)))) (NodeID r) = Some u))"
  using assms
proof (induction rs arbitrary: w l)
  case (Cons r rs)
  from Cons.prems obtain y v l1 where d: "deliver_to (recorded api) (waiting wait) c key outs round r senders (w, l) = (Ok y, (v, l1))"
    and rest: "deliver_each (recorded api) (waiting wait) c key outs round senders rs (v, l1) = (Ok x, (w', l'))"
    by (auto simp: act_Ok)
  from deliver_to_Ok [OF d] Cons.IH [OF rest] show ?case by simp
qed simp


lemma group_key_Inr:
  "group_key k xs = Inr k' \<Longrightarrow>
     (\<forall>(n, s) \<in> set xs. ds_Status s = keyStatusCompleted \<and> ds_PublicKey s = k') \<and> (xs \<noteq> [] \<longrightarrow> k' \<noteq> []) \<and> (k \<noteq> [] \<longrightarrow> k' = k)"
  by (induction k xs rule: group_key.induct) (auto split: if_splits)

definition protocol ::
    "'c DKGRequest \<Rightarrow> dkgBootstrap \<Rightarrow> (string \<Rightarrow> DKGStatus) \<Rightarrow> (string \<Rightarrow> DKGStatus) \<Rightarrow> (string \<Rightarrow> DKGStatus) \<Rightarrow> (string \<Rightarrow> DKGStatus)
     \<Rightarrow> 'c event list" where
  "protocol req b out1 out2 out3 out4 =
     (let key = dr_KeyName req; ps = dr_Participants req
      in starts_of req b out1 ps @ deliveries_of key 1 out1 ps @ proceeds_of key 2 out2 ps @ deliveries_of key 2 out2 ps
         @ proceeds_of key 3 out3 ps @ deliveries_of key 3 out3 ps @ proceeds_of key 4 out4 ps)"

lemma CoordinateDKG_Ok:
  assumes "CoordinateDKG (recorded api) (waiting wait) order c req (w, []) = (Ok res, (w', events))"
    and "distinct (map NodeID (dr_Participants req))"
  shows "\<exists>b r1 r2 r3. newDKGBootstrap c req = Inr b
    \<and> collected (round_ok 1) (map NodeID (dr_Participants req)) [] r1
    \<and> collected (round_ok 2) (map NodeID (dr_Participants req)) [] r2
    \<and> collected (round_ok 3) (map NodeID (dr_Participants req)) [] r3
    \<and> collected (\<lambda>_. True) (map NodeID (dr_Participants req)) [] (rs_Nodes res)
    \<and> group_key [] (order (rs_Nodes res)) = Inr (rs_PublicKey res)
    \<and> events = protocol req b (\<lambda>n. the (map_of r1 n)) (\<lambda>n. the (map_of r2 n)) (\<lambda>n. the (map_of r3 n)) (\<lambda>n. the (map_of (rs_Nodes res) n))
    \<and> (\<forall>r \<in> set (dr_Participants req). \<forall>s \<in> set (dr_Participants req). NodeID s \<noteq> NodeID r \<longrightarrow>
         (\<exists>u. u \<noteq> [] \<and> map_of (ds_Unicasts (the (map_of r2 (NodeID s)))) (NodeID r) = Some u))
    \<and> rs_KeyName res = dr_KeyName req \<and> rs_GroupName res = dr_GroupName req \<and> rs_SessionID res = dr_SessionID req"
proof -
  let ?api = "recorded api" and ?wait = "waiting wait" and ?key = "dr_KeyName req" and ?ps = "dr_Participants req"
  from assms(1) obtain b r1 r2 r3 r4 k x1 x2 x3 w1 w2 w3 w4 w5 w6 w7 l1 l2 l3 l4 l5 l6 l7 where
    b: "newDKGBootstrap c req = Inr b"
    and s1: "start_each ?api ?wait c req b ?ps [] (w, []) = (Ok r1, (w1, l1))"
    and d1: "deliver_each ?api ?wait c ?key r1 1 ?ps ?ps (w1, l1) = (Ok x1, (w2, l2))"
    and s2: "proceed_each ?api ?wait c ?key 2 ?ps [] (w2, l2) = (Ok r2, (w3, l3))"
    and d2: "deliver_each ?api ?wait c ?key r2 2 ?ps ?ps (w3, l3) = (Ok x2, (w4, l4))"
    and s3: "proceed_each ?api ?wait c ?key 3 ?ps [] (w4, l4) = (Ok r3, (w5, l5))"
    and d3: "deliver_each ?api ?wait c ?key r3 3 ?ps ?ps (w5, l5) = (Ok x3, (w6, l6))"
    and s4: "proceed_each ?api ?wait c ?key 4 ?ps [] (w6, l6) = (Ok r4, (w', events))"
    and k: "group_key [] (order r4) = Inr k"
    and res: "res = \<lparr>rs_KeyName = dr_KeyName req, rs_GroupName = dr_GroupName req, rs_SessionID = dr_SessionID req,
            rs_PublicKey = k, rs_Nodes = r4\<rparr>"
    unfolding CoordinateDKG_def startDKG_def proceedRound_def deliverRound_def
    by (auto simp: act_Ok)
  note start_each_Ok [OF s1 assms(2)] deliver_each_Ok [OF d1] proceed_each_Ok [OF s2 assms(2)] deliver_each_Ok [OF d2]
    proceed_each_Ok [OF s3 assms(2)] deliver_each_Ok [OF d3] proceed_each_Ok [OF s4 assms(2)]
  then show ?thesis using b k
    by (intro exI [of _ b] exI [of _ r1] exI [of _ r2] exI [of _ r3])
      (simp add: res protocol_def deliveries_of_def Let_def)
qed

subsection \<open>Seeds\<close>

definition lookup :: "(string \<times> (string \<times> string) list) list \<Rightarrow> string \<Rightarrow> string \<Rightarrow> string option" where
  "lookup m a b = (case map_of m a of None \<Rightarrow> None | Some inner \<Rightarrow> map_of inner b)"

text \<open>\<open>a\<close> stands before \<open>b\<close>.\<close>

fun before :: "'a list \<Rightarrow> 'a \<Rightarrow> 'a \<Rightarrow> bool" where
  "before [] a b \<longleftrightarrow> False"
| "before (x # xs) a b \<longleftrightarrow> a = x \<and> b \<in> set xs \<or> before xs a b"

lemma before_set: "before xs a b \<Longrightarrow> a \<in> set xs \<and> b \<in> set xs"
  by (induction xs) auto

lemma before_total: "distinct xs \<Longrightarrow> a \<in> set xs \<Longrightarrow> b \<in> set xs \<Longrightarrow> a \<noteq> b \<Longrightarrow> before xs a b \<noteq> before xs b a"
  by (induction xs) (auto dest: before_set)

lemma before_irrefl: "distinct xs \<Longrightarrow> \<not> before xs a a"
  by (induction xs) auto

lemma put_seed_lookup:
  assumes "a \<in> dom (map_of m)"
  shows "lookup (put_seed a b s m) x y = (if x = a \<and> y = b then Some s else lookup m x y)"
    and "dom (map_of (put_seed a b s m)) = dom (map_of m)"
  using assms by (auto simp: put_seed_def lookup_def simp del: map_of_eq_Some_iff)

lemma pairwise_with_lookup:
  assumes "left \<in> dom (map_of m)" "set rights \<subseteq> dom (map_of m)" "left \<notin> set rights" "distinct rights"
  shows "dom (map_of (pairwise_with seed left rights m)) = dom (map_of m)
    \<and> lookup (pairwise_with seed left rights m) a b =
        (if a = left \<and> b \<in> set rights then Some (seed left b)
         else if b = left \<and> a \<in> set rights then Some (seed left a) else lookup m a b)"
  using assms
proof (induction seed left rights m rule: pairwise_with.induct)
  case (2 seed left right rights m)
  let ?m = "put_seed right left (seed left right) (put_seed left right (seed left right) m)"
  have d: "right \<in> dom (map_of m)" "left \<in> dom (map_of m)" using "2.prems" by auto
  have dom: "dom (map_of ?m) = dom (map_of m)" using d put_seed_lookup(2) by metis
  have look: "lookup ?m a b = (if a = right \<and> b = left then Some (seed left right)
      else if a = left \<and> b = right then Some (seed left right) else lookup m a b)"
    using d put_seed_lookup(1) [of right "put_seed left right (seed left right) m"] put_seed_lookup [of left m] by simp
  have "dom (map_of (pairwise_with seed left rights ?m)) = dom (map_of ?m)
    \<and> lookup (pairwise_with seed left rights ?m) a b =
        (if a = left \<and> b \<in> set rights then Some (seed left b)
         else if b = left \<and> a \<in> set rights then Some (seed left a) else lookup ?m a b)"
    using "2.IH" "2.prems" unfolding dom by simp
  then show ?case unfolding dom look using "2.prems" by auto
qed simp

lemma pairwise_all_lookup:
  assumes "set ns \<subseteq> dom (map_of m)" "distinct ns"
  shows "lookup (pairwise_all seed ns m) a b =
    (if before ns a b then Some (seed a b) else if before ns b a then Some (seed b a) else lookup m a b)"
  using assms
proof (induction seed ns m rule: pairwise_all.induct)
  case (2 seed x ns m)
  let ?m = "pairwise_with seed x ns m"
  have w: "dom (map_of ?m) = dom (map_of m)" "lookup ?m a b = (if a = x \<and> b \<in> set ns then Some (seed x b)
         else if b = x \<and> a \<in> set ns then Some (seed x a) else lookup m a b)"
    using pairwise_with_lookup [of x m ns seed a b] "2.prems" by auto
  have "lookup (pairwise_all seed ns ?m) a b =
    (if before ns a b then Some (seed a b) else if before ns b a then Some (seed b a) else lookup ?m a b)"
    using "2.IH" "2.prems" w(1) by simp
  then show ?case unfolding w(2) using "2.prems"(2) by (auto dest: before_set)
qed simp

lemma empties_lookup: "map_of (foldl (\<lambda>m n. put_entry n [] m) m0 ns) a = (if a \<in> set ns then Some [] else map_of m0 a)"
  by (induction ns arbitrary: m0) auto

lemma split_at_unique:
  assumes "a @ x # b = a' @ x # b'" "x \<notin> set a" "x \<notin> set a'"
  shows "a = a' \<and> b = b'"
proof -
  have "takeWhile (\<lambda>y. y \<noteq> x) (a @ x # b) = a" "takeWhile (\<lambda>y. y \<noteq> x) (a' @ x # b') = a'"
    using assms(2,3) by (auto simp: takeWhile_append takeWhile_tail takeWhile_eq_all_conv)
  then show ?thesis using assms(1) by simp
qed

lemma seed_message_inj:
  assumes "seed_message s k l = seed_message s' k' l'"
    and "CHR 0x00 \<notin> set s" "CHR 0x00 \<notin> set s'" "CHR 0x00 \<notin> set k" "CHR 0x00 \<notin> set k'"
  shows "s = s' \<and> k = k' \<and> l = l'"
  using assms split_at_unique [of s "CHR 0x00" "k @ CHR 0x00 # l" s' "k' @ CHR 0x00 # l'"]
    split_at_unique [of k "CHR 0x00" l k' l'] by (auto simp: seed_message_def)

section \<open>Properties\<close>

text \<open>
  C7. A key generation that succeeds has run the protocol, and the members agree. With distinct node ids, and whatever
  the members are and however often calls were retried, the calls that the members answered are exactly these, in this
  order: every member is started with the common seed and its own pairwise seeds; then in each of the rounds 1, 2 and 3
  every member gets the message of every other member, with the broadcast of that sender's output of the round and, in
  round 2, the unicast that the sender made for this receiver, which is not empty; and between the deliveries every member
  proceeds. Outputs of a round report that round and have a broadcast. At the end every member reported completion with
  the same public key, which is the one returned and is not empty. The order in which Go visits the map of final statuses
  does not matter.
\<close>

theorem dkg_transcript:
  assumes "CoordinateDKG (recorded api) (waiting wait) order c req (w, []) = (Ok res, (w', events))"
    and "distinct (map NodeID (dr_Participants req))" "set (order (rs_Nodes res)) = set (rs_Nodes res)"
  shows "\<exists>b out1 out2 out3 out4. newDKGBootstrap c req = Inr b \<and> events = protocol req b out1 out2 out3 out4
    \<and> (\<forall>p \<in> set (dr_Participants req).
         round_ok 1 (out1 (NodeID p)) \<and> round_ok 2 (out2 (NodeID p)) \<and> round_ok 3 (out3 (NodeID p))
         \<and> map_of (rs_Nodes res) (NodeID p) = Some (out4 (NodeID p))
         \<and> ds_Status (out4 (NodeID p)) = keyStatusCompleted \<and> ds_PublicKey (out4 (NodeID p)) = rs_PublicKey res
         \<and> rs_PublicKey res \<noteq> []
         \<and> (\<forall>r \<in> set (dr_Participants req). NodeID r \<noteq> NodeID p \<longrightarrow>
              (\<exists>u. u \<noteq> [] \<and> map_of (ds_Unicasts (out2 (NodeID p))) (NodeID r) = Some u)))
    \<and> set (map fst (rs_Nodes res)) = set (map NodeID (dr_Participants req))"
proof -
  from CoordinateDKG_Ok [OF assms(1,2)] obtain b r1 r2 r3 where b: "newDKGBootstrap c req = Inr b"
    and col: "collected (round_ok 1) (map NodeID (dr_Participants req)) [] r1"
      "collected (round_ok 2) (map NodeID (dr_Participants req)) [] r2"
      "collected (round_ok 3) (map NodeID (dr_Participants req)) [] r3"
      "collected (\<lambda>_. True) (map NodeID (dr_Participants req)) [] (rs_Nodes res)"
    and k: "group_key [] (order (rs_Nodes res)) = Inr (rs_PublicKey res)"
    and ev: "events = protocol req b (\<lambda>n. the (map_of r1 n)) (\<lambda>n. the (map_of r2 n)) (\<lambda>n. the (map_of r3 n))
      (\<lambda>n. the (map_of (rs_Nodes res) n))"
    and uni: "\<forall>r \<in> set (dr_Participants req). \<forall>s \<in> set (dr_Participants req). NodeID s \<noteq> NodeID r \<longrightarrow>
         (\<exists>u. u \<noteq> [] \<and> map_of (ds_Unicasts (the (map_of r2 (NodeID s)))) (NodeID r) = Some u)" by blast
  have good: "\<exists>s. map_of r (NodeID p) = Some s \<and> good s"
    if "collected good (map NodeID (dr_Participants req)) [] r" "p \<in> set (dr_Participants req)" for good r p
  proof -
    from that(1) have "if NodeID p \<in> set (map NodeID (dr_Participants req)) then \<exists>s. map_of r (NodeID p) = Some s \<and> good s
        else map_of r (NodeID p) = map_of [] (NodeID p)" unfolding collected_def by blast
    then show ?thesis using that(2) by (simp del: map_of_eq_Some_iff)
  qed
  have final: "ds_Status s = keyStatusCompleted \<and> ds_PublicKey s = rs_PublicKey res \<and> rs_PublicKey res \<noteq> []"
    if "map_of (rs_Nodes res) n = Some s" for n s
    using group_key_Inr [OF k] map_of_SomeD [OF that] assms(3) by force
  let ?o = "\<lambda>r n. the (map_of r n)"
  have each: "round_ok 1 (?o r1 (NodeID p)) \<and> round_ok 2 (?o r2 (NodeID p)) \<and> round_ok 3 (?o r3 (NodeID p))
      \<and> map_of (rs_Nodes res) (NodeID p) = Some (?o (rs_Nodes res) (NodeID p))
      \<and> ds_Status (?o (rs_Nodes res) (NodeID p)) = keyStatusCompleted \<and> ds_PublicKey (?o (rs_Nodes res) (NodeID p)) = rs_PublicKey res
      \<and> rs_PublicKey res \<noteq> []
      \<and> (\<forall>r \<in> set (dr_Participants req). NodeID r \<noteq> NodeID p \<longrightarrow>
           (\<exists>u. u \<noteq> [] \<and> map_of (ds_Unicasts (?o r2 (NodeID p))) (NodeID r) = Some u))"
    if p: "p \<in> set (dr_Participants req)" for p
  proof -
    obtain s1 s2 s3 s4 where o: "map_of r1 (NodeID p) = Some s1" "round_ok 1 s1" "map_of r2 (NodeID p) = Some s2" "round_ok 2 s2"
      "map_of r3 (NodeID p) = Some s3" "round_ok 3 s3" "map_of (rs_Nodes res) (NodeID p) = Some s4"
      using good [OF col(1) p] good [OF col(2) p] good [OF col(3) p] good [OF col(4) p] by blast
    have "\<exists>u. u \<noteq> [] \<and> map_of (ds_Unicasts s2) (NodeID r) = Some u"
      if "r \<in> set (dr_Participants req)" "NodeID r \<noteq> NodeID p" for r
      using bspec [OF bspec [OF uni that(1)] p] that(2) unfolding o(3) option.sel by metis
    then show ?thesis using o(2,4,6) final [OF o(7)] unfolding o(1,3,5,7) option.sel by (intro conjI ballI impI) simp_all
  qed
  have "set (map fst (rs_Nodes res)) = set (map NodeID (dr_Participants req))" using col(4) by (simp add: collected_def)
  with b ev show ?thesis
    by (intro exI [of _ b] exI [of _ "?o r1"] exI [of _ "?o r2"] exI [of _ "?o r3"] exI [of _ "?o (rs_Nodes res)"] conjI ballI each)
qed

definition example_status :: "int \<Rightarrow> DKGStatus" where
  "example_status round = \<lparr>ds_Name = ''key'', ds_Group = ''g'', ds_SessionID = ''s'', ds_NodeID = [], ds_Status = keyStatusCompleted,
     ds_Round = round, ds_Broadcast = ''b'', ds_Unicasts = [(''a'', ''u''), (''b'', ''u'')], ds_PendingFrom = None, ds_PublicKey = ''k''\<rparr>"

definition example_member :: "(string, nat) GroupMemberClient" where
  "example_member = \<lparr>StartDKG = (\<lambda>_ _. ret (Some (example_status 1))), DeliverDKG = (\<lambda>_ _ _. ret None),
     ProceedDKG = (\<lambda>_ _ round. ret (Some (example_status round))), ReadDKGStatus = (\<lambda>_ _. ret None)\<rparr>"

definition example_dkg :: "string DKGRequest" where
  "example_dkg = \<lparr>dr_KeyName = ''key'', dr_GroupName = ''g'', dr_SessionID = ''s'', dr_Threshold = 2,
     dr_Participants = [\<lparr>NodeID = ''a'', PartyIndex = 0, Client = ''A''\<rparr>, \<lparr>NodeID = ''b'', PartyIndex = 1, Client = ''B''\<rparr>]\<rparr>"

lemma callWithRetry_ret: "callWithRetry wait c (recording ev (ret x)) = recording ev (ret x)"
  by (auto simp: fun_eq_iff callWithRetry_def Let_def retry_loop.simps recording_def)

lemma recording_ret: "recording ev (ret x) (w, l) = (Ok x, (w, l @ [ev x]))"
  by (simp add: recording_run)

theorem dkg_transcript_witness:
  "\<exists>res w events. CoordinateDKG (recorded example_member) (waiting (\<lambda>_ w. (None, w))) id (NewCoordinator [WithSessionSecret ''s'']) example_dkg (0, [])
     = (Ok res, (w, events)) \<and> rs_PublicKey res = ''k'' \<and> length events = 14
     \<and> (\<exists>b out1 out2 out3 out4. events = protocol example_dkg b out1 out2 out3 out4)"
proof -
  let ?c = "NewCoordinator [WithSessionSecret ''s'']"
  obtain b where b: "newDKGBootstrap ?c example_dkg = Inr b"
    by (simp add: newDKGBootstrap_def NewCoordinator_def WithSessionSecret_def Let_def)
  have "\<exists>res w events. CoordinateDKG (recorded example_member) (waiting (\<lambda>_ w. (None, w))) id ?c example_dkg (0, [])
     = (Ok res, (w, events)) \<and> rs_PublicKey res = ''k'' \<and> length events = 14"
    unfolding CoordinateDKG_def startDKG_def proceedRound_def deliverRound_def b
    by (simp add: example_dkg_def example_member_def callWithRetry_ret recording_ret andThen_def wrapErr_def attempt_def
        requireRoundOutput_def example_status_def deref_def)
  then obtain res w events where run: "CoordinateDKG (recorded example_member) (waiting (\<lambda>_ w. (None, w))) id ?c example_dkg (0, [])
     = (Ok res, (w, events))" "rs_PublicKey res = ''k''" "length events = 14" by blast
  have "distinct (map NodeID (dr_Participants example_dkg))" by (simp add: example_dkg_def)
  from dkg_transcript [OF run(1) this] have "\<exists>b out1 out2 out3 out4. events = protocol example_dkg b out1 out2 out3 out4"
    unfolding id_apply by metis
  then show ?thesis using run by blast
qed

text \<open>A call that also counts how often it is made.\<close>

definition counted :: "('w, 'e, 'a) act \<Rightarrow> ('w \<times> nat, 'e, 'a) act" where
  "counted call = (\<lambda>(w, n). let (r, w') = call w in (r, (w', Suc n)))"

definition wait_counted :: "'w wait \<Rightarrow> ('w \<times> nat) wait" where
  "wait_counted wait = (\<lambda>d (w, n). let (r, w') = wait d w in (r, (w', n)))"

lemma retry_loop_bound:
  assumes "retry_loop (wait_counted wait) backoff attempts k (counted call) (w, n) = (r, (w', n'))" "k \<le> attempts"
  shows "n < n' \<and> int (n' - n) \<le> attempts - k + 1
    \<and> (\<forall>e. r = Err e \<longrightarrow> isRetryableOpenBaoError e \<longrightarrow> int (n' - n) = attempts - k + 1)"
  using assms
proof (induction "nat (attempts - k)" arbitrary: k w n)
  case 0
  obtain r1 v where c: "call w = (r1, v)" by (cases "call w")
  then show ?case using 0
    by (subst (asm) retry_loop.simps) (auto simp: counted_def split: res.splits)
next
  case (Suc m)
  obtain r1 v where c: "call w = (r1, v)" by (cases "call w")
  have cc: "counted call (w, n) = (r1, (v, Suc n))" by (simp add: counted_def c)
  note run = Suc.prems(1) [unfolded retry_loop.simps [of _ _ _ k] cc]
  show ?case
  proof (cases "\<exists>e. r1 = Err e \<and> isRetryableOpenBaoError e")
    case False
    then have "n' = Suc n \<and> (\<forall>e. r = Err e \<longrightarrow> \<not> isRetryableOpenBaoError e)"
      using run by (cases r1) auto
    then show ?thesis using Suc.prems(2) by auto
  next
    case True
    then obtain e where e: "r1 = Err e" "isRetryableOpenBaoError e" by blast
    have k: "\<not> attempts \<le> k" "m = nat (attempts - (k + 1))" "k + 1 \<le> attempts" using Suc.hyps(2) by simp_all
    obtain r2 v2 where w2: "wait (backoff * word_of_int k) v = (r2, v2)" by (cases "wait (backoff * word_of_int k) v")
    then have wc: "wait_counted wait (backoff * word_of_int k) (v, Suc n) = (r2, (v2, Suc n))" by (simp add: wait_counted_def)
    consider (again) u where "retry_loop (wait_counted wait) backoff attempts (k + 1) (counted call) (u, Suc n) = (r, (w', n'))"
      | (canceled) x where "r = Err (RetryCanceled x)" "n' = Suc n"
      using run e k(1) wc by (auto simp: Let_def split: if_splits option.splits)
    then show ?thesis
    proof cases
      case again
      from Suc.hyps(1) [OF k(2) again k(3)] show ?thesis by auto
    next
      case canceled
      then show ?thesis using k(1) by (auto simp: isRetryableOpenBaoError_def)
    qed
  qed
qed

text \<open>
  C33. Retrying ends. The loop without a condition in its head returns after at least one and at most the configured number
  of calls (at least one, even for a configured number below one), for every duration of the back-off, also one that wraps
  around; and it gives up on an error that is worth retrying only after all of them.
\<close>

theorem retry_terminates:
  assumes "callWithRetry (wait_counted wait) c (counted call) (w, 0) = (r, (w', n))"
  shows "1 \<le> n \<and> int n \<le> max 1 (retryAttempts c) \<and> (\<forall>e. r = Err e \<longrightarrow> isRetryableOpenBaoError e \<longrightarrow> int n = max 1 (retryAttempts c))"
proof -
  let ?a = "if retryAttempts c < 1 then 1 else retryAttempts c"
  have "?a = max 1 (retryAttempts c)" by simp
  then show ?thesis
    using retry_loop_bound [of wait "retryBackoff c" ?a 1 call w 0 r w' n] assms
    by (simp add: callWithRetry_def Let_def split: if_splits)
qed

theorem retry_terminates_witness:
  "callWithRetry (wait_counted (\<lambda>_ w. (None, w))) (NewCoordinator []) (counted (\<lambda>w. (Err (MemberBao RequestFailed) :: (_, unit) res, Suc w))) (0 :: nat, 0)
     = (Err (MemberBao RequestFailed), (3, 3)) \<and> int 3 \<le> max 1 (retryAttempts (NewCoordinator []))"
proof -
  have run: "callWithRetry (wait_counted (\<lambda>_ w. (None, w))) (NewCoordinator []) (counted (\<lambda>w. (Err (MemberBao RequestFailed) :: (_, unit) res, Suc w))) (0 :: nat, 0)
     = (Err (MemberBao RequestFailed), (3, 3))"
    by (simp add: callWithRetry_def NewCoordinator_def retry_loop.simps counted_def wait_counted_def isRetryableOpenBaoError_def Let_def)
  with retry_terminates [OF run] show ?thesis by simp
qed

text \<open>
  Retrying gets through. If the first calls fail with errors worth retrying, fewer of them than the configured number,
  and the next call is answered, the answer is returned, as long as the context is not done while waiting.
\<close>

theorem retry_succeeds:
  assumes "\<And>i. i < k \<Longrightarrow> call (ws i) = (Err (es i), vs i) \<and> isRetryableOpenBaoError (es i)"
    and "\<And>i d. i < k \<Longrightarrow> wait d (vs i) = (None, ws (Suc i)) \<and> (sint (retryBackoff c * word_of_int (int i + 1)) \<le> 0 \<longrightarrow> ws (Suc i) = vs i)"
    and "call (ws k) = (Ok s, w')" "int k < max 1 (retryAttempts c)"
  shows "callWithRetry wait c call (ws 0) = (Ok s, w')"
proof -
  let ?a = "if retryAttempts c < 1 then 1 else retryAttempts c"
  have "retry_loop wait (retryBackoff c) ?a (int j + 1) call (ws j) = (Ok s, w')" if "j \<le> k" for j
    using that
  proof (induction rule: inc_induct)
    case base
    show ?case by (subst retry_loop.simps) (simp add: assms(3))
  next
    case (step j)
    have "\<not> ?a \<le> int j + 1" using assms(4) step.hyps by auto
    then show ?case
      using assms(1,2) [OF step.hyps(2)] step.IH
      by (subst retry_loop.simps) (auto simp: Let_def algebra_simps)
  qed
  from this [of 0] show ?thesis by (simp add: callWithRetry_def Let_def)
qed

theorem retry_succeeds_witness:
  "callWithRetry (\<lambda>_ w. (None, w)) (NewCoordinator [])
     (\<lambda>w. if w = (1 :: nat) then (Ok ''done'', w) else (Err (MemberBao (StatusError 503 [] [])), Suc w)) 0 = (Ok ''done'', 1)"
  using retry_succeeds [where k = 1 and ws = id and vs = Suc and es = "\<lambda>_. MemberBao (StatusError 503 [] [])" and s = "''done''"
      and wait = "\<lambda>_ w. (None, w)" and c = "NewCoordinator []" and w' = 1
      and call = "\<lambda>w. if w = (1 :: nat) then (Ok ''done'', w) else (Err (MemberBao (StatusError 503 [] [])), Suc w)"]
  by (simp add: isRetryableOpenBaoError_def NewCoordinator_def)

text \<open>Who holds which pairwise seed after the bootstrap.\<close>

lemma bootstrap_lookup:
  assumes "newDKGBootstrap c req = Inr b" "distinct (map NodeID (dr_Participants req))"
  shows "lookup (pairwiseSeedsByNode b) x y =
    (if before (map NodeID (dr_Participants req)) x y then Some (deriveSeed c (dr_SessionID req) (dr_KeyName req) (pair_label x y))
     else if before (map NodeID (dr_Participants req)) y x then Some (deriveSeed c (dr_SessionID req) (dr_KeyName req) (pair_label y x))
     else None)"
proof -
  let ?ns = "map NodeID (dr_Participants req)" and ?seed = "deriveSeed c (dr_SessionID req) (dr_KeyName req)"
  let ?m = "foldl (\<lambda>m n. put_entry n [] m) [] ?ns"
  have b: "pairwiseSeedsByNode b = pairwise_all (\<lambda>l r. ?seed (pair_label l r)) ?ns ?m"
    using assms(1) by (auto simp: newDKGBootstrap_def Let_def split: if_splits)
  have d: "set ?ns \<subseteq> dom (map_of ?m)" by (auto simp: empties_lookup simp del: map_of_eq_Some_iff)
  have e: "lookup ?m x y = None" for x y by (simp add: lookup_def empties_lookup)
  show ?thesis unfolding b using pairwise_all_lookup [OF d assms(2)] by (simp only: e)
qed

text \<open>
  C34. The bootstrap seeds fit together. For distinct node ids, every two different members share one pairwise seed, the one
  derived from the label that names them in the order of the request, and both hold it; no member has a seed for itself or
  for a stranger; the common seed is the one of its own label.
\<close>

theorem bootstrap_seeds:
  assumes "newDKGBootstrap c req = Inr b" "distinct (map NodeID (dr_Participants req))"
  shows "commonSeed b = deriveSeed c (dr_SessionID req) (dr_KeyName req) ''common''
    \<and> (\<forall>x y. lookup (pairwiseSeedsByNode b) x y =
         (if before (map NodeID (dr_Participants req)) x y then Some (deriveSeed c (dr_SessionID req) (dr_KeyName req) (pair_label x y))
          else if before (map NodeID (dr_Participants req)) y x then Some (deriveSeed c (dr_SessionID req) (dr_KeyName req) (pair_label y x))
          else None))
    \<and> (\<forall>x y. lookup (pairwiseSeedsByNode b) x y = lookup (pairwiseSeedsByNode b) y x)
    \<and> (\<forall>x y. (\<exists>s. lookup (pairwiseSeedsByNode b) x y = Some s)
         \<longleftrightarrow> x \<noteq> y \<and> {x, y} \<subseteq> set (map NodeID (dr_Participants req)))"
proof -
  let ?ns = "map NodeID (dr_Participants req)"
  have b: "commonSeed b = deriveSeed c (dr_SessionID req) (dr_KeyName req) ''common''"
    using assms(1) by (auto simp: newDKGBootstrap_def Let_def split: if_splits)
  note l = bootstrap_lookup [OF assms]
  have anti: "\<not> (before ?ns x y \<and> before ?ns y x)" for x y
    using before_total [OF assms(2), of x y] before_irrefl [OF assms(2), of x] before_set [of ?ns x y] by blast
  have tot: "before ?ns x y \<or> before ?ns y x \<longleftrightarrow> x \<noteq> y \<and> {x, y} \<subseteq> set ?ns" for x y
    using before_total [OF assms(2), of x y] before_irrefl [OF assms(2), of x] before_set [of ?ns x y] before_set [of ?ns y x] by blast
  have sym: "lookup (pairwiseSeedsByNode b) x y = lookup (pairwiseSeedsByNode b) y x" for x y using anti [of x y] unfolding l by auto
  have some: "(\<exists>s. lookup (pairwiseSeedsByNode b) x y = Some s) \<longleftrightarrow> x \<noteq> y \<and> {x, y} \<subseteq> set ?ns" for x y
    unfolding l tot [symmetric] by simp
  show ?thesis by (intro conjI allI b l sym some)
qed

theorem bootstrap_seeds_witness:
  "\<exists>b. newDKGBootstrap (NewCoordinator [WithSessionSecret ''s'']) example_dkg = Inr b
     \<and> lookup (pairwiseSeedsByNode b) ''a'' ''b'' = lookup (pairwiseSeedsByNode b) ''b'' ''a''"
proof -
  obtain b where b: "newDKGBootstrap (NewCoordinator [WithSessionSecret ''s'']) example_dkg = Inr b"
    by (simp add: newDKGBootstrap_def NewCoordinator_def WithSessionSecret_def Let_def)
  moreover have "distinct (map NodeID (dr_Participants example_dkg))" by (simp add: example_dkg_def)
  ultimately show ?thesis using bootstrap_seeds by blast
qed

text \<open>
  What the seeds are derived from keeps sessions, keys and pairs apart, as long as session ids and key names have no
  NUL and node ids have no colon: then two equal messages of the keyed hash come from the same session, key and label, and
  the labels of different pairs differ from each other and from the common one.
\<close>

theorem seed_messages_apart:
  assumes "CHR 0x00 \<notin> set s" "CHR 0x00 \<notin> set s'" "CHR 0x00 \<notin> set k" "CHR 0x00 \<notin> set k'"
    and "CHR '':'' \<notin> set a" "CHR '':'' \<notin> set a'"
  shows "(seed_message s k l = seed_message s' k' l' \<longleftrightarrow> s = s' \<and> k = k' \<and> l = l')
    \<and> (pair_label a b = pair_label a' b' \<longleftrightarrow> a = a' \<and> b = b') \<and> pair_label a b \<noteq> ''common''"
  using seed_message_inj [of s k l s' k' l'] split_at_unique [of a "CHR '':''" b a' b'] assms by (auto simp: pair_label_def)

theorem seed_messages_apart_witness:
  "seed_message ''s'' ''k'' (pair_label ''a'' ''b'') \<noteq> seed_message ''s'' ''k'' (pair_label ''b'' ''a'')"
  using seed_messages_apart [of "''s''" "''s''" "''k''" "''k''" "''a''" "''b''" _ _ "''b''" "''a''"] by simp

text \<open>
  Without those restrictions they are not kept apart. The label does not escape the colon, and nothing in the code excludes
  it from node ids: two different pairs of members of one session are given the same seed.
\<close>

lemma pair_seeds_collide:
  assumes "newDKGBootstrap c req = Inr boot" "distinct (map NodeID (dr_Participants req))"
    and "before (map NodeID (dr_Participants req)) x (y @ '':'' @ z)" "before (map NodeID (dr_Participants req)) (x @ '':'' @ y) z"
  shows "lookup (pairwiseSeedsByNode boot) x (y @ '':'' @ z) = lookup (pairwiseSeedsByNode boot) (x @ '':'' @ y) z
    \<and> lookup (pairwiseSeedsByNode boot) (x @ '':'' @ y) z \<noteq> None"
  using assms(3,4) unfolding bootstrap_lookup [OF assms(1,2)] by (simp add: pair_label_def)

end
