(* ===== verification/ThresholdPlugin.thy ===== *)
theory ThresholdPlugin
  imports Dkg "HOL-Library.Char_ord" "HOL-Library.List_Lexorder" "HOL-Library.Multiset"
begin

text \<open>
  The threshold plugin (\<^verbatim>\<open>threshold/plugin.go\<close>) and its client of a group member (\<^verbatim>\<open>threshold/openbao.go\<close>): targets, request
  bodies and decoded statuses, the checks of a request, and the handler.

  \<open>parse\<close> is \<^verbatim>\<open>url.Parse\<close>: what precedes the path of a URL, whether it has a host, the escaped path, and what follows.
  \<open>cause\<close> tells whether a failed request failed because of the context or a timeout (\<^verbatim>\<open>errors.Is\<close>). Integers of the
  messages are mathematical integers; the round that an answer reports is cut to 32 bits as the code does.
\<close>

section \<open>URLs\<close>

type_synonym url_parse = "string \<Rightarrow> (string \<times> bool \<times> string \<times> string) option"

text \<open>\<^verbatim>\<open>escape\<close> and \<^verbatim>\<open>unescape\<close> for a whole path, and \<^verbatim>\<open>validEncoded\<close>.\<close>

definition url_safe :: "char \<Rightarrow> bool" where
  "url_safe c \<longleftrightarrow> is_alnum c \<or> c \<in> set ''-_.~$&+,/:;=@''"

definition url_escape :: "string \<Rightarrow> string" where
  "url_escape s = concat (map (\<lambda>c. if url_safe c then [c]
     else [CHR ''%'', upper_hex (of_char c div 16), upper_hex (of_char c mod 16)]) s)"

definition valid_encoded :: "string \<Rightarrow> bool" where
  "valid_encoded s \<longleftrightarrow> list_all (\<lambda>c. url_safe c \<or> c \<in> set ''!()*[]%'' \<or> c = CHR 0x27) s"

fun url_unescape :: "string \<Rightarrow> string option" where
  "url_unescape [] = Some []"
| "url_unescape (c # cs) =
     (if c \<noteq> CHR ''%'' then map_option (Cons c) (url_unescape cs)
      else (case cs of
              a # b # rest \<Rightarrow>
                (case (hex_value a, hex_value b) of
                   (Some x, Some y) \<Rightarrow> map_option (Cons (char_of (16 * x + y))) (url_unescape rest)
                 | _ \<Rightarrow> None)
            | _ \<Rightarrow> None))"

text \<open>\<^verbatim>\<open>setPath\<close> and then \<^verbatim>\<open>EscapedPath\<close>: a path with a broken escape leaves the old path in place.\<close>

definition set_path :: "string \<Rightarrow> string \<Rightarrow> string" where
  "set_path old p =
     (case url_unescape p of
        None \<Rightarrow> old
      | Some path \<Rightarrow> if valid_encoded p then p else url_escape path)"

definition url_JoinPath :: "url_parse \<Rightarrow> string \<Rightarrow> string list \<Rightarrow> string option" where
  "url_JoinPath parse base elem =
     (case parse base of
        None \<Rightarrow> None
      | Some (front, host, path, back) \<Rightarrow>
          let joined = (if starts (CHR ''/'') path then path_join (path # elem)
                        else tl (path_join ((CHR ''/'' # path) # elem)));
              p = (if suffix ''/'' (last (path # elem)) \<and> \<not> suffix ''/'' joined then joined @ ''/'' else joined);
              escaped = set_path path p
          in Some (front @ (if host \<and> escaped \<noteq> [] \<and> \<not> starts (CHR ''/'') escaped then CHR ''/'' # escaped else escaped) @ back))"

section \<open>The client of a member\<close>

text \<open>An HTTP client is its timeout.\<close>

record OpenBaoClientConfig =
  oc_BaseURL :: string
  oc_Mount :: string
  oc_HTTPClient :: "u64 option"
  oc_Timeout :: u64

record OpenBaoClient =
  ob_timeout :: u64
  ob_baseURL :: string
  ob_mount :: string

definition NewOpenBaoClient :: "OpenBaoClientConfig \<Rightarrow> OpenBaoClient" where
  "NewOpenBaoClient cfg =
     (let mount = TrimChar (CHR ''/'') (oc_Mount cfg)
      in \<lparr>ob_timeout = (case oc_HTTPClient cfg of
                          Some t \<Rightarrow> t
                        | None \<Rightarrow> if oc_Timeout cfg = 0 then 10 * 1000000000 else oc_Timeout cfg),
          ob_baseURL = TrimRightChar (CHR ''/'') (oc_BaseURL cfg),
          ob_mount = (if mount = [] then defaultMount else mount)\<rparr>)"

definition thresholdPath :: "url_parse \<Rightarrow> OpenBaoClient \<Rightarrow> string list \<Rightarrow> string" where
  "thresholdPath parse c parts =
     (let all = [''v1'', ob_mount c] @ parts
      in case url_JoinPath parse (ob_baseURL c) all of
           None \<Rightarrow> TrimRightChar (CHR ''/'') (ob_baseURL c) @ ''/'' @ JoinChar (CHR ''/'') all
         | Some target \<Rightarrow> target)"

definition dec_string_map :: "(string \<times> string) list decoder" where
  "dec_string_map j old =
     (case j of
        JObj ms \<Rightarrow> foldl (\<lambda>(ok, m) (k, v). let (ok', x) = dec_string v [] in (ok \<and> ok', put_entry k x m)) (True, old) ms
      | JNull \<Rightarrow> (True, [])
      | _ \<Rightarrow> (False, old))"

definition status_field :: "string \<Rightarrow> DKGStatus decoder" where
  "status_field k =
     (if is_field ''name'' k then dec_field ds_Name ds_Name_update dec_string
      else if is_field ''group'' k then dec_field ds_Group ds_Group_update dec_string
      else if is_field ''session_id'' k then dec_field ds_SessionID ds_SessionID_update dec_string
      else if is_field ''node_id'' k then dec_field ds_NodeID ds_NodeID_update dec_string
      else if is_field ''status'' k then dec_field ds_Status ds_Status_update dec_string
      else if is_field ''round'' k then dec_field ds_Round ds_Round_update dec_int
      else if is_field ''broadcast'' k then dec_field ds_Broadcast ds_Broadcast_update dec_string
      else if is_field ''unicasts'' k then dec_field ds_Unicasts ds_Unicasts_update dec_string_map
      else if is_field ''pending_from'' k then dec_field ds_PendingFrom ds_PendingFrom_update (dec_slice dec_string [])
      else if is_field ''public_key'' k then dec_field ds_PublicKey ds_PublicKey_update dec_string
      else dec_skip)"

definition status_zero :: DKGStatus where
  "status_zero = \<lparr>ds_Name = [], ds_Group = [], ds_SessionID = [], ds_NodeID = [], ds_Status = [], ds_Round = 0,
     ds_Broadcast = [], ds_Unicasts = [], ds_PendingFrom = None, ds_PublicKey = []\<rparr>"

definition openBaoDataResponse :: "string \<Rightarrow> DKGStatus option" where
  "openBaoDataResponse = json_unmarshal (dec_data (dec_struct status_field)) status_zero"

text \<open>A request as the coordinator sees its outcome: \<^verbatim>\<open>&resp.Data\<close>, or an error with its cause.\<close>

definition member_call ::
    "('w \<Rightarrow> ctx_error option) \<Rightarrow> ('w, bao_error, DKGStatus) act \<Rightarrow> ('w, member_error, DKGStatus option) act" where
  "member_call cause m w =
     (case m w of
        (Ok s, w') \<Rightarrow> (Ok (Some s), w')
      | (Panics, w') \<Rightarrow> (Panics, w')
      | (Err e, w') \<Rightarrow>
          (case (if e = RequestFailed \<or> e = ReadResponse then cause w' else None) of
             Some c \<Rightarrow> (Err (MemberContext c), w')
           | None \<Rightarrow> (Err (MemberBao e), w')))"

text \<open>Go prints maps with their keys in order.\<close>

definition start_body :: "StartDKGRequest \<Rightarrow> json" where
  "start_body req =
     JObj (omitempty ''algorithm'' (sr_Algorithm req) @ [(''common_seed'', JStr (sr_CommonSeed req))]
       @ omitempty ''curve'' (sr_Curve req) @ [(''group'', JStr (sr_GroupName req))]
       @ (if sr_KeyEpoch req \<noteq> 0 then [(''key_epoch'', JNum (Itoa (sr_KeyEpoch req)))] else [])
       @ [(''pairwise_seeds'', JStr (json_print (JObj (map (\<lambda>(k, v). (k, JStr v)) (sort_key fst (sr_PairwiseSeeds req)))))),
          (''session_id'', JStr (sr_SessionID req))])"

definition bao_StartDKG ::
    "'w server \<Rightarrow> url_parse \<Rightarrow> ('w \<Rightarrow> ctx_error option) \<Rightarrow> OpenBaoClient \<Rightarrow> StartDKGRequest \<Rightarrow> ('w, member_error, DKGStatus option) act" where
  "bao_StartDKG srv parse cause c req =
     member_call cause (Post srv (thresholdPath parse c [''keys'', sr_KeyName req, ''dkg'', ''start'']) (start_body req) openBaoDataResponse)"

definition bao_DeliverDKG ::
    "'w server \<Rightarrow> url_parse \<Rightarrow> ('w \<Rightarrow> ctx_error option) \<Rightarrow> OpenBaoClient \<Rightarrow> string \<Rightarrow> DeliverDKGRequest \<Rightarrow> ('w, member_error, DKGStatus option) act" where
  "bao_DeliverDKG srv parse cause c keyName req =
     member_call cause (Post srv (thresholdPath parse c [''keys'', keyName, ''dkg'', ''deliver''])
       (JObj [(''broadcast'', JStr (dl_Broadcast req)), (''from'', JStr (dl_From req)),
              (''round'', JNum (Itoa (dl_Round req))), (''unicast'', JStr (dl_Unicast req))]) openBaoDataResponse)"

definition bao_ProceedDKG ::
    "'w server \<Rightarrow> url_parse \<Rightarrow> ('w \<Rightarrow> ctx_error option) \<Rightarrow> OpenBaoClient \<Rightarrow> string \<Rightarrow> int \<Rightarrow> ('w, member_error, DKGStatus option) act" where
  "bao_ProceedDKG srv parse cause c keyName round =
     member_call cause (Post srv (thresholdPath parse c [''keys'', keyName, ''dkg'', ''proceed''])
       (JObj [(''round'', JNum (Itoa round))]) openBaoDataResponse)"

definition bao_ReadDKGStatus ::
    "'w server \<Rightarrow> url_parse \<Rightarrow> ('w \<Rightarrow> ctx_error option) \<Rightarrow> OpenBaoClient \<Rightarrow> string \<Rightarrow> ('w, member_error, DKGStatus option) act" where
  "bao_ReadDKGStatus srv parse cause c keyName =
     member_call cause (Get srv (thresholdPath parse c [''keys'', keyName, ''dkg'', ''status'']) openBaoDataResponse)"

definition bao_member :: "'w server \<Rightarrow> url_parse \<Rightarrow> ('w \<Rightarrow> ctx_error option) \<Rightarrow> (OpenBaoClient, 'w) GroupMemberClient" where
  "bao_member srv parse cause =
     \<lparr>StartDKG = bao_StartDKG srv parse cause, DeliverDKG = bao_DeliverDKG srv parse cause,
      ProceedDKG = bao_ProceedDKG srv parse cause, ReadDKGStatus = bao_ReadDKGStatus srv parse cause\<rparr>"

section \<open>The plugin\<close>

record thresholdConfig =
  tc_TimeoutSecs :: int
  tc_SessionSecret :: string
  tc_RetryAttempts :: int
  tc_RetryBackoffMillis :: int

record GroupMember =
  gm_NodeId :: string
  gm_PartyIndex :: int
  gm_OpenbaoUrl :: string
  gm_Mount :: string

record DkgRequest =
  rq_KeyName :: string
  rq_GroupName :: string
  rq_SessionId :: string
  rq_Threshold :: int
  rq_Participants :: "GroupMember option list"

record DkgNodeStatus =
  ns_NodeId :: string
  ns_Status :: string
  ns_Round :: u32
  ns_PendingFrom :: "string list option"

record DkgResponse =
  rp_KeyName :: string
  rp_GroupName :: string
  rp_SessionId :: string
  rp_PublicKey :: string
  rp_Nodes :: "DkgNodeStatus list"

datatype dkg_request_error =
    RequestRequired | DkgKeyNameRequired | GroupNameRequired | SessionIDRequired | TooFewParticipants | ThresholdRange
  | ParticipantRequired | NodeIDRequired | URLRequired string | DuplicateNode string | IndexRange string int | DuplicateIndex int

datatype threshold_error = SecretRequired | BadRequest dkg_request_error | DkgFailed dkg_error

record 'c Plugin =
  pl_timeout :: u64
  pl_coordinator :: Coordinator
  pl_newClient :: "GroupMember \<Rightarrow> 'c"

definition newPlugin :: "thresholdConfig \<Rightarrow> Coordinator \<Rightarrow> OpenBaoClient Plugin" where
  "newPlugin cfg coordinator =
     (let timeout = word_of_int (tc_TimeoutSecs cfg) * 1000000000
      in \<lparr>pl_timeout = timeout, pl_coordinator = coordinator,
          pl_newClient = (\<lambda>member. NewOpenBaoClient
            \<lparr>oc_BaseURL = gm_OpenbaoUrl member, oc_Mount = gm_Mount member, oc_HTTPClient = None, oc_Timeout = timeout\<rparr>)\<rparr>)"

definition NewPlugin :: "thresholdConfig \<Rightarrow> threshold_error + OpenBaoClient Plugin" where
  "NewPlugin cfg =
     (let secret = TrimSpace (tc_SessionSecret cfg);
          retryBackoff = word_of_int (tc_RetryBackoffMillis cfg) * 1000000
      in if secret = [] then Inl SecretRequired
         else Inr (newPlugin cfg (NewCoordinator [WithSessionSecret secret, WithRetryPolicy (tc_RetryAttempts cfg) retryBackoff])))"

text \<open>The loop over the participants of a request, \<open>n\<close> in all, with the node ids and indexes seen so far.\<close>

fun participants_from ::
    "(GroupMember \<Rightarrow> 'c) \<Rightarrow> nat \<Rightarrow> string list \<Rightarrow> int list \<Rightarrow> GroupMember option list \<Rightarrow> dkg_request_error + 'c DKGParticipant list" where
  "participants_from newClient n ids idxs [] = Inr []"
| "participants_from newClient n ids idxs (None # ps) = Inl ParticipantRequired"
| "participants_from newClient n ids idxs (Some p # ps) =
     (let nodeID = TrimSpace (gm_NodeId p); openBaoURL = TrimSpace (gm_OpenbaoUrl p)
      in if nodeID = [] then Inl NodeIDRequired
         else if openBaoURL = [] then Inl (URLRequired nodeID)
         else if nodeID \<in> set ids then Inl (DuplicateNode nodeID)
         else if gm_PartyIndex p < 0 \<or> int n \<le> gm_PartyIndex p then Inl (IndexRange nodeID (gm_PartyIndex p))
         else if gm_PartyIndex p \<in> set idxs then Inl (DuplicateIndex (gm_PartyIndex p))
         else
           rbind (participants_from newClient n (nodeID # ids) (gm_PartyIndex p # idxs) ps) (\<lambda>rest.
             Inr (\<lparr>NodeID = nodeID, PartyIndex = gm_PartyIndex p,
                   Client = newClient \<lparr>gm_NodeId = nodeID, gm_PartyIndex = gm_PartyIndex p, gm_OpenbaoUrl = openBaoURL,
                     gm_Mount = TrimSpace (gm_Mount p)\<rparr>\<rparr> # rest)))"

definition dkgRequestFromProto :: "'c Plugin \<Rightarrow> DkgRequest option \<Rightarrow> dkg_request_error + 'c DKGRequest" where
  "dkgRequestFromProto p req0 =
     (case req0 of
        None \<Rightarrow> Inl RequestRequired
      | Some req \<Rightarrow>
          let key = TrimSpace (rq_KeyName req); group = TrimSpace (rq_GroupName req); session = TrimSpace (rq_SessionId req);
              n = length (rq_Participants req)
          in if key = [] then Inl DkgKeyNameRequired
             else if group = [] then Inl GroupNameRequired
             else if session = [] then Inl SessionIDRequired
             else if n < 2 then Inl TooFewParticipants
             else if rq_Threshold req < 2 \<or> int n < rq_Threshold req then Inl ThresholdRange
             else
               rbind (participants_from (pl_newClient p) n [] [] (rq_Participants req)) (\<lambda>ps.
                 Inr \<lparr>dr_KeyName = key, dr_GroupName = group, dr_SessionID = session, dr_Threshold = rq_Threshold req,
                      dr_Participants = sort_key PartyIndex ps\<rparr>))"

definition node_status :: "string \<times> DKGStatus \<Rightarrow> DkgNodeStatus" where
  "node_status = (\<lambda>(nodeID, node). \<lparr>ns_NodeId = nodeID, ns_Status = ds_Status node, ns_Round = word_of_int (ds_Round node),
     ns_PendingFrom = ds_PendingFrom node\<rparr>)"

definition CoordinateDkg ::
    "('c, 'w) GroupMemberClient \<Rightarrow> 'w wait \<Rightarrow> (outputs \<Rightarrow> outputs) \<Rightarrow> 'c Plugin \<Rightarrow> DkgRequest option
     \<Rightarrow> ('w, grpc_code \<times> threshold_error, DkgResponse) act" where
  "CoordinateDkg api wait order p req =
     andThen (check (rmap_err (\<lambda>e. (InvalidArgument, BadRequest e)) (dkgRequestFromProto p req))) (\<lambda>dkgRequest.
     andThen (wrapErr (\<lambda>e. (Internal, DkgFailed e)) (CoordinateDKG api wait order (pl_coordinator p) dkgRequest)) (\<lambda>result.
       ret \<lparr>rp_KeyName = rs_KeyName result, rp_GroupName = rs_GroupName result, rp_SessionId = rs_SessionID result,
            rp_PublicKey = rs_PublicKey result,
            rp_Nodes = sort_key ns_NodeId (map node_status (order (rs_Nodes result)))\<rparr>))"

section \<open>Lemmas\<close>

definition normalized_member :: "GroupMember \<Rightarrow> GroupMember" where
  "normalized_member m = \<lparr>gm_NodeId = TrimSpace (gm_NodeId m), gm_PartyIndex = gm_PartyIndex m,
     gm_OpenbaoUrl = TrimSpace (gm_OpenbaoUrl m), gm_Mount = TrimSpace (gm_Mount m)\<rparr>"

definition participant_of :: "(GroupMember \<Rightarrow> 'c) \<Rightarrow> GroupMember \<Rightarrow> 'c DKGParticipant" where
  "participant_of newClient m = \<lparr>NodeID = TrimSpace (gm_NodeId m), PartyIndex = gm_PartyIndex m, Client = newClient (normalized_member m)\<rparr>"

lemma participant_of_simps [simp]:
  "NodeID (participant_of nc m) = TrimSpace (gm_NodeId m)" "PartyIndex (participant_of nc m) = gm_PartyIndex m"
  "Client (participant_of nc m) = nc (normalized_member m)"
  by (simp_all add: participant_of_def)

definition member_ok :: "nat \<Rightarrow> GroupMember \<Rightarrow> bool" where
  "member_ok n m \<longleftrightarrow> TrimSpace (gm_NodeId m) \<noteq> [] \<and> TrimSpace (gm_OpenbaoUrl m) \<noteq> [] \<and> 0 \<le> gm_PartyIndex m \<and> gm_PartyIndex m < int n"

definition members_ok :: "nat \<Rightarrow> GroupMember list \<Rightarrow> bool" where
  "members_ok n ms \<longleftrightarrow> list_all (member_ok n) ms \<and> distinct (map (\<lambda>m. TrimSpace (gm_NodeId m)) ms) \<and> distinct (map gm_PartyIndex ms)"

lemma participants_from_Cons:
  "participants_from nc n ids idxs (Some m # ps) = Inr rs \<longleftrightarrow>
     member_ok n m \<and> TrimSpace (gm_NodeId m) \<notin> set ids \<and> gm_PartyIndex m \<notin> set idxs
     \<and> (\<exists>rest. participants_from nc n (TrimSpace (gm_NodeId m) # ids) (gm_PartyIndex m # idxs) ps = Inr rest
          \<and> rs = participant_of nc m # rest)"
  by (auto simp: Let_def member_ok_def rbind_def participant_of_def normalized_member_def split: sum.splits)

lemma participants_from_iff:
  "participants_from nc n ids idxs ps = Inr rs \<longleftrightarrow>
     (\<exists>ms. ps = map Some ms \<and> rs = map (participant_of nc) ms \<and> members_ok n ms
        \<and> set ids \<inter> set (map (\<lambda>m. TrimSpace (gm_NodeId m)) ms) = {} \<and> set idxs \<inter> set (map gm_PartyIndex ms) = {})"
proof (induction ps arbitrary: ids idxs rs)
  case Nil
  then show ?case by (auto simp: members_ok_def)
next
  case (Cons p ps)
  show ?case
  proof (cases p)
    case None
    then show ?thesis by (auto simp: Cons_eq_map_conv)
  next
    case (Some m)
    show ?thesis unfolding Some participants_from_Cons Cons.IH
      by (auto simp: members_ok_def Cons_eq_map_conv)
  qed
qed

lemma dkgRequestFromProto_iff:
  "dkgRequestFromProto p (Some req) = Inr r \<longleftrightarrow>
     TrimSpace (rq_KeyName req) \<noteq> [] \<and> TrimSpace (rq_GroupName req) \<noteq> [] \<and> TrimSpace (rq_SessionId req) \<noteq> []
     \<and> 2 \<le> length (rq_Participants req) \<and> 2 \<le> rq_Threshold req \<and> rq_Threshold req \<le> int (length (rq_Participants req))
     \<and> (\<exists>ms. rq_Participants req = map Some ms \<and> members_ok (length ms) ms
          \<and> r = \<lparr>dr_KeyName = TrimSpace (rq_KeyName req), dr_GroupName = TrimSpace (rq_GroupName req),
                 dr_SessionID = TrimSpace (rq_SessionId req), dr_Threshold = rq_Threshold req,
                 dr_Participants = sort_key PartyIndex (map (participant_of (pl_newClient p)) ms)\<rparr>)"
  by (auto simp: dkgRequestFromProto_def Let_def rbind_Inr_iff participants_from_iff not_less)

lemma indexes_all:
  assumes "members_ok (length ms) ms"
  shows "sort (map gm_PartyIndex ms) = map int [0..<length ms]"
proof -
  let ?is = "map gm_PartyIndex ms"
  have d: "distinct ?is" using assms by (simp add: members_ok_def)
  have "set ?is \<subseteq> int ` {0..<length ms}"
    using assms by (auto simp: members_ok_def member_ok_def list_all_iff image_iff) (metis atLeastLessThan_iff nat_0_le nat_less_iff zero_le)
  moreover have "card (set ?is) = card (int ` {0..<length ms})"
    using distinct_card [OF d] by (simp add: card_image)
  ultimately have "set ?is = set (map int [0..<length ms])" by (simp add: card_subset_eq)
  then have "mset ?is = mset (map int [0..<length ms])"
    using d by (subst set_eq_iff_mset_eq_distinct [symmetric]) (simp_all only: distinct_map inj_on_of_nat distinct_upt simp_thms)
  then have "mset (map int [0..<length ms]) = mset ?is" by simp
  then show ?thesis by (rule properties_for_sort) (simp add: sorted_map sorted_wrt_upt)
qed

lemma map_sort_key: "map f (sort_key f xs) = sort (map f xs)"
  by (rule properties_for_sort [symmetric]) simp_all

text \<open>Key names are not checked: one with parent segments makes the client call a path outside its mount.\<close>

lemma key_name_leaves_mount:
  "thresholdPath (\<lambda>_. Some (''http://h'', True, [], [])) \<lparr>ob_timeout = 0, ob_baseURL = ''http://h'', ob_mount = ''threshold''\<rparr>
     [''keys'', ''../../../sys'', ''dkg'', ''start''] = ''http://h/sys/dkg/start''"
proof -
  have join: "path_join (''/'' # [''v1'', ''threshold'', ''keys'', ''../../../sys'', ''dkg'', ''start'']) = ''/sys/dkg/start''"
    by (simp add: path_join_def path_clean_def starts_def Let_def)
  have "url_unescape ''sys/dkg/start'' = Some ''sys/dkg/start''" by simp
  moreover have "valid_encoded ''sys/dkg/start''" by (simp add: valid_encoded_def url_safe_def is_alnum_def)
  ultimately have "set_path [] ''sys/dkg/start'' = ''sys/dkg/start''" by (simp add: set_path_def)
  with join show ?thesis
    by (simp add: thresholdPath_def url_JoinPath_def starts_def suffix_to_prefix Let_def del: url_unescape.simps)
qed

section \<open>Properties\<close>

text \<open>
  C32. Only well-formed requests reach the coordinator. An accepted request has names that are not blank, a threshold between
  two and the number of members, members with distinct node ids and a URL, and the party indexes of the members, in the
  order in which they are handed on, are exactly 0, 1, and so on. The order of the members in the message is irrelevant.
\<close>

theorem dkg_request_wellformed:
  assumes "dkgRequestFromProto p (Some req) = Inr r"
    and "mset (rq_Participants req') = mset (rq_Participants req)"
    and "rq_KeyName req' = rq_KeyName req" "rq_GroupName req' = rq_GroupName req" "rq_SessionId req' = rq_SessionId req"
    and "rq_Threshold req' = rq_Threshold req"
  shows "dr_KeyName r \<noteq> [] \<and> dr_GroupName r \<noteq> [] \<and> dr_SessionID r \<noteq> []
    \<and> 2 \<le> dr_Threshold r \<and> dr_Threshold r \<le> int (length (dr_Participants r))
    \<and> map PartyIndex (dr_Participants r) = map int [0..<length (rq_Participants req)]
    \<and> distinct (map NodeID (dr_Participants r)) \<and> [] \<notin> set (map NodeID (dr_Participants r))
    \<and> dkgRequestFromProto p (Some req') = Inr r"
proof -
  from assms(1) obtain ms where ms: "rq_Participants req = map Some ms" "members_ok (length ms) ms"
    and r: "r = \<lparr>dr_KeyName = TrimSpace (rq_KeyName req), dr_GroupName = TrimSpace (rq_GroupName req),
                 dr_SessionID = TrimSpace (rq_SessionId req), dr_Threshold = rq_Threshold req,
                 dr_Participants = sort_key PartyIndex (map (participant_of (pl_newClient p)) ms)\<rparr>"
    and basic: "TrimSpace (rq_KeyName req) \<noteq> []" "TrimSpace (rq_GroupName req) \<noteq> []" "TrimSpace (rq_SessionId req) \<noteq> []"
      "2 \<le> length (rq_Participants req)" "2 \<le> rq_Threshold req" "rq_Threshold req \<le> int (length (rq_Participants req))"
    unfolding dkgRequestFromProto_iff by blast
  let ?f = "participant_of (pl_newClient p)"
  let ?ps = "sort_key PartyIndex (map ?f ms)"
  have idx: "map PartyIndex ?ps = map int [0..<length ms]"
    unfolding map_sort_key using indexes_all [OF ms(2)] by (simp add: comp_def)
  have ids: "mset (map NodeID ?ps) = mset (map (\<lambda>m. TrimSpace (gm_NodeId m)) ms)" by (simp add: multiset.map_comp comp_def)
  then have "distinct (map NodeID ?ps)" using ms(2) mset_eq_imp_distinct_iff unfolding members_ok_def by blast
  moreover have "[] \<notin> set (map NodeID ?ps)" using ms(2) by (auto simp: members_ok_def list_all_iff member_ok_def)
  moreover have "dkgRequestFromProto p (Some req') = Inr r"
  proof -
    have "None \<notin> set (rq_Participants req')" using mset_eq_setD [OF assms(2)] ms(1) by auto
    then obtain ms' where ms': "rq_Participants req' = map Some ms'"
      using ex_map_conv [of "rq_Participants req'" Some] by (metis not_None_eq)
    then have perm: "mset ms' = mset ms"
      using assms(2) ms(1) by (metis list.inj_map_strong multiset.inj_map mset_map inj_Some injD)
    have len: "length ms' = length ms" using perm by (rule mset_eq_length)
    have "distinct (map (\<lambda>m. TrimSpace (gm_NodeId m)) ms') = distinct (map (\<lambda>m. TrimSpace (gm_NodeId m)) ms)"
      "distinct (map gm_PartyIndex ms') = distinct (map gm_PartyIndex ms)"
      by (rule mset_eq_imp_distinct_iff, simp add: perm)+
    then have ok: "members_ok (length ms') ms'"
      using ms(2) mset_eq_setD [OF perm] unfolding members_ok_def len by (simp add: list_all_iff)
    have inj: "inj_on PartyIndex (set (map ?f ms'))"
      using ok by (auto simp: members_ok_def distinct_map inj_on_def)
    have "sort_key PartyIndex (map ?f ms') = ?ps"
      using inj by (intro sort_key_inj_key_eq) (simp_all add: perm)
    then show ?thesis unfolding dkgRequestFromProto_iff using ms' ok basic ms(1) assms(3-6) len by (auto simp: r)
  qed
  ultimately show ?thesis using basic idx ms(1) by (simp add: r)
qed

definition example_members :: "GroupMember list" where
  "example_members = [\<lparr>gm_NodeId = ''b'', gm_PartyIndex = 1, gm_OpenbaoUrl = ''http://b'', gm_Mount = []\<rparr>,
     \<lparr>gm_NodeId = ''a'', gm_PartyIndex = 0, gm_OpenbaoUrl = ''http://a'', gm_Mount = []\<rparr>]"

definition example_message :: DkgRequest where
  "example_message = \<lparr>rq_KeyName = ''key'', rq_GroupName = ''g'', rq_SessionId = ''s'', rq_Threshold = 2,
     rq_Participants = map Some example_members\<rparr>"

definition example_plugin :: "string Plugin" where
  "example_plugin = \<lparr>pl_timeout = 0, pl_coordinator = NewCoordinator [WithSessionSecret ''s''], pl_newClient = gm_NodeId\<rparr>"

lemma example_trim:
  "TrimSpace ''a'' = ''a''" "TrimSpace ''b'' = ''b''" "TrimSpace ''key'' = ''key''" "TrimSpace ''g'' = ''g''" "TrimSpace ''s'' = ''s''"
  "TrimSpace ''http://a'' = ''http://a''" "TrimSpace ''http://b'' = ''http://b''"
  by (rule TrimSpace_graph, simp)+

lemma example_request:
  "dkgRequestFromProto example_plugin (Some example_message) =
     Inr \<lparr>dr_KeyName = ''key'', dr_GroupName = ''g'', dr_SessionID = ''s'', dr_Threshold = 2,
       dr_Participants = map (participant_of gm_NodeId) (rev example_members)\<rparr>"
  unfolding dkgRequestFromProto_iff
  by (intro conjI exI [of _ example_members])
    (auto simp: example_message_def example_plugin_def example_members_def members_ok_def member_ok_def example_trim)

theorem dkg_request_wellformed_witness:
  "\<exists>r. dkgRequestFromProto example_plugin (Some (example_message\<lparr>rq_Participants := map Some (rev example_members)\<rparr>)) = Inr r
     \<and> map PartyIndex (dr_Participants r) = [0, 1]"
  using dkg_request_wellformed [OF example_request, of "example_message\<lparr>rq_Participants := map Some (rev example_members)\<rparr>"]
  by (auto simp: example_message_def example_members_def)



end
