(* ===== verification/Jwks.thy ===== *)
theory Jwks
  imports Prelude
begin

text \<open>
  The plugin that publishes the issuer's key set over HTTP (\<^verbatim>\<open>jwks/config.go\<close>, \<^verbatim>\<open>jwks/plugin.go\<close>), first as the code of one
  request, then with any number of requests at once: a step relation whose steps are the pieces of code between two points
  where another goroutine can run (the reads and writes under \<^verbatim>\<open>mu\<close>, taking and giving back \<^verbatim>\<open>refreshMu\<close>, the call to the
  issuer). Times are nanoseconds; \<open>reply\<close> is the issuer's answer, \<open>None\<close> an error. Setting up the listener is not modelled.
\<close>

section \<open>Configuration\<close>

record jwksConfig =
  jc_PatIssuerPlugin :: string
  jc_HTTPPort :: "16 word"
  jc_CacheTTLSecs :: int
  jc_TimeoutSecs :: int

datatype jwks_config_error = IssuerRequired | PortZero | NegativeTTL | TimeoutNotPositive

definition jwks_validate :: "jwksConfig \<Rightarrow> jwks_config_error + unit" where
  "jwks_validate c =
     (if jc_PatIssuerPlugin c = [] then Inl IssuerRequired
      else if jc_HTTPPort c = 0 then Inl PortZero
      else if jc_CacheTTLSecs c < 0 then Inl NegativeTTL
      else if jc_TimeoutSecs c \<le> 0 then Inl TimeoutNotPositive
      else Inr ())"

section \<open>One request\<close>

record Plugin =
  cfg :: jwksConfig
  cacheTTL :: int
  timeout :: int
  cached :: string
  fetchedAt :: int

datatype jwks_error = FetchFailed | EmptyJWKS

definition NewPlugin :: "jwksConfig \<Rightarrow> jwks_config_error + Plugin" where
  "NewPlugin c =
     rbind (jwks_validate c) (\<lambda>_.
       Inr \<lparr>cfg = c, cacheTTL = seconds (jc_CacheTTLSecs c), timeout = seconds (jc_TimeoutSecs c), cached = [], fetchedAt = 0\<rparr>)"

definition fresh :: "int \<Rightarrow> Plugin \<Rightarrow> string \<times> bool" where
  "fresh now p = (cached p, cached p \<noteq> [] \<and> now - fetchedAt p < cacheTTL p)"

definition store_jwks :: "int \<Rightarrow> string \<Rightarrow> Plugin \<Rightarrow> Plugin" where
  "store_jwks now body p = p\<lparr>cached := body, fetchedAt := now\<rparr>"

definition refresh :: "int \<Rightarrow> string option \<Rightarrow> int \<Rightarrow> Plugin \<Rightarrow> (jwks_error + string) \<times> Plugin" where
  "refresh now reply after p =
     (let (body, ok) = fresh now p
      in if ok then (Inr body, p)
         else (case reply of
                 None \<Rightarrow> (Inl FetchFailed, p)
               | Some jwksJson \<Rightarrow>
                   if jwksJson = [] then (Inl EmptyJWKS, p) else (Inr jwksJson, store_jwks after jwksJson p)))"

definition jwks :: "int \<Rightarrow> int \<Rightarrow> string option \<Rightarrow> int \<Rightarrow> Plugin \<Rightarrow> (jwks_error + string) \<times> Plugin" where
  "jwks now locked reply after p =
     (let (body, ok) = fresh now p in if ok then (Inr body, p) else refresh locked reply after p)"

record http_response =
  hr_status :: int
  hr_ContentType :: string
  hr_CacheControl :: "string option"
  hr_body :: string

definition browserCacheMaxAge :: int where
  "browserCacheMaxAge = 300"

definition unavailableBody :: string where
  "unavailableBody = CHR ''{'' # CHR 0x22 # ''error'' @ [CHR 0x22, CHR '':'', CHR 0x22] @ ''patissuer_plugin_unavailable'' @ [CHR 0x22, CHR ''}'']"

definition response_of :: "jwks_error + string \<Rightarrow> http_response" where
  "response_of r =
     (case r of
        Inl _ \<Rightarrow> \<lparr>hr_status = 503, hr_ContentType = ''application/json'', hr_CacheControl = None, hr_body = unavailableBody\<rparr>
      | Inr body \<Rightarrow> \<lparr>hr_status = 200, hr_ContentType = ''application/json'',
          hr_CacheControl = Some (''max-age='' @ Itoa browserCacheMaxAge), hr_body = body\<rparr>)"

definition handleJWKS :: "int \<Rightarrow> int \<Rightarrow> string option \<Rightarrow> int \<Rightarrow> Plugin \<Rightarrow> http_response \<times> Plugin" where
  "handleJWKS now locked reply after p = (let (r, p') = jwks now locked reply after p in (response_of r, p'))"

section \<open>Many requests\<close>

text \<open>
  Where a request stands: before the first look at the cache, waiting for \<^verbatim>\<open>refreshMu\<close>, holding it, calling the issuer, with
  the new body stored but the lock still held, and finished, with the time at which its answer was settled.
\<close>

datatype pc = Idle | Entered | Waiting | Holding | Calling | Fetched string int | Finished "jwks_error + string" int

datatype jwks_event = Called int | StoredAt int string

record jwks_state =
  plugin :: Plugin
  clock :: int
  refreshMu :: "nat option"
  at :: "nat \<Rightarrow> pc"
  log :: "jwks_event list"

definition move :: "nat \<Rightarrow> pc \<Rightarrow> jwks_state \<Rightarrow> jwks_state" where
  "move i q s = s\<lparr>at := (at s)(i := q)\<rparr>"

inductive jwks_step :: "jwks_state \<Rightarrow> jwks_state \<Rightarrow> bool" where
  tick: "0 \<le> d \<Longrightarrow> jwks_step s (s\<lparr>clock := clock s + d\<rparr>)"
| enter: "at s i = Idle \<Longrightarrow> jwks_step s (move i Entered s)"
| hit: "at s i = Entered \<Longrightarrow> fresh (clock s) (plugin s) = (body, True) \<Longrightarrow> jwks_step s (move i (Finished (Inr body) (clock s)) s)"
| miss: "at s i = Entered \<Longrightarrow> \<not> snd (fresh (clock s) (plugin s)) \<Longrightarrow> jwks_step s (move i Waiting s)"
| lock: "at s i = Waiting \<Longrightarrow> refreshMu s = None \<Longrightarrow> jwks_step s ((move i Holding s)\<lparr>refreshMu := Some i\<rparr>)"
| recheck_hit: "at s i = Holding \<Longrightarrow> fresh (clock s) (plugin s) = (body, True) \<Longrightarrow>
    jwks_step s ((move i (Finished (Inr body) (clock s)) s)\<lparr>refreshMu := None\<rparr>)"
| call: "at s i = Holding \<Longrightarrow> \<not> snd (fresh (clock s) (plugin s)) \<Longrightarrow>
    jwks_step s ((move i Calling s)\<lparr>log := log s @ [Called (clock s)]\<rparr>)"
| fetch_failed: "at s i = Calling \<Longrightarrow> jwks_step s ((move i (Finished (Inl FetchFailed) (clock s)) s)\<lparr>refreshMu := None\<rparr>)"
| empty_reply: "at s i = Calling \<Longrightarrow> jwks_step s ((move i (Finished (Inl EmptyJWKS) (clock s)) s)\<lparr>refreshMu := None\<rparr>)"
| fetched: "at s i = Calling \<Longrightarrow> body \<noteq> [] \<Longrightarrow>
    jwks_step s ((move i (Fetched body (clock s)) s)\<lparr>plugin := store_jwks (clock s) body (plugin s), log := log s @ [StoredAt (clock s) body]\<rparr>)"
| unlock: "at s i = Fetched body t \<Longrightarrow> jwks_step s ((move i (Finished (Inr body) t) s)\<lparr>refreshMu := None\<rparr>)"

definition jwks_init :: "Plugin \<Rightarrow> int \<Rightarrow> jwks_state" where
  "jwks_init p t = \<lparr>plugin = p, clock = t, refreshMu = None, at = (\<lambda>_. Idle), log = []\<rparr>"

inductive jwks_reachable :: "jwksConfig \<Rightarrow> jwks_state \<Rightarrow> bool" for c where
  init: "NewPlugin c = Inr p \<Longrightarrow> jwks_reachable c (jwks_init p t)"
| step: "jwks_reachable c s \<Longrightarrow> jwks_step s s' \<Longrightarrow> jwks_reachable c s'"

inductive_cases jwks_stepE: "jwks_step s s'"

section \<open>Invariant\<close>

definition owner :: "pc \<Rightarrow> bool" where
  "owner q \<longleftrightarrow> (case q of Holding \<Rightarrow> True | Calling \<Rightarrow> True | Fetched _ _ \<Rightarrow> True | _ \<Rightarrow> False)"

lemma owner_simps [simp]:
  "\<not> owner Idle" "\<not> owner Entered" "\<not> owner Waiting" "owner Holding" "owner Calling" "owner (Fetched b t)" "\<not> owner (Finished r t)"
  by (simp_all add: owner_def)

text \<open>A body settled at time \<open>t\<close> came from the issuer, just then or less than the lifetime before.\<close>

definition confirmed :: "int \<Rightarrow> jwks_event list \<Rightarrow> string \<Rightarrow> int \<Rightarrow> bool" where
  "confirmed ttl l body t \<longleftrightarrow> body \<noteq> [] \<and> (\<exists>t0. StoredAt t0 body \<in> set l \<and> t0 \<le> t \<and> (t - t0 < ttl \<or> t = t0))"

definition settled :: "int \<Rightarrow> jwks_event list \<Rightarrow> pc \<Rightarrow> bool" where
  "settled ttl l q \<longleftrightarrow>
     (case q of Fetched body t \<Rightarrow> confirmed ttl l body t | Finished (Inr body) t \<Rightarrow> confirmed ttl l body t | _ \<Rightarrow> True)"

text \<open>Calls keep their distance from the stores before them.\<close>

definition apart :: "int \<Rightarrow> jwks_event \<Rightarrow> jwks_event \<Rightarrow> bool" where
  "apart ttl e e' \<longleftrightarrow> (case (e, e') of (StoredAt t _, Called t') \<Rightarrow> t + ttl \<le> t' | _ \<Rightarrow> True)"

definition cache_ok :: "jwks_state \<Rightarrow> bool" where
  "cache_ok s \<longleftrightarrow>
     (cached (plugin s) = [] \<longrightarrow> (\<forall>t b. StoredAt t b \<notin> set (log s)))
     \<and> (cached (plugin s) \<noteq> [] \<longrightarrow> StoredAt (fetchedAt (plugin s)) (cached (plugin s)) \<in> set (log s))
     \<and> (\<forall>t b. StoredAt t b \<in> set (log s) \<longrightarrow> t \<le> fetchedAt (plugin s)) \<and> (cached (plugin s) \<noteq> [] \<longrightarrow> fetchedAt (plugin s) \<le> clock s)"

definition jwks_inv :: "int \<Rightarrow> jwks_state \<Rightarrow> bool" where
  "jwks_inv ttl s \<longleftrightarrow>
     cacheTTL (plugin s) = ttl \<and> (\<forall>i. owner (at s i) \<longleftrightarrow> refreshMu s = Some i) \<and> cache_ok s
     \<and> (\<forall>i. settled ttl (log s) (at s i)) \<and> sorted_wrt (apart ttl) (log s)"

lemma settled_simps [simp]:
  "settled ttl l Idle" "settled ttl l Entered" "settled ttl l Waiting" "settled ttl l Holding" "settled ttl l Calling"
  "settled ttl l (Fetched b t) \<longleftrightarrow> confirmed ttl l b t" "settled ttl l (Finished (Inr b) t) \<longleftrightarrow> confirmed ttl l b t"
  "settled ttl l (Finished (Inl e) t)"
  by (simp_all add: settled_def)

lemma jwks_inv_init: "NewPlugin c = Inr p \<Longrightarrow> jwks_inv (cacheTTL p) (jwks_init p t)"
  by (auto simp: jwks_inv_def jwks_init_def cache_ok_def NewPlugin_def rbind_Inr_iff)

lemma confirmed_mono: "confirmed ttl l b t \<Longrightarrow> set l \<subseteq> set l' \<Longrightarrow> confirmed ttl l' b t"
  unfolding confirmed_def by blast

lemma settled_mono: "settled ttl l q \<Longrightarrow> set l \<subseteq> set l' \<Longrightarrow> settled ttl l' q"
  by (cases q) (auto simp: settled_def intro: confirmed_mono split: sum.splits)

lemma fresh_confirmed:
  assumes "jwks_inv ttl s" "fresh (clock s) (plugin s) = (body, True)"
  shows "confirmed ttl (log s) body (clock s)"
  using assms by (auto simp: fresh_def jwks_inv_def cache_ok_def confirmed_def)

lemma stale_apart:
  assumes "jwks_inv ttl s" "\<not> snd (fresh (clock s) (plugin s))"
  shows "e \<in> set (log s) \<Longrightarrow> apart ttl e (Called (clock s))"
  using assms by (cases e) (force simp: fresh_def jwks_inv_def cache_ok_def apart_def)+

lemma jwks_inv_move:
  assumes "jwks_inv ttl s" "owner q \<longleftrightarrow> m = Some i" "\<And>j. j \<noteq> i \<Longrightarrow> m = Some j \<longleftrightarrow> refreshMu s = Some j" "settled ttl (log s) q"
  shows "jwks_inv ttl ((move i q s)\<lparr>refreshMu := m\<rparr>)"
  using assms by (auto simp: jwks_inv_def cache_ok_def move_def)

lemma jwks_inv_stay:
  assumes "jwks_inv ttl s" "owner q \<longleftrightarrow> owner (at s i)" "settled ttl (log s) q"
  shows "jwks_inv ttl (move i q s)"
proof -
  have "(move i q s)\<lparr>refreshMu := refreshMu s\<rparr> = move i q s" by (simp add: move_def)
  moreover have "jwks_inv ttl ((move i q s)\<lparr>refreshMu := refreshMu s\<rparr>)"
    using assms by (intro jwks_inv_move) (auto simp: jwks_inv_def)
  ultimately show ?thesis by simp
qed

text \<open>The owner of the lock gives it back when it finishes.\<close>

lemma jwks_inv_finish:
  assumes "jwks_inv ttl s" "owner (at s i)" "settled ttl (log s) (Finished r t)"
  shows "jwks_inv ttl ((move i (Finished r t) s)\<lparr>refreshMu := None\<rparr>)"
proof -
  have "refreshMu s = Some i" using assms(1,2) by (auto simp: jwks_inv_def)
  then show ?thesis using assms by (intro jwks_inv_move) simp_all
qed

lemma jwks_inv_step:
  assumes "jwks_step s s'" "jwks_inv ttl s"
  shows "jwks_inv ttl s'"
  using assms(1)
proof cases
  case (tick d)
  then show ?thesis using assms(2) by (auto simp: jwks_inv_def cache_ok_def)
next
  case (lock i)
  then show ?thesis using assms(2) by (simp add: jwks_inv_move)
next
  case (unlock i body t)
  have "settled ttl (log s) (at s i)" using assms(2) unfolding jwks_inv_def by blast
  then show ?thesis using unlock assms(2) by (simp add: jwks_inv_finish)
next
  case (fetched i body)
  then have "owner (at s i)" by simp
  with fetched show ?thesis
    using assms(2)
    by (auto simp: jwks_inv_def cache_ok_def move_def store_jwks_def confirmed_def sorted_wrt_append apart_def
        intro: settled_mono split: jwks_event.splits)
next
  case (call i)
  then have "owner (at s i)" by simp
  with call show ?thesis
    using assms(2) stale_apart [OF assms(2)]
    by (auto simp: jwks_inv_def cache_ok_def move_def sorted_wrt_append intro: settled_mono)
qed (use assms(2) fresh_confirmed [OF assms(2)] in \<open>simp_all add: jwks_inv_stay jwks_inv_finish\<close>)

lemma jwks_inv_reachable: "jwks_reachable c s \<Longrightarrow> NewPlugin c = Inr p \<Longrightarrow> jwks_inv (cacheTTL p) s"
proof (induction rule: jwks_reachable.induct)
  case (init p' t)
  then show ?case using jwks_inv_init [of c p' t] by simp
qed (blast intro: jwks_inv_step)

text \<open>The steps of a request that nobody disturbs are the code of one request.\<close>

lemma request_alone:
  assumes "at s i = Entered" "refreshMu s = None"
  shows "\<exists>s' t. jwks_step\<^sup>*\<^sup>* s s' \<and> at s' i = Finished (fst (jwks (clock s) (clock s) reply (clock s) (plugin s))) t
    \<and> plugin s' = snd (jwks (clock s) (clock s) reply (clock s) (plugin s)) \<and> refreshMu s' = None"
proof (cases "snd (fresh (clock s) (plugin s))")
  case True
  then have f: "fresh (clock s) (plugin s) = (cached (plugin s), True)" by (simp add: fresh_def)
  have "jwks_step s (move i (Finished (Inr (cached (plugin s))) (clock s)) s)" using assms(1) f by (rule jwks_step.hit)
  then have "jwks_step\<^sup>*\<^sup>* s (move i (Finished (Inr (cached (plugin s))) (clock s)) s)" by (rule r_into_rtranclp)
  then show ?thesis using f assms(2)
    by (intro exI [of _ "move i (Finished (Inr (cached (plugin s))) (clock s)) s"] exI [of _ "clock s"]) (simp add: jwks_def move_def)
next
  case False
  let ?w = "move i Waiting s"
  let ?h = "(move i Holding ?w)\<lparr>refreshMu := Some i\<rparr>"
  let ?c = "(move i Calling ?h)\<lparr>log := log ?h @ [Called (clock ?h)]\<rparr>"
  have "jwks_step s ?w" using assms(1) False by (rule jwks_step.miss)
  moreover have "jwks_step ?w ?h" by (rule jwks_step.lock) (simp_all add: move_def assms(2))
  moreover have "jwks_step ?h ?c" by (rule jwks_step.call) (use False in \<open>simp_all add: move_def\<close>)
  ultimately have run: "jwks_step\<^sup>*\<^sup>* s ?c" by (meson converse_rtranclp_into_rtranclp rtranclp.rtrancl_refl)
  have at: "at ?c i = Calling" "plugin ?c = plugin s" "clock ?c = clock s" by (simp_all add: move_def)
  have r: "jwks (clock s) (clock s) reply (clock s) (plugin s) = (case reply of None \<Rightarrow> (Inl FetchFailed, plugin s)
      | Some b \<Rightarrow> if b = [] then (Inl EmptyJWKS, plugin s) else (Inr b, store_jwks (clock s) b (plugin s)))"
    using False by (auto simp: jwks_def refresh_def Let_def case_prod_unfold split: option.split)
  consider (failed) "reply = None" | (empty) "reply = Some []" | (body) b where "reply = Some b" "b \<noteq> []" by (cases reply) auto
  then show ?thesis
  proof cases
    case failed
    let ?e = "(move i (Finished (Inl FetchFailed) (clock ?c)) ?c)\<lparr>refreshMu := None\<rparr>"
    have "jwks_step\<^sup>*\<^sup>* s ?e" using run jwks_step.fetch_failed [OF at(1)] by (rule rtranclp.rtrancl_into_rtrancl)
    then show ?thesis unfolding r using failed by (intro exI [of _ ?e] exI [of _ "clock ?c"]) (simp add: move_def)
  next
    case empty
    let ?e = "(move i (Finished (Inl EmptyJWKS) (clock ?c)) ?c)\<lparr>refreshMu := None\<rparr>"
    have "jwks_step\<^sup>*\<^sup>* s ?e" using run jwks_step.empty_reply [OF at(1)] by (rule rtranclp.rtrancl_into_rtrancl)
    then show ?thesis unfolding r using empty by (intro exI [of _ ?e] exI [of _ "clock ?c"]) (simp add: move_def)
  next
    case body
    let ?f = "(move i (Fetched b (clock ?c)) ?c)\<lparr>plugin := store_jwks (clock ?c) b (plugin ?c), log := log ?c @ [StoredAt (clock ?c) b]\<rparr>"
    have "jwks_step\<^sup>*\<^sup>* s ?f" using run jwks_step.fetched [OF at(1) body(2)] by (rule rtranclp.rtrancl_into_rtrancl)
    moreover have "jwks_step ?f ((move i (Finished (Inr b) (clock ?c)) ?f)\<lparr>refreshMu := None\<rparr>)"
      by (rule jwks_step.unlock) (simp add: move_def)
    ultimately have "jwks_step\<^sup>*\<^sup>* s ((move i (Finished (Inr b) (clock ?c)) ?f)\<lparr>refreshMu := None\<rparr>)"
      by (rule rtranclp.rtrancl_into_rtrancl)
    then show ?thesis unfolding r using body
      by (intro exI [of _ "(move i (Finished (Inr b) (clock ?c)) ?f)\<lparr>refreshMu := None\<rparr>"] exI [of _ "clock ?c"]) (simp add: move_def)
  qed
qed

section \<open>Properties\<close>

text \<open>
  C11. However many requests run at once and however they interleave: at most one of them is calling the issuer; a body that
  is served is not empty and is one that the issuer gave, verbatim, at the time the answer was settled or less than the
  lifetime of the cache before; and a call to the issuer begins at least that lifetime after every earlier successful one, so
  that a burst of requests cannot fan out.
\<close>

theorem jwks_concurrent:
  assumes "jwks_reachable c s" "NewPlugin c = Inr p"
  shows "(\<forall>i j. owner (at s i) \<and> owner (at s j) \<longrightarrow> i = j)
    \<and> (\<forall>i body t. at s i = Finished (Inr body) t \<longrightarrow> confirmed (cacheTTL p) (log s) body t)
    \<and> sorted_wrt (apart (cacheTTL p)) (log s)"
  using jwks_inv_reachable [OF assms] unfolding jwks_inv_def by (metis option.inject settled_simps(7))

definition example_config :: jwksConfig where
  "example_config = \<lparr>jc_PatIssuerPlugin = ''issuer'', jc_HTTPPort = 8080, jc_CacheTTLSecs = 60, jc_TimeoutSecs = 5\<rparr>"

theorem jwks_concurrent_witness:
  "\<exists>p s. NewPlugin example_config = Inr p \<and> jwks_reachable example_config s
     \<and> at s 0 = Finished (Inr ''{}'') 7 \<and> at s 1 = Waiting \<and> confirmed (cacheTTL p) (log s) ''{}'' 7"
proof -
  obtain p where p: "NewPlugin example_config = Inr p" "cached p = []"
    by (simp add: NewPlugin_def jwks_validate_def example_config_def)
  let ?s0 = "jwks_init p 7"
  let ?s1 = "move 1 Entered (move 0 Entered ?s0)"
  let ?s2 = "move 1 Waiting (move 0 Waiting ?s1)"
  let ?s3 = "(move 0 Holding ?s2)\<lparr>refreshMu := Some 0\<rparr>"
  let ?s4 = "(move 0 Calling ?s3)\<lparr>log := log ?s3 @ [Called (clock ?s3)]\<rparr>"
  let ?s5 = "(move 0 (Fetched ''{}'' (clock ?s4)) ?s4)\<lparr>plugin := store_jwks (clock ?s4) ''{}'' (plugin ?s4),
     log := log ?s4 @ [StoredAt (clock ?s4) ''{}'']\<rparr>"
  let ?s6 = "(move 0 (Finished (Inr ''{}'') 7) ?s5)\<lparr>refreshMu := None\<rparr>"
  note simps = jwks_init_def move_def fresh_def p(2)
  have "jwks_reachable example_config ?s0" by (rule jwks_reachable.init [OF p(1)])
  moreover have "jwks_step ?s0 (move 0 Entered ?s0)" "jwks_step (move 0 Entered ?s0) ?s1"
    by (rule jwks_step.enter, simp add: simps)+
  moreover have "jwks_step ?s1 (move 0 Waiting ?s1)" "jwks_step (move 0 Waiting ?s1) ?s2"
    by (rule jwks_step.miss; simp add: simps)+
  moreover have "jwks_step ?s2 ?s3" by (rule jwks_step.lock) (simp_all add: simps)
  moreover have "jwks_step ?s3 ?s4" by (rule jwks_step.call) (simp_all add: simps)
  moreover have "jwks_step ?s4 ?s5" by (rule jwks_step.fetched) (simp_all add: simps)
  moreover have "jwks_step ?s5 ?s6" by (rule jwks_step.unlock) (simp_all add: simps)
  ultimately have r: "jwks_reachable example_config ?s6" by (meson jwks_reachable.step)
  have at: "at ?s6 0 = Finished (Inr ''{}'') 7" "at ?s6 1 = Waiting" by (simp_all add: simps)
  from jwks_concurrent [OF r p(1)] at(1) have "confirmed (cacheTTL p) (log ?s6) ''{}'' 7" by blast
  with p(1) r at show ?thesis by blast
qed

end
