(* ===== verification/Account.thy ===== *)
theory Account
  imports OpenBao
begin

text \<open>
  The account plugin: the machine-to-machine token (\<^verbatim>\<open>account/token_manager.go\<close>), the client of the dashboard
  (\<^verbatim>\<open>account/dashboard_client.go\<close>), the checks of the configuration (\<^verbatim>\<open>account/config.go\<close>) and the handlers
  (\<^verbatim>\<open>account/plugin.go\<close>). The state of an action is the cached token together with a world in which the clock is read, the
  token endpoint is called and the dashboard is called; these three are the record \<open>env\<close>, with the URLs that
  \<^verbatim>\<open>http.NewRequest\<close> accepts. An answer is a status code with what could be read of the body, \<open>None\<close> a transport
  error. Times are nanoseconds.

  Requests run concurrently and share the cached token. The model follows one request, and the record \<open>env\<close> also says what
  the others did to the cache before each of its reads: nothing, an invalidation, or a token stored from an answer of the
  token endpoint. Only the last such write before a read matters, and what is written before the request's own writes is
  lost, so this covers every interleaving of the cache's reads and writes. Between the write of a new token and the read
  that follows it the request holds \<^verbatim>\<open>refreshMu\<close>, which keeps the others from storing a token but not from
  invalidating.
\<close>

section \<open>Types\<close>

record accountConfig =
  DashboardURL :: string
  Auth0Domain :: string
  Auth0Audience :: string
  Auth0ClientID :: string
  Auth0ClientSecret :: string
  CreditsPerUnit :: u32
  HTTPTimeoutSecs :: int

datatype config_error = MissingVars "string list" | InsecureURL | CreditsZero | TimeoutNotPositive

text \<open>\<open>insecure\<close> is the value of \<^verbatim>\<open>ORBITPORT_ACCOUNT_ALLOW_INSECURE\<close>.\<close>

definition account_validate :: "string \<Rightarrow> accountConfig \<Rightarrow> config_error + unit" where
  "account_validate insecure c =
     (let missing = (if DashboardURL c = [] then [''ORBITPORT_ACCOUNT_DASHBOARD_URL''] else [])
        @ (if Auth0Domain c = [] then [''ORBITPORT_ACCOUNT_AUTH0_DOMAIN''] else [])
        @ (if Auth0Audience c = [] then [''ORBITPORT_ACCOUNT_AUTH0_AUDIENCE''] else [])
        @ (if Auth0ClientID c = [] then [''ORBITPORT_ACCOUNT_AUTH0_CLIENT_ID''] else [])
        @ (if Auth0ClientSecret c = [] then [''ORBITPORT_ACCOUNT_AUTH0_CLIENT_SECRET''] else [])
      in if missing \<noteq> [] then Inl (MissingVars missing)
         else if \<not> prefix ''https://'' (DashboardURL c) \<and> insecure \<noteq> ''true'' then Inl InsecureURL
         else if CreditsPerUnit c = 0 then Inl CreditsZero
         else if HTTPTimeoutSecs c \<le> 0 then Inl TimeoutNotPositive
         else Inr ())"

record cachedToken =
  accessToken :: string
  expiresAt :: int

definition no_token :: cachedToken where
  "no_token = \<lparr>accessToken = [], expiresAt = 0\<rparr>"

type_synonym answer = "(int \<times> string) option"

record dash_request =
  dq_url :: string
  dq_authorization :: string
  dq_body :: "string option"

text \<open>What other requests did to the cache since it was last read or written, the last write.\<close>

datatype other = Quiet | Dropped | Stored int answer

record 'w env =
  env_url :: "string \<Rightarrow> bool"
  env_now :: "'w \<Rightarrow> int"
  env_token :: "string \<Rightarrow> string \<Rightarrow> 'w \<Rightarrow> answer \<times> 'w"
  env_dashboard :: "dash_request \<Rightarrow> 'w \<Rightarrow> answer \<times> 'w"
  env_others :: "'w \<Rightarrow> other \<times> 'w"
  env_dropped :: "'w \<Rightarrow> bool \<times> 'w"

type_synonym 'w acc = "cachedToken \<times> 'w"

datatype token_error = TokenRequest | TokenPost | TokenStatus int string | TokenDecode | TokenMissing | ExpiryMissing

section \<open>The token manager\<close>

text \<open>\<^verbatim>\<open>url.Values.Encode\<close> of the form, the keys in order.\<close>

definition token_form :: "accountConfig \<Rightarrow> string" where
  "token_form cfg =
     ''audience='' @ query_escape (Auth0Audience cfg) @ ''&client_id='' @ query_escape (Auth0ClientID cfg)
     @ ''&client_secret='' @ query_escape (Auth0ClientSecret cfg) @ ''&grant_type=client_credentials''"

record tokenResponse =
  AccessToken :: string
  ExpiresIn :: int
  TokenType :: string

definition token_field :: "string \<Rightarrow> tokenResponse decoder" where
  "token_field k =
     (if is_field ''access_token'' k then dec_field AccessToken AccessToken_update dec_string
      else if is_field ''expires_in'' k then dec_field ExpiresIn ExpiresIn_update dec_int
      else if is_field ''token_type'' k then dec_field TokenType TokenType_update dec_string
      else dec_skip)"

text \<open>\<^verbatim>\<open>json.NewDecoder(r).Decode\<close>: the first value of the input, whatever follows it.\<close>

definition decode_token :: "string \<Rightarrow> tokenResponse option" where
  "decode_token body =
     (case json_decode body of
        None \<Rightarrow> None
      | Some (j, _) \<Rightarrow>
          let (ok, x) = dec_struct token_field j \<lparr>AccessToken = [], ExpiresIn = 0, TokenType = []\<rparr>
          in if ok then Some x else None)"

definition parse_token :: "int \<Rightarrow> answer \<Rightarrow> token_error + cachedToken" where
  "parse_token now a =
     (case a of
        None \<Rightarrow> Inl TokenPost
      | Some (code, body) \<Rightarrow>
          if code \<noteq> 200 then Inl (TokenStatus code body)
          else (case decode_token body of
                  None \<Rightarrow> Inl TokenDecode
                | Some parsed \<Rightarrow>
                    if AccessToken parsed = [] then Inl TokenMissing
                    else if ExpiresIn parsed \<le> 0 then Inl ExpiryMissing
                    else Inr \<lparr>accessToken = AccessToken parsed, expiresAt = now + seconds (ExpiresIn parsed)\<rparr>))"

definition token_url :: "accountConfig \<Rightarrow> string" where
  "token_url cfg = ''https://'' @ Auth0Domain cfg @ ''/oauth/token''"

definition refresh :: "'w env \<Rightarrow> accountConfig \<Rightarrow> ('w acc, token_error, unit) act" where
  "refresh env cfg = (\<lambda>(c, w).
     if \<not> env_url env (token_url cfg) then (Err TokenRequest, (c, w)) else
     let (a, w') = env_token env (token_url cfg) (token_form cfg) w
     in case parse_token (env_now env w') a of
          Inl e \<Rightarrow> (Err e, (c, w'))
        | Inr c' \<Rightarrow> (Ok (), (c', w')))"

definition refreshLead :: int where
  "refreshLead = 5 * 60 * 1000000000"

definition fresh :: "int \<Rightarrow> cachedToken \<Rightarrow> string option" where
  "fresh now c =
     (if accessToken c = [] then None
      else if expiresAt c - refreshLead < now then None
      else Some (accessToken c))"

text \<open>
  The reads of the cache: those that other requests may precede with an invalidation or a new token, and the one after a
  refresh, under \<^verbatim>\<open>refreshMu\<close>, which only an invalidation can precede.
\<close>

definition disturbed :: "other \<Rightarrow> cachedToken \<Rightarrow> cachedToken" where
  "disturbed x c =
     (case x of
        Quiet \<Rightarrow> c
      | Dropped \<Rightarrow> no_token
      | Stored now a \<Rightarrow> (case parse_token now a of Inl _ \<Rightarrow> c | Inr c' \<Rightarrow> c'))"

definition cache_Get :: "'w env \<Rightarrow> 'w acc \<Rightarrow> cachedToken \<times> 'w acc" where
  "cache_Get env = (\<lambda>(c, w). let (x, w') = env_others env w; c' = disturbed x c in (c', (c', w')))"

definition cache_Get_locked :: "'w env \<Rightarrow> 'w acc \<Rightarrow> cachedToken \<times> 'w acc" where
  "cache_Get_locked env = (\<lambda>(c, w). let (gone, w') = env_dropped env w; c' = (if gone then no_token else c) in (c', (c', w')))"

definition token :: "'w env \<Rightarrow> accountConfig \<Rightarrow> ('w acc, token_error, string) act" where
  "token env cfg = (\<lambda>s.
     let (c, s1) = cache_Get env s in
     case fresh (env_now env (snd s1)) c of
       Some t \<Rightarrow> (Ok t, s1)
     | None \<Rightarrow>
         let (c, s2) = cache_Get env s1 in
         (case fresh (env_now env (snd s2)) c of
            Some t \<Rightarrow> (Ok t, s2)
          | None \<Rightarrow> andThen (refresh env cfg) (\<lambda>_ s3. let (c, s4) = cache_Get_locked env s3 in (Ok (accessToken c), s4)) s2))"

definition invalidate :: "'w acc \<Rightarrow> 'w acc" where
  "invalidate = (\<lambda>(c, w). (no_token, w))"

definition token_start :: "'w env \<Rightarrow> accountConfig \<Rightarrow> ('w acc, token_error, unit) act" where
  "token_start env cfg = refresh env cfg"

section \<open>The dashboard client\<close>

text \<open>What the client uses of a token manager, the Go interface of the same name, and the manager as one.\<close>

record 's tokenProvider =
  tp_token :: "('s, token_error, string) act"
  tp_invalidate :: "'s \<Rightarrow> 's"

definition token_manager :: "'w env \<Rightarrow> accountConfig \<Rightarrow> 'w acc tokenProvider" where
  "token_manager env cfg = \<lparr>tp_token = token env cfg, tp_invalidate = invalidate\<rparr>"

record holdResponseBody =
  LedgerID :: string
  Balance :: int
  KmsTenant :: string

definition hold_field :: "string \<Rightarrow> holdResponseBody decoder" where
  "hold_field k =
     (if is_field ''ledgerId'' k then dec_field LedgerID LedgerID_update dec_string
      else if is_field ''balance'' k then dec_field Balance Balance_update dec_int
      else if is_field ''kmsTenant'' k then dec_field KmsTenant KmsTenant_update dec_string
      else dec_skip)"

definition hold_body :: "string \<Rightarrow> u32 \<Rightarrow> string \<Rightarrow> string \<Rightarrow> json" where
  "hold_body clientID units operation jti =
     JObj ([(''clientId'', JStr clientID), (''units'', JNum (Itoa (uint units)))] @ omitempty ''operation'' operation @ omitempty ''jti'' jti)"

text \<open>The error code of a body, whose decoding errors are ignored: malformed JSON leaves it empty, and so does a value of another type.\<close>

definition error_code :: "string \<Rightarrow> string" where
  "error_code body =
     (case json_parse body of
        None \<Rightarrow> []
      | Some j \<Rightarrow> snd (dec_struct (\<lambda>k. if is_field ''code'' k then dec_string else dec_skip) j []))"

definition balance_of :: "string \<Rightarrow> int option" where
  "balance_of = json_unmarshal (dec_struct (\<lambda>k. if is_field ''balance'' k then dec_int else dec_skip)) 0"

datatype dash_error =
    BuildRequest | TokenError token_error | TransportError | DecodeError | MissingLedgerID
  | InsufficientCredits | UnknownCredential | AccountInactive | Rejected int string

definition baseURL :: "accountConfig \<Rightarrow> string" where
  "baseURL cfg = TrimRightChar (CHR ''/'') (DashboardURL cfg)"

definition send :: "'w acc tokenProvider \<Rightarrow> 'w env \<Rightarrow> accountConfig \<Rightarrow> string \<Rightarrow> string option \<Rightarrow> ('w acc, dash_error, int \<times> string) act" where
  "send tp env cfg path body =
     andThen (require (env_url env (baseURL cfg @ path)) BuildRequest) (\<lambda>_.
     andThen (wrapErr TokenError (tp_token tp)) (\<lambda>t (c, w).
       let (a, w') = env_dashboard env \<lparr>dq_url = baseURL cfg @ path, dq_authorization = ''Bearer '' @ t, dq_body = body\<rparr> w
       in case a of None \<Rightarrow> (Err TransportError, (c, w')) | Some r \<Rightarrow> (Ok r, (c, w'))))"

definition dash_do :: "'w acc tokenProvider \<Rightarrow> 'w env \<Rightarrow> accountConfig \<Rightarrow> string \<Rightarrow> string option \<Rightarrow> ('w acc, dash_error, int \<times> string) act" where
  "dash_do tp env cfg path body =
     andThen (send tp env cfg path body) (\<lambda>(status, rawBody).
       if status \<noteq> 401 then ret (status, rawBody) else (\<lambda>s. send tp env cfg path body (tp_invalidate tp s)))"

definition dash_Hold ::
    "'w acc tokenProvider \<Rightarrow> 'w env \<Rightarrow> accountConfig \<Rightarrow> string \<Rightarrow> u32 \<Rightarrow> string \<Rightarrow> string \<Rightarrow> ('w acc, dash_error, holdResponseBody) act" where
  "dash_Hold tp env cfg clientID units operation jti =
     andThen (dash_do tp env cfg ''/service/credits/hold'' (Some (json_print (hold_body clientID units operation jti)))) (\<lambda>(status, rawBody).
       if status = 200 \<or> status = 201 then
         (case json_unmarshal (dec_struct hold_field) \<lparr>LedgerID = [], Balance = 0, KmsTenant = []\<rparr> rawBody of
            None \<Rightarrow> fail DecodeError
          | Some parsed \<Rightarrow> if LedgerID parsed = [] then fail MissingLedgerID else ret parsed)
       else if status = 422 then
         (if error_code rawBody = ''INSUFFICIENT_CREDITS'' then fail InsufficientCredits else fail (Rejected status (TrimSpace rawBody)))
       else if status = 403 then
         (if error_code rawBody = ''ACCOUNT_INACTIVE'' then fail AccountInactive else fail (Rejected status (TrimSpace rawBody)))
       else if status = 404 then fail UnknownCredential
       else fail (Rejected status (TrimSpace rawBody)))"

definition dash_resolve :: "'w acc tokenProvider \<Rightarrow> 'w env \<Rightarrow> accountConfig \<Rightarrow> string \<Rightarrow> ('w acc, dash_error, int) act" where
  "dash_resolve tp env cfg path =
     andThen (dash_do tp env cfg path None) (\<lambda>(status, rawBody).
       if status \<noteq> 200 \<and> status \<noteq> 201 then fail (Rejected status (TrimSpace rawBody))
       else (case balance_of rawBody of None \<Rightarrow> fail DecodeError | Some b \<Rightarrow> ret b))"

definition dash_Settle :: "'w acc tokenProvider \<Rightarrow> 'w env \<Rightarrow> accountConfig \<Rightarrow> string \<Rightarrow> ('w acc, dash_error, int) act" where
  "dash_Settle tp env cfg ledgerID = dash_resolve tp env cfg (''/service/credits/hold/'' @ ledgerID @ ''/settle'')"

definition dash_Release :: "'w acc tokenProvider \<Rightarrow> 'w env \<Rightarrow> accountConfig \<Rightarrow> string \<Rightarrow> ('w acc, dash_error, int) act" where
  "dash_Release tp env cfg ledgerID = dash_resolve tp env cfg (''/service/credits/hold/'' @ ledgerID @ ''/release'')"

section \<open>The handlers\<close>

record HoldRequest =
  hq_ClientId :: string
  hq_Units :: u32
  hq_Operation :: string
  hq_Jti :: string

record HoldResponse =
  hs_Ok :: bool
  hs_LedgerId :: string
  hs_BalanceAfter :: int
  hs_KmsTenant :: string

datatype account_error = ClientIDRequired | LedgerIDRequired | Dash dash_error | AccountConfig config_error | InitialFetch token_error

type_synonym account_status = "grpc_code \<times> account_error"

definition hold_status :: "dash_error \<Rightarrow> account_status" where
  "hold_status e =
     (case e of
        InsufficientCredits \<Rightarrow> (FailedPrecondition, Dash e)
      | AccountInactive \<Rightarrow> (PermissionDenied, Dash e)
      | UnknownCredential \<Rightarrow> (PermissionDenied, Dash e)
      | _ \<Rightarrow> (Unavailable, Dash e))"

text \<open>Unsigned 32-bit multiplication.\<close>

definition hold_credits :: "accountConfig \<Rightarrow> HoldRequest \<Rightarrow> u32" where
  "hold_credits cfg req = (let units = (if hq_Units req = 0 then 1 else hq_Units req) in units * CreditsPerUnit cfg)"

definition Hold :: "'w env \<Rightarrow> accountConfig \<Rightarrow> HoldRequest \<Rightarrow> ('w acc, account_status, HoldResponse) act" where
  "Hold env cfg req =
     andThen (require (hq_ClientId req \<noteq> []) (InvalidArgument, ClientIDRequired)) (\<lambda>_.
     andThen (wrapErr hold_status (dash_Hold (token_manager env cfg) env cfg (hq_ClientId req) (hold_credits cfg req) (hq_Operation req) (hq_Jti req))) (\<lambda>held.
       ret \<lparr>hs_Ok = True, hs_LedgerId = LedgerID held, hs_BalanceAfter = Balance held, hs_KmsTenant = KmsTenant held\<rparr>))"

definition Settle :: "'w env \<Rightarrow> accountConfig \<Rightarrow> string \<Rightarrow> ('w acc, account_status, bool \<times> int) act" where
  "Settle env cfg ledgerID =
     andThen (require (ledgerID \<noteq> []) (InvalidArgument, LedgerIDRequired)) (\<lambda>_.
     andThen (wrapErr (\<lambda>e. (Unavailable, Dash e)) (dash_Settle (token_manager env cfg) env cfg ledgerID)) (\<lambda>balance. ret (True, balance)))"

definition Release :: "'w env \<Rightarrow> accountConfig \<Rightarrow> string \<Rightarrow> ('w acc, account_status, bool \<times> int) act" where
  "Release env cfg ledgerID =
     andThen (require (ledgerID \<noteq> []) (InvalidArgument, LedgerIDRequired)) (\<lambda>_.
     andThen (wrapErr (\<lambda>e. (Unavailable, Dash e)) (dash_Release (token_manager env cfg) env cfg ledgerID)) (\<lambda>balance. ret (True, balance)))"

definition NewPlugin :: "string \<Rightarrow> 'w env \<Rightarrow> accountConfig \<Rightarrow> ('w acc, account_error, accountConfig) act" where
  "NewPlugin insecure env cfg =
     andThen (check (rmap_err AccountConfig (account_validate insecure cfg))) (\<lambda>_.
     andThen (wrapErr InitialFetch (token_start env cfg)) (\<lambda>_. ret cfg))"

section \<open>What the plugin sends\<close>

datatype acc_event = TokenFetched cachedToken | TokenRefused | DashCalled dash_request answer | OtherStored cachedToken | OtherDropped

type_synonym 'w reg = "'w \<times> acc_event list"

definition other_events :: "other \<Rightarrow> acc_event list" where
  "other_events x =
     (case x of
        Quiet \<Rightarrow> []
      | Dropped \<Rightarrow> [OtherDropped]
      | Stored now a \<Rightarrow> (case parse_token now a of Inl _ \<Rightarrow> [] | Inr c \<Rightarrow> [OtherStored c]))"

text \<open>The environment with a log of its calls, and of what other requests did to the cache.\<close>

definition registered :: "'w env \<Rightarrow> 'w reg env" where
  "registered env = \<lparr>env_url = env_url env, env_now = (\<lambda>(w, l). env_now env w),
     env_token = (\<lambda>u f (w, l). let (a, w') = env_token env u f w
        in (a, (w', l @ [case parse_token (env_now env w') a of Inl _ \<Rightarrow> TokenRefused | Inr c \<Rightarrow> TokenFetched c]))),
     env_dashboard = (\<lambda>q (w, l). let (a, w') = env_dashboard env q w in (a, (w', l @ [DashCalled q a]))),
     env_others = (\<lambda>(w, l). let (x, w') = env_others env w in (x, (w', l @ other_events x))),
     env_dropped = (\<lambda>(w, l). let (gone, w') = env_dropped env w in (gone, (w', l @ (if gone then [OtherDropped] else []))))\<rparr>"

abbreviation events :: "'w reg acc \<Rightarrow> acc_event list" where
  "events s \<equiv> snd (snd s)"

definition is_dash :: "acc_event \<Rightarrow> bool" where
  "is_dash e \<longleftrightarrow> (case e of DashCalled _ _ \<Rightarrow> True | _ \<Rightarrow> False)"

lemma is_dash_simps [simp]:
  "is_dash (DashCalled q a)" "\<not> is_dash (TokenFetched c)" "\<not> is_dash TokenRefused" "\<not> is_dash (OtherStored c)" "\<not> is_dash OtherDropped"
  by (simp_all add: is_dash_def)

text \<open>
  A token that a log lets a request have: one that the endpoint issued, to this request or to another that stored it; or
  the empty one, when another request invalidated the cache directly after this one had fetched a token.
\<close>

definition issued :: "acc_event list \<Rightarrow> string \<Rightarrow> bool" where
  "issued l t \<longleftrightarrow> t \<noteq> [] \<and> list_ex (\<lambda>e. case e of TokenFetched c \<Rightarrow> accessToken c = t | OtherStored c \<Rightarrow> accessToken c = t | _ \<Rightarrow> False) l"

definition lost :: "acc_event list \<Rightarrow> bool" where
  "lost l \<longleftrightarrow> (\<exists>pre c. l = pre @ [TokenFetched c, OtherDropped])"

definition granted :: "acc_event list \<Rightarrow> string \<Rightarrow> bool" where
  "granted l t \<longleftrightarrow> issued l t \<or> t = [] \<and> lost l"

lemma granted_mono: "granted l t \<Longrightarrow> granted (l0 @ l) t"
  by (auto simp: granted_def issued_def lost_def)

text \<open>Every call to the dashboard goes to the URL with the body, under a token that what came before it grants.\<close>

fun calls_ok :: "acc_event list \<Rightarrow> string \<Rightarrow> string option \<Rightarrow> acc_event list \<Rightarrow> bool" where
  "calls_ok l url body [] = True"
| "calls_ok l url body (e # es) =
     ((case e of
         DashCalled q _ \<Rightarrow> dq_url q = url \<and> dq_body q = body \<and> (\<exists>t. dq_authorization q = ''Bearer '' @ t \<and> granted l t)
       | _ \<Rightarrow> True) \<and> calls_ok (l @ [e]) url body es)"

lemma calls_ok_append: "calls_ok l url body (xs @ ys) \<longleftrightarrow> calls_ok l url body xs \<and> calls_ok (l @ xs) url body ys"
  by (induction xs arbitrary: l) auto

lemma calls_ok_none: "filter is_dash xs = [] \<Longrightarrow> calls_ok l url body xs"
  by (induction xs arbitrary: l) (auto simp: is_dash_def split: acc_event.splits if_splits)

text \<open>
  What one operation of the client may add to the log: at most two calls to the dashboard, as above; a second one only
  after the first was answered 401, and under a token that what happened in between grants.
\<close>

definition dash_run :: "acc_event list \<Rightarrow> string \<Rightarrow> string option \<Rightarrow> acc_event list \<Rightarrow> bool" where
  "dash_run l url body new \<longleftrightarrow>
     calls_ok l url body new \<and> length (filter is_dash new) \<le> 2
     \<and> (length (filter is_dash new) = 2 \<longrightarrow>
          (\<exists>pre q1 b mid q2 a t. new = pre @ [DashCalled q1 (Some (401, b))] @ mid @ [DashCalled q2 a]
             \<and> dq_authorization q2 = ''Bearer '' @ t \<and> granted mid t))"

text \<open>
  The contract between the dashboard client and its provider of tokens: asking for a token makes no call to the dashboard;
  a token that is given is one that the log grants; and after an invalidation the log since then grants it.
\<close>

locale token_provider =
  fixes tp :: "'w reg acc tokenProvider" and inv :: "'w reg acc \<Rightarrow> bool"
  assumes token_inv: "inv s \<Longrightarrow> tp_token tp s = (r, s') \<Longrightarrow> inv s'"
    and token_events: "inv s \<Longrightarrow> tp_token tp s = (r, s') \<Longrightarrow> \<exists>new. events s' = events s @ new \<and> filter is_dash new = []"
    and token_granted: "inv s \<Longrightarrow> tp_token tp s = (Ok t, s') \<Longrightarrow> granted (events s') t"
    and invalidate_inv: "inv s \<Longrightarrow> inv (tp_invalidate tp s) \<and> events (tp_invalidate tp s) = events s"
    and invalidate_fetches: "inv s \<Longrightarrow> tp_token tp (tp_invalidate tp s) = (Ok t, s') \<Longrightarrow> events s' = events s @ new \<Longrightarrow> granted new t"
    and dash_inv: "inv (c, (w, l)) \<Longrightarrow> inv (c, (w', l @ [DashCalled q a]))"
begin

lemma send_unbuilt:
  "\<not> env_url env (baseURL cfg @ path) \<Longrightarrow> send tp (registered env) cfg path body s = (Err BuildRequest, s)"
  by (simp add: send_def registered_def)

lemma send_built:
  "env_url env (baseURL cfg @ path) \<Longrightarrow> send tp (registered env) cfg path body =
     andThen (wrapErr TokenError (tp_token tp)) (\<lambda>t (c, (w, l)).
       let q = \<lparr>dq_url = baseURL cfg @ path, dq_authorization = ''Bearer '' @ t, dq_body = body\<rparr>; (a, w') = env_dashboard env q w
       in case a of None \<Rightarrow> (Err TransportError, (c, (w', l @ [DashCalled q a]))) | Some r \<Rightarrow> (Ok r, (c, (w', l @ [DashCalled q a]))))"
  by (simp add: send_def registered_def, rule arg_cong [where f = "andThen _"])
     (auto simp: Let_def fun_eq_iff split: prod.splits option.splits)

text \<open>A request is a token and, when one is given, one call to the dashboard with it.\<close>

lemma send_calls:
  assumes "inv s" "send tp (registered env) cfg path body s = (r, s')"
  shows "inv s' \<and> (\<exists>pre. filter is_dash pre = [] \<and> (events s' = events s @ pre \<and> (\<forall>x. r \<noteq> Ok x)
    \<or> (\<exists>q a t s1. events s' = events s @ pre @ [DashCalled q a] \<and> tp_token tp s = (Ok t, s1) \<and> events s1 = events s @ pre
         \<and> dq_url q = baseURL cfg @ path \<and> dq_body q = body \<and> dq_authorization q = ''Bearer '' @ t \<and> (\<forall>x. r = Ok x \<longrightarrow> a = Some x))))"
proof (cases "env_url env (baseURL cfg @ path)")
  case False
  then show ?thesis using assms by (auto simp: send_unbuilt intro: exI [of _ "[]"])
next
  case True
  note sends = assms(2) [unfolded send_built [OF True]]
  obtain r1 c1 w1 l1 where t: "tp_token tp s = (r1, (c1, (w1, l1)))" by (cases "tp_token tp s") auto
  note inv1 = token_inv [OF assms(1) t]
  from token_events [OF assms(1) t] obtain pre where pre: "l1 = events s @ pre" "filter is_dash pre = []" by auto
  show ?thesis
  proof (cases "\<exists>tok. r1 = Ok tok")
    case True
    then obtain tok where tok: "r1 = Ok tok" ..
    let ?q = "\<lparr>dq_url = baseURL cfg @ path, dq_authorization = ''Bearer '' @ tok, dq_body = body\<rparr>"
    obtain a w2 where d: "env_dashboard env ?q w1 = (a, w2)" by (cases "env_dashboard env ?q w1")
    have s': "s' = (c1, (w2, l1 @ [DashCalled ?q a]))" and r: "\<forall>x. r = Ok x \<longrightarrow> a = Some x"
      using sends t tok d by (auto simp: andThen_def wrapErr_def attempt_def Let_def split: option.splits)
    have "inv s'" unfolding s' by (rule dash_inv [OF inv1])
    then show ?thesis using pre r t tok
      by (intro conjI exI [of _ pre] disjI2 exI [of _ ?q] exI [of _ a] exI [of _ tok] exI [of _ "(c1, (w1, l1))"]) (simp_all add: s')
  next
    case False
    then have "s' = (c1, (w1, l1))" "\<forall>x. r \<noteq> Ok x"
      using sends t by (cases r1; auto simp: andThen_def wrapErr_def attempt_def)+
    then show ?thesis using inv1 pre by auto
  qed
qed

lemma do_trace:
  assumes "inv s" "dash_do tp (registered env) cfg path body s = (r, s')"
  shows "inv s' \<and> (\<exists>new. events s' = events s @ new
    \<and> dash_run (events s) (baseURL cfg @ path) body new
    \<and> (\<forall>x. r = Ok x \<longrightarrow> (\<exists>pre q. new = pre @ [DashCalled q (Some x)])))"
proof -
  let ?url = "baseURL cfg @ path" and ?send = "send tp (registered env) cfg path body"
  obtain r1 s1 where first: "?send s = (r1, s1)" by (cases "?send s")
  from send_calls [OF assms(1) first] obtain pre where inv1: "inv s1" and pre: "filter is_dash pre = []"
    and one: "events s1 = events s @ pre \<and> (\<forall>x. r1 \<noteq> Ok x)
      \<or> (\<exists>q a t s2. events s1 = events s @ pre @ [DashCalled q a] \<and> tp_token tp s = (Ok t, s2) \<and> events s2 = events s @ pre
         \<and> dq_url q = ?url \<and> dq_body q = body \<and> dq_authorization q = ''Bearer '' @ t \<and> (\<forall>x. r1 = Ok x \<longrightarrow> a = Some x))" by blast
  show ?thesis
  proof (cases "\<exists>x. r1 = Ok x")
    case False
    then have eq: "r = r1" "s' = s1" using assms(2) first by (cases r1; auto simp: dash_do_def andThen_def)+
    from one consider "events s1 = events s @ pre" | q a t s2 where "events s1 = events s @ pre @ [DashCalled q a]" "tp_token tp s = (Ok t, s2)"
        "events s2 = events s @ pre" "dq_url q = ?url" "dq_body q = body" "dq_authorization q = ''Bearer '' @ t" by blast
    then show ?thesis
    proof cases
      case 1
      then show ?thesis using eq inv1 False pre by (auto simp: dash_run_def calls_ok_none)
    next
      case 2
      have "granted (events s @ pre) t" using token_granted [OF assms(1) 2(2)] 2(3) by simp
      then have "dash_run (events s) ?url body (pre @ [DashCalled q a])" using 2(4-6) pre by (simp add: dash_run_def calls_ok_append calls_ok_none)
      then show ?thesis using eq inv1 False 2(1) by auto
    qed
  next
    case True
    then obtain code b where r1: "r1 = Ok (code, b)" by auto
    then obtain q t s2 where q: "events s1 = events s @ pre @ [DashCalled q (Some (code, b))]" "tp_token tp s = (Ok t, s2)"
        "events s2 = events s @ pre" "dq_url q = ?url" "dq_body q = body" "dq_authorization q = ''Bearer '' @ t" using one by auto
    let ?one = "pre @ [DashCalled q (Some (code, b))]"
    have ok1: "calls_ok (events s) ?url body ?one"
      using token_granted [OF assms(1) q(2)] q pre by (auto simp: calls_ok_append calls_ok_none)
    show ?thesis
    proof (cases "code = 401")
      case False
      then have eq: "r = r1" "s' = s1" using assms(2) first r1 by (auto simp: dash_do_def andThen_def)
      have "dash_run (events s) ?url body ?one" using ok1 pre by (simp add: dash_run_def)
      then show ?thesis using eq inv1 q(1) r1 by auto
    next
      case True
      have second: "?send (tp_invalidate tp s1) = (r, s')" using assms(2) first r1 True by (simp add: dash_do_def andThen_def)
      note iv = invalidate_inv [OF inv1]
      from send_calls [OF conjunct1 [OF iv] second, unfolded conjunct2 [OF iv]] obtain mid where inv2: "inv s'" and mid: "filter is_dash mid = []"
        and two: "events s' = events s1 @ mid \<and> (\<forall>x. r \<noteq> Ok x)
          \<or> (\<exists>q2 a t2 s3. events s' = events s1 @ mid @ [DashCalled q2 a] \<and> tp_token tp (tp_invalidate tp s1) = (Ok t2, s3)
             \<and> events s3 = events s1 @ mid \<and> dq_url q2 = ?url \<and> dq_body q2 = body \<and> dq_authorization q2 = ''Bearer '' @ t2
             \<and> (\<forall>x. r = Ok x \<longrightarrow> a = Some x))" by blast
      from two show ?thesis
      proof (elim disjE exE conjE)
        assume none: "events s' = events s1 @ mid" "\<forall>x. r \<noteq> Ok x"
        have "calls_ok (events s) ?url body (?one @ mid)" using ok1 calls_ok_none [OF mid] calls_ok_append by blast
        then have "dash_run (events s) ?url body (?one @ mid)" using pre mid by (simp add: dash_run_def)
        then show ?thesis using none inv2 q(1) by (intro conjI exI [of _ "?one @ mid"]) auto
      next
        fix q2 a t2 s3
        assume again: "events s' = events s1 @ mid @ [DashCalled q2 a]" "tp_token tp (tp_invalidate tp s1) = (Ok t2, s3)"
          "events s3 = events s1 @ mid" "dq_url q2 = ?url" "dq_body q2 = body" "dq_authorization q2 = ''Bearer '' @ t2" "\<forall>x. r = Ok x \<longrightarrow> a = Some x"
        let ?new = "?one @ mid @ [DashCalled q2 a]"
        have g: "granted mid t2" by (rule invalidate_fetches [OF inv1 again(2,3)])
        have "calls_ok (events s) ?url body ?new"
          using ok1 mid again(4-6) granted_mono [OF g, of "events s @ ?one"] by (simp only: calls_ok_append calls_ok_none) auto
        then have "dash_run (events s) ?url body ?new" using pre mid g again(6) True by (auto simp: dash_run_def)
        then show ?thesis using again inv2 q(1) by (intro conjI exI [of _ ?new]) auto
      qed
    qed
  qed
qed

end

section \<open>The token manager is a provider\<close>

lemma issued_append [simp]: "issued (l @ l') t \<longleftrightarrow> issued l t \<or> issued l' t"
  by (auto simp: issued_def)

lemma issued_simps [simp]:
  "\<not> issued [] t" "issued (TokenFetched c # l) t \<longleftrightarrow> t \<noteq> [] \<and> accessToken c = t \<or> issued l t" "issued (TokenRefused # l) t \<longleftrightarrow> issued l t"
  "issued (DashCalled q a # l) t \<longleftrightarrow> issued l t" "issued (OtherStored c # l) t \<longleftrightarrow> t \<noteq> [] \<and> accessToken c = t \<or> issued l t"
  "issued (OtherDropped # l) t \<longleftrightarrow> issued l t"
  by (auto simp: issued_def)

lemma parse_token_nonempty: "parse_token now a = Inr c \<Longrightarrow> accessToken c \<noteq> []"
  by (auto simp: parse_token_def split: option.splits prod.splits if_splits)

text \<open>The cache is empty, or holds a token issued after the first \<open>n\<close> events of the log; the invariant is the case of \<open>0\<close>.\<close>

definition since :: "nat \<Rightarrow> 'w reg acc \<Rightarrow> bool" where
  "since n s \<longleftrightarrow> n \<le> length (events s) \<and> (accessToken (fst s) = [] \<or> issued (drop n (events s)) (accessToken (fst s)))"

abbreviation tok_inv :: "'w reg acc \<Rightarrow> bool" where
  "tok_inv \<equiv> since 0"

text \<open>Events that are added to the log, no call to the dashboard among them.\<close>

definition quietly :: "'w reg acc \<Rightarrow> 'w reg acc \<Rightarrow> bool" where
  "quietly s s' \<longleftrightarrow> (\<exists>new. events s' = events s @ new \<and> filter is_dash new = [])"

lemma quietly_refl [simp]: "quietly s s"
  by (simp add: quietly_def)

lemma quietly_trans: "quietly s s1 \<Longrightarrow> quietly s1 s2 \<Longrightarrow> quietly s s2"
  by (auto simp: quietly_def)

lemma cache_Get_step:
  assumes "cache_Get (registered env) s = (c, s1)" "since n s"
  shows "c = fst s1 \<and> since n s1 \<and> quietly s s1"
proof -
  obtain c0 w l where s: "s = (c0, (w, l))" by (cases s) auto
  obtain x w1 where x: "env_others env w = (x, w1)" by (cases "env_others env w")
  show ?thesis using assms x
    by (cases x) (auto simp: s cache_Get_def registered_def disturbed_def other_events_def since_def quietly_def no_token_def Let_def
        dest: parse_token_nonempty split: sum.splits)
qed

lemma cache_Get_locked_step:
  assumes "cache_Get_locked (registered env) s = (c, s1)" "since n s" "events s = l @ [TokenFetched (fst s)]" "n \<le> length l"
    "accessToken (fst s) \<noteq> []"
  shows "c = fst s1 \<and> since n s1 \<and> quietly s s1 \<and> granted (drop n (events s1)) (accessToken c)"
proof -
  obtain c0 w where s: "s = (c0, (w, l @ [TokenFetched c0]))" using assms(3) by (cases s) auto
  obtain gone w1 where x: "env_dropped env w = (gone, w1)" by (cases "env_dropped env w")
  have "lost (drop n l @ [TokenFetched c0, OtherDropped])" unfolding lost_def by blast
  then show ?thesis using assms x
    by (cases gone) (auto simp: s cache_Get_locked_def registered_def since_def quietly_def no_token_def granted_def Let_def)
qed

lemma refresh_step:
  assumes "refresh (registered env) cfg s = (r, s1)" "since n s"
  shows "since n s1 \<and> quietly s s1 \<and> (r = Ok () \<longrightarrow> events s1 = events s @ [TokenFetched (fst s1)] \<and> accessToken (fst s1) \<noteq> [])"
proof -
  obtain c0 w l where s: "s = (c0, (w, l))" by (cases s) auto
  obtain a w1 where a: "env_token env (token_url cfg) (token_form cfg) w = (a, w1)" by (cases "env_token env (token_url cfg) (token_form cfg) w")
  show ?thesis
  proof (cases "env_url env (token_url cfg)")
    case True
    then show ?thesis using assms a
      by (cases "parse_token (env_now env w1) a")
         (auto simp: s refresh_def registered_def since_def quietly_def dest: parse_token_nonempty)
  qed (use assms in \<open>auto simp: s refresh_def registered_def\<close>)
qed

lemma fresh_granted: "fresh now (fst s) = Some t \<Longrightarrow> since n s \<Longrightarrow> granted (drop n (events s)) t"
  by (auto simp: fresh_def since_def granted_def split: if_splits)

lemma token_step:
  assumes "token (registered env) cfg s = (r, s')" "since n s"
  shows "since n s' \<and> quietly s s' \<and> (\<forall>t. r = Ok t \<longrightarrow> granted (drop n (events s')) t)"
proof -
  let ?env = "registered env"
  obtain c1 s1 where one: "cache_Get ?env s = (c1, s1)" by (cases "cache_Get ?env s")
  note g1 = cache_Get_step [OF one assms(2)]
  obtain c2 s2 where two: "cache_Get ?env s1 = (c2, s2)" by (cases "cache_Get ?env s1")
  note g2 = cache_Get_step [OF two conjunct1 [OF conjunct2 [OF g1]]]
  obtain f s3 where ref: "refresh ?env cfg s2 = (f, s3)" by (cases "refresh ?env cfg s2")
  note g3 = refresh_step [OF ref conjunct1 [OF conjunct2 [OF g2]]]
  obtain c4 s4 where four: "cache_Get_locked ?env s3 = (c4, s4)" by (cases "cache_Get_locked ?env s3")
  note run = assms(1) [unfolded token_def Let_def one two ref four andThen_def prod.case]
  consider (first) t where "fresh (env_now ?env (snd s1)) c1 = Some t" "r = Ok t" "s' = s1"
    | (second) t where "fresh (env_now ?env (snd s2)) c2 = Some t" "r = Ok t" "s' = s2"
    | (fetched) "f = Ok ()" "r = Ok (accessToken c4)" "s' = s4"
    | (failed) "\<forall>t. r \<noteq> Ok t" "s' = s3"
    using run two ref four by (auto split: option.splits res.splits)
  then show ?thesis
  proof cases
    case first
    then show ?thesis using g1 fresh_granted [of _ s1 t n] by auto
  next
    case second
    then show ?thesis using g1 g2 fresh_granted [of _ s2 t n] by (auto intro: quietly_trans)
  next
    case fetched
    have "c4 = fst s4 \<and> since n s4 \<and> quietly s3 s4 \<and> granted (drop n (events s4)) (accessToken c4)"
      using g2 g3 fetched(1) by (intro cache_Get_locked_step [OF four, of n "events s2"]) (auto simp: since_def)
    then show ?thesis using fetched g1 g2 g3 by (auto intro: quietly_trans)
  next
    case failed
    then show ?thesis using g1 g2 g3 by (auto intro: quietly_trans)
  qed
qed

text \<open>
  The empty token does occur: when the reads find nothing fresh, the fetch succeeds and another request then invalidates the
  cache before it is read again, \<^verbatim>\<open>token\<close> returns the empty string and no error.
\<close>

lemma token_emptied:
  assumes "env_others env w = (x1, w1)" "fresh (env_now env w1) (disturbed x1 c) = None"
    and "env_others env w1 = (x2, w2)" "fresh (env_now env w2) (disturbed x2 (disturbed x1 c)) = None"
    and "refresh env cfg (disturbed x2 (disturbed x1 c), w2) = (Ok (), (c', w3))" "env_dropped env w3 = (True, w4)"
  shows "token env cfg (c, w) = (Ok [], (no_token, w4))"
  using assms by (simp add: token_def cache_Get_def cache_Get_locked_def andThen_def Let_def no_token_def)

interpretation manager: token_provider "token_manager (registered env) cfg" tok_inv
  for env :: "'w env" and cfg :: accountConfig
proof
  fix s s' :: "'w reg acc" and r :: "(token_error, string) res" and t new
  let ?tp = "token_manager (registered env) cfg"
  have tok: "tp_token ?tp = token (registered env) cfg" and drp: "tp_invalidate ?tp s = (no_token, snd s)"
    by (simp_all add: token_manager_def invalidate_def split_beta)
  have inv: "since n (tp_invalidate ?tp s)" if "n \<le> length (events s)" for n
    using that by (simp add: drp since_def no_token_def)
  show "tok_inv s \<Longrightarrow> tp_token ?tp s = (r, s') \<Longrightarrow> tok_inv s'"
    "tok_inv s \<Longrightarrow> tp_token ?tp s = (r, s') \<Longrightarrow> \<exists>new. events s' = events s @ new \<and> filter is_dash new = []"
    "tok_inv s \<Longrightarrow> tp_token ?tp s = (Ok t, s') \<Longrightarrow> granted (events s') t"
    unfolding tok using token_step [of env cfg s r s' 0] token_step [of env cfg s "Ok t" s' 0] by (auto simp: quietly_def)
  show "tok_inv s \<Longrightarrow> tok_inv (tp_invalidate ?tp s) \<and> events (tp_invalidate ?tp s) = events s"
    using inv [of 0] by (simp add: drp)
  show "tp_token ?tp (tp_invalidate ?tp s) = (Ok t, s') \<Longrightarrow> events s' = events s @ new \<Longrightarrow> granted new t"
    unfolding tok using token_step [OF _ inv [of "length (events s)"]] by fastforce
qed (auto simp: since_def)

section \<open>What the handlers answer\<close>

text \<open>The answer of the dashboard that a log ends with.\<close>

definition answered :: "acc_event list \<Rightarrow> int \<Rightarrow> string \<Rightarrow> bool" where
  "answered new code body \<longleftrightarrow> (\<exists>pre q. new = pre @ [DashCalled q (Some (code, body))])"

definition held_of :: "string \<Rightarrow> HoldResponse option" where
  "held_of body = (case json_unmarshal (dec_struct hold_field) \<lparr>LedgerID = [], Balance = 0, KmsTenant = []\<rparr> body of
     None \<Rightarrow> None
   | Some held \<Rightarrow> if LedgerID held = [] then None
       else Some \<lparr>hs_Ok = True, hs_LedgerId = LedgerID held, hs_BalanceAfter = Balance held, hs_KmsTenant = KmsTenant held\<rparr>)"

text \<open>The outcome of a hold against what was called: each code of the handler with the answers that lead to it.\<close>

definition hold_outcome :: "acc_event list \<Rightarrow> (account_status, HoldResponse) res \<Rightarrow> bool" where
  "hold_outcome new r \<longleftrightarrow>
     (case r of
        Ok x \<Rightarrow> \<exists>code body. (code = 200 \<or> code = 201) \<and> answered new code body \<and> held_of body = Some x
      | Err (code, _) \<Rightarrow>
          if code = InvalidArgument then new = []
          else if code = FailedPrecondition then \<exists>body. answered new 422 body \<and> error_code body = ''INSUFFICIENT_CREDITS''
          else if code = PermissionDenied then
            \<exists>body. answered new 404 body \<or> answered new 403 body \<and> error_code body = ''ACCOUNT_INACTIVE''
          else code = Unavailable
      | Panics \<Rightarrow> False)"

lemma refresh_no_panic: "refresh env cfg s \<noteq> (Panics, s')"
  by (auto simp: refresh_def Let_def split: prod.splits sum.splits if_splits)

lemma token_no_panic: "token env cfg s \<noteq> (Panics, s')"
  using refresh_no_panic [of env cfg] by (auto simp: token_def andThen_def Let_def split: prod.splits option.splits res.splits)

lemma send_no_panic: "send (token_manager env cfg) env cfg path body s \<noteq> (Panics, s')"
  using token_no_panic [of env cfg]
  by (auto simp: send_def token_manager_def require_def andThen_def wrapErr_def attempt_def Let_def split: prod.splits option.splits res.splits if_splits)

lemma do_no_panic: "dash_do (token_manager env cfg) env cfg path body s \<noteq> (Panics, s')"
  using send_no_panic [of env cfg path body] by (auto simp: dash_do_def andThen_def split: prod.splits res.splits if_splits)

text \<open>The error of \<open>dash_do\<close> is one that the handlers answer with \<^verbatim>\<open>Unavailable\<close>.\<close>

lemma send_err: "send tp env cfg path body s = (Err e, s') \<Longrightarrow> e = BuildRequest \<or> (\<exists>t. e = TokenError t) \<or> e = TransportError"
  by (auto simp: send_def require_def andThen_def wrapErr_def attempt_def Let_def split: prod.splits option.splits res.splits if_splits)

lemma do_err: "dash_do tp env cfg path body s = (Err e, s') \<Longrightarrow> e = BuildRequest \<or> (\<exists>t. e = TokenError t) \<or> e = TransportError"
  by (auto simp: dash_do_def andThen_def dest: send_err split: prod.splits res.splits if_splits)

lemma held_of_Some:
  "json_unmarshal (dec_struct hold_field) \<lparr>LedgerID = [], Balance = 0, KmsTenant = []\<rparr> body = Some held \<Longrightarrow> LedgerID held \<noteq> []
   \<Longrightarrow> held_of body = Some \<lparr>hs_Ok = True, hs_LedgerId = LedgerID held, hs_BalanceAfter = Balance held, hs_KmsTenant = KmsTenant held\<rparr>"
  by (simp add: held_of_def)

lemma dash_Hold_answered:
  assumes "dash_do tp env cfg ''/service/credits/hold'' (Some (json_print (hold_body clientID units operation jti))) s = (Ok (code, body), s1)"
    and "dash_Hold tp env cfg clientID units operation jti s = (r, s')"
    and "answered new code body"
  shows "s' = s1 \<and> hold_outcome new (case r of
    Ok held \<Rightarrow> Ok \<lparr>hs_Ok = True, hs_LedgerId = LedgerID held, hs_BalanceAfter = Balance held, hs_KmsTenant = KmsTenant held\<rparr>
  | Err e \<Rightarrow> Err (hold_status e) | Panics \<Rightarrow> Panics)"
  using assms(2,3)
  by (auto simp: dash_Hold_def andThen_def assms(1) hold_outcome_def hold_status_def split: option.splits if_splits)
     (blast intro: held_of_Some)+

lemma Hold_run:
  assumes "hq_ClientId req \<noteq> []"
    and "dash_Hold (token_manager env cfg) env cfg (hq_ClientId req) (hold_credits cfg req) (hq_Operation req) (hq_Jti req) s = (r, s')"
  shows "Hold env cfg req s = (case r of
    Ok held \<Rightarrow> Ok \<lparr>hs_Ok = True, hs_LedgerId = LedgerID held, hs_BalanceAfter = Balance held, hs_KmsTenant = KmsTenant held\<rparr>
  | Err e \<Rightarrow> Err (hold_status e) | Panics \<Rightarrow> Panics, s')"
  using assms by (cases r) (auto simp: Hold_def andThen_def wrapErr_def attempt_def)


text \<open>
  Settling or releasing a hold: only calls to the endpoint of that ledger id and that operation, without a body, under
  the same discipline of tokens; success only on a 200 or 201 whose body gives the balance; no call and the code for an
  invalid argument without a ledger id; unavailable otherwise.
\<close>

theorem resolve_trace:
  assumes "tok_inv s" "(operation, verb) \<in> {(Settle, ''/settle''), (Release, ''/release'')}"
    and "operation (registered env) cfg ledgerID s = (r, s')"
  shows "tok_inv s' \<and> (\<exists>new. events s' = events s @ new
    \<and> dash_run (events s) (baseURL cfg @ ''/service/credits/hold/'' @ ledgerID @ verb) None new
    \<and> (case r of
         Ok (ok, balance) \<Rightarrow> ok \<and> ledgerID \<noteq> [] \<and> (\<exists>code body. (code = 200 \<or> code = 201) \<and> answered new code body \<and> balance_of body = Some balance)
       | Err (code, _) \<Rightarrow> if ledgerID = [] then code = InvalidArgument \<and> new = [] else code = Unavailable
       | Panics \<Rightarrow> False))"
proof (cases "ledgerID = []")
  case True
  then have "r = Err (InvalidArgument, LedgerIDRequired)" "s' = s" using assms(2,3) by (auto simp: Settle_def Release_def)
  then show ?thesis using assms(1) True by (simp add: dash_run_def)
next
  case False
  let ?tp = "token_manager (registered env) cfg" and ?path = "''/service/credits/hold/'' @ ledgerID @ verb"
  obtain d s1 where call: "dash_do ?tp (registered env) cfg ?path None s = (d, s1)"
    by (cases "dash_do ?tp (registered env) cfg ?path None s")
  have ops: "(r, s') = andThen (wrapErr (\<lambda>e. (Unavailable, Dash e)) (dash_resolve ?tp (registered env) cfg ?path)) (\<lambda>balance. ret (True, balance)) s"
    using assms(2,3) False by (auto simp: Settle_def Release_def dash_Settle_def dash_Release_def)
  note trace = manager.do_trace [OF assms(1) call]
  show ?thesis
  proof (cases d)
    case (Ok x)
    obtain code body where x: "x = (code, body)" by (cases x)
    from trace Ok x obtain new where new: "events s1 = events s @ new" "dash_run (events s) (baseURL cfg @ ?path) None new" "answered new code body"
      by (auto simp: answered_def)
    then show ?thesis using ops trace call Ok x False
      by (auto simp: dash_resolve_def andThen_def wrapErr_def attempt_def split: if_splits option.splits)
  next
    case (Err e)
    then show ?thesis using ops trace call False
      by (auto simp: dash_resolve_def andThen_def wrapErr_def attempt_def)
  next
    case Panics
    then show ?thesis using call do_no_panic by blast
  qed
qed

text \<open>
  The amount of a hold is the number of units, at least one, times the price of a unit, modulo \<open>2 ^ 32\<close>: a request
  for \<open>2 ^ 31\<close> units at two credits each is held for nothing.
\<close>

theorem hold_amount_wraps:
  "uint (hold_credits cfg req) = (max 1 (uint (hq_Units req)) * uint (CreditsPerUnit cfg)) mod 2 ^ 32
   \<and> hold_credits (cfg\<lparr>CreditsPerUnit := 2\<rparr>) (req\<lparr>hq_Units := 2 ^ 31\<rparr>) = 0"
proof -
  have "1 \<le> uint u" if "u \<noteq> 0" for u :: u32
    using uint_ge_0 [of u] uint_0_iff [of u] that by linarith
  then have "max 1 (uint u) = uint (if u = 0 then 1 else u)" for u :: u32
    by (simp add: max_def)
  then show ?thesis by (simp add: hold_credits_def Let_def uint_word_ariths)
qed

section \<open>A concrete run\<close>

definition demo_env :: "nat env" where
  "demo_env = \<lparr>env_url = (\<lambda>_. True), env_now = (\<lambda>_. 0),
     env_token = (\<lambda>u f n. (Some (200, ''{\"access_token\":\"t\",\"expires_in\":3600}''), Suc n)),
     env_dashboard = (\<lambda>q n. (if n = 0 then Some (401, []) else Some (201, ''{\"ledgerId\":\"L1\",\"balance\":7}''), n)),
     env_others = (\<lambda>n. (Quiet, n)), env_dropped = (\<lambda>n. (False, n))\<rparr>"

definition demo_config :: accountConfig where
  "demo_config = \<lparr>DashboardURL = ''https://d/'', Auth0Domain = ''a'', Auth0Audience = ''u'', Auth0ClientID = ''i'', Auth0ClientSecret = ''s'',
     CreditsPerUnit = 3, HTTPTimeoutSecs = 10\<rparr>"

definition demo_token :: cachedToken where
  "demo_token = \<lparr>accessToken = ''old'', expiresAt = 400000000000\<rparr>"

definition demo_hold :: HoldRequest where
  "demo_hold = \<lparr>hq_ClientId = ''c'', hq_Units = 2, hq_Operation = ''op'', hq_Jti = []\<rparr>"

abbreviation demo_state :: "nat reg acc" where
  "demo_state \<equiv> (demo_token, (0, [TokenFetched demo_token]))"

lemma demo_inv: "tok_inv demo_state"
  by (simp add: since_def demo_token_def)

lemma demo_parsed:
  "json_decode ''{\"access_token\":\"t\",\"expires_in\":3600}'' = Some (JObj [(''access_token'', JStr ''t''), (''expires_in'', JNum ''3600'')], [])"
  "json_parse ''{\"ledgerId\":\"L1\",\"balance\":7}'' = Some (JObj [(''ledgerId'', JStr ''L1''), (''balance'', JNum ''7'')])"
  by code_simp+

lemma demo_bodies:
  "parse_token 0 (Some (200, ''{\"access_token\":\"t\",\"expires_in\":3600}'')) = Inr \<lparr>accessToken = ''t'', expiresAt = 3600000000000\<rparr>"
  "json_unmarshal (dec_struct hold_field) \<lparr>LedgerID = [], Balance = 0, KmsTenant = []\<rparr> ''{\"ledgerId\":\"L1\",\"balance\":7}''
     = Some \<lparr>LedgerID = ''L1'', Balance = 7, KmsTenant = []\<rparr>"
  "balance_of ''{\"ledgerId\":\"L1\",\"balance\":7}'' = Some 7"
  by (simp_all add: parse_token_def decode_token_def balance_of_def json_unmarshal_def demo_parsed dec_struct_def token_field_def
      hold_field_def is_field_def dec_field_def dec_string_def dec_int_def dec_skip_def parse_nat_def is_digit_def digit_value_def
      starts_def seconds_def)

lemma demo_do:
  "dash_do (token_manager (registered demo_env) demo_config) (registered demo_env) demo_config path body demo_state =
     (Ok (201, ''{\"ledgerId\":\"L1\",\"balance\":7}''), (\<lparr>accessToken = ''t'', expiresAt = 3600000000000\<rparr>, (1,
        [TokenFetched demo_token, DashCalled \<lparr>dq_url = baseURL demo_config @ path, dq_authorization = ''Bearer old'', dq_body = body\<rparr> (Some (401, [])),
         TokenFetched \<lparr>accessToken = ''t'', expiresAt = 3600000000000\<rparr>,
         DashCalled \<lparr>dq_url = baseURL demo_config @ path, dq_authorization = ''Bearer t'', dq_body = body\<rparr> (Some (201, ''{\"ledgerId\":\"L1\",\"balance\":7}''))])))"
  by (simp add: dash_do_def send_def token_manager_def token_def refresh_def registered_def invalidate_def fresh_def no_token_def
      cache_Get_def cache_Get_locked_def disturbed_def other_events_def demo_env_def demo_token_def refreshLead_def andThen_def wrapErr_def attempt_def demo_bodies Let_def del: One_nat_def)

lemma demo_Hold:
  "Hold (registered demo_env) demo_config demo_hold demo_state =
     (Ok \<lparr>hs_Ok = True, hs_LedgerId = ''L1'', hs_BalanceAfter = 7, hs_KmsTenant = []\<rparr>,
      snd (dash_do (token_manager (registered demo_env) demo_config) (registered demo_env) demo_config
        ''/service/credits/hold'' (Some (json_print (hold_body ''c'' 6 ''op'' []))) demo_state))"
proof -
  have req: "hold_credits demo_config demo_hold = 6" "hq_ClientId demo_hold = ''c''" "hq_Operation demo_hold = ''op''" "hq_Jti demo_hold = []"
    by (simp_all add: hold_credits_def demo_hold_def demo_config_def)
  show ?thesis unfolding Hold_def dash_Hold_def req
    by (simp add: andThen_def wrapErr_def attempt_def demo_do demo_bodies)
qed

lemma demo_Settle:
  "Settle (registered demo_env) demo_config ''L1'' demo_state =
     (Ok (True, 7), snd (dash_do (token_manager (registered demo_env) demo_config) (registered demo_env) demo_config
        ''/service/credits/hold/L1/settle'' None demo_state))"
  by (simp add: Settle_def dash_Settle_def dash_resolve_def andThen_def wrapErr_def attempt_def demo_do demo_bodies)


theorem resolve_trace_witness:
  "\<exists>r s' new. Settle (registered demo_env) demo_config ''L1'' demo_state = (r, s') \<and> tok_inv s' \<and> r = Ok (True, 7)
     \<and> events s' = events demo_state @ new \<and> dash_run (events demo_state) ''https://d/service/credits/hold/L1/settle'' None new"
proof -
  have url: "baseURL demo_config = ''https://d''" by (simp add: demo_config_def baseURL_def TrimRightChar_def)
  from resolve_trace [where operation = Settle and verb = "''/settle''", OF demo_inv _ demo_Settle] demo_Settle show ?thesis
    unfolding url by auto
qed

end
