(* ===== verification/Ipfs.thy ===== *)
theory Ipfs
  imports OpenBao
begin

text \<open>
  The IPFS plugin (\<^verbatim>\<open>ipfs/plugin.go\<close>, \<^verbatim>\<open>ipfs/config.go\<close>). The node it talks to, the decoding of content identifiers, the
  parsing of addresses and the cache library are parameters: the records \<open>node\<close>, \<open>addresses\<close> and \<open>lru\<close>. A path and a
  content identifier are their strings. An action changes the plugin's two caches and the world of the node. Metrics and
  logging are not modelled.
\<close>

section \<open>What the plugin uses\<close>

text \<open>An error of the node, by what the plugin asks of it: is it a cancelled or expired context, and is it an error of the
  command library, of the general kind or another.\<close>

datatype cmd_error = ErrNormal | ErrOther

record node_error =
  ne_Cancelled :: bool
  ne_Command :: "cmd_error option"

record key =
  key_Name :: string
  key_Path :: string

record block_stat =
  bs_Path :: string
  bs_RootCid :: string

text \<open>What a block's reader will give, and whether it fails after that.\<close>

record reader =
  rd_Bytes :: string
  rd_Fails :: bool

record ipns_name =
  in_String :: string
  in_AsPath :: string

record 'w node =
  Block_Put :: "string \<Rightarrow> ('w, node_error, block_stat) act"
  Block_Get :: "string \<Rightarrow> ('w, node_error, reader) act"
  Block_Rm :: "string \<Rightarrow> ('w, node_error, unit) act"
  Pin_Add :: "string \<Rightarrow> ('w, node_error, unit) act"
  Pin_Rm :: "string \<Rightarrow> ('w, node_error, unit) act"
  Key_Sign :: "string \<Rightarrow> string \<Rightarrow> ('w, node_error, key) act"
  Key_List :: "('w, node_error, key list) act"
  Key_Generate :: "string \<Rightarrow> ('w, node_error, key) act"
  Name_Resolve :: "string \<Rightarrow> ('w, node_error, string) act"
  Name_Publish :: "string \<Rightarrow> string \<Rightarrow> int \<Rightarrow> ('w, node_error, ipns_name) act"

record 'c lru =
  lru_New :: "int \<Rightarrow> 'c option"
  lru_Add :: "string \<Rightarrow> string \<Rightarrow> 'c \<Rightarrow> 'c"
  lru_Get :: "string \<Rightarrow> 'c \<Rightarrow> string option \<times> 'c"
  lru_Remove :: "string \<Rightarrow> 'c \<Rightarrow> 'c"

text \<open>\<open>cid_decode\<close> gives the identifier's canonical string; \<open>url_parse\<close> host name, port and scheme; \<open>node_at\<close> whether a node
  can be addressed by a multiaddress.\<close>

record addresses =
  cid_decode :: "string \<Rightarrow> string option"
  url_parse :: "string \<Rightarrow> (string \<times> string \<times> string) option"
  multiaddr_ok :: "string \<Rightarrow> bool"
  node_at :: "string \<Rightarrow> bool"

record ('c, 'w) deps =
  d_node :: "'w node"
  d_lru :: "'c lru"
  d_addr :: addresses

definition FromCid :: "string \<Rightarrow> string" where
  "FromCid cid = ''/ipfs/'' @ cid"

section \<open>Configuration and set-up\<close>

record Config =
  IPFSAddress :: string
  CacheSize :: u64
  LeaseDuration :: int
  MaxAddBytes :: u64
  MaxGetBytes :: u64

record 'c Plugin =
  cache :: 'c
  ipnsCache :: 'c
  leaseDuration :: int
  maxAddBytes :: u64
  maxGetBytes :: u64

datatype ipfs_error =
    BadAddress | BadMultiaddr | NoNode | BadCacheSize
  | AddTooLarge int u64 | GetTooLarge int u64 | ReadFailed | BadCid string | UnknownNamespace string
  | NotPublished string | KeyNotFound | KeysUnlisted node_error node_error | Node node_error

definition convertToMultiaddr :: "addresses \<Rightarrow> string \<Rightarrow> string option" where
  "convertToMultiaddr ad httpAddr =
     (case url_parse ad httpAddr of
        None \<Rightarrow> None
      | Some (host, port, scheme) \<Rightarrow>
          let port = (if port = [] then if scheme = ''https'' then ''443'' else ''80'' else port)
          in Some (''/dns/'' @ host @ ''/tcp/'' @ port @ ''/'' @ scheme))"

text \<open>\<^verbatim>\<open>int(cfg.CacheSize)\<close> reads the unsigned size as a signed one.\<close>

definition NewPlugin :: "'c lru \<Rightarrow> addresses \<Rightarrow> Config \<Rightarrow> ipfs_error + 'c Plugin" where
  "NewPlugin lr ad cfg =
     (case convertToMultiaddr ad (IPFSAddress cfg) of
        None \<Rightarrow> Inl BadAddress
      | Some addr \<Rightarrow>
          if \<not> multiaddr_ok ad addr then Inl BadMultiaddr
          else if \<not> node_at ad addr then Inl NoNode
          else (case lru_New lr (sint (CacheSize cfg)) of
                  None \<Rightarrow> Inl BadCacheSize
                | Some c \<Rightarrow>
                    (case lru_New lr (sint (CacheSize cfg div 2)) of
                       None \<Rightarrow> Inl BadCacheSize
                     | Some i \<Rightarrow> Inr \<lparr>cache = c, ipnsCache = i, leaseDuration = LeaseDuration cfg,
                         maxAddBytes = MaxAddBytes cfg, maxGetBytes = MaxGetBytes cfg\<rparr>)))"

section \<open>Actions on the plugin's state\<close>

type_synonym ('c, 'w) st = "'c Plugin \<times> 'w"

text \<open>A call to the node, and a change of the caches.\<close>

definition on_node :: "('w, node_error, 'a) act \<Rightarrow> (('c, 'w) st, node_error, 'a) act" where
  "on_node m = (\<lambda>(p, w). let (r, w') = m w in (r, (p, w')))"

definition modify :: "('c Plugin \<Rightarrow> 'c Plugin) \<Rightarrow> (('c, 'w) st, 'e, unit) act" where
  "modify f = (\<lambda>(p, w). (Ok (), (f p, w)))"

definition reading :: "('c Plugin \<Rightarrow> 'a) \<Rightarrow> (('c, 'w) st, 'e, 'a) act" where
  "reading f = (\<lambda>(p, w). (Ok (f p), (p, w)))"

definition cache_get :: "('c, 'w) deps \<Rightarrow> string \<Rightarrow> (('c, 'w) st, 'e, string option) act" where
  "cache_get d k = (\<lambda>(p, w). let (r, c) = lru_Get (d_lru d) k (cache p) in (Ok r, (p\<lparr>cache := c\<rparr>, w)))"

definition ipns_get :: "('c, 'w) deps \<Rightarrow> string \<Rightarrow> (('c, 'w) st, 'e, string option) act" where
  "ipns_get d k = (\<lambda>(p, w). let (r, c) = lru_Get (d_lru d) k (ipnsCache p) in (Ok r, (p\<lparr>ipnsCache := c\<rparr>, w)))"

definition ipns_add :: "('c, 'w) deps \<Rightarrow> string \<Rightarrow> string \<Rightarrow> 'c Plugin \<Rightarrow> 'c Plugin" where
  "ipns_add d k v p = p\<lparr>ipnsCache := lru_Add (d_lru d) k v (ipnsCache p)\<rparr>"

abbreviation call :: "('w, node_error, 'a) act \<Rightarrow> (('c, 'w) st, ipfs_error, 'a) act" where
  "call m \<equiv> wrapErr Node (on_node m)"

section \<open>Keys and blocks\<close>

definition keyForName :: "('c, 'w) deps \<Rightarrow> string \<Rightarrow> (('c, 'w) st, ipfs_error, key) act" where
  "keyForName d name =
     attempt (on_node (Key_Sign (d_node d) name ''orbitport-key-lookup'')) (\<lambda>r. case r of
         Inr k \<Rightarrow> ret k
       | Inl err \<Rightarrow>
           attempt (on_node (Key_List (d_node d))) (\<lambda>r. case r of
               Inl listErr \<Rightarrow> fail (KeysUnlisted err listErr)
             | Inr keys \<Rightarrow> (case find (\<lambda>k. key_Name k = name) keys of Some k \<Rightarrow> ret k | None \<Rightarrow> fail KeyNotFound)))"

definition resolveOrGenerateKey :: "('c, 'w) deps \<Rightarrow> string \<Rightarrow> (('c, 'w) st, ipfs_error, key) act" where
  "resolveOrGenerateKey d name =
     attempt (keyForName d name) (\<lambda>r. case r of Inr k \<Rightarrow> ret k | Inl _ \<Rightarrow> call (Key_Generate (d_node d) name))"

text \<open>
  \<^verbatim>\<open>io.ReadAll(io.LimitReader(r, n))\<close>: at most \<open>n\<close> bytes, none for a limit that is not positive; an error of the reader
  counts only when it comes before the limit.
\<close>

definition read_limited :: "int \<Rightarrow> reader \<Rightarrow> string option" where
  "read_limited n rd =
     (if int (length (rd_Bytes rd)) < n \<and> rd_Fails rd then None else Some (take (nat n) (rd_Bytes rd)))"

definition getByPath :: "('c, 'w) deps \<Rightarrow> string \<Rightarrow> (('c, 'w) st, ipfs_error, string) act" where
  "getByPath d path =
     andThen (cache_get d path) (\<lambda>hit. case hit of
         Some bytes \<Rightarrow> ret bytes
       | None \<Rightarrow>
           andThen (call (Block_Get (d_node d) path)) (\<lambda>rd.
           andThen (reading maxGetBytes) (\<lambda>limit.
             case read_limited (sint (limit + 1)) rd of
               None \<Rightarrow> fail ReadFailed
             | Some bytes \<Rightarrow>
                 if limit < word_of_nat (length bytes) then fail (GetTooLarge (int (length bytes)) limit) else ret bytes)))"

definition isUnpublishedIPNSRecordError :: "node_error \<Rightarrow> bool" where
  "isUnpublishedIPNSRecordError err = (if ne_Cancelled err then False else ne_Command err = Some ErrNormal)"

section \<open>The handlers\<close>

definition Add :: "('c, 'w) deps \<Rightarrow> string \<Rightarrow> (('c, 'w) st, ipfs_error, string) act" where
  "Add d bytes =
     andThen (reading maxAddBytes) (\<lambda>limit.
     if limit < word_of_nat (length bytes) then fail (AddTooLarge (int (length bytes)) limit)
     else andThen (call (Block_Put (d_node d) bytes)) (\<lambda>block.
       andThen (call (Pin_Add (d_node d) (bs_Path block))) (\<lambda>_.
       andThen (modify (\<lambda>p. p\<lparr>cache := lru_Add (d_lru d) (bs_Path block) bytes (cache p)\<rparr>)) (\<lambda>_.
         ret (bs_RootCid block)))))"

text \<open>The path of a name: an alias of a local key, a peer id, or a path already.\<close>

definition normalized_name :: "('c, 'w) deps \<Rightarrow> string \<Rightarrow> (('c, 'w) st, 'e, string) act" where
  "normalized_name d name =
     (if prefix ''/ipns/'' name then ret name
      else attempt (keyForName d name) (\<lambda>r. case r of
               Inl _ \<Rightarrow> ret (''/ipns/'' @ name)
             | Inr k \<Rightarrow> ret (if key_Path k \<noteq> [] then key_Path k else ''/ipns/'' @ name)))"

definition resolve_status :: "string \<Rightarrow> node_error \<Rightarrow> ipfs_error" where
  "resolve_status normalized err = (if isUnpublishedIPNSRecordError err then NotPublished normalized else Node err)"

definition resolve_name :: "('c, 'w) deps \<Rightarrow> string \<Rightarrow> (('c, 'w) st, ipfs_error, string) act" where
  "resolve_name d name =
     andThen (ipns_get d name) (\<lambda>hit. case hit of
         Some p \<Rightarrow> ret p
       | None \<Rightarrow>
           andThen (normalized_name d name) (\<lambda>normalized.
           andThen (wrapErr (resolve_status normalized) (on_node (Name_Resolve (d_node d) normalized))) (\<lambda>p.
           andThen (modify (ipns_add d name p \<circ> ipns_add d normalized p)) (\<lambda>_.
             ret p))))"

definition get_path :: "('c, 'w) deps \<Rightarrow> string \<Rightarrow> string \<Rightarrow> (('c, 'w) st, ipfs_error, string) act" where
  "get_path d namespace key =
     (if namespace = ''ipfs'' then
        (case cid_decode (d_addr d) key of None \<Rightarrow> fail (BadCid key) | Some cid \<Rightarrow> ret (FromCid cid))
      else if namespace = ''ipns'' then resolve_name d key
      else fail (UnknownNamespace namespace))"

definition Get :: "('c, 'w) deps \<Rightarrow> string \<Rightarrow> string \<Rightarrow> (('c, 'w) st, ipfs_error, string \<times> string) act" where
  "Get d namespace key =
     andThen (get_path d namespace key) (\<lambda>p.
     andThen (getByPath d p) (\<lambda>bytes. ret (bytes, p)))"

text \<open>The latest head under every form callers may use: alias, peer id, path.\<close>

definition cachePublishedName :: "('c, 'w) deps \<Rightarrow> string \<Rightarrow> ipns_name \<Rightarrow> string \<Rightarrow> 'c Plugin \<Rightarrow> 'c Plugin" where
  "cachePublishedName d alias published p =
     ipns_add d (in_AsPath published) p \<circ> ipns_add d (in_String published) p \<circ> ipns_add d alias p"

definition publish :: "('c, 'w) deps \<Rightarrow> string \<Rightarrow> string \<Rightarrow> (('c, 'w) st, ipfs_error, ipns_name) act" where
  "publish d p name =
     andThen (reading leaseDuration) (\<lambda>lease.
     andThen (call (Name_Publish (d_node d) p name lease)) (\<lambda>published.
     andThen (modify (cachePublishedName d name published p)) (\<lambda>_.
       ret published)))"

definition Publish :: "('c, 'w) deps \<Rightarrow> string \<Rightarrow> string \<Rightarrow> (('c, 'w) st, ipfs_error, string) act" where
  "Publish d cid publishName =
     andThen (resolveOrGenerateKey d publishName) (\<lambda>key.
     case cid_decode (d_addr d) cid of
       None \<Rightarrow> fail (BadCid cid)
     | Some c \<Rightarrow> andThen (publish d (FromCid c) (key_Name key)) (\<lambda>updated. ret (in_String updated)))"

definition Delete :: "('c, 'w) deps \<Rightarrow> string \<Rightarrow> (('c, 'w) st, ipfs_error, bool) act" where
  "Delete d cid =
     (case cid_decode (d_addr d) cid of
        None \<Rightarrow> fail (BadCid cid)
      | Some c \<Rightarrow>
          andThen (call (Pin_Rm (d_node d) (FromCid c))) (\<lambda>_.
          andThen (call (Block_Rm (d_node d) (FromCid c))) (\<lambda>_.
          andThen (modify (\<lambda>p. p\<lparr>cache := lru_Remove (d_lru d) (FromCid c) (cache p)\<rparr>)) (\<lambda>_.
            ret True))))"

text \<open>An alias that cannot be looked up, for whatever reason, is reported as an empty name.\<close>

definition KeyInfo :: "('c, 'w) deps \<Rightarrow> string \<Rightarrow> (('c, 'w) st, ipfs_error, string) act" where
  "KeyInfo d publishName =
     attempt (keyForName d publishName) (\<lambda>r. case r of Inl _ \<Rightarrow> ret [] | Inr key \<Rightarrow> ret (key_Path key))"

section \<open>The plugin as its clients see it\<close>

text \<open>
  The handlers over gRPC: of an error a client sees a status code, \<open>None\<close> for the code of errors that carry none.
\<close>

definition status_code :: "ipfs_error \<Rightarrow> grpc_code option" where
  "status_code e = (case e of NotPublished _ \<Rightarrow> Some NotFound | _ \<Rightarrow> None)"

record 's ipfs_client =
  ic_Add :: "string \<Rightarrow> ('s, grpc_code option, string) act"
  ic_Publish :: "string \<Rightarrow> string \<Rightarrow> ('s, grpc_code option, string) act"
  ic_Get :: "string \<Rightarrow> string \<Rightarrow> ('s, grpc_code option, string \<times> string) act"
  ic_KeyInfo :: "string \<Rightarrow> ('s, grpc_code option, string) act"

definition ipfs_plugin :: "('c, 'w) deps \<Rightarrow> ('c, 'w) st ipfs_client" where
  "ipfs_plugin d = \<lparr>ic_Add = (\<lambda>bytes. wrapErr status_code (Add d bytes)),
     ic_Publish = (\<lambda>cid name. wrapErr status_code (Publish d cid name)),
     ic_Get = (\<lambda>namespace key. wrapErr status_code (Get d namespace key)),
     ic_KeyInfo = (\<lambda>name. wrapErr status_code (KeyInfo d name))\<rparr>"

section \<open>Panics\<close>

text \<open>Actions that do not panic, and that a sequence of such is one.\<close>

named_theorems safe_rules

definition safe :: "('s, 'e, 'a) act \<Rightarrow> bool" where
  "safe m \<longleftrightarrow> (\<forall>s. fst (m s) \<noteq> Panics)"

lemma safeD: "safe m \<Longrightarrow> fst (m s) \<noteq> Panics"
  by (simp add: safe_def)

lemma safe_ret [safe_rules]: "safe (ret x)" and safe_fail [safe_rules]: "safe (fail e)"
  by (simp_all add: safe_def)

lemma safe_andThen [safe_rules]: "safe m \<Longrightarrow> (\<And>x. safe (f x)) \<Longrightarrow> safe (andThen m f)"
  by (auto simp: safe_def andThen_def split: prod.splits res.splits) (metis fst_conv)

lemma safe_attempt [safe_rules]: "safe m \<Longrightarrow> (\<And>x. safe (f x)) \<Longrightarrow> safe (attempt m f)"
  by (auto simp: safe_def attempt_def split: prod.splits res.splits) (metis fst_conv)

lemma safe_wrapErr [safe_rules]: "safe m \<Longrightarrow> safe (wrapErr g m)"
  unfolding wrapErr_def by (auto intro!: safe_rules split: sum.splits)

lemma safe_on_node [safe_rules]: "safe m \<Longrightarrow> safe (on_node m)"
  by (auto simp: safe_def on_node_def Let_def split: prod.splits) (metis fst_conv)

lemma safe_state [safe_rules]: "safe (modify f)" "safe (reading g)" "safe (cache_get d k)" "safe (ipns_get d k)"
  by (auto simp: safe_def modify_def reading_def cache_get_def ipns_get_def Let_def split: prod.splits)

section \<open>What the plugin relies on and what it promises\<close>

text \<open>
  What the plugin promises to a client that publishes under the names \<open>names\<close>: a store of immutable blocks and a head for
  every name. An addition that fails may still have stored the block. Nothing is promised of a publication that fails.
\<close>

locale block_store =
  fixes cl :: "'s ipfs_client" and inv :: "'s \<Rightarrow> bool" and names :: "string set"
    and blk :: "'s \<Rightarrow> string \<Rightarrow> string option" and head :: "'s \<Rightarrow> string \<Rightarrow> string option"
  assumes add_ok: "inv s \<Longrightarrow> ic_Add cl b s = (Ok cid, s') \<Longrightarrow>
      inv s' \<and> blk s' = (blk s)(FromCid cid \<mapsto> b) \<and> (blk s (FromCid cid) = None \<or> blk s (FromCid cid) = Some b) \<and> head s' = head s"
    and add_failed: "inv s \<Longrightarrow> ic_Add cl b s = (r, s') \<Longrightarrow> \<forall>cid. r \<noteq> Ok cid \<Longrightarrow> inv s' \<and> blk s \<subseteq>\<^sub>m blk s' \<and> head s' = head s"
    and get: "inv s \<Longrightarrow> a \<in> names \<Longrightarrow> ic_Get cl ''ipns'' a s = (got, s') \<Longrightarrow> inv s' \<and> blk s' = blk s \<and> head s' = head s
      \<and> (\<forall>bytes p. got = Ok (bytes, p) \<longrightarrow> head s a = Some p \<and> blk s p = Some bytes)"
    and publish_ok: "inv s \<Longrightarrow> a \<in> names \<Longrightarrow> blk s (FromCid cid) \<noteq> None \<Longrightarrow> ic_Publish cl cid a s = (Ok n, s') \<Longrightarrow>
      inv s' \<and> blk s' = blk s \<and> head s' = (head s)(a \<mapsto> FromCid cid)"
    and no_panic: "fst (ic_Add cl b s) \<noteq> Panics" "fst (ic_Get cl ns a s) \<noteq> Panics" "fst (ic_Publish cl cid a s) \<noteq> Panics"
    and head_text: "inv s \<Longrightarrow> blk s p \<noteq> None \<Longrightarrow> valid_utf8 p"

text \<open>
  What the plugin relies on, in terms of the keys (alias to path), the heads (path of a name to the path it points to) and
  the blocks of a node in a good state, and of the entries a cache holds. The names are no names of the network
  themselves, so that they resolve only through a local key.
\<close>

definition untouched :: "('w \<Rightarrow> 'a) \<Rightarrow> ('w \<Rightarrow> 'b) \<Rightarrow> ('w \<Rightarrow> 'c) \<Rightarrow> ('w \<Rightarrow> bool) \<Rightarrow> 'w \<Rightarrow> 'w \<Rightarrow> bool" where
  "untouched f g h good w w' \<longleftrightarrow> good w' \<and> f w' = f w \<and> g w' = g w \<and> h w' = h w"

text \<open>
  The views of the plugin's state and its invariant: the caches agree with the node, the cache of names on the names and on
  the paths of the local keys. A limit of \<open>2 ^ 63 - 1\<close> or more would make the limit of the reader wrap around.
\<close>

definition head_of :: "('w \<Rightarrow> string \<Rightarrow> string option) \<Rightarrow> ('w \<Rightarrow> string \<Rightarrow> string option) \<Rightarrow> ('c, 'w) st \<Rightarrow> string \<Rightarrow> string option" where
  "head_of keys heads s a = Option.bind (keys (snd s) a) (heads (snd s))"

definition blocks_of :: "('w \<Rightarrow> string \<Rightarrow> string option) \<Rightarrow> ('c, 'w) st \<Rightarrow> string \<Rightarrow> string option" where
  "blocks_of blocks s = blocks (snd s)"

definition store_inv ::
    "('w \<Rightarrow> bool) \<Rightarrow> string set \<Rightarrow> ('w \<Rightarrow> string \<Rightarrow> string option) \<Rightarrow> ('w \<Rightarrow> string \<Rightarrow> string option) \<Rightarrow> ('w \<Rightarrow> string \<Rightarrow> string option)
     \<Rightarrow> ('c \<Rightarrow> string \<Rightarrow> string option) \<Rightarrow> ('c, 'w) st \<Rightarrow> bool" where
  "store_inv good names keys heads blocks held s \<longleftrightarrow> good (snd s) \<and> maxGetBytes (fst s) < 2 ^ 63 - 1
     \<and> (\<forall>p b. held (cache (fst s)) p = Some b \<longrightarrow> blocks (snd s) p = Some b)
     \<and> (\<forall>a \<in> names. \<forall>p. held (ipnsCache (fst s)) a = Some p \<longrightarrow> head_of keys heads s a = Some p)
     \<and> (\<forall>q p. prefix ''/ipns/'' q \<and> held (ipnsCache (fst s)) q = Some p \<longrightarrow> q \<in> ran (keys (snd s)) \<and> heads (snd s) q = Some p)"

lemma sint_small:
  assumes "unat (x :: u64) < 2 ^ 63"
  shows "sint x = int (unat x)"
proof -
  have "int (unat x) < int (2 ^ 63)" using assms by (simp only: of_nat_less_iff)
  then have "uint x < 2 ^ 63" by simp
  then have "signed_take_bit 63 (uint x) = uint x"
    by (intro signed_take_bit_int_eq_self) (simp_all add: order_trans [OF _ uint_ge_0])
  then show ?thesis by (simp add: sint_uint)
qed

lemma sint_large:
  assumes "2 ^ 63 \<le> unat (x :: u64)"
  shows "sint x < 0"
proof -
  have "int (2 ^ 63) \<le> int (unat x)" using assms by (simp only: of_nat_le_iff)
  then have "2 ^ 63 \<le> uint x" by simp
  moreover have "uint x < 2 * 2 ^ 63" using uint_lt2p [of x] by simp
  ultimately have "uint x div 2 ^ 63 = 1" by (intro int_div_pos_eq [where r = "uint x - 2 ^ 63"]) simp_all
  then have "bit (uint x) 63" by (simp add: bit_iff_odd)
  then show ?thesis by (simp add: sint_uint)
qed

lemma read_limited_none:
  fixes limit :: u64
  assumes "\<not> limit < 2 ^ 63 - 1"
  shows "read_limited (sint (limit + 1)) rd = Some []"
proof -
  have "2 ^ 63 - 1 \<le> unat limit" using assms by (simp add: word_less_nat_alt)
  then have "sint (limit + 1) \<le> 0"
    using sint_large [of "limit + 1"] unatSuc [of limit] by (cases "limit + 1 = 0") (simp_all add: add.commute)
  then show ?thesis by (simp add: read_limited_def)
qed

lemma read_limited_whole:
  fixes limit :: u64
  assumes "limit < 2 ^ 63 - 1" "read_limited (sint (limit + 1)) rd = Some b" "\<not> limit < word_of_nat (length b)"
  shows "b = rd_Bytes rd \<and> \<not> rd_Fails rd"
proof -
  define m where "m = unat limit"
  have m: "m < 2 ^ 63 - 1" using assms(1) by (simp add: word_less_nat_alt m_def)
  then have "unat (limit + 1) = m + 1" by (simp add: unat_word_ariths m_def)
  then have n: "sint (limit + 1) = int (m + 1)" using m by (subst sint_small) simp_all
  have b: "b = take (m + 1) (rd_Bytes rd)" "\<not> (length (rd_Bytes rd) < m + 1 \<and> rd_Fails rd)"
    using assms(2) unfolding read_limited_def n nat_int of_nat_less_iff by (auto split: if_splits)
  then have "length b \<le> m + 1" by simp
  then have "unat (word_of_nat (length b) :: u64) = length b" using m by (simp add: unat_of_nat)
  then have "length b \<le> m" using assms(3) by (simp add: word_less_nat_alt m_def)
  then have "length (rd_Bytes rd) \<le> m" by (simp add: b(1) min_def split: if_splits)
  then show ?thesis using b by simp
qed

locale ipfs_node =
  fixes d :: "('c, 'w) deps" and good :: "'w \<Rightarrow> bool" and names :: "string set"
    and keys :: "'w \<Rightarrow> string \<Rightarrow> string option" and heads :: "'w \<Rightarrow> string \<Rightarrow> string option"
    and blocks :: "'w \<Rightarrow> string \<Rightarrow> string option" and held :: "'c \<Rightarrow> string \<Rightarrow> string option"
  assumes lru_get: "lru_Get (d_lru d) k c = (hit, c') \<Longrightarrow> hit = held c k \<and> held c' = held c"
    and lru_add: "held (lru_Add (d_lru d) k v c) k' = Some v' \<Longrightarrow> (if k' = k then v' = v else held c k' = Some v')"
    and calm: "safe (Block_Put (d_node d) b)" "safe (Block_Get (d_node d) p)" "safe (Pin_Add (d_node d) p)" "safe (Key_Sign (d_node d) a m)"
      "safe (Key_List (d_node d))" "safe (Key_Generate (d_node d) a)" "safe (Name_Resolve (d_node d) q)" "safe (Name_Publish (d_node d) p a lease)"
    and names_plain: "a \<in> names \<Longrightarrow> \<not> prefix ''/ipns/'' a"
    and key_paths: "good w \<Longrightarrow> keys w a = Some q \<Longrightarrow> prefix ''/ipns/'' q \<and> (keys w b = Some q \<longrightarrow> b = a)"
    and block_paths: "good w \<Longrightarrow> blocks w p \<noteq> None \<Longrightarrow> valid_utf8 p \<and> (\<forall>cid. p = FromCid cid \<longrightarrow> cid_decode (d_addr d) cid = Some cid)"
    and block_put: "good w \<Longrightarrow> Block_Put (d_node d) b w = (r, w') \<Longrightarrow>
      good w' \<and> keys w' = keys w \<and> heads w' = heads w \<and> blocks w \<subseteq>\<^sub>m blocks w'
      \<and> (\<forall>bs. r = Ok bs \<longrightarrow> bs_Path bs = FromCid (bs_RootCid bs) \<and> blocks w' = (blocks w)(bs_Path bs \<mapsto> b)
           \<and> (blocks w (bs_Path bs) = None \<or> blocks w (bs_Path bs) = Some b))"
    and block_get: "good w \<Longrightarrow> Block_Get (d_node d) p w = (got, w') \<Longrightarrow>
      untouched keys heads blocks good w w' \<and> (\<forall>rd. got = Ok rd \<longrightarrow> rd_Fails rd \<or> blocks w p = Some (rd_Bytes rd))"
    and pin_add: "good w \<Longrightarrow> Pin_Add (d_node d) p w = (u, w') \<Longrightarrow> untouched keys heads blocks good w w'"
    and key_sign: "good w \<Longrightarrow> Key_Sign (d_node d) a m w = (found, w') \<Longrightarrow>
      untouched keys heads blocks good w w' \<and> (\<forall>key. found = Ok key \<longrightarrow> key_Name key = a \<and> keys w a = Some (key_Path key))"
    and key_list: "good w \<Longrightarrow> Key_List (d_node d) w = (ks, w') \<Longrightarrow>
      untouched keys heads blocks good w w' \<and> (\<forall>l. ks = Ok l \<longrightarrow> (\<forall>key \<in> set l. keys w (key_Name key) = Some (key_Path key)))"
    and key_generate: "good w \<Longrightarrow> Key_Generate (d_node d) a w = (found, w') \<Longrightarrow>
      good w' \<and> heads w' = heads w \<and> blocks w' = blocks w \<and> keys w \<subseteq>\<^sub>m keys w'
      \<and> (\<forall>b q. keys w' b = Some q \<longrightarrow> keys w b = Some q \<or> heads w q = None \<and> q \<notin> ran (keys w))
      \<and> (\<forall>key. found = Ok key \<longrightarrow> key_Name key = a \<and> keys w' a = Some (key_Path key))"
    and name_resolve: "good w \<Longrightarrow> Name_Resolve (d_node d) q w = (x, w') \<Longrightarrow>
      untouched keys heads blocks good w w' \<and> (\<forall>p. x = Ok p \<longrightarrow> (q \<in> ran (keys w) \<longrightarrow> heads w q = Some p) \<and> q \<notin> (@) ''/ipns/'' ` names)"
    and name_publish: "good w \<Longrightarrow> Name_Publish (d_node d) p a lease w = (Ok n, w') \<Longrightarrow>
      good w' \<and> keys w' = keys w \<and> blocks w' = blocks w \<and> keys w a = Some (in_AsPath n)
      \<and> in_AsPath n = ''/ipns/'' @ in_String n \<and> \<not> prefix ''/ipns/'' (in_String n) \<and> in_String n \<notin> names
      \<and> (\<forall>q \<in> ran (keys w). heads w' q = (if q = in_AsPath n then Some p else heads w q))"
begin

abbreviation inv :: "('c, 'w) st \<Rightarrow> bool" where
  "inv \<equiv> store_inv good names keys heads blocks held"

text \<open>Steps that change nothing a client can see.\<close>

definition quiet :: "('c, 'w) st \<Rightarrow> ('c, 'w) st \<Rightarrow> bool" where
  "quiet s s' \<longleftrightarrow> inv s' \<and> keys (snd s') = keys (snd s) \<and> heads (snd s') = heads (snd s) \<and> blocks (snd s') = blocks (snd s)"

lemma quiet_trans: "quiet s s' \<Longrightarrow> quiet s' s'' \<Longrightarrow> quiet s s''"
  by (simp add: quiet_def)

lemma quiet_views: "quiet s s' \<Longrightarrow> inv s' \<and> blocks_of blocks s' = blocks_of blocks s \<and> head_of keys heads s' = head_of keys heads s"
  by (simp add: quiet_def blocks_of_def head_of_def [abs_def])

lemma on_node_quiet:
  assumes "inv s" "on_node m s = (r, s')" "\<And>w'. m (snd s) = (r, w') \<Longrightarrow> untouched keys heads blocks good (snd s) w'"
  shows "quiet s s'"
  using assms by (cases s) (auto simp: on_node_def quiet_def store_inv_def untouched_def head_of_def [abs_def] Let_def split: prod.splits)

lemma on_node_run: "on_node m (p, w) = (r, s') \<longleftrightarrow> (\<exists>w'. m w = (r, w') \<and> s' = (p, w'))"
  by (auto simp: on_node_def Let_def split: prod.splits)

lemma keyForName_spec:
  assumes "inv s" "keyForName d a s = (r, s')"
  shows "quiet s s' \<and> (\<forall>k. r = Ok k \<longrightarrow> key_Name k = a \<and> keys (snd s) a = Some (key_Path k))"
proof -
  obtain r1 s1 where sign: "on_node (Key_Sign (d_node d) a ''orbitport-key-lookup'') s = (r1, s1)"
    by (cases "on_node (Key_Sign (d_node d) a ''orbitport-key-lookup'') s")
  obtain r2 s2 where lst: "on_node (Key_List (d_node d)) s1 = (r2, s2)" by (cases "on_node (Key_List (d_node d)) s1")
  have good: "good (snd s)" using assms(1) by (simp add: store_inv_def)
  have q1: "quiet s s1" using on_node_quiet [OF assms(1) sign] key_sign [OF good] by blast
  then have inv1: "inv s1" and keys1: "keys (snd s1) = keys (snd s)" by (simp_all add: quiet_def)
  then have good1: "good (snd s1)" by (simp add: store_inv_def)
  have q2: "quiet s1 s2" using on_node_quiet [OF inv1 lst] key_list [OF good1] by blast
  have k1: "key_Name k = a \<and> keys (snd s) a = Some (key_Path k)" if "r1 = Ok k" for k
    using sign that key_sign [OF good] by (cases s) (auto simp: on_node_run)
  have k2: "keys (snd s) (key_Name k) = Some (key_Path k)" if "r2 = Ok l" "k \<in> set l" for k l
    using lst that key_list [OF good1] keys1 by (cases s1) (auto simp: on_node_run)
  show ?thesis
  proof (cases r1)
    case (Ok k)
    then show ?thesis using assms(2) sign q1 k1 by (auto simp: keyForName_def attempt_def)
  next
    case (Err e)
    then have "keyForName d a s = attempt (on_node (Key_List (d_node d))) (\<lambda>r. case r of
               Inl listErr \<Rightarrow> fail (KeysUnlisted e listErr)
             | Inr keys \<Rightarrow> (case find (\<lambda>k. key_Name k = a) keys of Some k \<Rightarrow> ret k | None \<Rightarrow> fail KeyNotFound)) s1"
      using sign by (simp add: keyForName_def attempt_def)
    then show ?thesis using assms(2) lst quiet_trans [OF q1 q2] k2
      by (cases r2) (auto simp: attempt_def find_Some_iff split: option.splits)
  next
    case Panics
    then show ?thesis using assms(2) sign q1 by (auto simp: keyForName_def attempt_def)
  qed
qed

lemma ipns_get_spec:
  assumes "inv s" "ipns_get d k s = (r, s')"
  shows "quiet s s' \<and> r = Ok (held (ipnsCache (fst s)) k)"
proof -
  obtain p w where s: "s = (p, w)" by (cases s)
  obtain v c where c: "lru_Get (d_lru d) k (ipnsCache p) = (v, c)" by (cases "lru_Get (d_lru d) k (ipnsCache p)")
  show ?thesis using assms c lru_get [OF c] by (auto simp: ipns_get_def s quiet_def store_inv_def head_of_def)
qed

lemma cache_get_spec:
  assumes "inv s" "cache_get d k s = (r, s')"
  shows "quiet s s' \<and> r = Ok (held (cache (fst s)) k)"
proof -
  obtain p w where s: "s = (p, w)" by (cases s)
  obtain v c where c: "lru_Get (d_lru d) k (cache p) = (v, c)" by (cases "lru_Get (d_lru d) k (cache p)")
  show ?thesis using assms c lru_get [OF c] by (auto simp: cache_get_def s quiet_def store_inv_def head_of_def)
qed

text \<open>An entry that agrees with the node may be added.\<close>

lemma ipns_add_inv:
  assumes "inv (p, w)" "k \<in> names \<longrightarrow> head_of keys heads (p, w) k = Some v"
    and "prefix ''/ipns/'' k \<longrightarrow> k \<in> ran (keys w) \<and> heads w k = Some v"
  shows "inv (ipns_add d k v p, w)"
  using assms by (auto simp: store_inv_def ipns_add_def head_of_def dest!: lru_add split: if_splits)

lemma cache_add_inv: "inv (p, w) \<Longrightarrow> blocks w k = Some b \<Longrightarrow> inv (p\<lparr>cache := lru_Add (d_lru d) k b (cache p)\<rparr>, w)"
  by (auto simp: store_inv_def head_of_def dest!: lru_add split: if_splits)

lemma inv_good: "inv s \<Longrightarrow> good (snd s)"
  by (simp add: store_inv_def)

lemma reading_run [simp]: "reading f s = (Ok (f (fst s)), s)"
  by (cases s) (simp add: reading_def)

lemma modify_run [simp]: "modify f s = (Ok (), (f (fst s), snd s))"
  by (cases s) (simp add: modify_def)

text \<open>The steps of a sequence, each with what it is known to do.\<close>

lemma andThen_elim:
  assumes "andThen m f s = (r, s')"
  obtains (ok) x s1 where "m s = (Ok x, s1)" "f x s1 = (r, s')"
    | (stop) r1 where "m s = (r1, s')" "\<And>x. r1 \<noteq> Ok x" "\<And>x. r \<noteq> Ok x"
  using assms by (cases "m s"; cases "fst (m s)") (auto simp: andThen_def)

lemma wrapErr_elim:
  assumes "wrapErr g m s = (r, s')"
  obtains r1 where "m s = (r1, s')" "\<And>x. r = Ok x \<longleftrightarrow> r1 = Ok x"
  using assms by (cases "m s"; cases "fst (m s)") (auto simp: wrapErr_def attempt_def)

lemma getByPath_spec:
  assumes "inv s" "getByPath d p s = (r, s')"
  shows "quiet s s' \<and> (\<forall>b. r = Ok b \<longrightarrow> blocks (snd s) p = Some b)"
proof -
  obtain r1 :: "(ipfs_error, string option) res" and s1 where get: "cache_get d p s = (r1, s1)" by (metis surj_pair)
  from cache_get_spec [OF assms(1) get] have q1: "quiet s s1" and r1: "r1 = Ok (held (cache (fst s)) p)" by auto
  show ?thesis
  proof (cases "held (cache (fst s)) p")
    case (Some b)
    then have "blocks (snd s) p = Some b" using assms(1) by (auto simp: store_inv_def)
    then show ?thesis using assms(2) get q1 r1 Some by (auto simp: getByPath_def andThen_def)
  next
    case None
    obtain r2 s2 where call: "on_node (Block_Get (d_node d) p) s1 = (r2, s2)" by (cases "on_node (Block_Get (d_node d) p) s1")
    have inv1: "inv s1" using q1 by (simp add: quiet_def)
    have q2: "quiet s1 s2" using on_node_quiet [OF inv1 call] block_get [OF inv_good [OF inv1]] by blast
    have rd: "rd_Fails rd \<or> blocks (snd s) p = Some (rd_Bytes rd)" if "r2 = Ok rd" for rd
      using call that block_get [OF inv_good [OF inv1]] q1 by (cases s1) (auto simp: on_node_run quiet_def)
    have "maxGetBytes (fst s2) < 2 ^ 63 - 1" using q2 by (simp add: quiet_def store_inv_def)
    note whole = read_limited_whole [OF this]
    show ?thesis using assms(2) get r1 None call quiet_trans [OF q1 q2] rd whole
      by (cases r2) (auto simp: getByPath_def andThen_def wrapErr_def attempt_def split: option.splits if_splits)
  qed
qed

lemma normalized_name_spec:
  assumes "inv s" "a \<in> names" "normalized_name d a s = (r, s')"
  shows "quiet s s' \<and> (\<forall>n. r = Ok n \<longrightarrow> keys (snd s) a = Some n \<or> n = ''/ipns/'' @ a)"
proof -
  obtain r1 s1 where k: "keyForName d a s = (r1, s1)" by (cases "keyForName d a s")
  show ?thesis using assms(3) names_plain [OF assms(2)] k keyForName_spec [OF assms(1) k]
    by (cases r1) (auto simp: normalized_name_def attempt_def split: if_splits)
qed

lemma resolve_name_spec:
  assumes "inv s" "a \<in> names" "resolve_name d a s = (r, s')"
  shows "quiet s s' \<and> (\<forall>p. r = Ok p \<longrightarrow> head_of keys heads s a = Some p)"
proof -
  obtain r1 :: "(ipfs_error, string option) res" and s1 where get: "ipns_get d a s = (r1, s1)" by (metis surj_pair)
  from ipns_get_spec [OF assms(1) get] have q1: "quiet s s1" and r1: "r1 = Ok (held (ipnsCache (fst s)) a)" by auto
  then have inv1: "inv s1" by (simp add: quiet_def)
  show ?thesis
  proof (cases "held (ipnsCache (fst s)) a")
    case (Some p)
    then show ?thesis using assms get q1 r1 by (auto simp: resolve_name_def andThen_def store_inv_def)
  next
    case None
    then have rest: "andThen (normalized_name d a) (\<lambda>normalized.
           andThen (wrapErr (resolve_status normalized) (on_node (Name_Resolve (d_node d) normalized))) (\<lambda>p.
           andThen (modify (ipns_add d a p \<circ> ipns_add d normalized p)) (\<lambda>_. ret p))) s1 = (r, s')"
      using assms(3) get r1 by (simp add: resolve_name_def andThen_def)
    then show ?thesis
    proof (cases rule: andThen_elim)
      case (stop r2)
      then show ?thesis using normalized_name_spec [OF inv1 assms(2) stop(1)] q1 quiet_trans by blast
    next
      case (ok n s2)
      note n = normalized_name_spec [OF inv1 assms(2) ok(1)]
      have q2: "quiet s s2" using n q1 quiet_trans by blast
      then have inv2: "inv s2" by (simp add: quiet_def)
      from ok(2) show ?thesis
      proof (cases rule: andThen_elim)
        case (stop r3)
        from stop(1) obtain r4 where "on_node (Name_Resolve (d_node d) n) s2 = (r4, s')" by (rule wrapErr_elim)
        then have "quiet s2 s'" using on_node_quiet [OF inv2] name_resolve [OF inv_good [OF inv2]] by blast
        then show ?thesis using q2 quiet_trans stop(3) by blast
      next
        case (ok p s3)
        then have res: "on_node (Name_Resolve (d_node d) n) s2 = (Ok p, s3)" by (simp add: wrapErr_Ok_iff)
        then have q3: "quiet s2 s3" using on_node_quiet [OF inv2] name_resolve [OF inv_good [OF inv2]] by blast
        have law: "n \<in> ran (keys (snd s2)) \<longrightarrow> heads (snd s2) n = Some p" "n \<notin> (@) ''/ipns/'' ` names"
        proof -
          obtain w' where "Name_Resolve (d_node d) n (snd s2) = (Ok p, w')" using res by (cases s2) (auto simp: on_node_run)
          from name_resolve [OF inv_good [OF inv2] this]
          show "n \<in> ran (keys (snd s2)) \<longrightarrow> heads (snd s2) n = Some p" "n \<notin> (@) ''/ipns/'' ` names" by auto
        qed
        have key: "keys (snd s) a = Some n" using law n assms(2) q1 by (auto simp: quiet_def)
        then have head: "heads (snd s) n = Some p" using law(1) q2 by (auto simp: quiet_def ranI)
        have same: "keys (snd s3) = keys (snd s)" "heads (snd s3) = heads (snd s)" "blocks (snd s3) = blocks (snd s)" "inv s3"
          using quiet_trans [OF q2 q3] by (simp_all add: quiet_def)
        obtain pl w where s3: "s3 = (pl, w)" by (cases s3)
        have "inv (ipns_add d n p pl, w)"
          by (rule ipns_add_inv) (use same s3 key head law(2) in \<open>auto simp: ranI dest: names_plain key_paths [OF inv_good [OF assms(1)]]\<close>)
        then have "inv (ipns_add d a p (ipns_add d n p pl), w)"
          by (rule ipns_add_inv) (use same s3 key head names_plain [OF assms(2)] in \<open>auto simp: head_of_def\<close>)
        then show ?thesis using ok(2) s3 same key head by (auto simp: andThen_def quiet_def head_of_def)
      qed
    qed
  qed
qed

lemma generate_spec:
  assumes "inv s" "on_node (Key_Generate (d_node d) a) s = (r, s')"
  shows "inv s' \<and> blocks (snd s') = blocks (snd s) \<and> head_of keys heads s' = head_of keys heads s
    \<and> (\<forall>k. r = Ok k \<longrightarrow> key_Name k = a \<and> keys (snd s') a = Some (key_Path k))"
proof -
  obtain p w w' where s: "s = (p, w)" "s' = (p, w')" "Key_Generate (d_node d) a w = (r, w')"
    using assms(2) by (cases s) (auto simp: on_node_run)
  have gen: "good w'" "heads w' = heads w" "blocks w' = blocks w" "keys w \<subseteq>\<^sub>m keys w'"
    "\<And>b q. keys w' b = Some q \<Longrightarrow> keys w b = Some q \<or> heads w q = None \<and> q \<notin> ran (keys w)" "\<And>k. r = Ok k \<Longrightarrow> key_Name k = a \<and> keys w' a = Some (key_Path k)"
    using key_generate [OF inv_good [OF assms(1), unfolded s(1) snd_conv] s(3)] by simp_all
  have more: "keys w b = Some q \<Longrightarrow> keys w' b = Some q" for b q using gen(4) by (simp add: map_le_def dom_def)
  have head: "head_of keys heads s' b = head_of keys heads s b" for b
    using gen(2) gen(5) [of b] more [of b] by (cases "keys w b"; cases "keys w' b") (auto simp: head_of_def s)
  have ran: "q \<in> ran (keys w) \<Longrightarrow> q \<in> ran (keys w')" for q using more by (auto simp: ran_def)
  have "inv s'" using assms(1) gen(1-3) head ran unfolding store_inv_def s by simp
  then show ?thesis using gen head by (auto simp: s)
qed

lemma resolveOrGenerateKey_spec:
  assumes "inv s" "resolveOrGenerateKey d a s = (r, s')"
  shows "inv s' \<and> blocks (snd s') = blocks (snd s) \<and> head_of keys heads s' = head_of keys heads s
    \<and> (\<forall>k. r = Ok k \<longrightarrow> key_Name k = a \<and> keys (snd s') a = Some (key_Path k))"
proof -
  obtain r1 s1 where k: "keyForName d a s = (r1, s1)" by (cases "keyForName d a s")
  note first = keyForName_spec [OF assms(1) k]
  show ?thesis
  proof (cases "\<exists>e. r1 = Err e")
    case True
    then have "call (Key_Generate (d_node d) a) s1 = (r, s')" using assms(2) k by (auto simp: resolveOrGenerateKey_def attempt_def)
    then obtain r2 where r2: "on_node (Key_Generate (d_node d) a) s1 = (r2, s')" "\<And>x. r = Ok x \<longleftrightarrow> r2 = Ok x" by (rule wrapErr_elim) blast
    show ?thesis using generate_spec [OF _ r2(1)] first quiet_views [of s s1] r2(2) by (auto simp: quiet_def)
  next
    case False
    then have "r = r1" "s' = s1" using assms(2) k by (cases r1; auto simp: resolveOrGenerateKey_def attempt_def)+
    then show ?thesis using first quiet_views [of s s1] by (auto simp: quiet_def)
  qed
qed

lemma Get_spec:
  assumes "inv s" "a \<in> names" "Get d ''ipns'' a s = (r, s')"
  shows "quiet s s' \<and> (\<forall>b p. r = Ok (b, p) \<longrightarrow> head_of keys heads s a = Some p \<and> blocks (snd s) p = Some b)"
  using assms(3) unfolding Get_def
proof (cases rule: andThen_elim)
  case (stop r1)
  then have "resolve_name d a s = (r1, s')" by (simp add: get_path_def)
  then show ?thesis using resolve_name_spec [OF assms(1,2)] stop(3) by blast
next
  case (ok p s1)
  then have name: "resolve_name d a s = (Ok p, s1)" by (simp add: get_path_def)
  note q1 = resolve_name_spec [OF assms(1,2) name]
  then have inv1: "inv s1" by (simp add: quiet_def)
  obtain r2 s2 where g: "getByPath d p s1 = (r2, s2)" by (cases "getByPath d p s1")
  note q2 = getByPath_spec [OF inv1 g]
  show ?thesis using ok(2) g q1 q2 quiet_trans [of s s1 s2] by (cases r2) (auto simp: andThen_def quiet_def)
qed

lemma published_entries:
  assumes "held (ipnsCache (cachePublishedName d a nm v p)) k = Some x"
  shows "if k \<in> {in_AsPath nm, in_String nm, a} then x = v else held (ipnsCache p) k = Some x"
  using assms by (auto simp: cachePublishedName_def ipns_add_def dest!: lru_add split: if_splits)

lemma Publish_spec:
  assumes "inv s" "a \<in> names" "blocks (snd s) (FromCid cid) \<noteq> None" "Publish d cid a s = (Ok n, s')"
  shows "inv s' \<and> blocks (snd s') = blocks (snd s) \<and> head_of keys heads s' = (head_of keys heads s)(a \<mapsto> FromCid cid)"
proof -
  have dec: "cid_decode (d_addr d) cid = Some cid" using block_paths [OF inv_good [OF assms(1)] assms(3)] by blast
  from assms(4) obtain k s1 where key: "resolveOrGenerateKey d a s = (Ok k, s1)"
      and pub: "andThen (publish d (FromCid cid) (key_Name k)) (\<lambda>updated. ret (in_String updated)) s1 = (Ok n, s')"
    unfolding Publish_def by (auto simp: andThen_Ok_iff dec)
  note first = resolveOrGenerateKey_spec [OF assms(1) key]
  obtain p w where s1: "s1 = (p, w)" by (cases s1)
  have gw: "good w" using first s1 inv_good [of s1] by simp
  from pub obtain nm w' where nm: "Name_Publish (d_node d) (FromCid cid) a (leaseDuration p) w = (Ok nm, w')"
      and s': "s' = (cachePublishedName d a nm (FromCid cid) p, w')"
    using first by (auto simp: publish_def andThen_Ok_iff wrapErr_Ok_iff s1 on_node_run)
  note law = name_publish [OF gw nm]
  have keys: "keys w' = keys w" "keys w a = Some (in_AsPath nm)" "blocks w' = blocks w" using law by auto
  have head': "head_of keys heads (x, w') b = (if b = a then Some (FromCid cid) else head_of keys heads (y, w) b)" for b x y
    using law key_paths [OF gw keys(2)] by (cases "keys w b") (auto simp: head_of_def keys ranI)
  have old: "held (ipnsCache p) b = Some x \<Longrightarrow> b \<in> names \<Longrightarrow> head_of keys heads (p, w) b = Some x"
    "held (ipnsCache p) q = Some x \<Longrightarrow> prefix ''/ipns/'' q \<Longrightarrow> q \<in> ran (keys w) \<and> heads w q = Some x" for b q x
    using first unfolding s1 store_inv_def by auto
  have forms: "prefix ''/ipns/'' (in_AsPath nm)" "\<not> prefix ''/ipns/'' (in_String nm)" "in_String nm \<notin> names"
      "\<And>q. q \<in> ran (keys w) \<Longrightarrow> heads w' q = (if q = in_AsPath nm then Some (FromCid cid) else heads w q)"
    using law key_paths [OF gw keys(2)] by blast+
  note entry = published_entries [of a nm "FromCid cid" p]
  have names: "head_of keys heads s' b = Some x" if "b \<in> names" "held (ipnsCache (fst s')) b = Some x" for b x
  proof (cases "b = a")
    case False
    then have "b \<notin> {in_AsPath nm, in_String nm, a}" using forms names_plain [OF that(1)] that(1) by blast
    then show ?thesis using entry [of b x] that old(1) [of b x] False by (simp add: s' head' [of _ _ p])
  qed (use entry [of b x] that in \<open>simp add: s' head' [of _ _ p]\<close>)
  have paths: "q \<in> ran (keys (snd s')) \<and> heads (snd s') q = Some x" if "prefix ''/ipns/'' q" "held (ipnsCache (fst s')) q = Some x" for q x
  proof (cases "q = in_AsPath nm")
    case False
    then have "q \<notin> {in_AsPath nm, in_String nm, a}" using forms names_plain [OF assms(2)] that(1) by blast
    then show ?thesis using entry [of q x] that old(2) [of q x] False forms(4) [of q] by (simp add: s' keys)
  qed (use entry [of q x] that forms(4) [of q] ranI [of "keys w" a "in_AsPath nm"] in \<open>simp add: s' keys\<close>)
  have base: "good (snd s')" "maxGetBytes (fst s') < 2 ^ 63 - 1" "\<And>q b. held (cache (fst s')) q = Some b \<Longrightarrow> blocks (snd s') q = Some b"
    using conjunct1 [OF first, unfolded s1 store_inv_def] law by (auto simp: s' keys cachePublishedName_def ipns_add_def)
  have "inv s'" unfolding store_inv_def using base names paths by blast
  then show ?thesis using first keys head' [of "fst s'" _ p] by (auto simp: s1 s' fun_eq_iff)
qed

lemma Add_spec:
  assumes "inv s" "Add d b s = (r, s')"
  shows "inv s' \<and> blocks (snd s) \<subseteq>\<^sub>m blocks (snd s') \<and> head_of keys heads s' = head_of keys heads s
    \<and> (\<forall>cid. r = Ok cid \<longrightarrow> blocks (snd s') = (blocks (snd s))(FromCid cid \<mapsto> b)
         \<and> (blocks (snd s) (FromCid cid) = None \<or> blocks (snd s) (FromCid cid) = Some b))"
proof (cases "maxAddBytes (fst s) < word_of_nat (length b)")
  case True
  then show ?thesis using assms by (auto simp: Add_def andThen_def)
next
  case False
  obtain p w where s: "s = (p, w)" by (cases s)
  obtain r1 w1 where put: "Block_Put (d_node d) b w = (r1, w1)" by (cases "Block_Put (d_node d) b w")
  have gw: "good w" using inv_good [OF assms(1)] s by simp
  note law = block_put [OF gw put]
  have kept: "\<And>q x. blocks w q = Some x \<Longrightarrow> blocks w1 q = Some x" using law by (auto simp: map_le_def dom_def)
  have inv1: "inv (p, w1)" and head1: "head_of keys heads (p, w1) = head_of keys heads s"
    using assms(1) law kept by (auto simp: store_inv_def head_of_def [abs_def] s)
  have run: "Add d b s = (case r1 of Ok block \<Rightarrow> andThen (call (Pin_Add (d_node d) (bs_Path block))) (\<lambda>_.
       andThen (modify (\<lambda>p. p\<lparr>cache := lru_Add (d_lru d) (bs_Path block) b (cache p)\<rparr>)) (\<lambda>_. ret (bs_RootCid block))) (p, w1)
     | Err e \<Rightarrow> (Err (Node e), (p, w1)) | Panics \<Rightarrow> (Panics, (p, w1)))"
    using False put s by (cases r1) (auto simp: Add_def andThen_def wrapErr_def attempt_def on_node_def)
  show ?thesis
  proof (cases r1)
    case (Ok block)
    obtain r2 w2 where pin: "Pin_Add (d_node d) (bs_Path block) w1 = (r2, w2)" by (cases "Pin_Add (d_node d) (bs_Path block) w1")
    have "quiet (p, w1) (p, w2)"
      using on_node_quiet [OF inv1, of "Pin_Add (d_node d) (bs_Path block)" r2 "(p, w2)"] pin pin_add [of w1] law by (auto simp: on_node_run)
    then have two: "inv (p, w2)" "blocks w2 = blocks w1" "head_of keys heads (x, w2) = head_of keys heads s" for x
      using head1 by (auto simp: quiet_def head_of_def [abs_def])
    have stored: "blocks w1 = (blocks w)(bs_Path block \<mapsto> b)" "bs_Path block = FromCid (bs_RootCid block)"
      "blocks w (bs_Path block) = None \<or> blocks w (bs_Path block) = Some b" using law Ok by auto
    have "inv (p\<lparr>cache := lru_Add (d_lru d) (bs_Path block) b (cache p)\<rparr>, w2)"
      by (rule cache_add_inv [OF two(1)]) (simp add: two(2) stored(1))
    then show ?thesis using assms(2) run Ok pin two stored law
      by (cases r2) (auto simp: andThen_def wrapErr_def attempt_def on_node_def s)
  next
    case (Err e)
    then show ?thesis using assms(2) run inv1 head1 law by (auto simp: s)
  next
    case Panics
    then show ?thesis using assms(2) run inv1 head1 law by (auto simp: s)
  qed
qed

lemma handlers_safe: "safe (Add d b)" "safe (Get d ns a)" "safe (Publish d cid a)"
  unfolding Add_def Get_def get_path_def resolve_name_def normalized_name_def getByPath_def Publish_def publish_def resolveOrGenerateKey_def keyForName_def
  by (auto intro!: safe_rules calm split: option.splits sum.splits if_splits)

end

text \<open>The plugin keeps its promise.\<close>

sublocale ipfs_node \<subseteq> store: block_store "ipfs_plugin d" "store_inv good names keys heads blocks held" names "blocks_of blocks" "head_of keys heads"
proof
  fix s s' :: "('c, 'w) st" and b cid a n p :: string and r :: "(grpc_code option, string) res" and got
  show "store_inv good names keys heads blocks held s \<Longrightarrow> ic_Add (ipfs_plugin d) b s = (Ok cid, s') \<Longrightarrow>
      store_inv good names keys heads blocks held s' \<and> blocks_of blocks s' = (blocks_of blocks s)(FromCid cid \<mapsto> b)
      \<and> (blocks_of blocks s (FromCid cid) = None \<or> blocks_of blocks s (FromCid cid) = Some b) \<and> head_of keys heads s' = head_of keys heads s"
    using Add_spec [of s b "Ok cid" s'] by (auto simp: ipfs_plugin_def wrapErr_Ok_iff blocks_of_def)
  show "store_inv good names keys heads blocks held s \<Longrightarrow> ic_Add (ipfs_plugin d) b s = (r, s') \<Longrightarrow> \<forall>cid. r \<noteq> Ok cid \<Longrightarrow>
      store_inv good names keys heads blocks held s' \<and> blocks_of blocks s \<subseteq>\<^sub>m blocks_of blocks s' \<and> head_of keys heads s' = head_of keys heads s"
    using Add_spec [of s b _ s'] by (auto simp: ipfs_plugin_def blocks_of_def elim!: wrapErr_elim)
  show "store_inv good names keys heads blocks held s \<Longrightarrow> a \<in> names \<Longrightarrow> ic_Get (ipfs_plugin d) ''ipns'' a s = (got, s') \<Longrightarrow>
      store_inv good names keys heads blocks held s' \<and> blocks_of blocks s' = blocks_of blocks s \<and> head_of keys heads s' = head_of keys heads s
      \<and> (\<forall>bytes p. got = Ok (bytes, p) \<longrightarrow> head_of keys heads s a = Some p \<and> blocks_of blocks s p = Some bytes)"
    using Get_spec [of s a _ s'] quiet_views [of s s'] by (auto simp: ipfs_plugin_def blocks_of_def elim!: wrapErr_elim)
  show "store_inv good names keys heads blocks held s \<Longrightarrow> a \<in> names \<Longrightarrow> blocks_of blocks s (FromCid cid) \<noteq> None \<Longrightarrow>
      ic_Publish (ipfs_plugin d) cid a s = (Ok n, s') \<Longrightarrow>
      store_inv good names keys heads blocks held s' \<and> blocks_of blocks s' = blocks_of blocks s
      \<and> head_of keys heads s' = (head_of keys heads s)(a \<mapsto> FromCid cid)"
    using Publish_spec [of s a cid n s'] by (auto simp: ipfs_plugin_def wrapErr_Ok_iff blocks_of_def)
  show "fst (ic_Add (ipfs_plugin d) b s) \<noteq> Panics" "fst (ic_Get (ipfs_plugin d) ns a s) \<noteq> Panics" "fst (ic_Publish (ipfs_plugin d) cid a s) \<noteq> Panics" for ns
    by (simp_all add: ipfs_plugin_def) (intro safeD safe_wrapErr handlers_safe)+
  show "store_inv good names keys heads blocks held s \<Longrightarrow> blocks_of blocks s p \<noteq> None \<Longrightarrow> valid_utf8 p"
    using block_paths [of "snd s" p] inv_good [of s] by (auto simp: blocks_of_def)
qed

section \<open>Properties\<close>

context ipfs_node
begin

lemma lru_hit: "held c k = Some v \<Longrightarrow> \<exists>c'. lru_Get (d_lru d) k c = (Some v, c')"
  by (metis lru_get surj_pair)

lemma resolve_name_hit:
  "held (ipnsCache p) a = Some v \<Longrightarrow> \<exists>c. resolve_name d a (p, w) = (Ok v, (p\<lparr>ipnsCache := c\<rparr>, w))"
  using lru_hit [of "ipnsCache p" a v] by (auto simp: resolve_name_def ipns_get_def andThen_def)

lemma getByPath_hit:
  "held (cache p) q = Some v \<Longrightarrow> \<exists>c. getByPath d q (p, w) = (Ok v, (p\<lparr>cache := c\<rparr>, w))"
  using lru_hit [of "cache p" q v] by (auto simp: getByPath_def cache_get_def andThen_def)

lemma served:
  assumes "inv s" "a \<in> names" "Add d b s = (Ok cid, s1)" "Publish d cid a s1 = (Ok n, s2)" "Get d ''ipns'' a s2 = (r, s3)"
  shows "(\<forall>b' p. r = Ok (b', p) \<longrightarrow> b' = b \<and> p = FromCid cid)
    \<and> (held (ipnsCache (fst s2)) a \<noteq> None \<and> held (cache (fst s2)) (FromCid cid) \<noteq> None \<longrightarrow> r = Ok (b, FromCid cid) \<and> snd s3 = snd s2)"
proof -
  note one = Add_spec [OF assms(1,3)]
  have "blocks (snd s1) (FromCid cid) \<noteq> None" using one by auto
  from Publish_spec [OF _ assms(2) this assms(4)] one
  have two: "inv s2" "blocks (snd s2) (FromCid cid) = Some b" "head_of keys heads s2 a = Some (FromCid cid)" by auto
  obtain p w where s2: "s2 = (p, w)" by (cases s2)
  have hit: "r = Ok (b, FromCid cid) \<and> snd s3 = w" if h: "held (ipnsCache p) a = Some x" "held (cache p) (FromCid cid) = Some y" for x y
  proof -
    have xy: "x = FromCid cid" "y = b" using two h assms(2) by (auto simp: store_inv_def s2)
    obtain c where c: "resolve_name d a (p, w) = (Ok x, (p\<lparr>ipnsCache := c\<rparr>, w))" using resolve_name_hit [OF h(1)] by blast
    obtain c' where "getByPath d x (p\<lparr>ipnsCache := c\<rparr>, w) = (Ok y, (p\<lparr>ipnsCache := c, cache := c'\<rparr>, w))"
      using getByPath_hit [of "p\<lparr>ipnsCache := c\<rparr>" x y w] h(2) xy by auto
    then show ?thesis using assms(5) c xy by (auto simp: Get_def get_path_def andThen_def s2)
  qed
  show ?thesis using Get_spec [OF two(1) assms(2,5)] two hit by (auto simp: s2)
qed

end

text \<open>
  C14. What is added and then published under a name is what the name gives: of a node and a cache that keep their contracts,
  any answer to a request for the name is the published block with its path, and when the block and the name are still cached
  the answer comes without a call to the node.
\<close>

theorem published_is_served:
  assumes "ipfs_node d good names keys heads blocks held" "store_inv good names keys heads blocks held s" "a \<in> names"
    and "Add d b s = (Ok cid, s1)" "Publish d cid a s1 = (Ok n, s2)" "Get d ''ipns'' a s2 = (r, s3)"
  shows "(\<forall>b' p. r = Ok (b', p) \<longrightarrow> b' = b \<and> p = FromCid cid)
    \<and> (held (ipnsCache (fst s2)) a \<noteq> None \<and> held (cache (fst s2)) (FromCid cid) \<noteq> None \<longrightarrow> r = Ok (b, FromCid cid) \<and> snd s3 = snd s2)"
  by (rule ipfs_node.served [OF assms])

text \<open>
  C38. The size limit of a read. A block that is not cached is returned whole, and only if it is no longer than the limit;
  but a limit of \<open>2 ^ 63 - 1\<close> or more makes the limit of the reader wrap around, and then every block is read as empty,
  without an error.
\<close>

theorem get_limit:
  assumes "getByPath d path (p, w) = (Ok b, s')" "fst (lru_Get (d_lru d) path (cache p)) = None" "Block_Get (d_node d) path w = (Ok rd, w')"
  shows "if maxGetBytes p < 2 ^ 63 - 1 then b = rd_Bytes rd \<and> \<not> maxGetBytes p < word_of_nat (length b) else b = []"
proof -
  obtain c where c: "lru_Get (d_lru d) path (cache p) = (None, c)" using assms(2) by (cases "lru_Get (d_lru d) path (cache p)") auto
  have b: "read_limited (sint (maxGetBytes p + 1)) rd = Some b" "\<not> maxGetBytes p < word_of_nat (length b)"
    using assms(1,3) c
    by (auto simp: getByPath_def cache_get_def andThen_def wrapErr_def attempt_def on_node_def reading_def split: option.splits if_splits)
  show ?thesis using read_limited_whole [OF _ b] read_limited_none [of "maxGetBytes p" rd] b by auto
qed

section \<open>A node and a cache\<close>

text \<open>
  An instance of what the plugin relies on: blocks addressed by the hexadecimal form of their content, keys with the path of
  their alias, a cache of three entries.
\<close>

type_synonym demo = "(string \<Rightarrow> string option) \<times> (string \<Rightarrow> string option) \<times> string set"

definition demo_path :: "string \<Rightarrow> string" where
  "demo_path a = ''/ipns/k'' @ a"

definition demo_down :: node_error where
  "demo_down = \<lparr>ne_Cancelled = False, ne_Command = None\<rparr>"

definition demo_node :: "demo node" where
  "demo_node = \<lparr>
     Block_Put = (\<lambda>b (bl, h, ks). (Ok \<lparr>bs_Path = FromCid (hex_encode b), bs_RootCid = hex_encode b\<rparr>, (bl(FromCid (hex_encode b) \<mapsto> b), h, ks))),
     Block_Get = (\<lambda>p (bl, h, ks). (case bl p of None \<Rightarrow> Err demo_down | Some b \<Rightarrow> Ok \<lparr>rd_Bytes = b, rd_Fails = False\<rparr>, (bl, h, ks))),
     Block_Rm = (\<lambda>p (bl, h, ks). (Ok (), (bl(p := None), h, ks))),
     Pin_Add = (\<lambda>_ w. (Ok (), w)), Pin_Rm = (\<lambda>_ w. (Ok (), w)),
     Key_Sign = (\<lambda>a _ (bl, h, ks). (if a \<in> ks then Ok \<lparr>key_Name = a, key_Path = demo_path a\<rparr> else Err demo_down, (bl, h, ks))),
     Key_List = (\<lambda>w. (Err demo_down, w)),
     Key_Generate = (\<lambda>a (bl, h, ks). if a \<in> ks then (Err demo_down, (bl, h, ks)) else (Ok \<lparr>key_Name = a, key_Path = demo_path a\<rparr>, (bl, h, insert a ks))),
     Name_Resolve = (\<lambda>q (bl, h, ks). (case h q of None \<Rightarrow> Err \<lparr>ne_Cancelled = False, ne_Command = Some ErrNormal\<rparr> | Some p \<Rightarrow> Ok p, (bl, h, ks))),
     Name_Publish = (\<lambda>p a _ (bl, h, ks). if a \<in> ks then (Ok \<lparr>in_String = CHR ''k'' # a, in_AsPath = demo_path a\<rparr>, (bl, h(demo_path a \<mapsto> p), ks))
        else (Err demo_down, (bl, h, ks)))\<rparr>"

definition demo_lru :: "(string \<times> string) list lru" where
  "demo_lru = \<lparr>lru_New = (\<lambda>n. if n \<le> 0 then None else Some []),
     lru_Add = (\<lambda>k v c. take 3 ((k, v) # filter (\<lambda>x. fst x \<noteq> k) c)), lru_Get = (\<lambda>k c. (map_of c k, c)),
     lru_Remove = (\<lambda>k c. filter (\<lambda>x. fst x \<noteq> k) c)\<rparr>"

definition demo_deps :: "((string \<times> string) list, demo) deps" where
  "demo_deps = \<lparr>d_node = demo_node, d_lru = demo_lru,
     d_addr = \<lparr>cid_decode = Some, url_parse = (\<lambda>_. Some (''localhost'', ''5001'', ''http'')), multiaddr_ok = (\<lambda>_. True), node_at = (\<lambda>_. True)\<rparr>\<rparr>"

definition demo_good :: "demo \<Rightarrow> bool" where
  "demo_good = (\<lambda>(bl, h, ks). (\<forall>p b. bl p = Some b \<longrightarrow> p = FromCid (hex_encode b))
     \<and> (\<forall>q. h q \<noteq> None \<longrightarrow> (\<exists>a \<in> ks. q = demo_path a)))"

definition demo_keys :: "demo \<Rightarrow> string \<Rightarrow> string option" where
  "demo_keys = (\<lambda>(bl, h, ks) a. if a \<in> ks then Some (demo_path a) else None)"

lemma map_of_take: "map_of (take n xs) k = Some v \<Longrightarrow> map_of xs k = Some v"
  by (metis append_take_drop_id map_add_find_right map_of_append)

lemma map_of_without: "map_of (filter (\<lambda>x. fst x \<noteq> k) xs) k' = (if k' = k then None else map_of xs k')"
  by (induction xs) auto

lemma hex_path_inj: "FromCid (hex_encode a) = FromCid (hex_encode b) \<longleftrightarrow> a = b"
  by (metis FromCid_def append_same_eq hex_decode_encode option.inject same_append_eq)

lemma hex_path_utf8: "valid_utf8 (FromCid (hex_encode b))"
proof (rule ascii_valid)
  have "(of_char c :: nat) < 128" if "c \<in> set (hex_encode b)" for c using is_alnum_range [OF hex_encode_alnum [OF that]] by simp
  then show "list_all (\<lambda>c. (of_char c :: nat) < 128) (FromCid (hex_encode b))" by (simp add: FromCid_def list_all_iff)
qed

interpretation demo: ipfs_node demo_deps demo_good "{''b''}" demo_keys "\<lambda>w. fst (snd w)" fst map_of
proof
  note defs = demo_deps_def demo_node_def demo_good_def demo_keys_def untouched_def
  show "lru_Get (d_lru demo_deps) k c = (hit, c') \<Longrightarrow> hit = map_of c k \<and> map_of c' = map_of c" for k c hit c'
    by (auto simp: demo_deps_def demo_lru_def)
  show "map_of (lru_Add (d_lru demo_deps) k v c) k' = Some v' \<Longrightarrow> if k' = k then v' = v else map_of c k' = Some v'" for k v c k' v'
    unfolding demo_deps_def demo_lru_def lru.simps deps.simps
    by (drule map_of_take) (auto simp: map_of_without split: if_splits)
  show "safe (Block_Put (d_node demo_deps) b)" "safe (Block_Get (d_node demo_deps) p)" "safe (Pin_Add (d_node demo_deps) p)"
      "safe (Key_Sign (d_node demo_deps) a m)" "safe (Key_List (d_node demo_deps))" "safe (Key_Generate (d_node demo_deps) a)"
      "safe (Name_Resolve (d_node demo_deps) q)" "safe (Name_Publish (d_node demo_deps) p a lease)" for b p a m q lease
    by (auto simp: safe_def demo_deps_def demo_node_def split: option.splits)
  show "a \<in> {''b''} \<Longrightarrow> \<not> prefix ''/ipns/'' a" for a by auto
  show "demo_good w \<Longrightarrow> demo_keys w a = Some q \<Longrightarrow> prefix ''/ipns/'' q \<and> (demo_keys w b = Some q \<longrightarrow> b = a)" for w a q b
    by (cases w) (auto simp: demo_keys_def demo_path_def split: if_splits)
  show "demo_good w \<Longrightarrow> fst w p \<noteq> None \<Longrightarrow> valid_utf8 p \<and> (\<forall>cid. p = FromCid cid \<longrightarrow> cid_decode (d_addr demo_deps) cid = Some cid)" for w p
  proof -
    assume "demo_good w" "fst w p \<noteq> None"
    then obtain b where "p = FromCid (hex_encode b)" by (cases w) (auto simp: demo_good_def)
    then show ?thesis by (simp add: hex_path_utf8 demo_deps_def)
  qed
  fix w w' :: demo
  show "demo_good w \<Longrightarrow> Block_Put (d_node demo_deps) b w = (r, w') \<Longrightarrow> demo_good w' \<and> demo_keys w' = demo_keys w \<and> fst (snd w') = fst (snd w)
      \<and> fst w \<subseteq>\<^sub>m fst w' \<and> (\<forall>bs. r = Ok bs \<longrightarrow> bs_Path bs = FromCid (bs_RootCid bs) \<and> fst w' = (fst w)(bs_Path bs \<mapsto> b)
           \<and> (fst w (bs_Path bs) = None \<or> fst w (bs_Path bs) = Some b))" for b r
    by (cases w) (auto simp: defs map_le_def hex_path_inj split: if_splits, (metis hex_path_inj option.exhaust)+)
  show "demo_good w \<Longrightarrow> Block_Get (d_node demo_deps) p w = (got, w') \<Longrightarrow>
      untouched demo_keys (\<lambda>w. fst (snd w)) fst demo_good w w' \<and> (\<forall>rd. got = Ok rd \<longrightarrow> rd_Fails rd \<or> fst w p = Some (rd_Bytes rd))" for p got
    by (cases w) (auto simp: defs split: option.splits)
  show "demo_good w \<Longrightarrow> Pin_Add (d_node demo_deps) p w = (u, w') \<Longrightarrow> untouched demo_keys (\<lambda>w. fst (snd w)) fst demo_good w w'" for p u
    by (cases w) (auto simp: defs)
  show "demo_good w \<Longrightarrow> Key_Sign (d_node demo_deps) a m w = (found, w') \<Longrightarrow> untouched demo_keys (\<lambda>w. fst (snd w)) fst demo_good w w'
      \<and> (\<forall>key. found = Ok key \<longrightarrow> key_Name key = a \<and> demo_keys w a = Some (key_Path key))" for a m found
    by (cases w) (auto simp: defs split: if_splits)
  show "demo_good w \<Longrightarrow> Key_List (d_node demo_deps) w = (ks, w') \<Longrightarrow> untouched demo_keys (\<lambda>w. fst (snd w)) fst demo_good w w'
      \<and> (\<forall>l. ks = Ok l \<longrightarrow> (\<forall>key \<in> set l. demo_keys w (key_Name key) = Some (key_Path key)))" for ks
    by (cases w) (auto simp: defs)
  show "demo_good w \<Longrightarrow> Key_Generate (d_node demo_deps) a w = (found, w') \<Longrightarrow> demo_good w' \<and> fst (snd w') = fst (snd w) \<and> fst w' = fst w
      \<and> demo_keys w \<subseteq>\<^sub>m demo_keys w'
      \<and> (\<forall>b q. demo_keys w' b = Some q \<longrightarrow> demo_keys w b = Some q \<or> fst (snd w) q = None \<and> q \<notin> ran (demo_keys w))
      \<and> (\<forall>key. found = Ok key \<longrightarrow> key_Name key = a \<and> demo_keys w' a = Some (key_Path key))" for a found
    by (cases w) (auto simp: defs map_le_def ran_def demo_path_def split: if_splits)
  show "demo_good w \<Longrightarrow> Name_Resolve (d_node demo_deps) q w = (x, w') \<Longrightarrow> untouched demo_keys (\<lambda>w. fst (snd w)) fst demo_good w w'
      \<and> (\<forall>p. x = Ok p \<longrightarrow> (q \<in> ran (demo_keys w) \<longrightarrow> fst (snd w) q = Some p) \<and> q \<notin> (@) ''/ipns/'' ` {''b''})" for q x
    by (cases w) (auto simp: defs demo_path_def split: option.splits)
  show "demo_good w \<Longrightarrow> Name_Publish (d_node demo_deps) p a lease w = (Ok n, w') \<Longrightarrow>
      demo_good w' \<and> demo_keys w' = demo_keys w \<and> fst w' = fst w \<and> demo_keys w a = Some (in_AsPath n)
      \<and> in_AsPath n = ''/ipns/'' @ in_String n \<and> \<not> prefix ''/ipns/'' (in_String n) \<and> in_String n \<notin> {''b''}
      \<and> (\<forall>q \<in> ran (demo_keys w). fst (snd w') q = (if q = in_AsPath n then Some p else fst (snd w) q))" for p a lease n
    by (cases w) (auto simp: defs demo_path_def split: if_splits)
qed

definition demo_start :: "((string \<times> string) list, demo) st" where
  "demo_start = (\<lparr>cache = [], ipnsCache = [], leaseDuration = 0, maxAddBytes = 100, maxGetBytes = 100\<rparr>, (Map.empty, Map.empty, {}))"

lemma demo_start_inv: "store_inv demo_good {''b''} demo_keys (\<lambda>w. fst (snd w)) fst map_of demo_start"
  by (simp add: store_inv_def demo_start_def demo_good_def)

theorem published_is_served_witness:
  "\<exists>s1 s2 s3. Add demo_deps ''x'' demo_start = (Ok ''78'', s1) \<and> Publish demo_deps ''78'' ''b'' s1 = (Ok ''kb'', s2)
     \<and> Get demo_deps ''ipns'' ''b'' s2 = (Ok (''x'', ''/ipfs/78''), s3) \<and> snd s3 = snd s2"
proof -
  have hex: "hex_encode ''x'' = ''78''" by code_simp
  note defs = demo_deps_def demo_node_def demo_lru_def demo_start_def andThen_def wrapErr_def attempt_def on_node_def reading_def modify_def
  have add: "Add demo_deps ''x'' demo_start = (Ok ''78'', (\<lparr>cache = [(''/ipfs/78'', ''x'')], ipnsCache = [], leaseDuration = 0, maxAddBytes = 100, maxGetBytes = 100\<rparr>,
      (Map.empty(''/ipfs/78'' \<mapsto> ''x''), Map.empty, {})))"
    by (simp add: Add_def defs hex FromCid_def)
  let ?p = "\<lparr>cache = [(''/ipfs/78'', ''x'')], ipnsCache = [(''/ipns/kb'', ''/ipfs/78''), (''kb'', ''/ipfs/78''), (''b'', ''/ipfs/78'')],
      leaseDuration = 0, maxAddBytes = 100, maxGetBytes = 100\<rparr>"
  let ?w = "(Map.empty(''/ipfs/78'' \<mapsto> ''x''), Map.empty(''/ipns/kb'' \<mapsto> ''/ipfs/78''), {''b''}) :: demo"
  have pub: "Publish demo_deps ''78'' ''b'' (snd (Add demo_deps ''x'' demo_start)) = (Ok ''kb'', (?p, ?w))"
    unfolding add by (simp add: Publish_def resolveOrGenerateKey_def keyForName_def publish_def cachePublishedName_def ipns_add_def defs FromCid_def demo_path_def)
  obtain r s3 where get: "Get demo_deps ''ipns'' ''b'' (?p, ?w) = (r, s3)" by (cases "Get demo_deps ''ipns'' ''b'' (?p, ?w)")
  have cid: "FromCid ''78'' = ''/ipfs/78''" by (simp add: FromCid_def)
  have "map_of (ipnsCache ?p) ''b'' \<noteq> None" "map_of (cache ?p) (FromCid ''78'') \<noteq> None" by (simp_all add: cid)
  with published_is_served [OF demo.ipfs_node_axioms demo_start_inv insertI1 add pub [unfolded add snd_conv] get]
  have "r = Ok (''x'', ''/ipfs/78'')" "snd s3 = ?w" unfolding cid fst_conv snd_conv by blast+
  then have "Get demo_deps ''ipns'' ''b'' (?p, ?w) = (Ok (''x'', ''/ipfs/78''), s3)" "snd s3 = snd (?p, ?w)" using get by simp_all
  with add pub [unfolded add snd_conv] show ?thesis by blast
qed

theorem get_limit_witness:
  "\<exists>s'. getByPath demo_deps ''/ipfs/78'' (\<lparr>cache = [], ipnsCache = [], leaseDuration = 0, maxAddBytes = 0, maxGetBytes = - 1\<rparr>,
      (Map.empty(''/ipfs/78'' \<mapsto> ''x''), Map.empty, {})) = (Ok [], s')"
proof -
  let ?p = "\<lparr>cache = [], ipnsCache = [], leaseDuration = 0, maxAddBytes = 0, maxGetBytes = - 1\<rparr> :: (string \<times> string) list Plugin"
  let ?w = "(Map.empty(''/ipfs/78'' \<mapsto> ''x''), Map.empty, {}) :: demo"
  obtain b s' where get: "getByPath demo_deps ''/ipfs/78'' (?p, ?w) = (Ok b, s')"
    by (simp add: getByPath_def cache_get_def demo_deps_def demo_node_def demo_lru_def andThen_def wrapErr_def attempt_def on_node_def reading_def
        read_limited_def split: if_splits)
  from get_limit [OF get, of "\<lparr>rd_Bytes = ''x'', rd_Fails = False\<rparr>" ?w] have "b = []"
    by (simp add: demo_deps_def demo_node_def demo_lru_def)
  with get show ?thesis by blast
qed

end
