(* ===== verification/Beacon.thy ===== *)
theory Beacon
  imports Ipfs MasterSeed
begin

text \<open>
  The beacon plugin: the types of the published blocks and their JSON (\<^verbatim>\<open>beacon/types.go\<close>), the registry and the genesis of a
  beacon (\<^verbatim>\<open>beacon/plugin.go\<close>), the execution of a beacon (\<^verbatim>\<open>beacon/builder.go\<close>) and the scheduler (\<^verbatim>\<open>beacon/scheduler.go\<close>).
  The IPFS plugin is a client record, in the end the model of that plugin, and each of its calls is one step. \<open>executeBeacon\<close>
  is an execution that nothing interrupts; \<open>exec_phase\<close> and \<open>exec_step\<close> are executions that overlap. What the sources of randomness answer, the clock
  and the end of a context are arguments. Connections, metrics and logging are not modelled; a block without data makes the
  code dereference a nil pointer, which is the result \<open>Panics\<close>. The waits between the attempts to query the registry and
  their common time limit are not modelled: an attempt fails when its calls do.
\<close>

section \<open>Types\<close>

record BeaconMetadata =
  bm_Name :: string
  bm_PublicKey :: string
  bm_Version :: string
  bm_Encoding :: string
  bm_BatchSize :: u64
  bm_Message :: string
  bm_Interval :: int

record BeaconPayload =
  bp_Sequence :: u64
  bp_Timestamp :: int
  bp_CTRNG :: "string list option"

record Block =
  bk_Link :: string
  bk_Data :: "BeaconPayload option"
  bk_Metadata :: "BeaconMetadata option"

type_synonym Registry = "BeaconMetadata list option"

definition payload_json :: "BeaconPayload \<Rightarrow> json" where
  "payload_json p = JObj [(''sequence'', JNum (Itoa (uint (bp_Sequence p)))), (''timestamp'', JNum (Itoa (bp_Timestamp p))),
     (''ctrng'', case bp_CTRNG p of None \<Rightarrow> JNull | Some vs \<Rightarrow> JArr (map JStr vs))]"

definition beacon_json :: "BeaconMetadata \<Rightarrow> json" where
  "beacon_json m = JObj [(''name'', JStr (bm_Name m)), (''public_key'', JStr (bm_PublicKey m)), (''version'', JStr (bm_Version m)),
     (''encoding'', JStr (bm_Encoding m)), (''batch_size'', JNum (Itoa (uint (bm_BatchSize m)))), (''message'', JStr (bm_Message m)),
     (''interval'', JNum (Itoa (bm_Interval m)))]"

definition block_json :: "Block \<Rightarrow> json" where
  "block_json b = JObj (omitempty ''previous'' (bk_Link b)
     @ (case bk_Data b of None \<Rightarrow> [] | Some p \<Rightarrow> [(''data'', payload_json p)])
     @ (case bk_Metadata b of None \<Rightarrow> [] | Some m \<Rightarrow> [(''metadata'', beacon_json m)]))"

definition registry_json :: "Registry \<Rightarrow> json" where
  "registry_json r = (case r of None \<Rightarrow> JNull | Some ms \<Rightarrow> JArr (map beacon_json ms))"

definition dec_uint64 :: "u64 decoder" where
  "dec_uint64 j old =
     (case j of
        JNum lit \<Rightarrow>
          (case parse_nat lit of
             Some n \<Rightarrow> if n < 2 ^ 64 then (True, of_nat n) else (False, old)
           | None \<Rightarrow> (False, old))
      | JNull \<Rightarrow> (True, old)
      | _ \<Rightarrow> (False, old))"

definition payload_field :: "string \<Rightarrow> BeaconPayload decoder" where
  "payload_field k =
     (if is_field ''sequence'' k then dec_field bp_Sequence bp_Sequence_update dec_uint64
      else if is_field ''timestamp'' k then dec_field bp_Timestamp bp_Timestamp_update dec_int
      else if is_field ''ctrng'' k then dec_field bp_CTRNG bp_CTRNG_update (dec_slice dec_string [])
      else dec_skip)"

definition beacon_field :: "string \<Rightarrow> BeaconMetadata decoder" where
  "beacon_field k =
     (if is_field ''name'' k then dec_field bm_Name bm_Name_update dec_string
      else if is_field ''public_key'' k then dec_field bm_PublicKey bm_PublicKey_update dec_string
      else if is_field ''version'' k then dec_field bm_Version bm_Version_update dec_string
      else if is_field ''encoding'' k then dec_field bm_Encoding bm_Encoding_update dec_string
      else if is_field ''batch_size'' k then dec_field bm_BatchSize bm_BatchSize_update dec_uint64
      else if is_field ''message'' k then dec_field bm_Message bm_Message_update dec_string
      else if is_field ''interval'' k then dec_field bm_Interval bm_Interval_update dec_int
      else dec_skip)"

definition zero_payload :: BeaconPayload where
  "zero_payload = \<lparr>bp_Sequence = 0, bp_Timestamp = 0, bp_CTRNG = None\<rparr>"

definition zero_beacon :: BeaconMetadata where
  "zero_beacon = \<lparr>bm_Name = [], bm_PublicKey = [], bm_Version = [], bm_Encoding = [], bm_BatchSize = 0, bm_Message = [], bm_Interval = 0\<rparr>"

definition block_field :: "string \<Rightarrow> Block decoder" where
  "block_field k =
     (if is_field ''previous'' k then dec_field bk_Link bk_Link_update dec_string
      else if is_field ''data'' k then dec_field bk_Data bk_Data_update (dec_pointer (dec_struct payload_field) zero_payload)
      else if is_field ''metadata'' k then dec_field bk_Metadata bk_Metadata_update (dec_pointer (dec_struct beacon_field) zero_beacon)
      else dec_skip)"

definition UnmarshalBeaconBlock :: "string \<Rightarrow> Block option" where
  "UnmarshalBeaconBlock = json_unmarshal (dec_struct block_field) \<lparr>bk_Link = [], bk_Data = None, bk_Metadata = None\<rparr>"

definition block_Marshal :: "Block \<Rightarrow> string" where
  "block_Marshal b = json_print (block_json b)"

definition registry_Marshal :: "Registry \<Rightarrow> string" where
  "registry_Marshal r = json_print (registry_json r)"

definition registry_Unmarshal :: "string \<Rightarrow> Registry option" where
  "registry_Unmarshal = json_unmarshal (dec_slice (dec_struct beacon_field) zero_beacon) None"

section \<open>The last block and the genesis\<close>

datatype load_error = GetFailed "grpc_code option" | BlockMalformed

definition loadLastBeaconBlock :: "'s ipfs_client \<Rightarrow> string \<Rightarrow> ('s, load_error, string \<times> BeaconPayload option) act" where
  "loadLastBeaconBlock cl name =
     andThen (wrapErr GetFailed (ic_Get cl ''ipns'' name)) (\<lambda>(bytes, path).
       case UnmarshalBeaconBlock bytes of None \<Rightarrow> fail BlockMalformed | Some b \<Rightarrow> ret (path, bk_Data b))"

datatype genesis_step = TempAdd | TempPublish | FinalAdd | FinalPublish

text \<open>The interval of the configuration in seconds, a minute if it is not positive.\<close>

definition beaconInterval :: "32 word \<Rightarrow> int" where
  "beaconInterval interval = (if 0 < sint interval then sint interval * 1000000000 else 60 * 1000000000)"

definition genesis_payload :: "int \<Rightarrow> BeaconPayload" where
  "genesis_payload now = \<lparr>bp_Sequence = 0, bp_Timestamp = now, bp_CTRNG = Some []\<rparr>"

definition genesis_metadata :: "string \<Rightarrow> string \<Rightarrow> string \<Rightarrow> 32 word \<Rightarrow> BeaconMetadata" where
  "genesis_metadata beaconName pubKey msg interval =
     \<lparr>bm_Name = beaconName, bm_PublicKey = pubKey, bm_Version = ''1.0'', bm_Encoding = ''json'', bm_BatchSize = 3, bm_Message = msg,
      bm_Interval = beaconInterval interval\<rparr>"

definition createBeacon ::
    "'s ipfs_client \<Rightarrow> int \<Rightarrow> string \<Rightarrow> string \<Rightarrow> 32 word \<Rightarrow> ('s, genesis_step \<times> grpc_code option, BeaconMetadata) act" where
  "createBeacon cl now beaconName msg interval =
     (let gen0 = genesis_payload now in
      andThen (wrapErr (Pair TempAdd) (ic_Add cl (block_Marshal \<lparr>bk_Link = [], bk_Data = Some gen0, bk_Metadata = None\<rparr>))) (\<lambda>tempCid.
      andThen (wrapErr (Pair TempPublish) (ic_Publish cl tempCid beaconName)) (\<lambda>pubKey.
      let meta = genesis_metadata beaconName pubKey msg interval in
      andThen (wrapErr (Pair FinalAdd) (ic_Add cl (block_Marshal \<lparr>bk_Link = [], bk_Data = Some gen0, bk_Metadata = Some meta\<rparr>))) (\<lambda>finalCid.
      andThen (wrapErr (Pair FinalPublish) (ic_Publish cl finalCid beaconName)) (\<lambda>_.
        ret meta)))))"

section \<open>The registry\<close>

record Config =
  bc_BeaconRegistry :: string
  bc_DefaultBeaconName :: string
  bc_BeaconMsg :: string
  bc_BeaconInterval :: "32 word"

datatype registryQueryState = MissingKey | UnpublishedKey | Loaded

datatype query_error = KeyInfoFailed "grpc_code option" | ResolveFailed "grpc_code option" | RegistryMalformed

datatype registry_error =
    RegistryUnset | ResolutionFailed query_error | Cancelled
  | CreateFailed "genesis_step \<times> grpc_code option" | RegistryAdd "grpc_code option" | RegistryPublish "grpc_code option"

definition queryRegistry :: "'s ipfs_client \<Rightarrow> string \<Rightarrow> ('s, query_error, BeaconMetadata list \<times> registryQueryState) act" where
  "queryRegistry cl alias =
     andThen (wrapErr KeyInfoFailed (ic_KeyInfo cl alias)) (\<lambda>ipnsName.
     if ipnsName = [] then ret ([], MissingKey)
     else attempt (ic_Get cl ''ipns'' ipnsName) (\<lambda>r. case r of
         Inl code \<Rightarrow> if code = Some NotFound then ret ([], UnpublishedKey) else fail (ResolveFailed code)
       | Inr (bytes, _) \<Rightarrow>
           (case registry_Unmarshal bytes of
              None \<Rightarrow> fail RegistryMalformed
            | Some reg \<Rightarrow> ret (case reg of None \<Rightarrow> [] | Some ms \<Rightarrow> ms, Loaded))))"

definition maxRetries :: nat where
  "maxRetries = 5"

text \<open>The attempts that are left; \<open>cancelled n\<close> tells whether the context ends while the code waits with \<open>n\<close> attempts left.\<close>

fun query_loop :: "(nat \<Rightarrow> bool) \<Rightarrow> 's ipfs_client \<Rightarrow> string \<Rightarrow> nat \<Rightarrow> ('s, registry_error, BeaconMetadata list \<times> registryQueryState) act" where
  "query_loop cancelled cl alias 0 = ret ([], MissingKey)"
| "query_loop cancelled cl alias (Suc n) =
     attempt (queryRegistry cl alias) (\<lambda>r. case r of
         Inr x \<Rightarrow> ret x
       | Inl e \<Rightarrow>
           if n = 0 then fail (ResolutionFailed e)
           else if cancelled n then fail Cancelled
           else query_loop cancelled cl alias n)"

definition findBeaconInRegistry :: "BeaconMetadata list \<Rightarrow> string \<Rightarrow> BeaconMetadata option" where
  "findBeaconInRegistry reg name = find (\<lambda>b. bm_Name b = name) reg"

fun upsertBeacon :: "BeaconMetadata \<Rightarrow> BeaconMetadata list \<Rightarrow> BeaconMetadata list" where
  "upsertBeacon meta [] = [meta]"
| "upsertBeacon meta (b # bs) = (if bm_Name b = bm_Name meta then meta # bs else b # upsertBeacon meta bs)"

definition publishRegistry :: "'s ipfs_client \<Rightarrow> string \<Rightarrow> BeaconMetadata list \<Rightarrow> ('s, registry_error, string) act" where
  "publishRegistry cl alias reg =
     andThen (wrapErr RegistryAdd (ic_Add cl (registry_Marshal (Some reg)))) (\<lambda>cid.
     andThen (wrapErr RegistryPublish (ic_Publish cl cid alias)) (\<lambda>_. ret cid))"

definition loadRegistryWithClient ::
    "(nat \<Rightarrow> bool) \<Rightarrow> int \<Rightarrow> Config \<Rightarrow> 's ipfs_client \<Rightarrow> ('s, registry_error, BeaconMetadata list) act" where
  "loadRegistryWithClient cancelled now cfg cl =
     (if bc_BeaconRegistry cfg = [] then fail RegistryUnset else
      andThen (query_loop cancelled cl (bc_BeaconRegistry cfg) maxRetries) (\<lambda>(reg, queryState).
      case (if queryState = Loaded then findBeaconInRegistry reg (bc_DefaultBeaconName cfg) else None) of
        Some meta \<Rightarrow> ret [meta]
      | None \<Rightarrow>
          let reg = (if queryState = Loaded then reg else []) in
          andThen (wrapErr CreateFailed (createBeacon cl now (bc_DefaultBeaconName cfg) (bc_BeaconMsg cfg) (bc_BeaconInterval cfg))) (\<lambda>meta.
          andThen (publishRegistry cl (bc_BeaconRegistry cfg) (upsertBeacon meta reg)) (\<lambda>_.
            ret [meta]))))"

section \<open>The execution of a beacon\<close>

text \<open>
  What the sources of randomness answer to an execution: \<open>None\<close> is an error; the seeds depend on the number that is asked
  for. \<open>sr_cancelled\<close> tells whether the context had ended when the first call failed, \<open>sr_delivers\<close> which way the final
  \<^verbatim>\<open>select\<close> goes.
\<close>

record sources =
  sr_trng :: "string list option"
  sr_seeds :: "u32 \<Rightarrow> string list option"
  sr_cancelled :: bool
  sr_delivers :: bool

definition loadCtrngs :: "sources \<Rightarrow> BeaconMetadata \<Rightarrow> string list" where
  "loadCtrngs src metadata =
     (let batchSize = (if bm_BatchSize metadata = 0 then 1 else bm_BatchSize metadata);
          ctrngSeed = (case sr_trng src of Some (v # _) \<Rightarrow> v | _ \<Rightarrow> [])
      in if sr_trng src = None \<and> sr_cancelled src then []
         else let ctrngs = (if ctrngSeed \<noteq> [] then
                              (case DeriveBulkFromSeedHex ctrngSeed (sint batchSize) of Inl _ \<Rightarrow> [] | Inr vs \<Rightarrow> vs)
                            else (case sr_seeds src (ucast batchSize) of None \<Rightarrow> [] | Some vs \<Rightarrow> vs))
              in if sr_delivers src then ctrngs else [])"

datatype exec_error = LoadFailed load_error | NoCTRNG | BlockAdd "grpc_code option" | BlockPublish "grpc_code option"

definition executeBeacon :: "'s ipfs_client \<Rightarrow> sources \<Rightarrow> int \<Rightarrow> BeaconMetadata \<Rightarrow> ('s, exec_error, unit) act" where
  "executeBeacon cl src now metadata =
     andThen (wrapErr LoadFailed (loadLastBeaconBlock cl (bm_Name metadata))) (\<lambda>(lastCid, lastBlock).
     case lastBlock of
       None \<Rightarrow> panic
     | Some prev \<Rightarrow>
         let ctrngs = loadCtrngs src metadata in
         if ctrngs = [] then fail NoCTRNG
         else
           let block = \<lparr>bk_Link = lastCid, bk_Data = Some \<lparr>bp_Sequence = bp_Sequence prev + 1, bp_Timestamp = now, bp_CTRNG = Some ctrngs\<rparr>,
                 bk_Metadata = None\<rparr> in
           andThen (wrapErr BlockAdd (ic_Add cl (block_Marshal block))) (\<lambda>cid.
           andThen (wrapErr BlockPublish (ic_Publish cl cid (bm_Name metadata))) (\<lambda>_. ret ())))"

text \<open>
  The builder runs every execution in a goroutine of its own, so that executions overlap when one takes longer than the
  interval of the beacon. The phases of an execution, between which others may run: the last block is to be read, the new
  block is to be added, it is to be published, and the execution has ended. The values of the sources and the time are those
  the execution gets.
\<close>

datatype progress = Reading | Adding Block | Publishing string | Finished "(exec_error, unit) res"

definition exec_phase :: "'s ipfs_client \<Rightarrow> BeaconMetadata \<Rightarrow> sources \<times> int \<Rightarrow> progress \<Rightarrow> 's \<Rightarrow> progress \<times> 's" where
  "exec_phase cl metadata x ph s =
     (case ph of
        Reading \<Rightarrow>
          (case loadLastBeaconBlock cl (bm_Name metadata) s of
             (Err e, s') \<Rightarrow> (Finished (Err (LoadFailed e)), s')
           | (Panics, s') \<Rightarrow> (Finished Panics, s')
           | (Ok (lastCid, None), s') \<Rightarrow> (Finished Panics, s')
           | (Ok (lastCid, Some prev), s') \<Rightarrow>
               let ctrngs = loadCtrngs (fst x) metadata in
               (if ctrngs = [] then Finished (Err NoCTRNG)
                else Adding \<lparr>bk_Link = lastCid, bk_Data = Some \<lparr>bp_Sequence = bp_Sequence prev + 1, bp_Timestamp = snd x, bp_CTRNG = Some ctrngs\<rparr>,
                  bk_Metadata = None\<rparr>, s'))
      | Adding b \<Rightarrow>
          (case ic_Add cl (block_Marshal b) s of
             (Err e, s') \<Rightarrow> (Finished (Err (BlockAdd e)), s')
           | (Panics, s') \<Rightarrow> (Finished Panics, s')
           | (Ok cid, s') \<Rightarrow> (Publishing cid, s'))
      | Publishing cid \<Rightarrow>
          (case ic_Publish cl cid (bm_Name metadata) s of
             (Err e, s') \<Rightarrow> (Finished (Err (BlockPublish e)), s')
           | (Panics, s') \<Rightarrow> (Finished Panics, s')
           | (Ok _, s') \<Rightarrow> (Finished (Ok ()), s'))
      | Finished r \<Rightarrow> (Finished r, s))"

section \<open>The scheduler\<close>

record Scheduler =
  sc_registry :: "BeaconMetadata list"
  sc_q :: "BeaconMetadata list"
  sc_closed :: bool
  sc_lastExecs :: "string \<Rightarrow> int option"

definition queueSize :: nat where
  "queueSize = 16"

definition NewScheduler :: "BeaconMetadata list \<Rightarrow> Scheduler" where
  "NewScheduler registry = \<lparr>sc_registry = registry, sc_q = [], sc_closed = False, sc_lastExecs = Map.empty\<rparr>"

text \<open>\<^verbatim>\<open>now.Sub(t)\<close>, which saturates.\<close>

definition time_sub :: "int \<Rightarrow> int \<Rightarrow> int" where
  "time_sub now t = max (- (2 ^ 63)) (min (2 ^ 63 - 1) (now - t))"

text \<open>One beacon of a tick: when \<^verbatim>\<open>time.Since\<close> reads \<open>checked\<close> and \<^verbatim>\<open>time.Now\<close> reads \<open>set\<close>.\<close>

definition check_beacon :: "int \<Rightarrow> int \<Rightarrow> BeaconMetadata \<Rightarrow> Scheduler \<Rightarrow> Scheduler" where
  "check_beacon checked now beacon s =
     (if bm_Interval beacon = 0 then s
      else if (case sc_lastExecs s (bm_Name beacon) of None \<Rightarrow> False | Some lastExec \<Rightarrow> time_sub checked lastExec < bm_Interval beacon) then s
      else if length (sc_q s) < queueSize then
        s\<lparr>sc_q := sc_q s @ [beacon], sc_lastExecs := (sc_lastExecs s)(bm_Name beacon \<mapsto> now)\<rparr>
      else s)"

text \<open>The clock as the sequence of its readings, the \<open>i\<close>th beacon of the tick taking the next two.\<close>

fun check_beacons :: "(nat \<Rightarrow> int) \<Rightarrow> nat \<Rightarrow> BeaconMetadata list \<Rightarrow> Scheduler \<Rightarrow> Scheduler" where
  "check_beacons clk i [] s = s"
| "check_beacons clk i (b # bs) s = check_beacons clk (i + 2) bs (check_beacon (clk i) (clk (i + 1)) b s)"

definition checkAndTriggerBeacons :: "(nat \<Rightarrow> int) \<Rightarrow> nat \<Rightarrow> Scheduler \<Rightarrow> Scheduler" where
  "checkAndTriggerBeacons clk i s = check_beacons clk i (sc_registry s) s"

definition setLastExec :: "string \<Rightarrow> int \<Rightarrow> Scheduler \<Rightarrow> Scheduler" where
  "setLastExec beacon t s = s\<lparr>sc_lastExecs := (sc_lastExecs s)(beacon \<mapsto> t)\<rparr>"

fun update_last_execs :: "'s ipfs_client \<Rightarrow> BeaconMetadata list \<Rightarrow> Scheduler \<Rightarrow> ('s, 'e, Scheduler) act" where
  "update_last_execs cl [] s = ret s"
| "update_last_execs cl (b # bs) s =
     attempt (loadLastBeaconBlock cl (bm_Name b)) (\<lambda>r. case r of
         Inl _ \<Rightarrow> update_last_execs cl bs s
       | Inr (_, None) \<Rightarrow> panic
       | Inr (_, Some prev) \<Rightarrow> update_last_execs cl bs (setLastExec (bm_Name b) (bp_Timestamp prev * 1000000000) s))"

definition updateLastExecs :: "'s ipfs_client \<Rightarrow> Scheduler \<Rightarrow> ('s, 'e, Scheduler) act" where
  "updateLastExecs cl s = update_last_execs cl (sc_registry s) s"

definition Scheduler_Close :: "Scheduler \<Rightarrow> Scheduler" where
  "Scheduler_Close s = s\<lparr>sc_closed := True\<rparr>"

text \<open>What the builder receives from the queue: \<open>None\<close> while it has to wait. A closed queue gives zero values when it is empty.\<close>

definition receive :: "Scheduler \<Rightarrow> (BeaconMetadata \<times> Scheduler) option" where
  "receive s =
     (case sc_q s of
        b # bs \<Rightarrow> Some (b, s\<lparr>sc_q := bs\<rparr>)
      | [] \<Rightarrow> if sc_closed s then Some (zero_beacon, s) else None)"

section \<open>The JSON of blocks and registries\<close>

definition beacon_ints :: "BeaconMetadata \<Rightarrow> bool" where
  "beacon_ints m \<longleftrightarrow> - (2 ^ 63) \<le> bm_Interval m \<and> bm_Interval m < 2 ^ 63"

definition block_ints :: "Block \<Rightarrow> bool" where
  "block_ints b \<longleftrightarrow> (\<forall>p. bk_Data b = Some p \<longrightarrow> - (2 ^ 63) \<le> bp_Timestamp p \<and> bp_Timestamp p < 2 ^ 63)
     \<and> (\<forall>m. bk_Metadata b = Some m \<longrightarrow> beacon_ints m)"

text \<open>Strings come back with their invalid bytes replaced.\<close>

definition san_payload :: "BeaconPayload \<Rightarrow> BeaconPayload" where
  "san_payload p = p\<lparr>bp_CTRNG := map_option (map to_valid) (bp_CTRNG p)\<rparr>"

definition san_beacon :: "BeaconMetadata \<Rightarrow> BeaconMetadata" where
  "san_beacon m = \<lparr>bm_Name = to_valid (bm_Name m), bm_PublicKey = to_valid (bm_PublicKey m), bm_Version = to_valid (bm_Version m),
     bm_Encoding = to_valid (bm_Encoding m), bm_BatchSize = bm_BatchSize m, bm_Message = to_valid (bm_Message m), bm_Interval = bm_Interval m\<rparr>"

definition san_block :: "Block \<Rightarrow> Block" where
  "san_block b = \<lparr>bk_Link = to_valid (bk_Link b), bk_Data = map_option san_payload (bk_Data b), bk_Metadata = map_option san_beacon (bk_Metadata b)\<rparr>"

lemma beacon_keys:
  "to_valid ''sequence'' = ''sequence''" "to_valid ''timestamp'' = ''timestamp''" "to_valid ''ctrng'' = ''ctrng''"
  "to_valid ''name'' = ''name''" "to_valid ''public_key'' = ''public_key''" "to_valid ''version'' = ''version''"
  "to_valid ''encoding'' = ''encoding''" "to_valid ''batch_size'' = ''batch_size''" "to_valid ''message'' = ''message''"
  "to_valid ''interval'' = ''interval''" "to_valid ''data'' = ''data''" "to_valid ''metadata'' = ''metadata''"
  by (rule to_valid_id, rule ascii_valid, simp)+

lemma san_payload_json: "san_json (payload_json p) = payload_json (san_payload p)"
  by (cases "bp_CTRNG p") (simp_all add: payload_json_def san_payload_def beacon_keys del: to_valid.simps)

lemma san_beacon_json: "san_json (beacon_json m) = beacon_json (san_beacon m)"
  by (simp add: beacon_json_def san_beacon_def beacon_keys del: to_valid.simps)

lemma san_block_json: "san_json (block_json b) = block_json (san_block b)"
  by (auto simp: block_json_def san_block_def san_omitempty san_payload_json san_beacon_json beacon_keys simp del: to_valid.simps split: option.splits)

lemma payload_fields:
  "payload_field ''sequence'' = dec_field bp_Sequence bp_Sequence_update dec_uint64"
  "payload_field ''timestamp'' = dec_field bp_Timestamp bp_Timestamp_update dec_int"
  "payload_field ''ctrng'' = dec_field bp_CTRNG bp_CTRNG_update (dec_slice dec_string [])"
  by (simp_all add: payload_field_def is_field_lower lower_char_def)

lemma beacon_fields:
  "beacon_field ''name'' = dec_field bm_Name bm_Name_update dec_string"
  "beacon_field ''public_key'' = dec_field bm_PublicKey bm_PublicKey_update dec_string"
  "beacon_field ''version'' = dec_field bm_Version bm_Version_update dec_string"
  "beacon_field ''encoding'' = dec_field bm_Encoding bm_Encoding_update dec_string"
  "beacon_field ''batch_size'' = dec_field bm_BatchSize bm_BatchSize_update dec_uint64"
  "beacon_field ''message'' = dec_field bm_Message bm_Message_update dec_string"
  "beacon_field ''interval'' = dec_field bm_Interval bm_Interval_update dec_int"
  by (simp_all add: beacon_field_def is_field_lower lower_char_def)

lemma block_fields:
  "block_field ''previous'' = dec_field bk_Link bk_Link_update dec_string"
  "block_field ''data'' = dec_field bk_Data bk_Data_update (dec_pointer (dec_struct payload_field) zero_payload)"
  "block_field ''metadata'' = dec_field bk_Metadata bk_Metadata_update (dec_pointer (dec_struct beacon_field) zero_beacon)"
  by (simp_all add: block_field_def is_field_lower lower_char_def)

lemma dec_uint64_Itoa [simp]: "dec_uint64 (JNum (Itoa (uint (n :: u64)))) old = (True, n)"
proof -
  have "unat n < 2 ^ 64" using unsigned_less [of n, where ?'a = nat] by simp
  then show ?thesis by (simp add: dec_uint64_def Itoa_def unat_eq_nat_uint [symmetric])
qed

lemma dec_payload:
  "- (2 ^ 63) \<le> bp_Timestamp p \<Longrightarrow> bp_Timestamp p < 2 ^ 63 \<Longrightarrow> dec_struct payload_field (payload_json p) zero_payload = (True, p)"
  by (cases "bp_CTRNG p")
     (simp_all add: payload_json_def dec_struct_step payload_fields zero_payload_def dec_slice_def dec_elems_map)

lemma dec_beacon: "beacon_ints m \<Longrightarrow> dec_struct beacon_field (beacon_json m) zero_beacon = (True, m)"
  by (simp add: beacon_json_def dec_struct_step beacon_fields zero_beacon_def beacon_ints_def)

lemma dec_pointer_obj: "d (JObj ms) zero = (True, x) \<Longrightarrow> dec_pointer d zero (JObj ms) None = (True, Some x)"
  by (simp add: dec_pointer_def)

lemma dec_block:
  assumes "block_ints b"
  shows "dec_struct block_field (block_json b) \<lparr>bk_Link = [], bk_Data = None, bk_Metadata = None\<rparr> = (True, b)"
proof -
  obtain l p m where b: "b = \<lparr>bk_Link = l, bk_Data = p, bk_Metadata = m\<rparr>" by (cases b)
  have p: "dec_pointer (dec_struct payload_field) zero_payload (payload_json x) None = (True, Some x)" if "p = Some x" for x
    using dec_payload [of x] assms that by (auto simp: b block_ints_def payload_json_def intro: dec_pointer_obj)
  have m: "dec_pointer (dec_struct beacon_field) zero_beacon (beacon_json x) None = (True, Some x)" if "m = Some x" for x
    using dec_beacon [of x] assms that by (auto simp: b block_ints_def beacon_json_def intro: dec_pointer_obj)
  have "dec_struct block_field (block_json b) \<lparr>bk_Link = [], bk_Data = None, bk_Metadata = None\<rparr> =
      dec_struct block_field (JObj ((case p of None \<Rightarrow> [] | Some p \<Rightarrow> [(''data'', payload_json p)])
        @ (case m of None \<Rightarrow> [] | Some m \<Rightarrow> [(''metadata'', beacon_json m)]))) \<lparr>bk_Link = l, bk_Data = None, bk_Metadata = None\<rparr>"
    unfolding block_json_def b by (simp, rule dec_struct_omitempty) (simp_all add: block_fields)
  also have "\<dots> = (True, b)"
    using p m by (cases p; cases m) (simp_all add: b dec_struct_step block_fields)
  finally show ?thesis .
qed

lemma beacon_json_shape: "nums_ok (beacon_json m)" "json_depth (beacon_json m) \<le> 1"
  by (auto simp: beacon_json_def)

lemma payload_json_shape: "nums_ok (payload_json p)" "json_depth (payload_json p) \<le> 2"
proof -
  show "nums_ok (payload_json p)" by (auto simp: payload_json_def split: option.splits)
  have "json_depth (case bp_CTRNG p of None \<Rightarrow> JNull | Some vs \<Rightarrow> JArr (map JStr vs)) \<le> Suc 0"
    by (cases "bp_CTRNG p") (simp, simp only: option.case depth_elems, simp)
  then have "json_depth (payload_json p) \<le> Suc (Suc 0)" unfolding payload_json_def depth_members by simp
  then show "json_depth (payload_json p) \<le> 2" by simp
qed

lemma block_json_shape: "nums_ok (block_json b)" "json_depth (block_json b) \<le> max_depth"
proof -
  show "nums_ok (block_json b)" using payload_json_shape beacon_json_shape by (auto simp: block_json_def omitempty_def split: option.splits)
  have "json_depth (beacon_json m) \<le> 2" for m using beacon_json_shape(2) [of m] by simp
  then have "json_depth (block_json b) \<le> Suc 2"
    using payload_json_shape(2) unfolding block_json_def depth_members by (auto simp: omitempty_def split: option.splits)
  then show "json_depth (block_json b) \<le> max_depth" by (simp add: max_depth_def)
qed

lemma block_ints_san: "block_ints (san_block b) \<longleftrightarrow> block_ints b"
  by (auto simp: block_ints_def san_block_def san_payload_def san_beacon_def beacon_ints_def)

lemma unmarshal_block: "block_ints b \<Longrightarrow> UnmarshalBeaconBlock (block_Marshal b) = Some (san_block b)"
  using dec_block [of "san_block b"] block_ints_san [of b]
  by (simp add: UnmarshalBeaconBlock_def block_Marshal_def json_unmarshal_def json_parse_printed [OF block_json_shape] san_block_json)

lemma san_block_id:
  assumes "valid_utf8 (bk_Link b)" "\<forall>p vs. bk_Data b = Some p \<longrightarrow> bp_CTRNG p = Some vs \<longrightarrow> list_all valid_utf8 vs" "bk_Metadata b = None"
  shows "san_block b = b"
proof -
  have "san_payload p = p" if "bk_Data b = Some p" for p
    using assms(2) that by (cases "bp_CTRNG p") (auto simp: san_payload_def list_all_iff map_idI)
  then show ?thesis using assms(1,3) by (cases b) (auto simp: san_block_def map_option_case split: option.splits)
qed

lemma registry_shape: "nums_ok (registry_json r)" "json_depth (registry_json r) \<le> max_depth"
proof -
  show "nums_ok (registry_json r)" using beacon_json_shape by (auto simp: registry_json_def split: option.splits)
  have "json_depth (registry_json r) \<le> Suc 1"
    using beacon_json_shape(2) by (cases r) (simp add: registry_json_def, simp only: registry_json_def option.case depth_elems, simp)
  then show "json_depth (registry_json r) \<le> max_depth" by (simp add: max_depth_def)
qed

lemma unmarshal_registry:
  assumes "\<forall>ms. r = Some ms \<longrightarrow> list_all beacon_ints ms"
  shows "registry_Unmarshal (registry_Marshal r) = Some (map_option (map san_beacon) r)"
proof -
  have elems: "list_all beacon_ints ms \<Longrightarrow> dec_elems (dec_struct beacon_field) zero_beacon (map (beacon_json \<circ> san_beacon) ms) [] = (True, map san_beacon ms)" for ms
    by (induction ms) (auto simp: dec_beacon san_beacon_def beacon_ints_def)
  show ?thesis using assms elems
    by (cases r) (simp_all add: registry_Unmarshal_def registry_Marshal_def json_unmarshal_def json_parse_printed [OF registry_shape],
      simp_all add: registry_json_def dec_slice_def san_beacon_json comp_def)
qed

section \<open>The chain of blocks\<close>

text \<open>The chain that starts at a path: the block there, back to a genesis, with the sequence numbers counting up.\<close>

definition block_at :: "(string \<Rightarrow> string option) \<Rightarrow> string \<Rightarrow> Block option" where
  "block_at blk p = Option.bind (blk p) UnmarshalBeaconBlock"

inductive chain :: "(string \<Rightarrow> string option) \<Rightarrow> string \<Rightarrow> nat \<Rightarrow> bool" for blk where
  genesis: "block_at blk p = Some b \<Longrightarrow> bk_Link b = [] \<Longrightarrow> bk_Data b = Some d \<Longrightarrow> bp_Sequence d = 0 \<Longrightarrow> chain blk p 0"
| extend: "chain blk q n \<Longrightarrow> block_at blk p = Some b \<Longrightarrow> bk_Link b = q \<Longrightarrow> bk_Data b = Some d \<Longrightarrow> bp_Sequence d = of_nat (Suc n)
    \<Longrightarrow> chain blk p (Suc n)"

inductive_cases chain_genesisE: "chain blk p 0"
inductive_cases chain_extendE: "chain blk p (Suc n)"

lemma chain_mono: "chain blk p n \<Longrightarrow> blk \<subseteq>\<^sub>m blk' \<Longrightarrow> chain blk' p n"
proof (induction rule: chain.induct)
  case (genesis p b d)
  moreover have "block_at blk' p = Some b" using genesis by (auto simp: block_at_def map_le_def dom_def bind_eq_Some_conv)
  ultimately show ?case by (blast intro: chain.genesis)
next
  case (extend q n p b d)
  moreover have "block_at blk' p = Some b" using extend by (auto simp: block_at_def map_le_def dom_def bind_eq_Some_conv)
  ultimately show ?case by (blast intro: chain.extend)
qed

lemma chain_head: "chain blk p n \<Longrightarrow> \<exists>bytes b d. blk p = Some bytes \<and> UnmarshalBeaconBlock bytes = Some b \<and> bk_Data b = Some d \<and> bp_Sequence d = of_nat n"
  by (cases rule: chain.cases) (auto simp: block_at_def bind_eq_Some_conv)

definition int64 :: "int \<Rightarrow> bool" where
  "int64 i \<longleftrightarrow> - (2 ^ 63) \<le> i \<and> i < 2 ^ 63"

text \<open>An execution after the last block was read.\<close>

lemma execute_run:
  assumes "ic_Get cl ''ipns'' (bm_Name m) s = (Ok (bytes, p), s1)" "UnmarshalBeaconBlock bytes = Some b" "bk_Data b = Some d"
  shows "executeBeacon cl src now m s = (if loadCtrngs src m = [] then (Err NoCTRNG, s1)
    else andThen (wrapErr BlockAdd (ic_Add cl (block_Marshal \<lparr>bk_Link = p,
             bk_Data = Some \<lparr>bp_Sequence = bp_Sequence d + 1, bp_Timestamp = now, bp_CTRNG = Some (loadCtrngs src m)\<rparr>, bk_Metadata = None\<rparr>))) (\<lambda>cid.
         andThen (wrapErr BlockPublish (ic_Publish cl cid (bm_Name m))) (\<lambda>_. ret ())) s1)"
  using assms by (simp add: executeBeacon_def loadLastBeaconBlock_def andThen_def wrapErr_def attempt_def Let_def)

context block_store
begin

text \<open>Storing a block and publishing it.\<close>

lemma add_extends:
  assumes "inv s" "ic_Add cl b s = (Ok cid, s')"
  shows "inv s'" "blk s \<subseteq>\<^sub>m blk s'" "blk s' (FromCid cid) = Some b" "head s' = head s"
  using add_ok [OF assms] by (auto simp: map_le_def dom_def)

lemma put_block:
  assumes "inv s" "a \<in> names" "block_ints b" "ic_Add cl (block_Marshal b) s = (Ok cid, s1)" "ic_Publish cl cid a s1 = (Ok n, s2)"
  shows "inv s2" "blk s \<subseteq>\<^sub>m blk s2" "head s2 = (head s)(a \<mapsto> FromCid cid)" "block_at (blk s2) (FromCid cid) = Some (san_block b)"
proof -
  note add = add_extends [OF assms(1,4)]
  from publish_ok [OF add(1) assms(2) _ assms(5)] add(3)
  have pub: "inv s2" "blk s2 = blk s1" "head s2 = (head s1)(a \<mapsto> FromCid cid)" by auto
  show "inv s2" "blk s \<subseteq>\<^sub>m blk s2" "head s2 = (head s)(a \<mapsto> FromCid cid)" using pub add by auto
  show "block_at (blk s2) (FromCid cid) = Some (san_block b)" using pub add(3) unmarshal_block [OF assms(3)] by (simp add: block_at_def)
qed

lemma genesis_chain:
  assumes "inv s" "beacon \<in> names" "int64 now" "createBeacon cl now beacon msg interval s = (Ok meta, s')"
  shows "inv s' \<and> blk s \<subseteq>\<^sub>m blk s' \<and> bm_Name meta = beacon \<and> (\<exists>p. head s' beacon = Some p \<and> chain (blk s') p 0)"
proof -
  let ?temp = "\<lparr>bk_Link = [], bk_Data = Some (genesis_payload now), bk_Metadata = None\<rparr>"
  from assms(4) obtain tempCid s1 pubKey s2 finalCid s3 n where
      temp: "ic_Add cl (block_Marshal ?temp) s = (Ok tempCid, s1)" "ic_Publish cl tempCid beacon s1 = (Ok pubKey, s2)"
      and meta: "meta = genesis_metadata beacon pubKey msg interval"
      and final: "ic_Add cl (block_Marshal (?temp\<lparr>bk_Metadata := Some meta\<rparr>)) s2 = (Ok finalCid, s3)" "ic_Publish cl finalCid beacon s3 = (Ok n, s')"
    by (auto simp: createBeacon_def Let_def andThen_Ok_iff wrapErr_Ok_iff)
  have "0 < sint interval \<Longrightarrow> sint interval < 2 ^ 31" using sint_lt [of interval] by simp
  then have ints: "block_ints ?temp" "block_ints (?temp\<lparr>bk_Metadata := Some meta\<rparr>)"
    using assms(3) unfolding block_ints_def beacon_ints_def meta genesis_metadata_def genesis_payload_def int64_def beaconInterval_def
    by (auto split: if_splits)
  note one = put_block [OF assms(1,2) ints(1) temp]
  note two = put_block [OF one(1) assms(2) ints(2) final]
  have "chain (blk s') (FromCid finalCid) 0"
    by (rule chain.genesis [where d = "genesis_payload now", OF two(4)]) (simp_all add: san_block_def san_payload_def genesis_payload_def)
  then show ?thesis using one two map_le_trans by (auto simp: meta genesis_metadata_def)
qed

lemma execute_extends:
  assumes "inv s" "bm_Name m \<in> names" "int64 now" "head s (bm_Name m) = Some p" "chain (blk s) p n"
    and "executeBeacon cl src now m s = (r, s')" "\<And>c. r \<noteq> Err (BlockPublish c)"
  shows "inv s' \<and> blk s \<subseteq>\<^sub>m blk s'
    \<and> (\<exists>p'. head s' (bm_Name m) = Some p' \<and> chain (blk s') p' (if r = Ok () then Suc n else n))"
proof -
  obtain g s1 where got: "ic_Get cl ''ipns'' (bm_Name m) s = (g, s1)" by (cases "ic_Get cl ''ipns'' (bm_Name m) s")
  from get [OF assms(1,2) got] have one: "inv s1" "blk s1 = blk s" "head s1 = head s"
      and g: "\<And>bytes q. g = Ok (bytes, q) \<Longrightarrow> head s (bm_Name m) = Some q \<and> blk s q = Some bytes" by auto
  have stays: ?thesis if "r \<noteq> Ok ()" "inv s'" "blk s \<subseteq>\<^sub>m blk s'" "head s' = head s"
    using that assms(4,5) chain_mono by auto
  from chain_head [OF assms(5)] obtain bytes b d where
    d: "blk s p = Some bytes" "UnmarshalBeaconBlock bytes = Some b" "bk_Data b = Some d" "bp_Sequence d = of_nat n" by blast
  let ?block = "\<lparr>bk_Link = p, bk_Data = Some \<lparr>bp_Sequence = bp_Sequence d + 1, bp_Timestamp = now, bp_CTRNG = Some (loadCtrngs src m)\<rparr>, bk_Metadata = None\<rparr>"
  show ?thesis
  proof (cases "\<exists>x. g = Ok x")
    case False
    then have "s' = s1" "r \<noteq> Ok ()"
      using assms(6) got by (cases g; auto simp: executeBeacon_def loadLastBeaconBlock_def andThen_def wrapErr_def attempt_def)+
    then show ?thesis using stays one by auto
  next
    case True
    then have "g = Ok (bytes, p)" using g assms(4) d(1) by auto
    note run = execute_run [OF got [unfolded this] d(2,3), of src now]
    show ?thesis
    proof (cases "loadCtrngs src m = []")
      case True
      then show ?thesis using run assms(6) stays one by auto
    next
      case False
      obtain a s2 where add: "ic_Add cl (block_Marshal ?block) s1 = (a, s2)" by (cases "ic_Add cl (block_Marshal ?block) s1")
      show ?thesis
      proof (cases "\<exists>cid. a = Ok cid")
        case no: False
        then have "s' = s2" "r \<noteq> Ok ()" using run assms(6) add False by (cases a; auto simp: andThen_def wrapErr_def attempt_def)+
        moreover have "inv s2 \<and> blk s1 \<subseteq>\<^sub>m blk s2 \<and> head s2 = head s1" using add_failed [OF one(1) add] no by auto
        ultimately show ?thesis using stays one by auto
      next
        case True
        then obtain cid where cid: "a = Ok cid" by blast
        obtain u s3 where pub: "ic_Publish cl cid (bm_Name m) s2 = (u, s3)" by (cases "ic_Publish cl cid (bm_Name m) s2")
        show ?thesis
        proof (cases u)
          case (Ok nm)
          then have r: "r = Ok ()" "s' = s3" using run assms(6) add cid pub False by (auto simp: andThen_def wrapErr_def attempt_def)
          have ints: "block_ints ?block" using assms(3) by (simp add: block_ints_def int64_def)
          note new = put_block [OF one(1) assms(2) ints add [unfolded cid] pub [unfolded Ok]]
          have sub: "blk s \<subseteq>\<^sub>m blk s3" using new(2) one(2) by simp
          have "chain (blk s3) (FromCid cid) (Suc n)"
            by (rule chain.extend [where d = "san_payload (the (bk_Data ?block))", OF chain_mono [OF assms(5) sub] new(4)])
               (use head_text [OF assms(1), of p] d in \<open>simp_all add: san_block_def san_payload_def\<close>)
          then show ?thesis using r new sub by auto
        next
          case (Err e)
          then show ?thesis using run assms(6,7) add cid pub False by (auto simp: andThen_def wrapErr_def attempt_def)
        next
          case Panics
          then show ?thesis using no_panic(3) pub by (metis fst_conv)
        qed
      qed
    qed
  qed
qed

text \<open>An execution on a chain does not dereference a nil pointer.\<close>

lemma execute_safe:
  assumes "inv s" "bm_Name m \<in> names" "head s (bm_Name m) = Some p" "chain (blk s) p n" "executeBeacon cl src now m s = (r, s')"
  shows "r \<noteq> Panics"
proof -
  obtain g s1 where got: "ic_Get cl ''ipns'' (bm_Name m) s = (g, s1)" by (cases "ic_Get cl ''ipns'' (bm_Name m) s")
  then have g: "\<And>bytes q. g = Ok (bytes, q) \<Longrightarrow> q = p \<and> blk s q = Some bytes" "g \<noteq> Panics"
    using get [OF assms(1,2) got] assms(3) no_panic(2) by (auto, metis fst_conv)
  from chain_head [OF assms(4)] obtain bytes b d where
    d: "blk s p = Some bytes" "UnmarshalBeaconBlock bytes = Some b" "bk_Data b = Some d" by blast
  have s: "safe (ic_Add cl x)" "safe (ic_Publish cl y z)" for x y z using no_panic by (simp_all add: safe_def)
  have rest: "safe (andThen (wrapErr BlockAdd (ic_Add cl x)) (\<lambda>cid. andThen (wrapErr BlockPublish (ic_Publish cl cid y)) (\<lambda>_. ret ())))" for x y
    by (intro safe_rules s)
  show ?thesis
  proof (cases g)
    case (Ok x)
    then have "x = (bytes, p)" using g d by (cases x) auto
    note run = execute_run [OF got [unfolded Ok this] d(2,3), of src now]
    show ?thesis using assms(5) safeD [OF rest] unfolding run by (auto split: if_splits) (metis fst_conv)
  next
    case (Err e)
    then show ?thesis using assms(5) got by (auto simp: executeBeacon_def loadLastBeaconBlock_def andThen_def wrapErr_def attempt_def)
  qed (use g in simp)
qed

text \<open>Any number of executions, none of which fails in the publication.\<close>

lemma executions_extend:
  assumes "inv s" "bm_Name m \<in> names" "head s (bm_Name m) = Some p" "chain (blk s) p n"
    and "runs (\<lambda>(src, now). executeBeacon cl src now m) xs s = (rs, s')" "\<forall>(src, now) \<in> set xs. int64 now"
    and "\<forall>c. Err (BlockPublish c) \<notin> set rs"
  shows "inv s' \<and> blk s \<subseteq>\<^sub>m blk s' \<and> Panics \<notin> set rs
    \<and> (\<exists>p'. head s' (bm_Name m) = Some p' \<and> chain (blk s') p' (n + count_list rs (Ok ())))"
  using assms
proof (induction xs arbitrary: s p n rs)
  case (Cons x xs)
  obtain src now where x: "x = (src, now)" by (cases x)
  obtain r s1 where r: "executeBeacon cl src now m s = (r, s1)" by (cases "executeBeacon cl src now m s")
  obtain rs1 where rs: "runs (\<lambda>(src, now). executeBeacon cl src now m) xs s1 = (rs1, s')" "rs = r # rs1"
    using Cons.prems(5) x r by (auto split: prod.splits)
  have one: "inv s1 \<and> blk s \<subseteq>\<^sub>m blk s1 \<and> (\<exists>p'. head s1 (bm_Name m) = Some p' \<and> chain (blk s1) p' (if r = Ok () then Suc n else n))"
    using Cons.prems x rs(2) by (intro execute_extends [OF _ _ _ _ _ r]) auto
  then obtain p1 where p1: "head s1 (bm_Name m) = Some p1" "chain (blk s1) p1 (if r = Ok () then Suc n else n)" by blast
  have "r \<noteq> Panics" using execute_safe [OF Cons.prems(1-4) r] .
  moreover have "inv s' \<and> blk s1 \<subseteq>\<^sub>m blk s' \<and> Panics \<notin> set rs1 \<and> (\<exists>p'. head s' (bm_Name m) = Some p'
      \<and> chain (blk s') p' ((if r = Ok () then Suc n else n) + count_list rs1 (Ok ())))"
    using one p1 rs Cons.prems by (intro Cons.IH [OF _ _ p1 rs(1)]) auto
  ultimately show ?case using one rs(2) map_le_trans by (auto split: if_splits)
qed simp

lemma beacon_chain_grows:
  assumes "inv s" "beacon \<in> names" "int64 now" "createBeacon cl now beacon msg interval s = (Ok meta, s1)"
    and "runs (\<lambda>(src, now). executeBeacon cl src now meta) xs s1 = (rs, s2)" "\<forall>(src, now) \<in> set xs. int64 now"
    and "\<forall>c. Err (BlockPublish c) \<notin> set rs"
  shows "Panics \<notin> set rs \<and> blk s \<subseteq>\<^sub>m blk s2 \<and> (\<exists>p. head s2 beacon = Some p \<and> chain (blk s2) p (count_list rs (Ok ())))"
proof -
  from genesis_chain [OF assms(1-4)] obtain p where p: "inv s1" "blk s \<subseteq>\<^sub>m blk s1" "bm_Name meta = beacon" "head s1 beacon = Some p" "chain (blk s1) p 0"
    by blast
  from executions_extend [OF p(1) _ _ p(5) assms(5-7)] p assms(2) map_le_trans show ?thesis by auto
qed

end

section \<open>Properties of the chain and the registry\<close>

context ipfs_node
begin

lemmas chain_in_store = store.beacon_chain_grows

end

text \<open>
  C6. The published chain, for executions that do not overlap. Created and then executed any number of times, each execution
  starting when the one before has ended, on the IPFS plugin with a node and caches that keep their contracts and whatever
  calls fail, provided that no publication fails, a beacon's name points to a chain of blocks that goes back to a genesis by
  its links, with sequence numbers counting up by one, as many as executions succeeded; no block that was stored is lost,
  and no execution dereferences a nil pointer.
\<close>

theorem beacon_chain:
  assumes "ipfs_node d good names keys heads blocks held" "store_inv good names keys heads blocks held s" "beacon \<in> names" "int64 now"
    and "createBeacon (ipfs_plugin d) now beacon msg interval s = (Ok meta, s1)"
    and "runs (\<lambda>(src, now). executeBeacon (ipfs_plugin d) src now meta) xs s1 = (rs, s2)"
    and "\<forall>(src, now) \<in> set xs. int64 now" "\<forall>c. Err (BlockPublish c) \<notin> set rs"
  shows "Panics \<notin> set rs \<and> blocks_of blocks s \<subseteq>\<^sub>m blocks_of blocks s2
    \<and> (\<exists>p. head_of keys heads s2 beacon = Some p \<and> chain (blocks_of blocks s2) p (count_list rs (Ok ())))"
  by (rule ipfs_node.chain_in_store [OF assms])

section \<open>Overlapping executions\<close>

text \<open>An execution is its phases, one after the other.\<close>

lemma executeBeacon_phases:
  "(let (p1, s1) = exec_phase cl m (src, now) Reading s; (p2, s2) = exec_phase cl m (src, now) p1 s1
    in exec_phase cl m (src, now) p2 s2) = (Finished (fst (executeBeacon cl src now m s)), snd (executeBeacon cl src now m s))"
proof -
  obtain l s1 where l: "loadLastBeaconBlock cl (bm_Name m) s = (l, s1)" by (cases "loadLastBeaconBlock cl (bm_Name m) s")
  note defs = exec_phase_def executeBeacon_def andThen_def wrapErr_def attempt_def l
  show ?thesis
  proof (cases "\<exists>p d. l = Ok (p, Some d) \<and> loadCtrngs src m \<noteq> []")
    case False
    then show ?thesis by (cases l) (auto simp: defs split: option.split)
  next
    case True
    then obtain p d where d: "l = Ok (p, Some d)" "loadCtrngs src m \<noteq> []" by blast
    let ?add = "ic_Add cl (block_Marshal \<lparr>bk_Link = p, bk_Data = Some \<lparr>bp_Sequence = bp_Sequence d + 1, bp_Timestamp = now,
      bp_CTRNG = Some (loadCtrngs src m)\<rparr>, bk_Metadata = None\<rparr>) s1"
    obtain a s2 where a: "?add = (a, s2)" by (cases ?add)
    show ?thesis
    proof (cases a)
      case (Ok cid)
      then show ?thesis
        by (cases "ic_Publish cl cid (bm_Name m) s2"; cases "fst (ic_Publish cl cid (bm_Name m) s2)") (simp_all add: defs d a)
    qed (simp_all add: defs d a)
  qed
qed

text \<open>
  The executions of a beacon that have been started, each with its phase, and the state of the IPFS plugin: an event of the
  queue starts one more, and any of them advances by one call of the plugin.
\<close>

inductive exec_step ::
    "'s ipfs_client \<Rightarrow> BeaconMetadata \<Rightarrow> ((sources \<times> int) \<times> progress) list \<times> 's \<Rightarrow> ((sources \<times> int) \<times> progress) list \<times> 's \<Rightarrow> bool"
  for cl metadata where
  event: "int64 (snd x) \<Longrightarrow> exec_step cl metadata (js, s) (js @ [(x, Reading)], s)"
| advance: "i < length js \<Longrightarrow> js ! i = (x, ph) \<Longrightarrow> exec_phase cl metadata x ph s = (ph', s') \<Longrightarrow>
    exec_step cl metadata (js, s) (js[i := (x, ph')], s')"


abbreviation succeeded :: "((sources \<times> int) \<times> progress) list \<Rightarrow> nat" where
  "succeeded js \<equiv> count_list (map snd js) (Finished (Ok ()))"

definition publish_failed :: "progress \<Rightarrow> bool" where
  "publish_failed ph \<longleftrightarrow> (case ph of Finished (Err (BlockPublish _)) \<Rightarrow> True | _ \<Rightarrow> False)"

lemma count_list_update:
  "i < length xs \<Longrightarrow> count_list (xs[i := y]) z + of_bool (xs ! i = z) = count_list xs z + of_bool (y = z)"
proof (induction xs arbitrary: i)
  case (Cons x xs)
  show ?case
  proof (cases i)
    case (Suc j)
    then have "count_list (xs[j := y]) z + of_bool (xs ! j = z) = count_list xs z + of_bool (y = z)" using Cons by simp
    then show ?thesis by (simp add: Suc)
  qed simp
qed simp

text \<open>What an execution holds in its hands, in terms of the stored blocks and the number \<open>k\<close> of successes so far.\<close>

definition phase_ok :: "(string \<Rightarrow> string option) \<Rightarrow> nat \<Rightarrow> sources \<times> int \<Rightarrow> progress \<Rightarrow> bool" where
  "phase_ok blk k x ph \<longleftrightarrow>
     (case ph of
        Reading \<Rightarrow> int64 (snd x)
      | Adding b \<Rightarrow> block_ints b \<and> valid_utf8 (bk_Link b)
          \<and> (\<exists>n d. n \<le> k \<and> chain blk (bk_Link b) n \<and> bk_Data b = Some d \<and> bp_Sequence d = of_nat (Suc n))
      | Publishing cid \<Rightarrow> \<exists>n. n \<le> k \<and> chain blk (FromCid cid) (Suc n)
      | Finished r \<Rightarrow> r \<noteq> Panics)"

lemma phase_ok_mono: "phase_ok blk k x ph \<Longrightarrow> blk \<subseteq>\<^sub>m blk' \<Longrightarrow> k \<le> k' \<Longrightarrow> phase_ok blk' k' x ph"
  unfolding phase_ok_def by (cases ph) (simp_all, (meson chain_mono le_trans)+)

text \<open>The invariant of overlapping executions, over the views of a store.\<close>

definition overlap_inv ::
    "('s \<Rightarrow> bool) \<Rightarrow> ('s \<Rightarrow> string \<Rightarrow> string option) \<Rightarrow> ('s \<Rightarrow> string \<Rightarrow> string option) \<Rightarrow> string \<Rightarrow> (string \<Rightarrow> string option)
     \<Rightarrow> ((sources \<times> int) \<times> progress) list \<times> 's \<Rightarrow> bool" where
  "overlap_inv good blocks tip beacon old = (\<lambda>(js, s). good s \<and> old \<subseteq>\<^sub>m blocks s
     \<and> list_all (\<lambda>j. phase_ok (blocks s) (succeeded js) (fst j) (snd j)) js
     \<and> (\<exists>p n. tip s beacon = Some p \<and> chain (blocks s) p n \<and> n \<le> succeeded js \<and> (n = 0 \<longleftrightarrow> succeeded js = 0)))"

context block_store
begin

lemma phase_Reading:
  assumes "inv s" "bm_Name m \<in> names" "head s (bm_Name m) = Some p" "chain (blk s) p n" "n \<le> k" "int64 (snd x)"
    and "exec_phase cl m x Reading s = (ph', s')"
  shows "inv s' \<and> blk s' = blk s \<and> head s' = head s \<and> phase_ok (blk s') k x ph' \<and> ph' \<noteq> Finished (Ok ())"
proof -
  obtain g s1 where got: "ic_Get cl ''ipns'' (bm_Name m) s = (g, s1)" by (cases "ic_Get cl ''ipns'' (bm_Name m) s")
  from get [OF assms(1,2) got] have one: "inv s1" "blk s1 = blk s" "head s1 = head s"
      and g: "\<And>bytes q. g = Ok (bytes, q) \<Longrightarrow> q = p \<and> blk s q = Some bytes" using assms(3) by auto
  from chain_head [OF assms(4)] obtain bytes b d where
    d: "blk s p = Some bytes" "UnmarshalBeaconBlock bytes = Some b" "bk_Data b = Some d" "bp_Sequence d = of_nat n" by blast
  have np: "g \<noteq> Panics" using no_panic(2) got by (metis fst_conv)
  have utf8: "valid_utf8 p" using head_text [OF assms(1)] d(1) by simp
  show ?thesis
  proof (cases g)
    case (Ok y)
    then have "y = (bytes, p)" using g d(1) by (cases y) auto
    then have "loadLastBeaconBlock cl (bm_Name m) s = (Ok (p, Some d), s1)"
      using got Ok d by (simp add: loadLastBeaconBlock_def andThen_def wrapErr_def attempt_def)
    then show ?thesis using assms(4-7) one utf8 d(4)
      by (auto simp: exec_phase_def phase_ok_def Let_def block_ints_def int64_def split: if_splits)
  next
    case (Err e)
    then have "loadLastBeaconBlock cl (bm_Name m) s = (Err (GetFailed e), s1)"
      using got by (simp add: loadLastBeaconBlock_def andThen_def wrapErr_def attempt_def)
    then show ?thesis using assms(7) one by (auto simp: exec_phase_def phase_ok_def)
  qed (use np in simp)
qed

lemma phase_Adding:
  assumes "inv s" "phase_ok (blk s) k x (Adding b)" "exec_phase cl m x (Adding b) s = (ph', s')"
  shows "inv s' \<and> blk s \<subseteq>\<^sub>m blk s' \<and> head s' = head s \<and> phase_ok (blk s') k x ph' \<and> ph' \<noteq> Finished (Ok ())"
proof -
  obtain a s1 where add: "ic_Add cl (block_Marshal b) s = (a, s1)" by (cases "ic_Add cl (block_Marshal b) s")
  show ?thesis
  proof (cases a)
    case (Ok cid)
    note new = add_extends [OF assms(1) add [unfolded Ok]]
    from assms(2) obtain n d where b: "block_ints b" "valid_utf8 (bk_Link b)" "n \<le> k" "chain (blk s) (bk_Link b) n" "bk_Data b = Some d"
      "bp_Sequence d = of_nat (Suc n)" by (auto simp: phase_ok_def)
    have "block_at (blk s1) (FromCid cid) = Some (san_block b)" using new(3) unmarshal_block [OF b(1)] by (simp add: block_at_def)
    then have "chain (blk s1) (FromCid cid) (Suc n)"
      by (rule chain.extend [where d = "san_payload d", OF chain_mono [OF b(4) new(2)]])
         (use b in \<open>simp_all add: san_block_def san_payload_def\<close>)
    then show ?thesis using assms(3) add Ok new b(3) by (auto simp: exec_phase_def phase_ok_def)
  next
    case (Err e)
    then show ?thesis using assms(3) add add_failed [OF assms(1) add] by (auto simp: exec_phase_def phase_ok_def)
  next
    case Panics
    then show ?thesis using no_panic(1) add by (metis fst_conv)
  qed
qed

lemma phase_Publishing:
  assumes "inv s" "bm_Name m \<in> names" "phase_ok (blk s) k x (Publishing cid)" "exec_phase cl m x (Publishing cid) s = (ph', s')" "\<not> publish_failed ph'"
  shows "ph' = Finished (Ok ()) \<and> inv s' \<and> blk s' = blk s \<and> (\<exists>p n. n \<le> k \<and> head s' (bm_Name m) = Some p \<and> chain (blk s') p (Suc n))"
proof -
  from assms(3) obtain n where n: "n \<le> k" "chain (blk s) (FromCid cid) (Suc n)" by (auto simp: phase_ok_def)
  obtain u s1 where pub: "ic_Publish cl cid (bm_Name m) s = (u, s1)" by (cases "ic_Publish cl cid (bm_Name m) s")
  have "u \<noteq> Panics" using no_panic(3) pub by (metis fst_conv)
  then obtain nm where u: "u = Ok nm" using assms(4,5) pub by (cases u) (auto simp: exec_phase_def publish_failed_def)
  have "blk s (FromCid cid) \<noteq> None" using chain_head [OF n(2)] by auto
  from publish_ok [OF assms(1,2) this pub [unfolded u]] show ?thesis using assms(4) pub u n by (auto simp: exec_phase_def)
qed

lemma overlap_step:
  assumes "exec_step cl m (js, s) (js', s')" "overlap_inv inv blk head (bm_Name m) old (js, s)" "bm_Name m \<in> names" "\<not> list_ex (publish_failed \<circ> snd) js'"
  shows "overlap_inv inv blk head (bm_Name m) old (js', s')"
  using assms(1)
proof cases
  case (event x)
  have "phase_ok (blk s) k x Reading" for k using event(3) by (simp add: phase_ok_def)
  moreover have "succeeded js' = succeeded js" by (simp add: event)
  ultimately show ?thesis using assms(2) event by (simp add: overlap_inv_def)
next
  case (advance i x ph ph')
  from assms(2) obtain p n where inv: "inv s" "old \<subseteq>\<^sub>m blk s" and jobs: "\<And>j. j \<in> set js \<Longrightarrow> phase_ok (blk s) (succeeded js) (fst j) (snd j)"
    and p: "head s (bm_Name m) = Some p" "chain (blk s) p n" "n \<le> succeeded js" "n = 0 \<longleftrightarrow> succeeded js = 0"
    by (auto simp: overlap_inv_def list_all_iff)
  have ok: "phase_ok (blk s) (succeeded js) x ph" using jobs [of "js ! i"] nth_mem [OF advance(2)] advance(3) by simp
  have nf: "\<not> publish_failed ph'" using assms(4) set_update_memI [OF advance(2), of "(x, ph')"] advance(1) by (auto simp: list_ex_iff)
  have count: "succeeded js' + of_bool (ph = Finished (Ok ())) = succeeded js + of_bool (ph' = Finished (Ok ()))"
    using count_list_update [of i "map snd js" ph' "Finished (Ok ())"] advance by (simp add: map_update)
  have all: "overlap_inv inv blk head (bm_Name m) old (js', s')" if "inv s'" "blk s \<subseteq>\<^sub>m blk s'" "succeeded js \<le> succeeded js'" "phase_ok (blk s') (succeeded js') x ph'"
      "\<exists>p n. head s' (bm_Name m) = Some p \<and> chain (blk s') p n \<and> n \<le> succeeded js' \<and> (n = 0 \<longleftrightarrow> succeeded js' = 0)"
  proof -
    have "phase_ok (blk s') (succeeded js') (fst j) (snd j)" if "j \<in> set js'" for j
    proof -
      from that consider "j = (x, ph')" | "j \<in> set js" using set_update_subset_insert [of js i "(x, ph')"] advance(1) by blast
      then show ?thesis
        by cases (use \<open>phase_ok (blk s') (succeeded js') x ph'\<close> in simp, rule phase_ok_mono [OF jobs \<open>blk s \<subseteq>\<^sub>m blk s'\<close> \<open>succeeded js \<le> succeeded js'\<close>])
    qed
    moreover have "old \<subseteq>\<^sub>m blk s'" using inv(2) that(2) by (rule map_le_trans)
    ultimately show ?thesis using that(1,5) by (simp add: overlap_inv_def list_all_iff)
  qed
  show ?thesis
  proof (cases ph)
    case Reading
    have "int64 (snd x)" using ok Reading by (simp add: phase_ok_def)
    from phase_Reading [OF inv(1) assms(3) p(1-3) this advance(4) [unfolded Reading]] show ?thesis
      using count Reading p by (intro all) auto
  next
    case (Adding b)
    from phase_Adding [OF inv(1) ok [unfolded Adding] advance(4) [unfolded Adding]] show ?thesis
      using count Adding p chain_mono [OF p(2), of "blk s'"] by (intro all) auto
  next
    case (Publishing cid)
    from phase_Publishing [OF inv(1) assms(3) ok [unfolded Publishing] advance(4) [unfolded Publishing] nf] show ?thesis
      using count Publishing by (intro all) (auto simp: phase_ok_def)
  next
    case (Finished r)
    then have "ph' = ph" "s' = s" using advance(4) by (auto simp: exec_phase_def)
    then show ?thesis using count inv p ok by (intro all) auto
  qed
qed

lemma exec_step_failures:
  "exec_step cl m (js, s) (js', s') \<Longrightarrow> list_ex (publish_failed \<circ> snd) js \<Longrightarrow> list_ex (publish_failed \<circ> snd) js'"
proof (induction "(js, s)" "(js', s')" rule: exec_step.induct)
  case (advance i x ph ph')
  then obtain k where k: "k < length js" "publish_failed (snd (js ! k))" by (auto simp: list_ex_length)
  moreover have "ph' = ph" if "k = i" using that k advance by (auto simp: exec_phase_def publish_failed_def split: progress.splits)
  ultimately show ?case using advance by (auto simp: list_ex_length nth_list_update intro!: exI [of _ k])
qed auto

lemma overlap_reachable:
  assumes "(exec_step cl m)\<^sup>*\<^sup>* ([], s) st" "inv s" "bm_Name m \<in> names" "head s (bm_Name m) = Some p" "chain (blk s) p 0"
    and "\<not> list_ex (publish_failed \<circ> snd) (fst st)"
  shows "overlap_inv inv blk head (bm_Name m) (blk s) st"
  using assms(1,6)
proof (induction rule: rtranclp_induct)
  case base
  then show ?case using assms by (auto simp: overlap_inv_def)
next
  case (step st st')
  obtain js1 s1 js2 s2 where st: "st = (js1, s1)" "st' = (js2, s2)" by (metis surj_pair)
  then show ?case using step overlap_step [OF _ _ assms(3)] exec_step_failures by (metis fst_conv)
qed

lemma overlap_chain:
  assumes "inv s" "beacon \<in> names" "int64 now" "createBeacon cl now beacon msg interval s = (Ok meta, s1)"
    and "(exec_step cl meta)\<^sup>*\<^sup>* ([], s1) (js, s2)" "\<not> list_ex (publish_failed \<circ> snd) js"
  shows "\<not> list_ex (\<lambda>j. snd j = Finished Panics) js \<and> blk s \<subseteq>\<^sub>m blk s2
    \<and> (\<exists>p n. head s2 beacon = Some p \<and> chain (blk s2) p n \<and> n \<le> succeeded js \<and> (n = 0 \<longleftrightarrow> succeeded js = 0))"
proof -
  from genesis_chain [OF assms(1-4)] obtain p where p: "inv s1" "blk s \<subseteq>\<^sub>m blk s1" "bm_Name meta = beacon" "head s1 beacon = Some p" "chain (blk s1) p 0"
    by blast
  have "overlap_inv inv blk head beacon (blk s1) (js, s2)" using overlap_reachable [OF assms(5) p(1)] p assms(2,6) by simp
  then show ?thesis using p(2) map_le_trans by (fastforce simp: overlap_inv_def list_all_iff list_ex_iff phase_ok_def)
qed

end


context ipfs_node
begin

lemmas overlap_in_store = store.overlap_chain

end

text \<open>
  C35. Overlapping executions of a beacon. Started at any time and interleaved in any way between their calls of the IPFS
  plugin, as long as none fails in the publication, they never dereference a nil pointer and lose no stored block, and the
  beacon's name always points to a chain of blocks that goes back to a genesis by its links, with sequence numbers counting
  up by one. Its length is at most the number of executions that succeeded, and positive as soon as one did. It can be
  shorter: in the instance below two executions read the same last block, both succeed, and the chain has one block more.
\<close>

theorem overlapping_executions:
  assumes "ipfs_node d good names keys heads blocks held" "store_inv good names keys heads blocks held s" "beacon \<in> names" "int64 now"
    and "createBeacon (ipfs_plugin d) now beacon msg interval s = (Ok meta, s1)"
    and "(exec_step (ipfs_plugin d) meta)\<^sup>*\<^sup>* ([], s1) (js, s2)" "\<not> list_ex (publish_failed \<circ> snd) js"
  shows "\<not> list_ex (\<lambda>j. snd j = Finished Panics) js \<and> blocks_of blocks s \<subseteq>\<^sub>m blocks_of blocks s2
    \<and> (\<exists>p n. head_of keys heads s2 beacon = Some p \<and> chain (blocks_of blocks s2) p n
          \<and> n \<le> succeeded js \<and> (n = 0 \<longleftrightarrow> succeeded js = 0))"
  by (rule ipfs_node.overlap_in_store [OF assms])

text \<open>A registry that was loaded is extended: found again it is left alone, otherwise the new beacon is appended.\<close>

lemma upsert_append: "findBeaconInRegistry reg (bm_Name meta) = None \<Longrightarrow> upsertBeacon meta reg = reg @ [meta]"
  by (induction reg) (auto simp: findBeaconInRegistry_def split: if_splits)

lemma createBeacon_name: "createBeacon cl now name msg interval s = (Ok meta, s') \<Longrightarrow> bm_Name meta = name"
  by (auto simp: createBeacon_def Let_def andThen_Ok_iff wrapErr_Ok_iff genesis_metadata_def)

lemma query_loop_attempts:
  "query_loop cancelled cl alias (Suc n) s = (Ok x, s') \<Longrightarrow>
     \<exists>s0. queryRegistry cl alias s0 = (Ok x, s')"
proof (induction n arbitrary: s)
  case (Suc n)
  then show ?case
    by (cases "queryRegistry cl alias s"; cases "fst (queryRegistry cl alias s)") (auto simp: attempt_def split: if_splits)
qed (auto simp: attempt_def split: res.splits prod.splits)

text \<open>
  Starting with a registry. It is created anew only on the word of the IPFS plugin that the key does not exist or that
  nothing was published under it, in a query without errors; when the registry is loaded, a beacon that is in it is taken
  from it and nothing is written, and otherwise the registry that is published has every beacon of the loaded one, in order,
  with the new one appended.
\<close>

theorem registry_extended:
  assumes "loadRegistryWithClient cancelled now cfg cl s = (Ok ms, s')"
  shows "\<exists>reg state s0 s1. queryRegistry cl (bc_BeaconRegistry cfg) s0 = (Ok (reg, state), s1)
    \<and> (case findBeaconInRegistry reg (bc_DefaultBeaconName cfg) of
        Some meta \<Rightarrow> state = Loaded \<and> ms = [meta] \<and> s' = s1
      | None \<Rightarrow> (state \<noteq> Loaded \<longrightarrow> reg = []) \<and> (\<exists>meta cid s2 s3 n. ms = [meta] \<and> bm_Name meta = bc_DefaultBeaconName cfg
          \<and> createBeacon cl now (bc_DefaultBeaconName cfg) (bc_BeaconMsg cfg) (bc_BeaconInterval cfg) s1 = (Ok meta, s2)
          \<and> ic_Add cl (registry_Marshal (Some (reg @ [meta]))) s2 = (Ok cid, s3)
          \<and> ic_Publish cl cid (bc_BeaconRegistry cfg) s3 = (Ok n, s')))"
proof -
  let ?name = "bc_DefaultBeaconName cfg"
  from assms obtain reg state s1 where loop: "query_loop cancelled cl (bc_BeaconRegistry cfg) (Suc 4) s = (Ok (reg, state), s1)"
      and rest: "(case (if state = Loaded then findBeaconInRegistry reg ?name else None) of
        Some meta \<Rightarrow> ret [meta]
      | None \<Rightarrow>
          let reg = (if state = Loaded then reg else []) in
          andThen (wrapErr CreateFailed (createBeacon cl now ?name (bc_BeaconMsg cfg) (bc_BeaconInterval cfg))) (\<lambda>meta.
          andThen (publishRegistry cl (bc_BeaconRegistry cfg) (upsertBeacon meta reg)) (\<lambda>_. ret [meta]))) s1 = (Ok ms, s')"
    by (auto simp: loadRegistryWithClient_def andThen_Ok_iff maxRetries_def simp del: query_loop.simps split: if_splits)
  from query_loop_attempts [OF loop] obtain s0 where q: "queryRegistry cl (bc_BeaconRegistry cfg) s0 = (Ok (reg, state), s1)" by blast
  have fresh: "reg = []" if "state \<noteq> Loaded"
    using q that by (auto simp: queryRegistry_def andThen_Ok_iff wrapErr_Ok_iff attempt_Ok_iff split: if_splits option.splits prod.splits)
  have found: "(if state = Loaded then findBeaconInRegistry reg ?name else None) = findBeaconInRegistry reg ?name"
    "(if state = Loaded then reg else []) = reg" using fresh by (auto simp: findBeaconInRegistry_def)
  show ?thesis
  proof (cases "findBeaconInRegistry reg ?name")
    case None
    from rest [unfolded found None option.case Let_def] obtain meta s2 where
      meta: "createBeacon cl now ?name (bc_BeaconMsg cfg) (bc_BeaconInterval cfg) s1 = (Ok meta, s2)" "ms = [meta]"
      "\<exists>cid s3 n. ic_Add cl (registry_Marshal (Some (upsertBeacon meta reg))) s2 = (Ok cid, s3) \<and> ic_Publish cl cid (bc_BeaconRegistry cfg) s3 = (Ok n, s')"
      by (auto simp: andThen_Ok_iff wrapErr_Ok_iff publishRegistry_def)
    have name: "bm_Name meta = ?name" by (rule createBeacon_name [OF meta(1)])
    show ?thesis using q None meta name fresh upsert_append [of reg meta] by (intro exI [of _ reg] exI [of _ state] exI [of _ s0] exI [of _ s1]) auto
  next
    case (Some meta)
    then have "reg \<noteq> []" by (auto simp: findBeaconInRegistry_def)
    then have "state = Loaded" using fresh by blast
    then show ?thesis using q Some rest by (intro exI [of _ reg] exI [of _ state] exI [of _ s0] exI [of _ s1]) auto
  qed
qed

text \<open>
  C37. A failed look-up of the registry's key counts as a registry that does not exist. The IPFS plugin answers the query for
  the key with an empty name whenever the look-up fails, be it for a node that does not answer; the beacon plugin then does
  not retry, but creates its beacon and publishes, under the name of the registry, one that holds nothing else.
\<close>

theorem outage_replaces_registry:
  assumes "keyForName d (bc_BeaconRegistry cfg) s = (Err e, s1)" "bc_BeaconRegistry cfg \<noteq> []"
  shows "loadRegistryWithClient cancelled now cfg (ipfs_plugin d) s =
    andThen (wrapErr CreateFailed (createBeacon (ipfs_plugin d) now (bc_DefaultBeaconName cfg) (bc_BeaconMsg cfg) (bc_BeaconInterval cfg))) (\<lambda>meta.
    andThen (publishRegistry (ipfs_plugin d) (bc_BeaconRegistry cfg) [meta]) (\<lambda>_. ret [meta])) s1"
proof -
  have "ic_KeyInfo (ipfs_plugin d) (bc_BeaconRegistry cfg) s = (Ok [], s1)"
    using assms(1) by (simp add: ipfs_plugin_def KeyInfo_def wrapErr_def attempt_def)
  then have "queryRegistry (ipfs_plugin d) (bc_BeaconRegistry cfg) s = (Ok ([], MissingKey), s1)"
    by (simp add: queryRegistry_def andThen_def wrapErr_def attempt_def)
  then have "query_loop cancelled (ipfs_plugin d) (bc_BeaconRegistry cfg) maxRetries s = (Ok ([], MissingKey), s1)"
    by (simp add: maxRetries_def eval_nat_numeral attempt_def)
  then show ?thesis using assms(2) by (simp add: loadRegistryWithClient_def andThen_run(1) Let_def)
qed

section \<open>The scheduler over time\<close>

text \<open>
  A run of the scheduler: its ticks, each reading the clock twice for every beacon, and the events that the builder takes
  from the queue. Two histories are kept beside the state: what was queued, with the two readings, and what was taken.
\<close>

fun queued :: "(nat \<Rightarrow> int) \<Rightarrow> nat \<Rightarrow> BeaconMetadata list \<Rightarrow> Scheduler \<Rightarrow> (BeaconMetadata \<times> int \<times> int) list" where
  "queued clk i [] s = []"
| "queued clk i (b # bs) s =
     (let s' = check_beacon (clk i) (clk (i + 1)) b s
      in (if sc_q s' = sc_q s then [] else [(b, clk i, clk (i + 1))]) @ queued clk (i + 2) bs s')"

record sched_state =
  ss_reads :: nat
  ss_sched :: Scheduler
  ss_queued :: "(BeaconMetadata \<times> int \<times> int) list"
  ss_taken :: "BeaconMetadata list"

inductive sched_step :: "(nat \<Rightarrow> int) \<Rightarrow> sched_state \<Rightarrow> sched_state \<Rightarrow> bool" for clk where
  tick: "sched_step clk st (st\<lparr>ss_reads := ss_reads st + 2 * length (sc_registry (ss_sched st)),
      ss_sched := checkAndTriggerBeacons clk (ss_reads st) (ss_sched st),
      ss_queued := ss_queued st @ queued clk (ss_reads st) (sc_registry (ss_sched st)) (ss_sched st)\<rparr>)"
| take: "receive (ss_sched st) = Some (b, s') \<Longrightarrow> sched_step clk st (st\<lparr>ss_sched := s', ss_taken := ss_taken st @ [b]\<rparr>)"

definition sched_init :: "BeaconMetadata list \<Rightarrow> (string \<Rightarrow> int option) \<Rightarrow> sched_state" where
  "sched_init registry lastExecs = \<lparr>ss_reads = 0, ss_sched = (NewScheduler registry)\<lparr>sc_lastExecs := lastExecs\<rparr>, ss_queued = [], ss_taken = []\<rparr>"

text \<open>Two executions of the same beacon, the later one checked at least its interval after the earlier one was set.\<close>

definition spaced :: "BeaconMetadata \<times> int \<times> int \<Rightarrow> BeaconMetadata \<times> int \<times> int \<Rightarrow> bool" where
  "spaced e e' \<longleftrightarrow> (bm_Name (fst e) = bm_Name (fst e') \<longrightarrow> bm_Interval (fst e') \<le> time_sub (fst (snd e')) (snd (snd e)))"

definition sched_inv :: "(nat \<Rightarrow> int) \<Rightarrow> nat \<Rightarrow> Scheduler \<Rightarrow> (BeaconMetadata \<times> int \<times> int) list \<Rightarrow> BeaconMetadata list \<Rightarrow> bool" where
  "sched_inv clk i s l taken \<longleftrightarrow> \<not> sc_closed s \<and> length (sc_q s) \<le> queueSize \<and> taken @ sc_q s = map fst l \<and> sorted_wrt spaced l
     \<and> (\<forall>(b, t, t') \<in> set l. bm_Interval b \<noteq> 0 \<and> t' \<le> clk i \<and> (\<exists>u. sc_lastExecs s (bm_Name b) = Some u \<and> t' \<le> u))"

lemma time_sub_mono: "t \<le> t' \<Longrightarrow> time_sub now t' \<le> time_sub now t"
  by (auto simp: time_sub_def)

lemma check_beacon_cases:
  "check_beacon t t' b s = s \<or>
   check_beacon t t' b s = s\<lparr>sc_q := sc_q s @ [b], sc_lastExecs := (sc_lastExecs s)(bm_Name b \<mapsto> t')\<rparr> \<and> bm_Interval b \<noteq> 0
     \<and> length (sc_q s) < queueSize \<and> (\<forall>u. sc_lastExecs s (bm_Name b) = Some u \<longrightarrow> bm_Interval b \<le> time_sub t u)"
  by (cases "sc_lastExecs s (bm_Name b)") (auto simp: check_beacon_def)

lemma check_beacon_inv:
  assumes "mono clk" "sched_inv clk i s l taken"
  shows "sched_inv clk (i + 2) (check_beacon (clk i) (clk (i + 1)) b s)
    (l @ (if sc_q (check_beacon (clk i) (clk (i + 1)) b s) = sc_q s then [] else [(b, clk i, clk (i + 1))])) taken"
proof -
  let ?s = "check_beacon (clk i) (clk (i + 1)) b s"
  have clk: "clk i \<le> clk (i + 1)" "clk i \<le> clk (i + 2)" "clk (i + 1) \<le> clk (i + 2)" using assms(1) by (simp_all add: monoD)
  consider (same) "?s = s"
    | (add) "?s = s\<lparr>sc_q := sc_q s @ [b], sc_lastExecs := (sc_lastExecs s)(bm_Name b \<mapsto> clk (i + 1))\<rparr>" "bm_Interval b \<noteq> 0" "length (sc_q s) < queueSize"
        "\<And>t. sc_lastExecs s (bm_Name b) = Some t \<Longrightarrow> bm_Interval b \<le> time_sub (clk i) t"
    using check_beacon_cases [of "clk i" "clk (i + 1)" b s] by blast
  then show ?thesis
  proof cases
    case same
    then show ?thesis using assms(2) clk unfolding sched_inv_def same by fastforce
  next
    case add
    have old: "\<exists>u. sc_lastExecs s (bm_Name b') = Some u \<and> t' \<le> u" "t' \<le> clk i" "bm_Interval b' \<noteq> 0" if "(b', t, t') \<in> set l" for b' t t'
      using assms(2) that unfolding sched_inv_def by fastforce+
    have "spaced e (b, clk i, clk (i + 1))" if "e \<in> set l" for e
    proof -
      obtain b' t t' where e: "e = (b', t, t')" by (cases e)
      then show ?thesis using old [of b' t t'] that add(4) time_sub_mono order_trans by (auto simp: spaced_def) blast
    qed
    then have "sorted_wrt spaced (l @ [(b, clk i, clk (i + 1))])" using assms(2) by (simp add: sorted_wrt_append sched_inv_def)
    moreover have "\<forall>(b', t, t') \<in> set (l @ [(b, clk i, clk (i + 1))]). bm_Interval b' \<noteq> 0 \<and> t' \<le> clk (i + 2)
        \<and> (\<exists>u. sc_lastExecs ?s (bm_Name b') = Some u \<and> t' \<le> u)"
      using old clk add(1,2) by fastforce
    ultimately show ?thesis using assms(2) add unfolding sched_inv_def by simp
  qed
qed

lemma check_beacons_inv:
  "mono clk \<Longrightarrow> sched_inv clk i s l taken \<Longrightarrow> sched_inv clk (i + 2 * length bs) (check_beacons clk i bs s) (l @ queued clk i bs s) taken"
proof (induction bs arbitrary: i s l)
  case (Cons b bs)
  from Cons.IH [OF Cons.prems(1) check_beacon_inv [OF Cons.prems, of b]] show ?case by (simp add: Let_def)
qed simp

lemma sched_inv_step:
  assumes "mono clk" "sched_step clk st st'" "sched_inv clk (ss_reads st) (ss_sched st) (ss_queued st) (ss_taken st)"
  shows "sched_inv clk (ss_reads st') (ss_sched st') (ss_queued st') (ss_taken st')"
  using assms(2,3)
proof cases
  case tick
  then show ?thesis using check_beacons_inv [OF assms(1,3)] by (simp add: checkAndTriggerBeacons_def)
next
  case (take b s')
  then have "sc_q (ss_sched st) = b # sc_q s'" "sc_closed s' = sc_closed (ss_sched st)" "sc_lastExecs s' = sc_lastExecs (ss_sched st)"
    using assms(3) by (auto simp: receive_def sched_inv_def split: list.splits)
  then show ?thesis using assms(3) take(1) by (simp add: sched_inv_def)
qed

lemma sched_reachable_inv:
  assumes "mono clk" "(sched_step clk)\<^sup>*\<^sup>* (sched_init registry lastExecs) st"
  shows "sched_inv clk (ss_reads st) (ss_sched st) (ss_queued st) (ss_taken st)"
  using assms(2)
proof (induction rule: rtranclp_induct)
  case base
  then show ?case by (simp add: sched_inv_def sched_init_def NewScheduler_def)
next
  case (step st st')
  then show ?case using sched_inv_step [OF assms(1)] by blast
qed

text \<open>
  C16. The scheduler, over any number of ticks of a clock that does not run backwards and any pace of the builder: two
  executions of a beacon are queued at least its interval apart, a beacon without an interval is never queued, the queue
  holds at most sixteen events, and the builder takes exactly what was queued, in that order.
\<close>

theorem scheduler_spacing:
  assumes "mono clk" "(sched_step clk)\<^sup>*\<^sup>* (sched_init registry lastExecs) st"
  shows "sorted_wrt spaced (ss_queued st) \<and> (\<forall>e \<in> set (ss_queued st). bm_Interval (fst e) \<noteq> 0)
    \<and> length (sc_q (ss_sched st)) \<le> 16 \<and> ss_taken st @ sc_q (ss_sched st) = map fst (ss_queued st)"
  using sched_reachable_inv [OF assms] by (auto simp: sched_inv_def queueSize_def)

fun receive_many :: "nat \<Rightarrow> Scheduler \<Rightarrow> BeaconMetadata list" where
  "receive_many 0 s = []"
| "receive_many (Suc n) s = (case receive s of None \<Rightarrow> [] | Some (b, s') \<Rightarrow> b # receive_many n s')"

text \<open>
  Shutting down. The queue is closed before the builder is stopped, and a closed queue never makes its reader wait: once
  the queued events are taken, the builder receives the zero event again and again and executes it, a beacon without a name.
\<close>

theorem closed_queue_spins:
  "receive_many (length (sc_q s) + k) (Scheduler_Close s) = sc_q s @ replicate k zero_beacon"
proof (induction "length (sc_q s) + k" arbitrary: s k)
  case (Suc n)
  show ?case
  proof (cases "sc_q s")
    case Nil
    then obtain k' where k: "k = Suc k'" using Suc by (cases k) auto
    have "receive_many (length (sc_q s) + k') (Scheduler_Close s) = sc_q s @ replicate k' zero_beacon" using Suc k Nil by (intro Suc) simp
    then show ?thesis using Nil k by (simp add: receive_def Scheduler_Close_def)
  next
    case (Cons b bs)
    have "receive_many (length (sc_q (s\<lparr>sc_q := bs\<rparr>)) + k) (Scheduler_Close (s\<lparr>sc_q := bs\<rparr>)) = sc_q (s\<lparr>sc_q := bs\<rparr>) @ replicate k zero_beacon"
      using Suc Cons by (intro Suc(1)) simp
    then show ?thesis using Cons by (cases s) (simp add: receive_def Scheduler_Close_def)
  qed
qed simp

section \<open>Concrete runs\<close>

abbreviation demo_plugin :: "((string \<times> string) list, demo) st ipfs_client" where
  "demo_plugin \<equiv> ipfs_plugin demo_deps"

definition demo_ipns :: "string \<Rightarrow> ipns_name" where
  "demo_ipns a = \<lparr>in_String = CHR ''k'' # a, in_AsPath = demo_path a\<rparr>"

lemma demo_Add:
  "maxAddBytes p = - 1 \<Longrightarrow> ic_Add demo_plugin b (p, (bl, h, ks)) =
     (Ok (hex_encode b), (p\<lparr>cache := lru_Add demo_lru (FromCid (hex_encode b)) b (cache p)\<rparr>, (bl(FromCid (hex_encode b) \<mapsto> b), h, ks)))"
  by (simp add: ipfs_plugin_def Add_def demo_deps_def demo_node_def andThen_def wrapErr_def attempt_def on_node_def reading_def modify_def)

lemma demo_Publish:
  "ic_Publish demo_plugin cid a (p, (bl, h, ks)) =
     (Ok (CHR ''k'' # a), (cachePublishedName demo_deps a (demo_ipns a) (FromCid cid) p, (bl, h(demo_path a \<mapsto> FromCid cid), insert a ks)))"
  by (simp add: ipfs_plugin_def Publish_def resolveOrGenerateKey_def keyForName_def publish_def demo_deps_def demo_node_def demo_ipns_def
      andThen_def wrapErr_def attempt_def on_node_def reading_def modify_def insert_absorb)

lemma demo_Get:
  "map_of (ipnsCache p) a = Some q \<Longrightarrow> map_of (cache p) q = Some b \<Longrightarrow> ic_Get demo_plugin ''ipns'' a (p, w) = (Ok (b, q), (p, w))"
  by (simp add: ipfs_plugin_def Get_def get_path_def resolve_name_def getByPath_def ipns_get_def cache_get_def demo_deps_def demo_lru_def
      andThen_def wrapErr_def attempt_def)

lemma demo_published: "map_of (ipnsCache (cachePublishedName demo_deps a (demo_ipns a) v p)) a = Some v"
  by (simp add: cachePublishedName_def ipns_add_def demo_deps_def demo_lru_def demo_ipns_def demo_path_def numeral_3_eq_3)

lemma cachePublishedName_other [simp]:
  "cache (cachePublishedName d a nm v p) = cache p" "maxAddBytes (cachePublishedName d a nm v p) = maxAddBytes p"
  by (simp_all add: cachePublishedName_def ipns_add_def)

lemma demo_added [simp]: "map_of (lru_Add demo_lru k v c) k = Some v"
  by (simp add: demo_lru_def numeral_3_eq_3)

definition demo_sources :: sources where
  "demo_sources = \<lparr>sr_trng = None, sr_seeds = (\<lambda>_. Some [''ab'']), sr_cancelled = False, sr_delivers = True\<rparr>"

definition demo_empty :: "((string \<times> string) list, demo) st" where
  "demo_empty = (\<lparr>cache = [], ipnsCache = [], leaseDuration = 0, maxAddBytes = - 1, maxGetBytes = 100\<rparr>, (Map.empty, Map.empty, {}))"

lemma demo_empty_inv: "store_inv demo_good {''b''} demo_keys (\<lambda>w. fst (snd w)) fst map_of demo_empty"
  by (simp add: store_inv_def demo_empty_def demo_good_def)

lemma demo_create:
  "\<exists>meta p w. createBeacon demo_plugin 0 ''b'' msg interval demo_empty = (Ok meta, (p, w)) \<and> bm_Name meta = ''b'' \<and> maxAddBytes p = - 1
     \<and> (\<exists>q. map_of (ipnsCache p) ''b'' = Some q
          \<and> map_of (cache p) q = Some (block_Marshal \<lparr>bk_Link = [], bk_Data = Some (genesis_payload 0), bk_Metadata = Some meta\<rparr>))"
  unfolding demo_empty_def createBeacon_def Let_def andThen_def wrapErr_def attempt_def
  by (simp add: demo_Add demo_Publish demo_published genesis_metadata_def)

theorem beacon_chain_witness:
  "\<exists>meta s1 s2 p. createBeacon demo_plugin 0 ''b'' ''m'' 60 demo_empty = (Ok meta, s1)
     \<and> runs (\<lambda>(src, now). executeBeacon demo_plugin src now meta) [(demo_sources, 1)] s1 = ([Ok ()], s2)
     \<and> head_of demo_keys (\<lambda>w. fst (snd w)) s2 ''b'' = Some p \<and> chain (blocks_of fst s2) p 1"
proof -
  obtain meta pl w q where create: "createBeacon demo_plugin 0 ''b'' ''m'' 60 demo_empty = (Ok meta, (pl, w))"
      and pl: "bm_Name meta = ''b''" "maxAddBytes pl = - 1" "map_of (ipnsCache pl) ''b'' = Some q"
        "map_of (cache pl) q = Some (block_Marshal \<lparr>bk_Link = [], bk_Data = Some (genesis_payload 0), bk_Metadata = Some meta\<rparr>)"
    using demo_create [of "''m''" 60] by blast
  have meta: "beacon_ints meta"
    using create by (auto simp: createBeacon_def Let_def andThen_Ok_iff wrapErr_Ok_iff genesis_metadata_def beacon_ints_def beaconInterval_def)
  then have ints: "block_ints \<lparr>bk_Link = [], bk_Data = Some (genesis_payload 0), bk_Metadata = Some meta\<rparr>"
    by (simp add: block_ints_def genesis_payload_def)
  have vals: "loadCtrngs demo_sources meta = [''ab'']" by (simp add: loadCtrngs_def demo_sources_def)
  have got: "ic_Get demo_plugin ''ipns'' (bm_Name meta) (pl, w)
      = (Ok (block_Marshal \<lparr>bk_Link = [], bk_Data = Some (genesis_payload 0), bk_Metadata = Some meta\<rparr>, q), (pl, w))"
    using demo_Get [OF pl(3,4)] pl(1) by simp
  obtain bl h ks where w: "w = (bl, h, ks)" by (cases w)
  obtain s2 where exec: "executeBeacon demo_plugin demo_sources 1 meta (pl, w) = (Ok (), s2)"
    using execute_run [OF got unmarshal_block [OF ints], of "san_payload (genesis_payload 0)" demo_sources 1] pl(2)
    by (simp add: vals san_block_def w andThen_def wrapErr_def attempt_def demo_Add demo_Publish)
  have runs: "runs (\<lambda>(src, now). executeBeacon demo_plugin src now meta) [(demo_sources, 1)] (pl, w) = ([Ok ()], s2)" using exec by simp
  have "int64 0" "\<forall>(src, now) \<in> set [(demo_sources, 1)]. int64 now" by (simp_all add: int64_def)
  from beacon_chain [OF demo.ipfs_node_axioms demo_empty_inv insertI1 this(1) create runs this(2)]
  have "\<exists>p. head_of demo_keys (\<lambda>w. fst (snd w)) s2 ''b'' = Some p \<and> chain (blocks_of fst s2) p 1" by simp
  with create runs show ?thesis by blast
qed

lemma demo_Reading:
  assumes "ic_Get demo_plugin ''ipns'' (bm_Name m) s = (Ok (bytes, q), s)" "UnmarshalBeaconBlock bytes = Some b" "bk_Data b = Some d"
    and "loadCtrngs src m = vs" "vs \<noteq> []"
  shows "exec_phase demo_plugin m (src, now) Reading s = (Adding \<lparr>bk_Link = q,
     bk_Data = Some \<lparr>bp_Sequence = bp_Sequence d + 1, bp_Timestamp = now, bp_CTRNG = Some vs\<rparr>, bk_Metadata = None\<rparr>, s)"
  using assms by (simp add: exec_phase_def loadLastBeaconBlock_def andThen_def wrapErr_def attempt_def Let_def)

text \<open>Two executions that both read the last block before either of them publishes.\<close>

lemma exec_race:
  assumes "exec_phase cl m x Reading s = (a, s)" "exec_phase cl m y Reading s = (b, s)"
    and "exec_phase cl m x a s = (a', s1)" "exec_phase cl m x a' s1 = (a'', s2)"
    and "exec_phase cl m y b s2 = (b', s3)" "exec_phase cl m y b' s3 = (b'', s4)" "int64 (snd x)" "int64 (snd y)"
  shows "(exec_step cl m)\<^sup>*\<^sup>* ([], s) ([(x, a''), (y, b'')], s4)"
proof -
  note step = rtranclp.rtrancl_into_rtrancl [of "exec_step cl m"]
  have "(exec_step cl m)\<^sup>*\<^sup>* ([], s) ([] @ [(x, Reading)], s)" by (intro r_into_rtranclp exec_step.event assms)
  from step [OF this exec_step.event [where x = y]] assms(8)
  have "(exec_step cl m)\<^sup>*\<^sup>* ([], s) ([(x, Reading), (y, Reading)], s)" by simp
  from step [OF this exec_step.advance [where i = 0 and x = x and ph = Reading and s' = s and ph' = a]] assms(1)
  have "(exec_step cl m)\<^sup>*\<^sup>* ([], s) ([(x, a), (y, Reading)], s)" by simp
  from step [OF this exec_step.advance [where i = 1 and x = y and ph = Reading and s' = s and ph' = b]] assms(2)
  have "(exec_step cl m)\<^sup>*\<^sup>* ([], s) ([(x, a), (y, b)], s)" by simp
  from step [OF this exec_step.advance [where i = 0 and x = x and ph = a and s' = s1 and ph' = "a'"]] assms(3)
  have "(exec_step cl m)\<^sup>*\<^sup>* ([], s) ([(x, a'), (y, b)], s1)" by simp
  from step [OF this exec_step.advance [where i = 0 and x = x and ph = "a'" and s' = s2 and ph' = "a''"]] assms(4)
  have "(exec_step cl m)\<^sup>*\<^sup>* ([], s) ([(x, a''), (y, b)], s2)" by simp
  from step [OF this exec_step.advance [where i = 1 and x = y and ph = b and s' = s3 and ph' = "b'"]] assms(5)
  have "(exec_step cl m)\<^sup>*\<^sup>* ([], s) ([(x, a''), (y, b')], s3)" by simp
  from step [OF this exec_step.advance [where i = 1 and x = y and ph = "b'" and s' = s4 and ph' = "b''"]] assms(6)
  show ?thesis by simp
qed

lemma demo_put:
  assumes "maxAddBytes p = - 1" "bm_Name m = ''b''"
  shows "\<exists>s1 p2 bl2 h2 ks2. exec_phase demo_plugin m x (Adding b) (p, (bl, h, ks)) = (Publishing (hex_encode (block_Marshal b)), s1)
    \<and> exec_phase demo_plugin m x (Publishing (hex_encode (block_Marshal b))) s1 = (Finished (Ok ()), (p2, (bl2, h2, ks2)))
    \<and> maxAddBytes p2 = - 1 \<and> head_of demo_keys (\<lambda>w. fst (snd w)) (p2, (bl2, h2, ks2)) ''b'' = Some (FromCid (hex_encode (block_Marshal b)))
    \<and> bl2 (FromCid (hex_encode (block_Marshal b))) = Some (block_Marshal b)"
  using assms by (auto simp: exec_phase_def demo_Add demo_Publish head_of_def demo_keys_def)

theorem overlapping_executions_witness:
  "\<exists>meta s1 s2 js p. createBeacon demo_plugin 0 ''b'' ''m'' 60 demo_empty = (Ok meta, s1)
     \<and> (exec_step demo_plugin meta)\<^sup>*\<^sup>* ([], s1) (js, s2) \<and> map snd js = [Finished (Ok ()), Finished (Ok ())]
     \<and> head_of demo_keys (\<lambda>w. fst (snd w)) s2 ''b'' = Some p \<and> chain (blocks_of fst s2) p 1"
proof -
  obtain meta pl bl h ks q where create: "createBeacon demo_plugin 0 ''b'' ''m'' 60 demo_empty = (Ok meta, (pl, (bl, h, ks)))"
      and pl: "bm_Name meta = ''b''" "maxAddBytes pl = - 1" "map_of (ipnsCache pl) ''b'' = Some q"
        "map_of (cache pl) q = Some (block_Marshal \<lparr>bk_Link = [], bk_Data = Some (genesis_payload 0), bk_Metadata = Some meta\<rparr>)"
    using demo_create [of "''m''" 60] by auto
  have meta: "beacon_ints meta"
    using create by (auto simp: createBeacon_def Let_def andThen_Ok_iff wrapErr_Ok_iff genesis_metadata_def beacon_ints_def beaconInterval_def)
  then have ints: "block_ints \<lparr>bk_Link = [], bk_Data = Some (genesis_payload 0), bk_Metadata = Some meta\<rparr>"
    by (simp add: block_ints_def genesis_payload_def)
  define b where "b now = \<lparr>bk_Link = q, bk_Data = Some \<lparr>bp_Sequence = 1, bp_Timestamp = now, bp_CTRNG = Some [''ab'']\<rparr>, bk_Metadata = None\<rparr>" for now
  have "exec_phase demo_plugin meta (demo_sources, now) Reading (pl, (bl, h, ks)) = (Adding (b now), (pl, (bl, h, ks)))" for now
    using demo_Reading [of meta _ _ q _ _ demo_sources "[''ab'']" now, OF _ unmarshal_block [OF ints]] demo_Get [OF pl(3,4)] pl(1)
    by (simp add: b_def san_block_def san_payload_def genesis_payload_def loadCtrngs_def demo_sources_def)
  moreover obtain s1 p2 bl2 h2 ks2 where one: "exec_phase demo_plugin meta (demo_sources, 1) (Adding (b 1)) (pl, (bl, h, ks)) = (Publishing (hex_encode (block_Marshal (b 1))), s1)"
      "exec_phase demo_plugin meta (demo_sources, 1) (Publishing (hex_encode (block_Marshal (b 1)))) s1 = (Finished (Ok ()), (p2, (bl2, h2, ks2)))" "maxAddBytes p2 = - 1"
    using demo_put [OF pl(2,1)] by blast
  moreover obtain s3 p4 bl4 h4 ks4 where two: "exec_phase demo_plugin meta (demo_sources, 2) (Adding (b 2)) (p2, (bl2, h2, ks2)) = (Publishing (hex_encode (block_Marshal (b 2))), s3)"
      "exec_phase demo_plugin meta (demo_sources, 2) (Publishing (hex_encode (block_Marshal (b 2)))) s3 = (Finished (Ok ()), (p4, (bl4, h4, ks4)))"
      "head_of demo_keys (\<lambda>w. fst (snd w)) (p4, (bl4, h4, ks4)) ''b'' = Some (FromCid (hex_encode (block_Marshal (b 2))))"
      "bl4 (FromCid (hex_encode (block_Marshal (b 2)))) = Some (block_Marshal (b 2))"
    using demo_put [OF one(3) pl(1)] by blast
  moreover have i64: "int64 0" "int64 1" "int64 2" by (simp_all add: int64_def)
  ultimately have race: "(exec_step demo_plugin meta)\<^sup>*\<^sup>* ([], (pl, (bl, h, ks)))
      ([((demo_sources, 1), Finished (Ok ())), ((demo_sources, 2), Finished (Ok ()))], (p4, (bl4, h4, ks4)))"
    by (intro exec_race) simp_all
  from overlapping_executions [OF demo.ipfs_node_axioms demo_empty_inv insertI1 i64(1) create race]
  obtain n where n: "chain (blocks_of fst (p4, (bl4, h4, ks4))) (FromCid (hex_encode (block_Marshal (b 2)))) n" "n \<le> 2"
    using two(3) by (auto simp: publish_failed_def)
  have "block_ints (b 2)" by (simp add: b_def block_ints_def)
  with chain_head [OF n(1)] unmarshal_block have "(of_nat n :: 64 word) = 1"
    using two(4) by (auto simp: blocks_of_def b_def san_block_def san_payload_def)
  then have "n = 1" using n(2) by (cases "n = 0"; cases "n = 1"; cases "n = 2") auto
  with n(1) show ?thesis using create race two(3) by fastforce
qed

theorem scheduler_spacing_witness:
  "\<exists>st. (sched_step int)\<^sup>*\<^sup>* (sched_init [zero_beacon\<lparr>bm_Interval := 1\<rparr>] Map.empty) st
     \<and> ss_queued st = [(zero_beacon\<lparr>bm_Interval := 1\<rparr>, 0, 1), (zero_beacon\<lparr>bm_Interval := 1\<rparr>, 2, 3)]
     \<and> sorted_wrt spaced (ss_queued st) \<and> length (sc_q (ss_sched st)) \<le> 16"
proof -
  let ?b = "zero_beacon\<lparr>bm_Interval := 1\<rparr>" and ?i = "sched_init [zero_beacon\<lparr>bm_Interval := 1\<rparr>] Map.empty"
  let ?step = "\<lambda>st. st\<lparr>ss_reads := ss_reads st + 2 * length (sc_registry (ss_sched st)),
      ss_sched := checkAndTriggerBeacons int (ss_reads st) (ss_sched st),
      ss_queued := ss_queued st @ queued int (ss_reads st) (sc_registry (ss_sched st)) (ss_sched st)\<rparr>"
  have "sched_step int ?i (?step ?i)" "sched_step int (?step ?i) (?step (?step ?i))" by (rule sched_step.tick)+
  then have steps: "(sched_step int)\<^sup>*\<^sup>* ?i (?step (?step ?i))" by (meson converse_rtranclp_into_rtranclp r_into_rtranclp)
  have "ss_queued (?step (?step ?i)) = [(?b, 0, 1), (?b, 2, 3)]"
    by (simp add: sched_init_def NewScheduler_def checkAndTriggerBeacons_def check_beacon_def queueSize_def time_sub_def zero_beacon_def)
  moreover have "mono int" by (simp add: monoI)
  ultimately show ?thesis using steps scheduler_spacing [OF _ steps] by blast
qed

theorem outage_replaces_registry_witness:
  "\<exists>s. loadRegistryWithClient (\<lambda>_. False) 0 \<lparr>bc_BeaconRegistry = ''r'', bc_DefaultBeaconName = ''b'', bc_BeaconMsg = [], bc_BeaconInterval = 60\<rparr>
      demo_plugin demo_empty =
    andThen (wrapErr CreateFailed (createBeacon demo_plugin 0 ''b'' [] 60)) (\<lambda>meta. andThen (publishRegistry demo_plugin ''r'' [meta]) (\<lambda>_. ret [meta])) s"
proof -
  have "keyForName demo_deps ''r'' demo_empty = (Err (KeysUnlisted demo_down demo_down), demo_empty)"
    by (simp add: keyForName_def demo_deps_def demo_node_def demo_empty_def attempt_def on_node_def)
  from outage_replaces_registry [where cfg = "\<lparr>bc_BeaconRegistry = ''r'', bc_DefaultBeaconName = ''b'', bc_BeaconMsg = [], bc_BeaconInterval = 60\<rparr>",
      simplified, OF this] show ?thesis by (intro exI [of _ demo_empty]) blast
qed

theorem registry_extended_witness:
  "\<exists>ms s'. loadRegistryWithClient (\<lambda>_. False) 0 \<lparr>bc_BeaconRegistry = ''r'', bc_DefaultBeaconName = ''b'', bc_BeaconMsg = [], bc_BeaconInterval = 60\<rparr>
      demo_plugin demo_empty = (Ok ms, s')
     \<and> (\<exists>meta. ms = [meta] \<and> bm_Name meta = ''b'')"
proof -
  let ?cfg = "\<lparr>bc_BeaconRegistry = ''r'', bc_DefaultBeaconName = ''b'', bc_BeaconMsg = [], bc_BeaconInterval = 60\<rparr>"
  have key: "ic_KeyInfo demo_plugin ''r'' demo_empty = (Ok [], demo_empty)"
    by (simp add: ipfs_plugin_def KeyInfo_def keyForName_def demo_deps_def demo_node_def demo_empty_def attempt_def wrapErr_def on_node_def)
  have query: "query_loop (\<lambda>_. False) demo_plugin ''r'' maxRetries demo_empty = (Ok ([], MissingKey), demo_empty)"
    using key by (simp add: maxRetries_def eval_nat_numeral queryRegistry_def andThen_def wrapErr_def attempt_def)
  obtain meta p bl h ks where create: "createBeacon demo_plugin 0 ''b'' [] 60 demo_empty = (Ok meta, (p, (bl, h, ks)))" "maxAddBytes p = - 1"
    using demo_create [of "[]" 60] by auto
  obtain s' where load: "loadRegistryWithClient (\<lambda>_. False) 0 ?cfg demo_plugin demo_empty = (Ok [meta], s')"
    using query create by (simp add: loadRegistryWithClient_def andThen_def wrapErr_def attempt_def Let_def publishRegistry_def demo_Add demo_Publish)
  from registry_extended [OF load] have "bm_Name meta = ''b''"
    by (auto simp: findBeaconInRegistry_def find_Some_iff simp del: split_paired_Ex split: option.splits)
  with load show ?thesis by blast
qed

end
