(* ===== verification/Jose.thy ===== *)
theory Jose
  imports Json Sha2
begin

text \<open>
  What the auth and the issuer plugins exchange: public keys on the curve P-256 (\<^verbatim>\<open>ecdsa.ParseUncompressedPublicKey\<close> and
  \<^verbatim>\<open>PublicKey.Bytes\<close> of the standard library), their entries in a key set, and compact tokens.
\<close>

section \<open>Times\<close>

text \<open>The time that many seconds after the epoch, in nanoseconds; unlike a duration it does not wrap around.\<close>

definition unix_ns :: "int \<Rightarrow> int" where
  "unix_ns sec = sec * 1000000000"

section \<open>Points\<close>

text \<open>
  \<^verbatim>\<open>ecdsa.ParseUncompressedPublicKey(elliptic.P256(), point)\<close>: a byte 4 and two coordinates of 32 bytes that are reduced and
  satisfy the equation of the curve.
\<close>

definition p256_p :: nat where
  "p256_p = 2 ^ 256 - 2 ^ 224 + 2 ^ 192 + 2 ^ 96 - 1"

definition p256_b :: nat where
  "p256_b = 0x5ac635d8aa3a93e7b3ebbd55769886bc651d06b0cc53b0f63bce3c3e27d2604b"

record PublicKey =
  pk_X :: nat
  pk_Y :: nat

definition on_curve :: "nat \<Rightarrow> nat \<Rightarrow> bool" where
  "on_curve x y \<longleftrightarrow> x < p256_p \<and> y < p256_p \<and> (y * y + 3 * x) mod p256_p = (x * x * x + p256_b) mod p256_p"

definition ParseUncompressedPublicKey :: "bytes \<Rightarrow> PublicKey option" where
  "ParseUncompressedPublicKey data =
     (let x = be_nat (take 32 (drop 1 data)); y = be_nat (drop 33 data)
      in if length data = 65 \<and> hd data = CHR 0x04 \<and> on_curve x y then Some \<lparr>pk_X = x, pk_Y = y\<rparr> else None)"

text \<open>\<^verbatim>\<open>pub.Bytes()\<close>: the uncompressed point.\<close>

definition key_Bytes :: "PublicKey \<Rightarrow> bytes" where
  "key_Bytes k = CHR 0x04 # put_be 32 (pk_X k) @ put_be 32 (pk_Y k)"

lemma put_be_Suc: "put_be (Suc n) v = char_of (v div 256 ^ n) # put_be n v"
  by (simp add: put_be_def map_upt_Suc del: upt_Suc)

lemma be_nat_put_be_mod: "be_nat (put_be n v) = v mod 256 ^ n"
proof (induction n)
  case (Suc n)
  have "v mod 256 ^ Suc n = 256 ^ n * (v div 256 ^ n mod 256) + v mod 256 ^ n"
    by (simp add: mod_mult2_eq mult.commute [of 256])
  then show ?case using Suc by (simp add: put_be_Suc of_char_of mult.commute)
qed (simp add: put_be_def)

lemma be_nat_put_be: "v < 256 ^ n \<Longrightarrow> be_nat (put_be n v) = v"
  by (simp add: be_nat_put_be_mod)

lemma p256_p_bound: "p256_p < 256 ^ 32"
  by (simp add: p256_p_def)

lemma be_nat_coordinate: "v < p256_p \<Longrightarrow> be_nat (put_be 32 v) = v"
  using be_nat_put_be [of v 32] p256_p_bound by (simp only: order.strict_trans)

text \<open>Printing a point of the curve and reading it gives it back, also with the coordinates taken apart on the way.\<close>

lemma key_Bytes_coordinates:
  "take 32 (drop 1 (key_Bytes k)) = put_be 32 (pk_X k)" "drop 33 (key_Bytes k) = put_be 32 (pk_Y k)"
  by (simp_all add: key_Bytes_def)

lemma ParseUncompressedPublicKey_Bytes:
  assumes "on_curve (pk_X k) (pk_Y k)"
  shows "ParseUncompressedPublicKey (key_Bytes k) = Some k"
proof -
  have "be_nat (put_be 32 (pk_X k)) = pk_X k" "be_nat (put_be 32 (pk_Y k)) = pk_Y k"
    using assms by (simp_all only: be_nat_coordinate on_curve_def)
  moreover have "length (key_Bytes k) = 65" "hd (key_Bytes k) = CHR 0x04" by (simp_all add: key_Bytes_def)
  ultimately show ?thesis
    using assms by (simp add: ParseUncompressedPublicKey_def key_Bytes_coordinates del: One_nat_def)
qed

text \<open>The point of the curve with abscissa 0.\<close>

definition example_key :: PublicKey where
  "example_key = \<lparr>pk_X = 0, pk_Y = 0x66485c780e2f83d72433bd5d84a06bb6541c2af31dae871728bf856a174f93f4\<rparr>"

lemma example_square:
  "pk_Y example_key * pk_Y example_key =
     0x28ddbe23f91a186cde31693e44d9577376ba56e1c52cb3f335f4c8dba9b83fbb * p256_p + p256_b"
  by (simp add: example_key_def p256_p_def p256_b_def)

lemma example_key_on_curve: "on_curve (pk_X example_key) (pk_Y example_key)"
proof -
  have "pk_X example_key = 0" "pk_Y example_key < p256_p" "0 < p256_p" by (simp_all add: example_key_def p256_p_def)
  then show ?thesis by (simp add: on_curve_def example_square)
qed

section \<open>The letters of base64\<close>

lemma b64_char_range: "(of_char (b64_char url n) :: nat) \<in> {43, 45, 47, 95} \<union> {48 .. 57} \<union> {65 .. 90} \<union> {97 .. 122}"
  by (auto simp: b64_char_def of_char_of)

lemma b64_encode_range:
  "c \<in> set (b64_encode url pad bs) \<Longrightarrow> (of_char c :: nat) \<in> {43, 45, 47, 61, 95} \<union> {48 .. 57} \<union> {65 .. 90} \<union> {97 .. 122}"
  using b64_char_range by (induction url pad bs rule: b64_encode.induct) (auto simp: Let_def split: if_splits)

lemma b64_encode_valid [simp]: "valid_utf8 (b64_encode url pad bs)"
  using b64_encode_range [of _ url pad bs] by (intro ascii_valid) (fastforce simp: list_all_iff)

lemma b64_encode_no_dot [simp]: "CHR ''.'' \<notin> set (b64_encode url pad bs)"
  using b64_encode_range [of "CHR ''.''" url pad bs] by auto

lemma b64_encode_no_colon [simp]: "CHR '':'' \<notin> set (b64_encode url pad bs)"
  using b64_encode_range [of "CHR '':''" url pad bs] by auto

section \<open>Entries of a key set\<close>

text \<open>An entry as an issuer prints it.\<close>

definition printed_key :: "string \<Rightarrow> string \<times> PublicKey \<Rightarrow> json" where
  "printed_key alg = (\<lambda>(kid, pub).
     JObj [(''alg'', JStr alg), (''crv'', JStr ''P-256''), (''kid'', JStr kid), (''kty'', JStr ''EC''), (''use'', JStr ''sig''),
       (''x'', JStr (rawurl_encode (put_be 32 (pk_X pub)))), (''y'', JStr (rawurl_encode (put_be 32 (pk_Y pub))))])"

definition printable_key :: "string \<times> PublicKey \<Rightarrow> bool" where
  "printable_key = (\<lambda>(kid, pub). kid \<noteq> [] \<and> valid_utf8 kid \<and> on_curve (pk_X pub) (pk_Y pub))"

lemma key_texts_valid:
  "valid_utf8 ''alg''" "valid_utf8 ''crv''" "valid_utf8 ''P-256''" "valid_utf8 ''kid''" "valid_utf8 ''kty''" "valid_utf8 ''EC''"
  "valid_utf8 ''use''" "valid_utf8 ''sig''" "valid_utf8 ''x''" "valid_utf8 ''y''" "valid_utf8 ''ES256''"
  by (rule ascii_valid; simp)+

lemma printed_key_ok:
  "printable_key kp \<Longrightarrow> valid_utf8 alg \<Longrightarrow> wf_json (printed_key alg kp) \<and> json_depth (printed_key alg kp) \<le> 9000"
  by (cases kp) (simp add: printed_key_def printable_key_def key_texts_valid del: valid_utf8.simps)

section \<open>Compact tokens\<close>

text \<open>The members of a JSON object, the last one of a name winning.\<close>

type_synonym claims = "(string \<times> json) list"

text \<open>
  The parts of a compact token: header, claims, what is signed, and the signature.
\<close>

definition decode_object :: "string \<Rightarrow> claims option" where
  "decode_object part =
     (case rawurl_decode part of None \<Rightarrow> None | Some text \<Rightarrow> json_unmarshal dec_raw_map [] text)"

definition jwt_parts :: "string \<Rightarrow> (claims \<times> claims \<times> string \<times> bytes) option" where
  "jwt_parts token =
     (case SplitChar (CHR ''.'') token of
        [h, p, g] \<Rightarrow>
          (case (decode_object h, decode_object p, rawurl_decode g) of
             (Some header, Some cl, Some sig) \<Rightarrow> Some (header, cl, h @ CHR ''.'' # p, sig)
           | _ \<Rightarrow> None)
      | _ \<Rightarrow> None)"

lemma put_entry_new: "k \<notin> fst ` set m \<Longrightarrow> put_entry k v m = m @ [(k, v)]"
  by (induction m) auto

text \<open>Compact tokens whose header and claims are printed objects.\<close>

definition flat_object :: "claims \<Rightarrow> bool" where
  "flat_object ms \<longleftrightarrow>
     distinct (map fst ms) \<and> (\<forall>(k, v) \<in> set ms. list_all lower_char k \<and> wf_json v \<and> json_depth v \<le> 9000)"

definition signing_input :: "claims \<Rightarrow> claims \<Rightarrow> string" where
  "signing_input header cl = rawurl_encode (json_print (JObj header)) @ CHR ''.'' # rawurl_encode (json_print (JObj cl))"

lemma lower_char_ascii: "list_all lower_char k \<Longrightarrow> valid_utf8 k"
  by (rule ascii_valid, rule list.pred_mono_strong) (assumption, fastforce simp: lower_char_def)

lemma flat_object_parse: "flat_object ms \<Longrightarrow> json_parse (json_print (JObj ms)) = Some (JObj ms)"
proof (rule json_parse_print)
  assume flat: "flat_object ms"
  then show "wf_json (JObj ms)" by (auto simp: flat_object_def lower_char_ascii)
  have "\<forall>(k, v) \<in> set ms. json_depth v \<le> 9999" using flat by (fastforce simp: flat_object_def)
  then show "json_depth (JObj ms) \<le> max_depth" using depth_members [of ms 9999] by (simp add: max_depth_def del: json_depth.simps)
qed

lemma put_entries: "distinct (map fst (m @ ms)) \<Longrightarrow> foldl (\<lambda>m (k, v). put_entry k v m) m ms = m @ ms"
proof (induction ms arbitrary: m)
  case (Cons kv ms)
  obtain k v where kv: "kv = (k, v)" by fastforce
  show ?case using Cons.prems Cons.IH [of "m @ [(k, v)]"] by (simp add: kv put_entry_new)
qed simp

lemma decode_printed_object:
  assumes "flat_object ms"
  shows "decode_object (rawurl_encode (json_print (JObj ms))) = Some ms"
  using flat_object_parse [OF assms] put_entries [of "[]" ms] assms
  by (simp add: decode_object_def json_unmarshal_def dec_raw_map_def flat_object_def del: json_print.simps)

lemma SplitChar_three:
  "c \<notin> set a \<Longrightarrow> c \<notin> set b \<Longrightarrow> c \<notin> set d \<Longrightarrow> SplitChar c (a @ c # b @ c # d) = [a, b, d]"
  by (simp add: SplitChar_append SplitChar_free)

lemma jwt_parts_compact:
  assumes "flat_object header" "flat_object cl"
  shows "jwt_parts (signing_input header cl @ CHR ''.'' # rawurl_encode sig) = Some (header, cl, signing_input header cl, sig)"
  using decode_printed_object [OF assms(1)] decode_printed_object [OF assms(2)]
  by (simp add: jwt_parts_def signing_input_def SplitChar_three del: json_print.simps)

end
