(* ===== verification/Auth.thy ===== *)
theory Auth
  imports OpenBao Jose
begin

text \<open>
  The auth plugin: the checks of its configuration (\<^verbatim>\<open>auth/config.go\<close>), the cache of the issuer's public keys and the
  validation of personal access tokens (\<^verbatim>\<open>auth/pat.go\<close>), the validation of service tokens and the handlers
  (\<^verbatim>\<open>auth/plugin.go\<close>).

  The state of an action is the key cache together with a world in which the clock is read and the issuer is called; these
  two are the record \<open>env\<close>. The JWT library is a parameter: \<open>parse\<close> with the laws of the locale \<open>jwt_library\<close>, which
  state what its documentation promises of the options the plugin passes. The validator of the identity provider's tokens
  is a parameter as well. Requests are handled one after the other. Times are nanoseconds.
\<close>

section \<open>Configuration\<close>

record authConfig =
  ac_Auth0Domain :: string
  ac_Auth0Audience :: string
  ac_PatIss :: string
  ac_PatAudience :: string
  ac_PatIssuerPlugin :: string
  ac_ServiceClientIDs :: string

definition patEnabled :: "authConfig \<Rightarrow> bool" where
  "patEnabled c \<longleftrightarrow> ac_PatIss c \<noteq> [] \<or> ac_PatAudience c \<noteq> [] \<or> ac_PatIssuerPlugin c \<noteq> []"

datatype auth_error =
    AuthConfigMissing | PatPartial "string list" | IssuerURL | ValidatorSetup | IssuerConnection

definition validatePat :: "authConfig \<Rightarrow> auth_error + unit" where
  "validatePat c =
     (if \<not> patEnabled c then Inr ()
      else let missing = (if ac_PatIss c = [] then [''ORBITPORT_AUTH_PAT_ISS''] else [])
             @ (if ac_PatIssuerPlugin c = [] then [''ORBITPORT_AUTH_PATISSUER_PLUGIN''] else [])
           in if missing \<noteq> [] then Inl (PatPartial missing) else Inr ())"

text \<open>A set of client ids, as the list of its elements.\<close>

definition serviceClientIDSet :: "authConfig \<Rightarrow> string list" where
  "serviceClientIDSet c =
     filter (\<lambda>clientID. clientID \<noteq> []) (map TrimSpace (SplitChar (CHR '','') (ac_ServiceClientIDs c)))"

section \<open>Public keys\<close>

record jwk =
  Kty :: string
  Crv :: string
  Kid :: string
  jwk_X :: string
  jwk_Y :: string

definition empty_jwk :: jwk where
  "empty_jwk = \<lparr>Kty = [], Crv = [], Kid = [], jwk_X = [], jwk_Y = []\<rparr>"

definition jwk_field :: "string \<Rightarrow> jwk decoder" where
  "jwk_field k =
     (if is_field ''kty'' k then dec_field Kty Kty_update dec_string
      else if is_field ''crv'' k then dec_field Crv Crv_update dec_string
      else if is_field ''kid'' k then dec_field Kid Kid_update dec_string
      else if is_field ''x'' k then dec_field jwk_X jwk_X_update dec_string
      else if is_field ''y'' k then dec_field jwk_Y jwk_Y_update dec_string
      else dec_skip)"

definition jwks_field :: "string \<Rightarrow> jwk list option decoder" where
  "jwks_field k = (if is_field ''keys'' k then dec_slice (dec_struct jwk_field) empty_jwk else dec_skip)"

datatype key_error =
    MissingKid | NoKey string | IssuerUnavailable | ParsingJWKS | DecodingX string | DecodingY string | InvalidPoint string
  | NoUsableKeys

type_synonym key_set = "(string \<times> PublicKey) list"

text \<open>The key of an entry, \<open>None\<close> when the entry is skipped.\<close>

definition jwk_key :: "jwk \<Rightarrow> key_error + PublicKey option" where
  "jwk_key k =
     (if Kty k \<noteq> ''EC'' \<or> Crv k \<noteq> ''P-256'' \<or> Kid k = [] then Inr None
      else case rawurl_decode (jwk_X k) of
             None \<Rightarrow> Inl (DecodingX (Kid k))
           | Some x \<Rightarrow>
               (case rawurl_decode (jwk_Y k) of
                  None \<Rightarrow> Inl (DecodingY (Kid k))
                | Some y \<Rightarrow>
                    (case ParseUncompressedPublicKey (CHR 0x04 # x @ y) of
                       None \<Rightarrow> Inl (InvalidPoint (Kid k))
                     | Some pub \<Rightarrow> Inr (Some pub))))"

fun collect_keys :: "key_set \<Rightarrow> jwk list \<Rightarrow> key_error + key_set" where
  "collect_keys keys [] = Inr keys"
| "collect_keys keys (k # ks) =
     rbind (jwk_key k) (\<lambda>r. case r of
       None \<Rightarrow> collect_keys keys ks
     | Some pub \<Rightarrow> collect_keys (put_entry (Kid k) pub keys) ks)"

definition parseJWKS :: "string \<Rightarrow> key_error + key_set" where
  "parseJWKS jwksJSON =
     (case json_unmarshal (dec_struct jwks_field) None jwksJSON of
        None \<Rightarrow> Inl ParsingJWKS
      | Some entries \<Rightarrow>
          rbind (collect_keys [] (case entries of None \<Rightarrow> [] | Some ks \<Rightarrow> ks)) (\<lambda>keys.
            if keys = [] then Inl NoUsableKeys else Inr keys))"

section \<open>The key cache\<close>

definition jwksCacheTTL :: int where
  "jwksCacheTTL = seconds (5 * 60)"

definition jwksMinRefresh :: int where
  "jwksMinRefresh = seconds 10"

record jwksCache =
  jc_keys :: "key_set option"
  jc_fetchedAt :: int
  jc_minRefresh :: int

definition newJWKSCache :: "(string \<Rightarrow> bool) \<Rightarrow> string \<Rightarrow> auth_error + jwksCache" where
  "newJWKSCache connects url =
     (if \<not> connects url then Inl IssuerConnection
      else Inr \<lparr>jc_keys = None, jc_fetchedAt = 0, jc_minRefresh = jwksMinRefresh\<rparr>)"

record 'w env =
  env_now :: "'w \<Rightarrow> int"
  env_jwks :: "'w \<Rightarrow> string option \<times> 'w"

type_synonym 'w cached = "jwksCache \<times> 'w"

definition refresh :: "'w env \<Rightarrow> ('w cached, key_error, unit) act" where
  "refresh env = (\<lambda>(c, w).
     if jc_keys c \<noteq> None \<and> env_now env w - jc_fetchedAt c < jc_minRefresh c then (Ok (), (c, w))
     else (case env_jwks env w of
             (None, w') \<Rightarrow> (Err IssuerUnavailable, (c, w'))
           | (Some body, w') \<Rightarrow>
               (case parseJWKS body of
                  Inl e \<Rightarrow> (Err e, (c, w'))
                | Inr ks \<Rightarrow> (Ok (), (c\<lparr>jc_keys := Some ks, jc_fetchedAt := env_now env w'\<rparr>, w')))))"

definition lookup :: "string \<Rightarrow> jwksCache \<Rightarrow> PublicKey option" where
  "lookup kid c = (case jc_keys c of None \<Rightarrow> None | Some ks \<Rightarrow> map_of ks kid)"

definition lookup_key :: "string \<Rightarrow> ('w cached, key_error, PublicKey) act" where
  "lookup_key kid = (\<lambda>(c, w). (case lookup kid c of None \<Rightarrow> Err (NoKey kid) | Some k \<Rightarrow> Ok k, (c, w)))"

text \<open>The first refresh, when there are no keys or they are stale; then the look-up, and once more after a refetch.\<close>

definition ensure_keys :: "'w env \<Rightarrow> ('w cached, key_error, unit) act" where
  "ensure_keys env = (\<lambda>(c, w).
     if jc_keys c = None \<or> jwksCacheTTL < env_now env w - jc_fetchedAt c then refresh env (c, w) else (Ok (), (c, w)))"

definition key :: "'w env \<Rightarrow> string \<Rightarrow> ('w cached, key_error, PublicKey) act" where
  "key env kid =
     andThen (ensure_keys env) (\<lambda>_ (c, w).
       case lookup kid c of
         Some k \<Rightarrow> (Ok k, (c, w))
       | None \<Rightarrow>
           if env_now env w - jc_fetchedAt c < jc_minRefresh c then (Err (NoKey kid), (c, w))
           else andThen (refresh env) (\<lambda>_. lookup_key kid) (c, w))"

section \<open>Personal access tokens\<close>

definition dec_iss :: "string decoder" where
  "dec_iss = dec_struct (\<lambda>k. if is_field ''iss'' k then dec_string else dec_skip)"

definition unverifiedIssuer :: "string \<Rightarrow> string" where
  "unverifiedIssuer token =
     (case SplitChar (CHR ''.'') token of
        [_, p, _] \<Rightarrow>
          (case rawurl_decode p of
             None \<Rightarrow> []
           | Some payload \<Rightarrow> (case json_unmarshal dec_iss [] payload of None \<Rightarrow> [] | Some iss \<Rightarrow> iss))
      | _ \<Rightarrow> [])"

record parser_options =
  ValidMethods :: "string list"
  Issuer :: string
  Audience :: string
  ExpirationRequired :: bool
  Leeway :: int

datatype jwt_error = KeyfuncFailed key_error | TokenExpired | TokenInvalid

type_synonym 'w jwt_parser =
  "string \<Rightarrow> (claims \<Rightarrow> ('w cached, key_error, PublicKey) act) \<Rightarrow> parser_options \<Rightarrow> ('w \<Rightarrow> int) \<Rightarrow>
   ('w cached, jwt_error, claims) act"

definition string_claim :: "claims \<Rightarrow> string \<Rightarrow> string" where
  "string_claim cl name = (case map_of cl name of Some (JStr s) \<Rightarrow> s | _ \<Rightarrow> [])"

definition keyfunc :: "'w env \<Rightarrow> claims \<Rightarrow> ('w cached, key_error, PublicKey) act" where
  "keyfunc env header =
     (let kid = string_claim header ''kid'' in if kid = [] then fail MissingKid else key env kid)"

datatype pat_error = PatExpired | InvalidCredential jwt_error | MissingSub | MissingJti | NotAPat

record TokenValidationResponse =
  tv_ClientId :: string
  tv_Jti :: string
  tv_KmsTenant :: string

definition pat_options :: "string \<Rightarrow> string \<Rightarrow> parser_options" where
  "pat_options iss aud =
     \<lparr>ValidMethods = [''ES256''], Issuer = iss, Audience = aud, ExpirationRequired = True, Leeway = seconds 60\<rparr>"

definition pat_status :: "jwt_error \<Rightarrow> grpc_code \<times> pat_error" where
  "pat_status e =
     (case e of
        KeyfuncFailed IssuerUnavailable \<Rightarrow> (Unavailable, InvalidCredential e)
      | TokenExpired \<Rightarrow> (Unauthenticated, PatExpired)
      | _ \<Rightarrow> (Unauthenticated, InvalidCredential e))"

definition pat_response :: "claims \<Rightarrow> (grpc_code \<times> pat_error) + TokenValidationResponse" where
  "pat_response cl =
     (let sub = string_claim cl ''sub''; jti = string_claim cl ''jti'' in
      if sub = [] then Inl (Unauthenticated, MissingSub)
      else if jti = [] then Inl (Unauthenticated, MissingJti)
      else Inr \<lparr>tv_ClientId = sub, tv_Jti = jti, tv_KmsTenant = string_claim cl ''kms_tenant''\<rparr>)"

definition validatePAT ::
  "'w jwt_parser \<Rightarrow> 'w env \<Rightarrow> string \<Rightarrow> string \<Rightarrow> string \<Rightarrow>
   ('w cached, grpc_code \<times> pat_error, TokenValidationResponse) act" where
  "validatePAT parse env iss aud token =
     andThen (wrapErr pat_status (parse token (keyfunc env) (pat_options iss aud) (env_now env))) (\<lambda>cl.
       check (pat_response cl))"

section \<open>The plugin\<close>

record Plugin =
  p_patIss :: string
  p_patAudience :: string
  p_patKeys :: "jwksCache option"
  p_serviceClientIDs :: "string list"

text \<open>
  What starting the plugin asks of libraries: whether the issuer's URL parses (the process ends otherwise), whether the
  validator and the connection can be set up.
\<close>

record start_deps =
  su_url :: "string \<Rightarrow> bool"
  su_validator :: "string \<Rightarrow> string \<Rightarrow> bool"
  su_connects :: "string \<Rightarrow> bool"

definition newAuthPlugin :: "start_deps \<Rightarrow> string \<Rightarrow> string \<Rightarrow> auth_error + Plugin" where
  "newAuthPlugin su domain audience =
     (let url = ''https://'' @ domain @ ''/'' in
      if \<not> su_url su url then Inl IssuerURL
      else if \<not> su_validator su url audience then Inl ValidatorSetup
      else Inr \<lparr>p_patIss = [], p_patAudience = [], p_patKeys = None, p_serviceClientIDs = []\<rparr>)"

definition NewPlugin :: "start_deps \<Rightarrow> authConfig \<Rightarrow> auth_error + Plugin" where
  "NewPlugin su cfg =
     (if ac_Auth0Domain cfg = [] \<or> ac_Auth0Audience cfg = [] then Inl AuthConfigMissing
      else rbind (validatePat cfg) (\<lambda>_.
        rbind (newAuthPlugin su (ac_Auth0Domain cfg) (ac_Auth0Audience cfg)) (\<lambda>plugin.
          let plugin = plugin\<lparr>p_serviceClientIDs := serviceClientIDSet cfg\<rparr> in
          if patEnabled cfg then
            rbind (newJWKSCache (su_connects su) (ac_PatIssuerPlugin cfg)) (\<lambda>cache.
              Inr (plugin\<lparr>p_patIss := ac_PatIss cfg,
                 p_patAudience := (if ac_PatAudience cfg = [] then ac_Auth0Audience cfg else ac_PatAudience cfg),
                 p_patKeys := Some cache\<rparr>))
          else Inr plugin)))"

definition ValidateToken ::
  "'w jwt_parser \<Rightarrow> 'w env \<Rightarrow> string \<Rightarrow> (Plugin \<times> 'w, grpc_code \<times> pat_error, TokenValidationResponse) act" where
  "ValidateToken parse env token = (\<lambda>(p, w).
     case p_patKeys p of
       None \<Rightarrow> (Err (Unauthenticated, NotAPat), (p, w))
     | Some c \<Rightarrow>
         if unverifiedIssuer token \<noteq> p_patIss p then (Err (Unauthenticated, NotAPat), (p, w))
         else (case validatePAT parse env (p_patIss p) (p_patAudience p) token (c, w) of
                 (r, (c', w')) \<Rightarrow> (r, (p\<lparr>p_patKeys := Some c'\<rparr>, w'))))"

section \<open>Service tokens\<close>

text \<open>\<^verbatim>\<open>strings.Fields\<close>: the longest pieces without white space.\<close>

function fields_from :: "string \<Rightarrow> string \<Rightarrow> string list" where
  "fields_from word s =
     (if s = [] then (if word = [] then [] else [word])
      else let n = lead_len go_spaces s in
        if n = 0 then fields_from (word @ [hd s]) (tl s)
        else (if word = [] then [] else [word]) @ fields_from [] (drop n s))"
  by pat_completeness auto

termination
  by (relation "measure (\<lambda>(_, s). length s)") auto

declare fields_from.simps [simp del]

definition Fields :: "string \<Rightarrow> string list" where
  "Fields s = fields_from [] s"

record serviceClaims =
  Scope :: string
  GrantType :: string

definition hasRequiredScopes :: "serviceClaims \<Rightarrow> string list \<Rightarrow> bool" where
  "hasRequiredScopes c requiredScopes \<longleftrightarrow> list_all (\<lambda>scope. scope \<in> set (Fields (Scope c))) requiredScopes"

definition hasClientCredentialsGrant :: "serviceClaims \<Rightarrow> bool" where
  "hasClientCredentialsGrant c \<longleftrightarrow> GrantType c = ''client-credentials''"

text \<open>What the validator returns; custom claims of another type are \<open>None\<close>.\<close>

record ValidatedClaims =
  vc_Subject :: string
  vc_Expiry :: int
  vc_Custom :: "serviceClaims option"

datatype auth0_error = Auth0JWKSUnavailable | Auth0Invalid

text \<open>
  The validator gets the function that fetches the provider's keys, and returns claims (\<open>None\<close> for a value of another type) or
  an error, in which an error of that function is still recognised.
\<close>

type_synonym ('w, 'j) auth0_validator =
  "('w, auth0_error, 'j) act \<Rightarrow> string \<Rightarrow> ('w, auth0_error, ValidatedClaims option) act"

definition wrapAuth0KeyFunc :: "('w, 'e, 'j) act \<Rightarrow> ('w, auth0_error, 'j) act" where
  "wrapAuth0KeyFunc keyFunc = wrapErr (\<lambda>_. Auth0JWKSUnavailable) keyFunc"

definition validateAuth0Token ::
  "('w, 'j) auth0_validator \<Rightarrow> ('w, 'e, 'j) act \<Rightarrow> string \<Rightarrow> ('w, auth0_error, ValidatedClaims) act" where
  "validateAuth0Token validator keyFunc token =
     andThen (validator (wrapAuth0KeyFunc keyFunc) token) (\<lambda>claims.
       case claims of None \<Rightarrow> fail Auth0Invalid | Some vc \<Rightarrow> ret vc)"

text \<open>\<^verbatim>\<open>strings.CutSuffix\<close>.\<close>

definition CutSuffix :: "string \<Rightarrow> string \<Rightarrow> string option" where
  "CutSuffix s q = (if suffix q s then Some (take (length s - length q) s) else None)"

datatype service_error = ScopesEmpty | JWKSUnavailable | InvalidServiceToken | NotAuthorized

definition service_client :: "Plugin \<Rightarrow> string list \<Rightarrow> ValidatedClaims \<Rightarrow> (grpc_code \<times> service_error) + string" where
  "service_client p requiredScopes vc =
     (if vc_Expiry vc \<le> 0 then Inl (Unauthenticated, InvalidServiceToken)
      else case CutSuffix (vc_Subject vc) ''@clients'' of
        None \<Rightarrow> Inl (PermissionDenied, NotAuthorized)
      | Some clientID \<Rightarrow>
          if clientID = [] then Inl (PermissionDenied, NotAuthorized)
          else if clientID \<notin> set (p_serviceClientIDs p) then Inl (PermissionDenied, NotAuthorized)
          else (case vc_Custom vc of
                  None \<Rightarrow> Inl (PermissionDenied, NotAuthorized)
                | Some claims \<Rightarrow>
                    if \<not> hasClientCredentialsGrant claims \<or> \<not> hasRequiredScopes claims requiredScopes
                    then Inl (PermissionDenied, NotAuthorized)
                    else Inr clientID))"

definition ValidateServiceToken ::
  "('w, 'j) auth0_validator \<Rightarrow> ('w, 'e, 'j) act \<Rightarrow> Plugin \<Rightarrow> string \<Rightarrow> string list \<Rightarrow>
   ('w, grpc_code \<times> service_error, string) act" where
  "ValidateServiceToken validator keyFunc p token requiredScopes =
     andThen (require (requiredScopes \<noteq> []) (InvalidArgument, ScopesEmpty)) (\<lambda>_.
     andThen (wrapErr (\<lambda>e. if e = Auth0JWKSUnavailable then (Unavailable, JWKSUnavailable)
                           else (Unauthenticated, InvalidServiceToken))
                (validateAuth0Token validator keyFunc token)) (\<lambda>vc.
       check (service_client p requiredScopes vc)))"

section \<open>The JWT library\<close>

definition audiences :: "claims \<Rightarrow> string list" where
  "audiences cl =
     (case map_of cl ''aud'' of
        Some (JStr a) \<Rightarrow> [a]
      | Some (JArr js) \<Rightarrow> concat (map (\<lambda>j. case j of JStr a \<Rightarrow> [a] | _ \<Rightarrow> []) js)
      | _ \<Rightarrow> [])"

text \<open>Claims that hold only strings and integers a double represents exactly.\<close>

definition plain_claims :: "claims \<Rightarrow> bool" where
  "plain_claims cl \<longleftrightarrow>
     (\<forall>(k, v) \<in> set cl. (\<exists>s. v = JStr s) \<or> (\<exists>i. v = JNum (Itoa i) \<and> - (2 ^ 53) \<le> i \<and> i \<le> 2 ^ 53))"

text \<open>
  What the plugin relies on, for tokens signed with ES256. A token is accepted only when it splits into parts, its algorithm is
  allowed, the key function gave a key (its effect is the only one), the key verifies the signature, and issuer, audience
  and expiry (\<open>date\<close> reads a numeric date) fit at the time after the key function ran; a token of which all this holds, with
  plain claims and no \<^verbatim>\<open>nbf\<close>, is accepted. An error of the key function is reported as such.
\<close>

locale jwt_library =
  fixes parse :: "'w jwt_parser"
    and verify :: "PublicKey \<Rightarrow> string \<Rightarrow> bytes \<Rightarrow> bool"
    and date :: "json \<Rightarrow> int option"
  assumes sound: "parse token kf opts now (c, w) = (Ok cl, (c', w')) \<Longrightarrow>
      \<exists>header input sig k alg e.
        jwt_parts token = Some (header, cl, input, sig) \<and>
        map_of header ''alg'' = Some (JStr alg) \<and> alg \<in> set (ValidMethods opts) \<and>
        kf header (c, w) = (Ok k, (c', w')) \<and> verify k input sig \<and>
        map_of cl ''iss'' = Some (JStr (Issuer opts)) \<and> Audience opts \<in> set (audiences cl) \<and>
        (ExpirationRequired opts \<longrightarrow>
           Option.bind (map_of cl ''exp'') date = Some e \<and> now w' < e + Leeway opts)"
    and complete: "jwt_parts token = Some (header, cl, input, sig) \<Longrightarrow>
      map_of header ''alg'' = Some (JStr ''ES256'') \<Longrightarrow> ''ES256'' \<in> set (ValidMethods opts) \<Longrightarrow>
      kf header (c, w) = (Ok k, (c', w')) \<Longrightarrow> verify k input sig \<Longrightarrow> plain_claims cl \<Longrightarrow>
      map_of cl ''iss'' = Some (JStr (Issuer opts)) \<Longrightarrow> Audience opts \<in> set (audiences cl) \<Longrightarrow>
      Option.bind (map_of cl ''exp'') date = Some e \<Longrightarrow> now w' < e + Leeway opts \<Longrightarrow> map_of cl ''nbf'' = None \<Longrightarrow>
      parse token kf opts now (c, w) = (Ok cl, (c', w'))"
    and key_failure: "jwt_parts token = Some (header, cl, input, sig) \<Longrightarrow>
      map_of header ''alg'' = Some (JStr ''ES256'') \<Longrightarrow> ''ES256'' \<in> set (ValidMethods opts) \<Longrightarrow>
      kf header (c, w) = (Err e', s') \<Longrightarrow> parse token kf opts now (c, w) = (Err (KeyfuncFailed e'), s')"
    and effect: "parse token kf opts now s = (r, s') \<Longrightarrow> s' = s \<or> (\<exists>header. s' = snd (kf header s))"
    and numeric_date: "- (2 ^ 53) \<le> i \<Longrightarrow> i \<le> 2 ^ 53 \<Longrightarrow> i \<noteq> 0 \<Longrightarrow> date (JNum (Itoa i)) = Some (unix_ns i)"
begin

lemma validatePAT_accepted:
  assumes "validatePAT parse env iss aud token (c, w) = (Ok resp, (c', w'))"
  obtains header cl input sig k e where
    "jwt_parts token = Some (header, cl, input, sig)" "map_of header ''alg'' = Some (JStr ''ES256'')"
    "keyfunc env header (c, w) = (Ok k, (c', w'))" "verify k input sig"
    "map_of cl ''iss'' = Some (JStr iss)" "aud \<in> set (audiences cl)"
    "Option.bind (map_of cl ''exp'') date = Some e" "env_now env w' < e + seconds 60"
    "pat_response cl = Inr resp"
proof -
  obtain cl where cl: "parse token (keyfunc env) (pat_options iss aud) (env_now env) (c, w) = (Ok cl, (c', w'))"
      and resp: "pat_response cl = Inr resp"
    using assms by (auto simp: validatePAT_def act_Ok)
  from sound [OF cl] resp that show thesis by (auto simp: pat_options_def)
qed

lemma validatePAT_state:
  assumes "validatePAT parse env iss aud token s = (r, s')"
  shows "s' = s \<or> (\<exists>header. s' = snd (keyfunc env header s))"
proof -
  obtain r1 s1 where run: "parse token (keyfunc env) (pat_options iss aud) (env_now env) s = (r1, s1)" by (metis surj_pair)
  have "s' = s1" using assms run
    by (auto simp: validatePAT_def andThen_def wrapErr_def attempt_def check_def split: res.splits sum.splits)
  with effect [OF run] show ?thesis by simp
qed

end

section \<open>The cache over time\<close>

text \<open>Calls of the issuer, with the time of the call and the answer.\<close>

type_synonym 'w watched = "'w \<times> (int \<times> string option) list"

definition watched_env :: "'w env \<Rightarrow> 'w watched env" where
  "watched_env env =
     \<lparr>env_now = (\<lambda>(w, l). env_now env w),
      env_jwks = (\<lambda>(w, l). case env_jwks env w of (a, w') \<Rightarrow> (a, (w', l @ [(env_now env w, a)])))\<rparr>"

definition monotone_clock :: "'w env \<Rightarrow> bool" where
  "monotone_clock env \<longleftrightarrow> (\<forall>w a w'. env_jwks env w = (a, w') \<longrightarrow> env_now env w \<le> env_now env w')"

text \<open>A call after which the cache was filled.\<close>

definition usable :: "int \<times> string option \<Rightarrow> bool" where
  "usable e = (case snd e of None \<Rightarrow> False | Some js \<Rightarrow> (case parseJWKS js of Inl _ \<Rightarrow> False | Inr _ \<Rightarrow> True))"

definition spaced :: "int \<Rightarrow> (int \<times> string option) list \<Rightarrow> bool" where
  "spaced d l \<longleftrightarrow> sorted_wrt (\<lambda>e e'. usable e \<longrightarrow> fst e + d \<le> fst e') l"

definition served_keys :: "(int \<times> string option) list \<Rightarrow> key_set \<Rightarrow> bool" where
  "served_keys l ks \<longleftrightarrow> (\<exists>t js. (t, Some js) \<in> set l \<and> parseJWKS js = Inr ks)"

definition cache_inv :: "'w env \<Rightarrow> int \<Rightarrow> 'w watched cached \<Rightarrow> bool" where
  "cache_inv env d = (\<lambda>(c, (w, l)).
     jc_minRefresh c = d \<and> spaced d l \<and> (\<forall>e \<in> set l. fst e \<le> env_now env w) \<and>
     (case jc_keys c of
        None \<Rightarrow> \<forall>e \<in> set l. \<not> usable e
      | Some ks \<Rightarrow> served_keys l ks \<and> (\<forall>e \<in> set l. usable e \<longrightarrow> fst e \<le> jc_fetchedAt c)))"

definition keeps :: "'w env \<Rightarrow> int \<Rightarrow> ('w watched cached, 'e, 'a) act \<Rightarrow> bool" where
  "keeps env d m \<longleftrightarrow> (\<forall>s r s'. cache_inv env d s \<longrightarrow> m s = (r, s') \<longrightarrow> cache_inv env d s')"

lemma keepsD: "keeps env d m \<Longrightarrow> cache_inv env d s \<Longrightarrow> m s = (r, s') \<Longrightarrow> cache_inv env d s'"
  unfolding keeps_def by blast

lemma keeps_andThen:
  assumes "keeps env d m" "\<And>x. keeps env d (f x)"
  shows "keeps env d (andThen m f)"
  unfolding keeps_def
proof (intro allI impI)
  fix s r s' assume inv: "cache_inv env d s" and run: "andThen m f s = (r, s')"
  obtain r1 s1 where m: "m s = (r1, s1)" by (metis surj_pair)
  note inv1 = keepsD [OF assms(1) inv m]
  show "cache_inv env d s'"
  proof (cases r1)
    case (Ok x)
    then show ?thesis using run m keepsD [OF assms(2) inv1] by (simp add: andThen_run)
  qed (use run m inv1 in \<open>simp_all add: andThen_run\<close>)
qed

lemma usable_Some: "usable (t, Some js) \<longleftrightarrow> (\<exists>ks. parseJWKS js = Inr ks)"
  by (auto simp: usable_def split: sum.splits)

lemma usable_None [simp]: "\<not> usable (t, None)"
  by (simp add: usable_def)

lemma spaced_snoc: "spaced d (l @ [e]) \<longleftrightarrow> spaced d l \<and> (\<forall>e' \<in> set l. usable e' \<longrightarrow> fst e' + d \<le> fst e)"
  by (auto simp: spaced_def sorted_wrt_append)

lemma served_keys_mono: "served_keys l ks \<Longrightarrow> served_keys (l @ l') ks"
  by (auto simp: served_keys_def)

lemma refresh_keeps:
  assumes "monotone_clock env"
  shows "keeps env d (refresh (watched_env env))"
  unfolding keeps_def
proof (intro allI impI)
  fix s r s' assume inv: "cache_inv env d s" and run: "refresh (watched_env env) s = (r, s')"
  obtain c w l where s: "s = (c, (w, l))" by (metis surj_pair)
  obtain a w1 where call: "env_jwks env w = (a, w1)" by fastforce
  have mono: "env_now env w \<le> env_now env w1" using assms call by (auto simp: monotone_clock_def)
  let ?l = "l @ [(env_now env w, a)]"
  have old: "\<forall>e \<in> set ?l. fst e \<le> env_now env w1" using inv mono by (fastforce simp: cache_inv_def s)
  show "cache_inv env d s'"
  proof (cases "jc_keys c \<noteq> None \<and> env_now env w - jc_fetchedAt c < jc_minRefresh c")
    case True
    then show ?thesis using run inv by (simp add: refresh_def s watched_env_def)
  next
    case False
    then have spaced: "spaced d ?l" using inv by (fastforce simp: cache_inv_def s spaced_snoc split: option.splits)
    show ?thesis
    proof (cases "\<exists>js ks. a = Some js \<and> parseJWKS js = Inr ks")
      case True
      then obtain js ks where a: "a = Some js" and js: "parseJWKS js = Inr ks" by blast
      then have "s' = (c\<lparr>jc_keys := Some ks, jc_fetchedAt := env_now env w1\<rparr>, (w1, ?l))"
        using run False call by (auto simp: refresh_def s watched_env_def)
      then show ?thesis using inv old spaced a js mono
        by (fastforce simp: cache_inv_def s served_keys_def)
    next
      case unusable: False
      then have "s' = (c, (w1, ?l))" using run False call
        by (auto simp: refresh_def s watched_env_def split: option.splits sum.splits)
      moreover have "\<not> usable (env_now env w, a)" using unusable by (cases a) (auto simp: usable_Some)
      ultimately show ?thesis using inv old spaced served_keys_mono
        by (auto simp: cache_inv_def s split: option.splits)
    qed
  qed
qed

lemma ensure_keys_keeps: "monotone_clock env \<Longrightarrow> keeps env d (ensure_keys (watched_env env))"
  using refresh_keeps [of env d] by (auto simp: keeps_def ensure_keys_def split: if_splits)

lemma lookup_key_state: "snd (lookup_key kid s) = s"
  by (cases s) (simp add: lookup_key_def)

lemma lookup_key_keeps: "keeps env d (lookup_key kid)"
  unfolding keeps_def by (metis lookup_key_state snd_conv)

lemma key_keeps: "monotone_clock env \<Longrightarrow> keeps env d (key (watched_env env) kid)"
  unfolding key_def
  apply (rule keeps_andThen [OF ensure_keys_keeps], assumption)
  using keeps_andThen [OF refresh_keeps [of env d] lookup_key_keeps [of env d kid]]
  by (fastforce simp: keeps_def split: option.splits if_splits)

lemma keyfunc_keeps: "monotone_clock env \<Longrightarrow> keeps env d (keyfunc (watched_env env) header)"
  using key_keeps [of env d "string_claim header ''kid''"] by (auto simp: keyfunc_def Let_def keeps_def split: if_splits)

lemma key_found: "key env kid s = (Ok k, (c', w')) \<Longrightarrow> lookup kid c' = Some k"
  by (auto simp: key_def andThen_Ok_iff lookup_key_def split: option.splits if_splits)

lemma keyfunc_found:
  "keyfunc env header s = (Ok k, (c', w')) \<Longrightarrow> lookup (string_claim header ''kid'') c' = Some k"
  by (auto simp: keyfunc_def Let_def key_found split: if_splits)

text \<open>The states a plugin reaches from its start: time passes, and tokens are validated.\<close>

inductive reach :: "'w watched jwt_parser \<Rightarrow> 'w env \<Rightarrow> Plugin \<Rightarrow> Plugin \<times> 'w watched \<Rightarrow> bool" for parse env p0 where
  start: "reach parse env p0 (p0, (w, []))"
| elapse: "reach parse env p0 (p, (w, l)) \<Longrightarrow> env_now env w \<le> env_now env w' \<Longrightarrow> reach parse env p0 (p, (w', l))"
| validate: "reach parse env p0 s \<Longrightarrow> ValidateToken parse (watched_env env) token s = (r, s') \<Longrightarrow> reach parse env p0 s'"

definition plugin_inv :: "'w env \<Rightarrow> Plugin \<Rightarrow> Plugin \<times> 'w watched \<Rightarrow> bool" where
  "plugin_inv env p0 = (\<lambda>(p, wl).
     p_patIss p = p_patIss p0 \<and> p_patAudience p = p_patAudience p0 \<and> (p_patKeys p = None \<longleftrightarrow> p_patKeys p0 = None) \<and>
     (case p_patKeys p of None \<Rightarrow> snd wl = [] | Some c \<Rightarrow> cache_inv env jwksMinRefresh (c, wl)))"

lemma cache_inv_elapse: "cache_inv env d (c, (w, l)) \<Longrightarrow> env_now env w \<le> env_now env w' \<Longrightarrow> cache_inv env d (c, (w', l))"
  by (fastforce simp: cache_inv_def)

lemma cache_inv_empty: "jc_keys c = None \<Longrightarrow> jc_minRefresh c = d \<Longrightarrow> cache_inv env d (c, (w, []))"
  by (simp add: cache_inv_def spaced_def)

lemma NewPlugin_cache: "NewPlugin su cfg = Inr p \<Longrightarrow> p_patKeys p = Some c \<Longrightarrow> jc_keys c = None \<and> jc_minRefresh c = jwksMinRefresh"
  by (auto simp: NewPlugin_def newAuthPlugin_def newJWKSCache_def rbind_Inr_iff Let_def split: if_splits)

lemma NewPlugin_fields:
  assumes "NewPlugin su cfg = Inr p"
  shows "p_serviceClientIDs p = serviceClientIDSet cfg"
    and "p_patKeys p \<noteq> None \<longleftrightarrow> patEnabled cfg"
    and "p_patKeys p \<noteq> None \<Longrightarrow> p_patIss p = ac_PatIss cfg \<and> ac_PatIss cfg \<noteq> [] \<and>
           p_patAudience p = (if ac_PatAudience cfg = [] then ac_Auth0Audience cfg else ac_PatAudience cfg)"
  using assms
  by (auto simp: NewPlugin_def newAuthPlugin_def newJWKSCache_def validatePat_def rbind_Inr_iff Let_def split: if_splits)

lemma NewPlugin_cache_inv: "NewPlugin su cfg = Inr p \<Longrightarrow> plugin_inv env p (p, (w, []))"
  using NewPlugin_cache [of su cfg p] by (auto simp: plugin_inv_def cache_inv_empty split: option.splits)

lemma validatePAT_keeps:
  assumes lib: "jwt_library parse verify date" and clock: "monotone_clock env" and inv: "cache_inv env d s"
    and run: "validatePAT parse (watched_env env) iss aud token s = (r, s')"
  shows "cache_inv env d s'"
proof -
  from jwt_library.validatePAT_state [OF lib run]
  consider "s' = s" | header where "s' = snd (keyfunc (watched_env env) header s)" by blast
  then show ?thesis
  proof cases
    case 2
    then show ?thesis using keepsD [OF keyfunc_keeps [OF clock] inv] by (metis surj_pair snd_conv)
  qed (use inv in simp)
qed

lemma reach_inv:
  assumes lib: "jwt_library parse verify date" and clock: "monotone_clock env" and new: "NewPlugin su cfg = Inr p0"
    and reach: "reach parse env p0 s"
  shows "plugin_inv env p0 s"
  using reach
proof (induction rule: reach.induct)
  case (start w)
  then show ?case by (rule NewPlugin_cache_inv [OF new])
next
  case (elapse p w l w')
  then show ?case by (auto simp: plugin_inv_def cache_inv_elapse split: option.splits)
next
  case (validate s token r s')
  obtain p wl where s: "s = (p, wl)" by (metis surj_pair)
  show ?case
  proof (cases "\<exists>c. p_patKeys p = Some c \<and> unverifiedIssuer token = p_patIss p")
    case True
    then obtain c where c: "p_patKeys p = Some c" "unverifiedIssuer token = p_patIss p" by blast
    obtain r1 c1 wl1 where run: "validatePAT parse (watched_env env) (p_patIss p) (p_patAudience p) token (c, wl) = (r1, (c1, wl1))"
      by (metis surj_pair)
    have "cache_inv env jwksMinRefresh (c1, wl1)"
      using validatePAT_keeps [OF lib clock _ run] validate.IH c by (simp add: plugin_inv_def s)
    moreover have "s' = (p\<lparr>p_patKeys := Some c1\<rparr>, wl1)" using validate.hyps c run by (simp add: ValidateToken_def s)
    ultimately show ?thesis using validate.IH c by (auto simp: plugin_inv_def s)
  next
    case False
    then have "s' = s" using validate.hyps by (auto simp: ValidateToken_def s split: option.splits)
    with validate.IH show ?thesis by simp
  qed
qed

text \<open>
  C5. A token is accepted only when it is genuine. In every state the plugin reaches from its start, over any sequence of
  validations, a token for which ValidateToken answers Ok splits into header, claims and signature; the header names ES256 and
  a key id; the signature verifies under the key of that id in a key set that the issuer has returned to this plugin; issuer
  and audience are the configured ones, the audience of the identity provider when none is set for these tokens; the token
  expired less than a minute ago at most; and the answer carries the claims of exactly this token, with a client and a
  token id that are not empty. Without the configuration of personal access tokens nothing is accepted.
\<close>

theorem accepted_pat_is_genuine:
  assumes lib: "jwt_library parse verify date" and clock: "monotone_clock env" and new: "NewPlugin su cfg = Inr p0"
    and reach: "reach parse env p0 (p, (w, l))"
    and ok: "ValidateToken parse (watched_env env) token (p, (w, l)) = (Ok resp, (p', (w', l')))"
  shows "\<exists>header cl input sig kid ks k e.
    jwt_parts token = Some (header, cl, input, sig) \<and>
    map_of header ''alg'' = Some (JStr ''ES256'') \<and> string_claim header ''kid'' = kid \<and> kid \<noteq> [] \<and>
    served_keys l' ks \<and> map_of ks kid = Some k \<and> verify k input sig \<and>
    map_of cl ''iss'' = Some (JStr (ac_PatIss cfg)) \<and> ac_PatIss cfg \<noteq> [] \<and>
    (if ac_PatAudience cfg = [] then ac_Auth0Audience cfg else ac_PatAudience cfg) \<in> set (audiences cl) \<and>
    Option.bind (map_of cl ''exp'') date = Some e \<and> env_now env w' < e + seconds 60 \<and>
    tv_ClientId resp = string_claim cl ''sub'' \<and> tv_ClientId resp \<noteq> [] \<and>
    tv_Jti resp = string_claim cl ''jti'' \<and> tv_Jti resp \<noteq> [] \<and>
    tv_KmsTenant resp = string_claim cl ''kms_tenant''"
proof -
  note inv = reach_inv [OF lib clock new reach]
  obtain c c' where c: "p_patKeys p = Some c"
      and run: "validatePAT parse (watched_env env) (p_patIss p0) (p_patAudience p0) token (c, (w, l)) = (Ok resp, (c', (w', l')))"
    using ok inv by (auto simp: ValidateToken_def plugin_inv_def split: option.splits if_splits prod.splits)
  obtain header cl input sig k e where
      parts: "jwt_parts token = Some (header, cl, input, sig)" "map_of header ''alg'' = Some (JStr ''ES256'')"
      and kf: "keyfunc (watched_env env) header (c, (w, l)) = (Ok k, (c', (w', l')))" and verified: "verify k input sig"
      and claims: "map_of cl ''iss'' = Some (JStr (p_patIss p0))" "p_patAudience p0 \<in> set (audiences cl)"
        "Option.bind (map_of cl ''exp'') date = Some e" "env_now (watched_env env) (w', l') < e + seconds 60"
      and resp: "pat_response cl = Inr resp"
    by (rule jwt_library.validatePAT_accepted [OF lib run])
  have "cache_inv env jwksMinRefresh (c', (w', l'))"
    using keepsD [OF keyfunc_keeps [OF clock] _ kf] inv c by (simp add: plugin_inv_def)
  then obtain ks where ks: "served_keys l' ks" "map_of ks (string_claim header ''kid'') = Some k"
    using keyfunc_found [OF kf] by (auto simp: cache_inv_def lookup_def split: option.splits)
  have kid: "string_claim header ''kid'' \<noteq> []" using kf by (auto simp: keyfunc_def)
  have "p_patKeys p0 \<noteq> None" using inv c by (auto simp: plugin_inv_def)
  note fields = NewPlugin_fields(3) [OF new this]
  have answer: "tv_ClientId resp = string_claim cl ''sub''" "tv_ClientId resp \<noteq> []" "tv_Jti resp = string_claim cl ''jti''"
      "tv_Jti resp \<noteq> []" "tv_KmsTenant resp = string_claim cl ''kms_tenant''"
    using resp by (auto simp: pat_response_def Let_def split: if_splits)
  have now: "env_now env w' < e + seconds 60" using claims(4) by (simp add: watched_env_def)
  show ?thesis
    by (intro exI [of _ header] exI [of _ cl] exI [of _ input] exI [of _ sig] exI [of _ "string_claim header ''kid''"]
          exI [of _ ks] exI [of _ k] exI [of _ e] conjI parts verified ks kid answer now refl)
       (use claims fields in simp_all)
qed

text \<open>
  C36. Refetching is bounded. Whatever tokens arrive, two calls of the issuer of which the first was answered with a usable key
  set are at least ten seconds apart.
\<close>

theorem issuer_calls_spaced:
  assumes lib: "jwt_library parse verify date" and clock: "monotone_clock env" and new: "NewPlugin su cfg = Inr p0"
    and reach: "reach parse env p0 (p, (w, l))"
    and calls: "i < j" "j < length l" "l ! i = (t, Some js)" "parseJWKS js = Inr ks"
  shows "t + seconds 10 \<le> fst (l ! j)"
proof -
  have "spaced jwksMinRefresh l" using reach_inv [OF lib clock new reach]
    by (auto simp: plugin_inv_def cache_inv_def spaced_def split: option.splits)
  moreover have "usable (l ! i)" using calls by (simp add: usable_Some)
  ultimately have "fst (l ! i) + jwksMinRefresh \<le> fst (l ! j)"
    using calls(1,2) unfolding spaced_def sorted_wrt_iff_nth_less by blast
  then show ?thesis using calls by (simp add: jwksMinRefresh_def)
qed

lemma CutSuffix_Some: "CutSuffix s q = Some x \<longleftrightarrow> s = x @ q"
  by (auto simp: CutSuffix_def suffix_def)

lemma validateAuth0Token_Ok:
  "validateAuth0Token validator keyFunc token w = (Ok vc, w') \<longleftrightarrow>
   validator (wrapAuth0KeyFunc keyFunc) token w = (Ok (Some vc), w')"
proof -
  obtain r w1 where "validator (wrapAuth0KeyFunc keyFunc) token w = (r, w1)" by fastforce
  then show ?thesis by (cases r) (auto simp: validateAuth0Token_def andThen_def split: option.splits)
qed

lemma serviceClientIDSet_iff:
  "x \<in> set (serviceClientIDSet c) \<longleftrightarrow> x \<noteq> [] \<and> x \<in> TrimSpace ` set (SplitChar (CHR '','') (ac_ServiceClientIDs c))"
  by (auto simp: serviceClientIDSet_def)

lemma service_client_iff:
  "service_client p scopes vc = Inr clientID \<longleftrightarrow>
     0 < vc_Expiry vc \<and> vc_Subject vc = clientID @ ''@clients'' \<and> clientID \<noteq> [] \<and> clientID \<in> set (p_serviceClientIDs p) \<and>
     (\<exists>sc. vc_Custom vc = Some sc \<and> GrantType sc = ''client-credentials'' \<and> set scopes \<subseteq> set (Fields (Scope sc)))"
proof (cases "CutSuffix (vc_Subject vc) ''@clients''")
  case None
  then have "vc_Subject vc \<noteq> x @ ''@clients''" for x using CutSuffix_Some [of "vc_Subject vc" "''@clients''" x] by simp
  with None show ?thesis by (simp add: service_client_def)
next
  case (Some x)
  then have "vc_Subject vc = x @ ''@clients''" by (simp only: CutSuffix_Some)
  with Some show ?thesis
    by (cases "vc_Custom vc")
       (auto simp: service_client_def hasRequiredScopes_def hasClientCredentialsGrant_def list_all_iff subset_iff)
qed

text \<open>
  C12. A service token authorises exactly one named capability. ValidateServiceToken answers Ok with a client id if and only if
  the caller named at least one scope and the validator returned claims that have an expiry, whose subject is that client
  id, not empty, followed by @clients, with the client-credentials grant and each named scope among the granted ones, and
  the client id is one of the trimmed, non-empty entries of the configured list.
\<close>

theorem service_token_accepted_iff:
  assumes "NewPlugin su cfg = Inr p"
  shows "ValidateServiceToken validator keyFunc p token scopes w = (Ok clientID, w') \<longleftrightarrow>
      scopes \<noteq> [] \<and>
      (\<exists>vc sc. validator (wrapAuth0KeyFunc keyFunc) token w = (Ok (Some vc), w') \<and>
         0 < vc_Expiry vc \<and> vc_Subject vc = clientID @ ''@clients'' \<and> clientID \<noteq> [] \<and>
         clientID \<in> TrimSpace ` set (SplitChar (CHR '','') (ac_ServiceClientIDs cfg)) \<and>
         vc_Custom vc = Some sc \<and> GrantType sc = ''client-credentials'' \<and> set scopes \<subseteq> set (Fields (Scope sc)))"
  unfolding ValidateServiceToken_def act_Ok validateAuth0Token_Ok service_client_iff NewPlugin_fields(1) [OF assms]
    serviceClientIDSet_iff by blast

section \<open>A parser that keeps the contract, and examples\<close>

definition int_date :: "json \<Rightarrow> int option" where
  "int_date j =
     (case j of JNum lit \<Rightarrow> (case dec_int j 0 of (ok, i) \<Rightarrow> if ok \<and> i \<noteq> 0 then Some (unix_ns i) else None) | _ \<Rightarrow> None)"

definition claims_fit :: "parser_options \<Rightarrow> int \<Rightarrow> claims \<Rightarrow> jwt_error + unit" where
  "claims_fit opts now cl =
     (let e = Option.bind (map_of cl ''exp'') int_date in
      if e = None then Inl TokenInvalid
      else if the e + Leeway opts \<le> now then Inl TokenExpired
      else if map_of cl ''iss'' \<noteq> Some (JStr (Issuer opts)) \<or> Audience opts \<notin> set (audiences cl) \<or> map_of cl ''nbf'' \<noteq> None
      then Inl TokenInvalid else Inr ())"

definition reference_parse :: "(PublicKey \<Rightarrow> string \<Rightarrow> bytes \<Rightarrow> bool) \<Rightarrow> 'w jwt_parser" where
  "reference_parse verify token kf opts now = (\<lambda>s.
     case jwt_parts token of
       None \<Rightarrow> (Err TokenInvalid, s)
     | Some (header, cl, input, sig) \<Rightarrow>
         if map_of header ''alg'' \<noteq> Some (JStr ''ES256'') \<or> ''ES256'' \<notin> set (ValidMethods opts) then (Err TokenInvalid, s)
         else (case kf header s of
                 (Err e, s') \<Rightarrow> (Err (KeyfuncFailed e), s')
               | (Panics, s') \<Rightarrow> (Panics, s')
               | (Ok k, s') \<Rightarrow>
                   if \<not> verify k input sig then (Err TokenInvalid, s')
                   else (case claims_fit opts (now (snd s')) cl of
                           Inl e \<Rightarrow> (Err e, s')
                         | Inr _ \<Rightarrow> (Ok cl, s'))))"

lemma claims_fit_iff:
  "claims_fit opts now cl = Inr u \<longleftrightarrow>
     (\<exists>e. Option.bind (map_of cl ''exp'') int_date = Some e \<and> now < e + Leeway opts) \<and>
     map_of cl ''iss'' = Some (JStr (Issuer opts)) \<and> Audience opts \<in> set (audiences cl) \<and> map_of cl ''nbf'' = None"
  by (auto simp: claims_fit_def Let_def)

lemma int_date_Itoa:
  assumes "- (2 ^ 53) \<le> i" "i \<le> 2 ^ 53" "i \<noteq> 0"
  shows "int_date (JNum (Itoa i)) = Some (unix_ns i)"
proof -
  have "- (2 ^ 63) \<le> i" "i < 2 ^ 63" using assms by simp_all
  from dec_int_Itoa [OF this, of 0] assms(3) show ?thesis by (simp add: int_date_def)
qed

lemma reference_parse_effect:
  "reference_parse verify token kf opts now s = (r, s') \<Longrightarrow> s' = s \<or> (\<exists>header. s' = snd (kf header s))"
proof (cases "jwt_parts token")
  case (Some parts)
  obtain header cl input sig where parts: "parts = (header, cl, input, sig)" by (metis surj_pair)
  obtain r1 s1 where kf: "kf header s = (r1, s1)" by (metis surj_pair)
  assume "reference_parse verify token kf opts now s = (r, s')"
  then have "s' = s \<or> s' = s1" using Some kf
    by (auto simp: reference_parse_def parts split: if_splits res.splits sum.splits)
  then show ?thesis using kf by (metis snd_conv)
qed (simp add: reference_parse_def)

lemma reference_parse_Ok:
  "reference_parse verify token kf opts now s = (Ok cl, s') \<longleftrightarrow>
     (\<exists>header input sig k. jwt_parts token = Some (header, cl, input, sig) \<and>
        map_of header ''alg'' = Some (JStr ''ES256'') \<and> ''ES256'' \<in> set (ValidMethods opts) \<and>
        kf header s = (Ok k, s') \<and> verify k input sig \<and> claims_fit opts (now (snd s')) cl = Inr ())"
  unfolding reference_parse_def by (auto split: option.splits prod.splits if_splits res.splits sum.splits)

interpretation reference: jwt_library "reference_parse verify" verify int_date for verify
proof (unfold_locales, goal_cases)
  case (1 token kf opts now c w cl c' w')
  then show ?case unfolding reference_parse_Ok claims_fit_iff by auto
next
  case (2 token header cl input sig opts kf c w k c' w' e now)
  then show ?case unfolding reference_parse_Ok claims_fit_iff by simp
next
  case (3 token header cl input sig opts kf c w e' s' now)
  then show ?case by (simp add: reference_parse_def)
next
  case (4 token kf opts now s r s')
  then show ?case by (rule reference_parse_effect)
next
  case (5 i)
  then show ?case by (rule int_date_Itoa)
qed

lemma reference_library: "jwt_library (reference_parse verify) verify int_date"
  by (rule reference.jwt_library_axioms)

text \<open>Reading a printed key set.\<close>

lemma jwk_field_names:
  "jwk_field ''alg'' = dec_skip" "jwk_field ''use'' = dec_skip"
  "jwk_field ''kty'' = dec_field Kty Kty_update dec_string" "jwk_field ''crv'' = dec_field Crv Crv_update dec_string"
  "jwk_field ''kid'' = dec_field Kid Kid_update dec_string" "jwk_field ''x'' = dec_field jwk_X jwk_X_update dec_string"
  "jwk_field ''y'' = dec_field jwk_Y jwk_Y_update dec_string"
  by (simp_all add: jwk_field_def is_field_lower lower_char_def)

lemma jwk_decoded:
  "dec_struct jwk_field (JObj [(''alg'', JStr a), (''crv'', JStr c), (''kid'', JStr i), (''kty'', JStr t), (''use'', JStr u),
     (''x'', JStr x), (''y'', JStr y)]) empty_jwk = (True, \<lparr>Kty = t, Crv = c, Kid = i, jwk_X = x, jwk_Y = y\<rparr>)"
  by (simp add: dec_struct_def jwk_field_names empty_jwk_def dec_skip_def)

lemma dec_elems_list:
  "list_all2 (\<lambda>e k. d e zero = (True, k)) es ks \<Longrightarrow> dec_elems d zero es [] = (True, ks)"
  by (induction es ks rule: list_all2_induct) auto

lemma parseJWKS_printed:
  assumes "list_all (\<lambda>e. wf_json e \<and> json_depth e \<le> 9000) es"
    and "list_all2 (\<lambda>e k. dec_struct jwk_field e empty_jwk = (True, k)) es ks"
  shows "parseJWKS (json_print (JObj [(''keys'', JArr es)])) =
    rbind (collect_keys [] ks) (\<lambda>keys. if keys = [] then Inl NoUsableKeys else Inr keys)"
proof -
  let ?v = "JObj [(''keys'', JArr es)]"
  have "json_depth ?v \<le> max_depth" using assms(1)
    by (auto simp: max_depth_def list_all_iff)
  moreover have "valid_utf8 ''keys''" by (rule ascii_valid) simp
  then have "wf_json ?v" using assms(1) by (auto simp: list_all_iff simp del: valid_utf8.simps)
  ultimately have "json_parse (json_print ?v) = Some ?v" by (rule json_parse_print [rotated])
  then show ?thesis using dec_elems_list [where d = "dec_struct jwk_field" and zero = empty_jwk, OF assms(2)]
    by (simp add: parseJWKS_def json_unmarshal_def dec_struct_def jwks_field_def dec_slice_def)
qed

lemma jwk_key_Bytes:
  assumes "on_curve (pk_X pub) (pk_Y pub)" "kid \<noteq> []"
  shows "jwk_key \<lparr>Kty = ''EC'', Crv = ''P-256'', Kid = kid, jwk_X = rawurl_encode (put_be 32 (pk_X pub)),
    jwk_Y = rawurl_encode (put_be 32 (pk_Y pub))\<rparr> = Inr (Some pub)"
  using ParseUncompressedPublicKey_Bytes [OF assms(1)] assms(2) by (simp add: jwk_key_def key_Bytes_def)

definition read_key :: "string \<times> PublicKey \<Rightarrow> jwk" where
  "read_key = (\<lambda>(kid, pub).
     \<lparr>Kty = ''EC'', Crv = ''P-256'', Kid = kid, jwk_X = rawurl_encode (put_be 32 (pk_X pub)),
      jwk_Y = rawurl_encode (put_be 32 (pk_Y pub))\<rparr>)"

lemma printed_key_read: "dec_struct jwk_field (printed_key alg kp) empty_jwk = (True, read_key kp)"
  by (cases kp) (simp only: printed_key_def read_key_def prod.case jwk_decoded)

lemma collect_read_keys:
  "list_all printable_key kps \<Longrightarrow> distinct (map fst (keys @ kps)) \<Longrightarrow> collect_keys keys (map read_key kps) = Inr (keys @ kps)"
proof (induction kps arbitrary: keys)
  case (Cons kp kps)
  obtain kid pub where kp: "kp = (kid, pub)" by fastforce
  have "jwk_key (read_key kp) = Inr (Some pub)" "Kid (read_key kp) = kid"
    using Cons.prems jwk_key_Bytes [of pub kid] by (simp_all add: kp read_key_def printable_key_def)
  then show ?case using Cons.prems Cons.IH [of "keys @ [(kid, pub)]"] by (simp add: kp put_entry_new)
qed simp

lemma parse_printed_keys:
  assumes "kps \<noteq> []" "list_all printable_key kps" "distinct (map fst kps)" "valid_utf8 alg"
  shows "parseJWKS (json_print (JObj [(''keys'', JArr (map (printed_key alg) kps))])) = Inr kps"
proof -
  have "list_all (\<lambda>e. wf_json e \<and> json_depth e \<le> 9000) (map (printed_key alg) kps)"
    using assms(2,4) printed_key_ok by (auto simp: list_all_iff)
  moreover have "list_all2 (\<lambda>e k. dec_struct jwk_field e empty_jwk = (True, k)) (map (printed_key alg) kps) (map read_key kps)"
    by (simp add: list_all2_conv_all_nth printed_key_read)
  ultimately show ?thesis using assms collect_read_keys [of kps "[]"] by (simp add: parseJWKS_printed del: json_print.simps)
qed

definition example_jwks :: string where
  "example_jwks = json_print (JObj [(''keys'', JArr [printed_key ''ES256'' (''k'', example_key)])])"

lemma example_jwks_parsed: "parseJWKS example_jwks = Inr [(''k'', example_key)]"
  using parse_printed_keys [of "[(''k'', example_key)]" "''ES256''"] example_key_on_curve ascii_valid [of "''k''"]
  by (simp add: example_jwks_def printable_key_def key_texts_valid del: valid_utf8.simps)

lemma dec_struct_append: "dec_struct f (JObj xs) old = (True, x) \<Longrightarrow> dec_struct f (JObj (xs @ ys)) old = dec_struct f (JObj ys) x"
  by (simp add: dec_struct_def)

lemma dec_iss_members:
  assumes "\<forall>(k, v) \<in> set ms. list_all lower_char k" "distinct (map fst ms)" "map_of ms ''iss'' = Some (JStr iss)"
  shows "dec_iss (JObj ms) old = (True, iss)"
proof -
  have iss: "is_field ''iss'' k \<longleftrightarrow> k = ''iss''" if "list_all lower_char k" for k
    by (rule is_field_lower [OF _ that]) (simp add: lower_char_def)
  have other: "dec_iss (JObj zs) y = (True, y)"
    if "''iss'' \<notin> fst ` set zs" "\<forall>(k, v) \<in> set zs. list_all lower_char k" for zs y
    using that
  proof (induction zs)
    case (Cons kv zs)
    obtain k v where kv: "kv = (k, v)" by fastforce
    then have "\<not> is_field ''iss'' k" using Cons.prems iss [of k] by auto
    then show ?case using Cons by (simp add: kv dec_iss_def dec_struct_step dec_skip_def)
  qed (simp add: dec_iss_def)
  obtain xs ys where ms: "ms = xs @ (''iss'', JStr iss) # ys"
    using map_of_SomeD [OF assms(3)] by (meson split_list)
  have "''iss'' \<notin> fst ` set xs" "''iss'' \<notin> fst ` set ys" using assms(2) by (auto simp: ms)
  moreover have "\<forall>(k, v) \<in> set xs. list_all lower_char k" "\<forall>(k, v) \<in> set ys. list_all lower_char k"
    using assms(1) by (simp_all add: ms)
  ultimately have "dec_iss (JObj xs) old = (True, old)" "dec_iss (JObj ys) iss = (True, iss)" by (simp_all add: other)
  then show ?thesis unfolding dec_iss_def ms by (simp add: dec_struct_append dec_struct_step)
qed

lemma unverifiedIssuer_compact:
  assumes "flat_object cl" "map_of cl ''iss'' = Some (JStr iss)"
  shows "unverifiedIssuer (signing_input header cl @ CHR ''.'' # rawurl_encode sig) = iss"
proof -
  have "dec_iss (JObj cl) [] = (True, iss)"
    using assms by (intro dec_iss_members) (auto simp: flat_object_def)
  then show ?thesis using flat_object_parse [OF assms(1)]
    by (simp add: unverifiedIssuer_def signing_input_def SplitChar_three json_unmarshal_def del: json_print.simps)
qed

definition example_header :: claims where
  "example_header = [(''alg'', JStr ''ES256''), (''kid'', JStr ''k'')]"

definition example_claims :: claims where
  "example_claims = [(''aud'', JStr ''a''), (''exp'', JNum (Itoa 100)), (''iss'', JStr ''i''), (''jti'', JStr ''j''), (''sub'', JStr ''u'')]"

definition example_token :: string where
  "example_token = signing_input example_header example_claims @ CHR ''.'' # rawurl_encode ''s''"

definition example_verify :: "PublicKey \<Rightarrow> string \<Rightarrow> bytes \<Rightarrow> bool" where
  "example_verify k input sig \<longleftrightarrow> k = example_key \<and> sig = ''s''"

definition example_env :: "int env" where
  "example_env = \<lparr>env_now = (\<lambda>t. t), env_jwks = (\<lambda>t. (Some example_jwks, t))\<rparr>"

definition example_config :: authConfig where
  "example_config =
     \<lparr>ac_Auth0Domain = ''d'', ac_Auth0Audience = ''a'', ac_PatIss = ''i'', ac_PatAudience = [], ac_PatIssuerPlugin = ''p'',
      ac_ServiceClientIDs = ''c,,e''\<rparr>"

definition example_deps :: start_deps where
  "example_deps = \<lparr>su_url = (\<lambda>_. True), su_validator = (\<lambda>_ _. True), su_connects = (\<lambda>_. True)\<rparr>"

definition new_cache :: jwksCache where
  "new_cache = \<lparr>jc_keys = None, jc_fetchedAt = 0, jc_minRefresh = jwksMinRefresh\<rparr>"

definition example_cache :: "int \<Rightarrow> jwksCache" where
  "example_cache t = \<lparr>jc_keys = Some [(''k'', example_key)], jc_fetchedAt = t, jc_minRefresh = jwksMinRefresh\<rparr>"

definition example_plugin :: "jwksCache option \<Rightarrow> Plugin" where
  "example_plugin c = \<lparr>p_patIss = ''i'', p_patAudience = ''a'', p_patKeys = c, p_serviceClientIDs = [''c'', ''e'']\<rparr>"

lemma example_flat: "flat_object example_header" "flat_object example_claims"
proof -
  have "valid_utf8 ''k''" "valid_utf8 ''a''" "valid_utf8 ''i''" "valid_utf8 ''j''" "valid_utf8 ''u''" by (rule ascii_valid; simp)+
  then show "flat_object example_header" "flat_object example_claims"
    by (auto simp: flat_object_def example_header_def example_claims_def lower_char_def key_texts_valid simp del: valid_utf8.simps)
qed

lemma example_new: "NewPlugin example_deps example_config = Inr (example_plugin (Some new_cache))"
proof -
  have "TrimSpace ''c'' = ''c''" "TrimSpace ''e'' = ''e''" by (rule TrimSpace_graph; simp)+
  then show ?thesis
    by (simp add: NewPlugin_def example_config_def example_deps_def validatePat_def patEnabled_def newAuthPlugin_def
        newJWKSCache_def serviceClientIDSet_def example_plugin_def new_cache_def)
qed

lemma example_clock: "monotone_clock example_env"
  by (simp add: monotone_clock_def example_env_def)

lemma key_fetches:
  assumes "jc_keys c = None \<or> jwksCacheTTL < env_now env w - jc_fetchedAt c" "jc_minRefresh c \<le> jwksCacheTTL"
    and "env_jwks env w = (Some js, w')" "parseJWKS js = Inr ks" "map_of ks kid = Some k"
  shows "key env kid (c, w) = (Ok k, (c\<lparr>jc_keys := Some ks, jc_fetchedAt := env_now env w'\<rparr>, w'))"
proof -
  have "refresh env (c, w) = (Ok (), (c\<lparr>jc_keys := Some ks, jc_fetchedAt := env_now env w'\<rparr>, w'))"
    using assms by (auto simp: refresh_def)
  then show ?thesis using assms by (auto simp: key_def ensure_keys_def andThen_def lookup_def)
qed

lemma example_fetches:
  assumes "jc_keys c = None \<or> jwksCacheTTL < t - jc_fetchedAt c" "jc_minRefresh c = jwksMinRefresh"
  shows "keyfunc (watched_env example_env) example_header (c, (t, l)) =
    (Ok example_key, (example_cache t, (t, l @ [(t, Some example_jwks)])))"
proof -
  have "key (watched_env example_env) ''k'' (c, (t, l)) =
      (Ok example_key, (c\<lparr>jc_keys := Some [(''k'', example_key)], jc_fetchedAt := t\<rparr>, (t, l @ [(t, Some example_jwks)])))"
    using key_fetches [of c "watched_env example_env" "(t, l)", OF _ _ _ example_jwks_parsed] assms
    by (simp add: watched_env_def example_env_def jwksMinRefresh_def jwksCacheTTL_def seconds_def)
  then show ?thesis using assms by (simp add: keyfunc_def string_claim_def example_header_def example_cache_def)
qed

lemma example_validation:
  assumes "jc_keys c = None \<or> jwksCacheTTL < t - jc_fetchedAt c" "jc_minRefresh c = jwksMinRefresh"
  shows "ValidateToken (reference_parse example_verify) (watched_env example_env) example_token
     (example_plugin (Some c), (t, l)) =
   (if unix_ns 160 \<le> t then Err (Unauthenticated, PatExpired) else Ok \<lparr>tv_ClientId = ''u'', tv_Jti = ''j'', tv_KmsTenant = []\<rparr>,
    (example_plugin (Some (example_cache t)), (t, l @ [(t, Some example_jwks)])))"
proof -
  have date: "int_date (JNum (Itoa 100)) = Some (unix_ns 100)" by (rule int_date_Itoa) simp_all
  have issuer: "unverifiedIssuer example_token = ''i''"
    unfolding example_token_def by (rule unverifiedIssuer_compact [OF example_flat(2)]) (simp add: example_claims_def)
  have alg: "map_of example_header ''alg'' = Some (JStr ''ES256'')" by (simp add: example_header_def)
  have fit: "claims_fit (pat_options ''i'' ''a'') t example_claims = (if unix_ns 160 \<le> t then Inl TokenExpired else Inr ())"
    by (simp add: claims_fit_def pat_options_def example_claims_def date audiences_def seconds_def unix_ns_def)
  have resp: "pat_response example_claims = Inr \<lparr>tv_ClientId = ''u'', tv_Jti = ''j'', tv_KmsTenant = []\<rparr>"
    by (simp add: pat_response_def string_claim_def example_claims_def)
  note parts = jwt_parts_compact [OF example_flat, of "''s''", folded example_token_def]
  have "reference_parse example_verify example_token (keyfunc (watched_env example_env)) (pat_options ''i'' ''a'')
      (env_now (watched_env example_env)) (c, (t, l)) =
    (if unix_ns 160 \<le> t then Err TokenExpired else Ok example_claims, (example_cache t, (t, l @ [(t, Some example_jwks)])))"
    using example_fetches [OF assms] fit
    by (simp add: reference_parse_def parts alg example_verify_def) (simp add: pat_options_def watched_env_def example_env_def)
  then show ?thesis
    by (simp add: ValidateToken_def example_plugin_def issuer validatePAT_def andThen_def wrapErr_def attempt_def resp pat_status_def)
qed

lemma example_accepted:
  "ValidateToken (reference_parse example_verify) (watched_env example_env) example_token (example_plugin (Some new_cache), (7, [])) =
   (Ok \<lparr>tv_ClientId = ''u'', tv_Jti = ''j'', tv_KmsTenant = []\<rparr>,
    (example_plugin (Some (example_cache 7)), (7, [(7, Some example_jwks)])))"
  using example_validation [of new_cache 7 "[]"] by (simp add: new_cache_def unix_ns_def)

theorem accepted_pat_is_genuine_witness:
  "\<exists>header cl input sig kid ks k e.
    jwt_parts example_token = Some (header, cl, input, sig) \<and>
    map_of header ''alg'' = Some (JStr ''ES256'') \<and> string_claim header ''kid'' = kid \<and> kid \<noteq> [] \<and>
    served_keys [(7, Some example_jwks)] ks \<and> map_of ks kid = Some k \<and> example_verify k input sig \<and>
    map_of cl ''iss'' = Some (JStr ''i'') \<and> ''i'' \<noteq> [] \<and> ''a'' \<in> set (audiences cl) \<and>
    Option.bind (map_of cl ''exp'') int_date = Some e \<and> 7 < e + seconds 60 \<and>
    ''u'' = string_claim cl ''sub'' \<and> ''u'' \<noteq> [] \<and> ''j'' = string_claim cl ''jti'' \<and> ''j'' \<noteq> [] \<and>
    [] = string_claim cl ''kms_tenant''"
  using accepted_pat_is_genuine [OF reference_library example_clock example_new reach.start example_accepted]
  by (simp add: example_config_def example_env_def)

theorem issuer_calls_spaced_witness:
  "7 + seconds 10 \<le> fst ([(7, Some example_jwks), (seconds 400, Some example_jwks)] ! 1)"
proof -
  have "reach (reference_parse example_verify) example_env (example_plugin (Some new_cache))
      (example_plugin (Some (example_cache 7)), (seconds 400, [(7, Some example_jwks)]))"
    by (rule reach.elapse [OF reach.validate [OF reach.start example_accepted]]) (simp add: example_env_def seconds_def)
  from reach.validate [OF this example_validation]
  have "reach (reference_parse example_verify) example_env (example_plugin (Some new_cache))
      (example_plugin (Some (example_cache (seconds 400))), (seconds 400, [(7, Some example_jwks), (seconds 400, Some example_jwks)]))"
    by (simp add: example_cache_def jwksCacheTTL_def seconds_def)
  from issuer_calls_spaced [OF reference_library example_clock example_new this, of 0 1, OF _ _ _ example_jwks_parsed]
  show ?thesis by simp
qed

lemma fields_from_steps:
  "fields_from word [] = (if word = [] then [] else [word])"
  "lead_len go_spaces (c # s) = 0 \<Longrightarrow> fields_from word (c # s) = fields_from (word @ [c]) s"
  "lead_len go_spaces (c # s) = Suc n \<Longrightarrow> fields_from word (c # s) = (if word = [] then [] else [word]) @ fields_from [] (drop n s)"
  by (subst fields_from.simps; simp)+

lemma example_Fields: "Fields ''r w'' = [''r'', ''w'']"
proof -
  have graph: "lead_len go_spaces (c # s) = 0" if "33 \<le> (of_char c :: nat)" "(of_char c :: nat) < 128" for c s
  proof -
    have "\<not> prefix w (c # s)" if "w \<in> set go_spaces" for w
      using go_spaces_bytes [OF that, of c] go_spaces_nonempty(1) that \<open>33 \<le> of_char c\<close> \<open>of_char c < 128\<close>
      by (cases w) auto
    then show ?thesis by (simp add: lead_len_0_iff go_spaces_nonempty)
  qed
  have "lead_len go_spaces '' w'' = Suc 0" by code_simp
  then show ?thesis by (simp add: Fields_def fields_from_steps graph)
qed

theorem service_token_accepted_iff_witness:
  "ValidateServiceToken (\<lambda>_ _. ret (Some \<lparr>vc_Subject = ''c@clients'', vc_Expiry = 9,
       vc_Custom = Some \<lparr>Scope = ''r w'', GrantType = ''client-credentials''\<rparr>\<rparr>)) (fail ())
     (example_plugin (Some new_cache)) ''t'' [''w''] () = (Ok ''c'', ())"
proof -
  have "TrimSpace ''c'' = ''c''" by (rule TrimSpace_graph) simp
  then show ?thesis
    unfolding service_token_accepted_iff [OF example_new] by (simp add: example_config_def example_Fields)
qed

end
