(* ===== verification/PatIssuer.thy ===== *)
theory PatIssuer
  imports Traces Jose "HOL-Library.Multiset"
begin

text \<open>
  The issuer of personal access tokens: the checks of its configuration (\<^verbatim>\<open>patissuer/config.go\<close>), the two signers
  (\<^verbatim>\<open>patissuer/signer.go\<close>, \<^verbatim>\<open>patissuer/transit.go\<close>) and the handlers (\<^verbatim>\<open>patissuer/plugin.go\<close>).

  The OpenBao server is a parameter as in the other plugins. PEM and X.509 decoding, the generation of keys and the JWT
  library's signing with a key in memory are parameters too, fields of the record \<open>crypto\<close>. The order in which Go visits
  a map is a parameter. Times are nanoseconds.
\<close>

section \<open>Configuration\<close>

record patissuerConfig =
  pi_Issuer :: string
  pi_Audience :: string
  pi_Signer :: string
  pi_LocalKeyPEM :: string
  pi_MaxTTLDays :: int
  pi_OpenBaoProxyURL :: string
  pi_TransitMount :: string
  pi_TransitKey :: string
  pi_TimeoutSecs :: int

datatype issuer_config_error =
    MissingVars "string list" | UnknownSigner string | ProxyRequired | TransitNames | TimeoutNotPositive | TTLNotPositive

definition issuer_validate :: "patissuerConfig \<Rightarrow> issuer_config_error + unit" where
  "issuer_validate c =
     (let missing = (if pi_Issuer c = [] then [''ORBITPORT_PATISSUER_ISS''] else [])
        @ (if pi_Audience c = [] then [''ORBITPORT_PATISSUER_AUD''] else [])
      in if missing \<noteq> [] then Inl (MissingVars missing)
         else if pi_Signer c \<noteq> ''local'' \<and> pi_Signer c \<noteq> ''transit'' then Inl (UnknownSigner (pi_Signer c))
         else if pi_Signer c = ''transit'' \<and> pi_OpenBaoProxyURL c = [] then Inl ProxyRequired
         else if pi_Signer c = ''transit'' \<and> (pi_TransitMount c = [] \<or> pi_TransitKey c = []) then Inl TransitNames
         else if pi_Signer c = ''transit'' \<and> pi_TimeoutSecs c \<le> 0 then Inl TimeoutNotPositive
         else if pi_MaxTTLDays c \<le> 0 then Inl TTLNotPositive
         else Inr ())"

section \<open>Keys\<close>

text \<open>A private key: its curve, its secret and the public key. A parsed public key may be of another kind.\<close>

record PrivateKey =
  sk_Curve :: string
  sk_D :: nat
  sk_PublicKey :: PublicKey

datatype any_public = EcPublic string PublicKey | OtherPublic

datatype any_private = EcPrivate PrivateKey | OtherPrivate

text \<open>
  \<^verbatim>\<open>pem.Decode\<close>, \<^verbatim>\<open>x509.ParsePKIXPublicKey\<close>, \<^verbatim>\<open>x509.ParseECPrivateKey\<close>, \<^verbatim>\<open>x509.ParsePKCS8PrivateKey\<close>,
  \<^verbatim>\<open>x509.MarshalPKIXPublicKey\<close>, \<^verbatim>\<open>ecdsa.GenerateKey\<close>, and \<^verbatim>\<open>SignedString\<close> of a token with a header
  and claims.
\<close>

record crypto =
  cr_pem :: "string \<Rightarrow> bytes option"
  cr_pkix :: "bytes \<Rightarrow> any_public option"
  cr_sec1 :: "bytes \<Rightarrow> PrivateKey option"
  cr_pkcs8 :: "bytes \<Rightarrow> any_private option"
  cr_marshal :: "PublicKey \<Rightarrow> bytes option"
  cr_generate :: "PrivateKey option"
  cr_sign :: "claims \<Rightarrow> claims \<Rightarrow> PrivateKey \<Rightarrow> string option"

datatype do_error = DoTransport | DoRead | DoStatus int string | DoDecode

datatype pem_error = NoPEMBlock | ParsingKey | NotEC | NotP256 string

datatype signer_error =
    GeneratingKey | ParsingLocalKey pem_error | MarshalingKey | UnsupportedCurve string | SigningKey
  | RequestURL | KeyRead do_error | ParsingVersions | NoPublicKeys | UnsupportedType string | KeyVersion int pem_error
  | SignFailed do_error | Envelope | NotBase64 | SignatureBase64 | SignatureLength nat

record 'w signer =
  Mint :: "claims \<Rightarrow> ('w, signer_error, string) act"
  JWKS :: "('w, signer_error, string) act"

section \<open>The local signer\<close>

record localSigner =
  ls_key :: PrivateKey
  ls_kid :: string

definition parseECPrivateKeyPEM :: "crypto \<Rightarrow> string \<Rightarrow> pem_error + PrivateKey" where
  "parseECPrivateKeyPEM cr data =
     (case cr_pem cr data of
        None \<Rightarrow> Inl NoPEMBlock
      | Some block \<Rightarrow>
          (case cr_sec1 cr block of
             Some key \<Rightarrow> Inr key
           | None \<Rightarrow>
               (case cr_pkcs8 cr block of
                  None \<Rightarrow> Inl ParsingKey
                | Some OtherPrivate \<Rightarrow> Inl NotEC
                | Some (EcPrivate key) \<Rightarrow> if sk_Curve key \<noteq> ''P-256'' then Inl (NotP256 (sk_Curve key)) else Inr key)))"

definition keyID :: "crypto \<Rightarrow> PublicKey \<Rightarrow> signer_error + string" where
  "keyID cr pub =
     (case cr_marshal cr pub of None \<Rightarrow> Inl MarshalingKey | Some der \<Rightarrow> Inr (hex_encode (take 8 (sha256 der))))"

definition newLocalSigner :: "crypto \<Rightarrow> string \<Rightarrow> signer_error + (localSigner \<times> bool)" where
  "newLocalSigner cr keyPEM =
     rbind (if keyPEM = [] then (case cr_generate cr of None \<Rightarrow> Inl GeneratingKey | Some k \<Rightarrow> Inr (k, True))
            else (case parseECPrivateKeyPEM cr keyPEM of Inl e \<Rightarrow> Inl (ParsingLocalKey e) | Inr k \<Rightarrow> Inr (k, False)))
       (\<lambda>(key, generated). rbind (keyID cr (sk_PublicKey key)) (\<lambda>kid. Inr (\<lparr>ls_key = key, ls_kid = kid\<rparr>, generated)))"

text \<open>\<^verbatim>\<open>jwt.NewWithClaims\<close> makes the header with the type and the algorithm; the key id is added.\<close>

definition jws_header :: "string \<Rightarrow> claims" where
  "jws_header kid = [(''alg'', JStr ''ES256''), (''kid'', JStr kid), (''typ'', JStr ''JWT'')]"

definition local_Mint :: "crypto \<Rightarrow> localSigner \<Rightarrow> claims \<Rightarrow> ('w, signer_error, string) act" where
  "local_Mint cr s cl =
     (case cr_sign cr (jws_header (ls_kid s)) cl (ls_key s) of None \<Rightarrow> fail SigningKey | Some token \<Rightarrow> ret token)"

text \<open>An entry of the key set; a map is marshalled with its keys in order.\<close>

definition key_entry :: "string \<Rightarrow> string \<Rightarrow> PublicKey \<Rightarrow> json" where
  "key_entry alg kid pub =
     (let b = key_Bytes pub; x = take 32 (drop 1 b); y = drop 33 b in
      JObj [(''alg'', JStr alg), (''crv'', JStr ''P-256''), (''kid'', JStr kid), (''kty'', JStr ''EC''), (''use'', JStr ''sig''),
        (''x'', JStr (rawurl_encode x)), (''y'', JStr (rawurl_encode y))])"

definition key_set_json :: "json list \<Rightarrow> string" where
  "key_set_json keys = json_print (JObj [(''keys'', JArr keys)])"

definition local_JWKS :: "localSigner \<Rightarrow> ('w, signer_error, string) act" where
  "local_JWKS s =
     (if sk_Curve (ls_key s) \<noteq> ''P-256'' then fail (UnsupportedCurve (sk_Curve (ls_key s)))
      else ret (key_set_json [key_entry ''ES256'' (ls_kid s) (sk_PublicKey (ls_key s))]))"

section \<open>The transit signer\<close>

record transitSigner =
  ts_baseURL :: string
  ts_mount :: string
  ts_keyName :: string

definition newTransitSigner :: "patissuerConfig \<Rightarrow> transitSigner" where
  "newTransitSigner cfg =
     \<lparr>ts_baseURL = TrimRightChar (CHR ''/'') (pi_OpenBaoProxyURL cfg), ts_mount = pi_TransitMount cfg,
      ts_keyName = pi_TransitKey cfg\<rparr>"

text \<open>\<^verbatim>\<open>strconv.Atoi\<close> on 64-bit integers.\<close>

definition Atoi :: "string \<Rightarrow> int option" where
  "Atoi s =
     (let neg = starts (CHR ''-'') s; digits = (if neg \<or> starts (CHR ''+'') s then tl s else s) in
      case parse_nat digits of
        None \<Rightarrow> None
      | Some n \<Rightarrow>
          if neg then (if n \<le> 2 ^ 63 then Some (- int n) else None)
          else (if n < 2 ^ 63 then Some (int n) else None))"

definition truncate_to :: "nat \<Rightarrow> string \<Rightarrow> string" where
  "truncate_to n s = (if length s \<le> n then s else take n s)"

text \<open>A request of the signer: at most a megabyte of the answer is read.\<close>

definition transit_do :: "'w server \<Rightarrow> http_request \<Rightarrow> 'a decoder \<Rightarrow> 'a \<Rightarrow> ('w, do_error, 'a) act" where
  "transit_do srv req d out w =
     (case srv w req of
        (TransportFailed, w') \<Rightarrow> (Err DoTransport, w')
      | (ReadFailed, w') \<Rightarrow> (Err DoRead, w')
      | (Response code status full, w') \<Rightarrow>
          let body = take (2 ^ 20) full in
          if code < 200 \<or> 300 \<le> code then (Err (DoStatus code (truncate_to 200 body)), w')
          else (case json_unmarshal d out body of None \<Rightarrow> (Err DoDecode, w') | Some x \<Rightarrow> (Ok x, w')))"

definition jwsAlg :: "string \<Rightarrow> signer_error + string" where
  "jwsAlg keyType = (if keyType = ''ecdsa-p256'' then Inr ''ES256'' else Inl (UnsupportedType keyType))"

text \<open>\<^verbatim>\<open>strings.SplitN\<close> for a single byte and a positive count.\<close>

fun SplitN :: "char \<Rightarrow> nat \<Rightarrow> string \<Rightarrow> string list" where
  "SplitN c 0 s = []"
| "SplitN c (Suc 0) s = [s]"
| "SplitN c (Suc (Suc n)) s =
     (if c \<in> set s then takeWhile (\<lambda>x. x \<noteq> c) s # SplitN c (Suc n) (tl (dropWhile (\<lambda>x. x \<noteq> c) s)) else [s])"

text \<open>The four encodings that are tried, in their order: URL or standard alphabet, with or without padding.\<close>

fun first_decoding :: "(bool \<times> bool) list \<Rightarrow> string \<Rightarrow> bytes option" where
  "first_decoding [] raw = None"
| "first_decoding ((url, pad) # es) raw =
     (case b64_decode url pad raw of Some bs \<Rightarrow> Some bs | None \<Rightarrow> first_decoding es raw)"

definition stripVaultEnvelope :: "string \<Rightarrow> signer_error + string" where
  "stripVaultEnvelope signature =
     (case SplitN (CHR '':'') 3 signature of
        [p, _, raw] \<Rightarrow>
          if p \<noteq> ''vault'' then Inl Envelope
          else (case first_decoding [(True, False), (True, True), (False, False), (False, True)] raw of
                  None \<Rightarrow> Inl NotBase64
                | Some bs \<Rightarrow> Inr (rawurl_encode bs))
      | _ \<Rightarrow> Inl Envelope)"

definition parseECPublicKeyPEM :: "crypto \<Rightarrow> string \<Rightarrow> pem_error + PublicKey" where
  "parseECPublicKeyPEM cr data =
     (case cr_pem cr data of
        None \<Rightarrow> Inl NoPEMBlock
      | Some block \<Rightarrow>
          (case cr_pkix cr block of
             None \<Rightarrow> Inl ParsingKey
           | Some OtherPublic \<Rightarrow> Inl NotEC
           | Some (EcPublic curve pub) \<Rightarrow> if curve \<noteq> ''P-256'' then Inl (NotP256 curve) else Inr pub))"

subsection \<open>Reading the key\<close>

record key_reply =
  kr_Type :: string
  kr_LatestVersion :: int
  kr_Keys :: "json option"

text \<open>A \<^verbatim>\<open>json.RawMessage\<close> keeps the value as it is.\<close>

definition dec_raw :: "json option decoder" where
  "dec_raw j old = (True, Some j)"

definition key_reply_field :: "string \<Rightarrow> key_reply decoder" where
  "key_reply_field k =
     (if is_field ''type'' k then dec_field kr_Type kr_Type_update dec_string
      else if is_field ''latest_version'' k then dec_field kr_LatestVersion kr_LatestVersion_update dec_int
      else if is_field ''keys'' k then dec_field kr_Keys kr_Keys_update dec_raw
      else dec_skip)"

definition dec_public_key :: "string decoder" where
  "dec_public_key = dec_struct (\<lambda>k. if is_field ''public_key'' k then dec_string else dec_skip)"

text \<open>A map: every value is decoded into a new element.\<close>

definition dec_map :: "'a decoder \<Rightarrow> 'a \<Rightarrow> (string \<times> 'a) list decoder" where
  "dec_map d zero j old =
     (case j of
        JObj ms \<Rightarrow> foldl (\<lambda>(ok, m) (k, v). let (ok', x) = d v zero in (ok \<and> ok', put_entry k x m)) (True, old) ms
      | JNull \<Rightarrow> (True, [])
      | _ \<Rightarrow> (False, old))"

type_synonym visit_order = "(string \<times> string) list \<Rightarrow> (string \<times> string) list"

text \<open>The versions with their keys, in the order in which the map is visited; a later one replaces an earlier one.\<close>

fun collect_versions :: "(string \<times> string) list \<Rightarrow> (int \<times> string) list" where
  "collect_versions [] = []"
| "collect_versions ((vs, pem) # m) =
     (case Atoi vs of
        None \<Rightarrow> collect_versions m
      | Some v \<Rightarrow>
          let rest = collect_versions m in
          if pem = [] \<or> v \<in> fst ` set rest then rest else (v, pem) # rest)"

record keyInfo =
  ki_Type :: string
  ki_LatestVersion :: int
  ki_PublicKeys :: "(int \<times> string) list"

definition key_url :: "transitSigner \<Rightarrow> string" where
  "key_url s = ts_baseURL s @ ''/v1/'' @ ts_mount s @ ''/keys/'' @ ts_keyName s"

definition sign_url :: "transitSigner \<Rightarrow> string" where
  "sign_url s = ts_baseURL s @ ''/v1/'' @ ts_mount s @ ''/sign/'' @ ts_keyName s @ ''/sha2-256''"

definition key_info :: "visit_order \<Rightarrow> key_reply \<Rightarrow> signer_error + keyInfo" where
  "key_info visit resp =
     (case kr_Keys resp of
        None \<Rightarrow> Inl ParsingVersions
      | Some j \<Rightarrow>
          let (ok, rawKeys) = dec_map dec_public_key [] j [] in
          if \<not> ok then Inl ParsingVersions
          else let pubKeys = collect_versions (visit rawKeys) in
            if pubKeys = [] then Inl NoPublicKeys
            else Inr \<lparr>ki_Type = kr_Type resp, ki_LatestVersion = kr_LatestVersion resp, ki_PublicKeys = pubKeys\<rparr>)"

definition readKey :: "(string \<Rightarrow> bool) \<Rightarrow> visit_order \<Rightarrow> 'w server \<Rightarrow> transitSigner \<Rightarrow> ('w, signer_error, keyInfo) act" where
  "readKey url_ok visit srv s =
     andThen (require (url_ok (key_url s)) RequestURL) (\<lambda>_.
     andThen (wrapErr KeyRead (transit_do srv \<lparr>req_method = GET, req_path = key_url s, req_body = []\<rparr>
                (dec_data (dec_struct key_reply_field)) \<lparr>kr_Type = [], kr_LatestVersion = 0, kr_Keys = None\<rparr>)) (\<lambda>resp.
       check (key_info visit resp)))"

subsection \<open>Signing and the key set\<close>

definition transit_header :: "string \<Rightarrow> string \<Rightarrow> json" where
  "transit_header alg kid = JObj [(''alg'', JStr alg), (''typ'', JStr ''JWT''), (''kid'', JStr kid)]"

definition transitSignRequest :: "string \<Rightarrow> int \<Rightarrow> json" where
  "transitSignRequest input version =
     JObj [(''input'', JStr (std_encode input)), (''prehashed'', JBool False), (''marshaling_algorithm'', JStr ''jws''),
       (''key_version'', JNum (Itoa version))]"

definition dec_signature :: "string decoder" where
  "dec_signature = dec_data (dec_struct (\<lambda>k. if is_field ''signature'' k then dec_string else dec_skip))"

definition checked_signature :: "string \<Rightarrow> signer_error + string" where
  "checked_signature signature =
     rbind (stripVaultEnvelope signature) (\<lambda>sig.
       case rawurl_decode sig of
         None \<Rightarrow> Inl SignatureBase64
       | Some sigBytes \<Rightarrow> if length sigBytes \<noteq> 64 then Inl (SignatureLength (length sigBytes)) else Inr sig)"

definition transit_Mint ::
  "(string \<Rightarrow> bool) \<Rightarrow> visit_order \<Rightarrow> 'w server \<Rightarrow> transitSigner \<Rightarrow> claims \<Rightarrow> ('w, signer_error, string) act" where
  "transit_Mint url_ok visit srv s cl =
     andThen (readKey url_ok visit srv s) (\<lambda>info.
     andThen (check (jwsAlg (ki_Type info))) (\<lambda>alg.
       let signingString = rawurl_encode (json_print (transit_header alg (Itoa (ki_LatestVersion info)))) @ ''.''
             @ rawurl_encode (json_print (JObj cl));
           body = json_print (transitSignRequest signingString (ki_LatestVersion info))
       in andThen (require (url_ok (sign_url s)) RequestURL) (\<lambda>_.
          andThen (wrapErr SignFailed
                     (transit_do srv \<lparr>req_method = POST, req_path = sign_url s, req_body = body\<rparr> dec_signature [])) (\<lambda>signature.
          andThen (check (checked_signature signature)) (\<lambda>sig.
            ret (signingString @ ''.'' @ sig))))))"

fun version_entries :: "crypto \<Rightarrow> string \<Rightarrow> (int \<times> string) list \<Rightarrow> signer_error + json list" where
  "version_entries cr alg [] = Inr []"
| "version_entries cr alg ((v, pem) # vs) =
     (case parseECPublicKeyPEM cr pem of
        Inl e \<Rightarrow> Inl (KeyVersion v e)
      | Inr pub \<Rightarrow> rbind (version_entries cr alg vs) (\<lambda>es. Inr (key_entry alg (Itoa v) pub # es)))"

definition transit_JWKS ::
  "crypto \<Rightarrow> (string \<Rightarrow> bool) \<Rightarrow> visit_order \<Rightarrow> 'w server \<Rightarrow> transitSigner \<Rightarrow> ('w, signer_error, string) act" where
  "transit_JWKS cr url_ok visit srv s =
     andThen (readKey url_ok visit srv s) (\<lambda>info.
     andThen (check (jwsAlg (ki_Type info))) (\<lambda>alg.
     andThen (check (version_entries cr alg (sort_key fst (ki_PublicKeys info)))) (\<lambda>keys.
       ret (key_set_json keys))))"

section \<open>The plugin\<close>

record 'w Plugin =
  ip_cfg :: patissuerConfig
  ip_signer :: "'w signer"

datatype issuer_error = IssuerConfig issuer_config_error | SignerSetup signer_error

definition NewPlugin ::
  "crypto \<Rightarrow> (string \<Rightarrow> bool) \<Rightarrow> visit_order \<Rightarrow> 'w server \<Rightarrow> patissuerConfig \<Rightarrow> issuer_error + 'w Plugin" where
  "NewPlugin cr url_ok visit srv cfg =
     rbind (rmap_err IssuerConfig (issuer_validate cfg)) (\<lambda>_.
       if pi_Signer cfg = ''transit'' then
         (let s = newTransitSigner cfg in
          Inr \<lparr>ip_cfg = cfg, ip_signer = \<lparr>Mint = transit_Mint url_ok visit srv s, JWKS = transit_JWKS cr url_ok visit srv s\<rparr>\<rparr>)
       else rbind (rmap_err SignerSetup (newLocalSigner cr (pi_LocalKeyPEM cfg))) (\<lambda>(s, _).
         Inr \<lparr>ip_cfg = cfg, ip_signer = \<lparr>Mint = local_Mint cr s, JWKS = local_JWKS s\<rparr>\<rparr>))"

text \<open>
  \<^verbatim>\<open>time.Unix(sec, 0)\<close> counts seconds from the year 1 in a signed 64-bit integer, which wraps around.
\<close>

definition unix_time :: "int \<Rightarrow> int" where
  "unix_time sec = (sec + 62135596800 + 2 ^ 63) mod 2 ^ 64 - 2 ^ 63 - 62135596800"

text \<open>
  \<^verbatim>\<open>AddDate(0, 0, days)\<close>: the same wall-clock time that many days later. \<open>zone\<close> is the offset from UTC of the process's
  location at a Unix time; Go looks the offset up at the wall-clock time, and once more when that offset is not in force there.
\<close>

definition AddDate :: "(int \<Rightarrow> int) \<Rightarrow> int \<Rightarrow> int \<Rightarrow> int" where
  "AddDate zone now days =
     (let sec = now div 1000000000;
          wall = sec + zone sec + days * 86400;
          offset = zone wall;
          offset' = (if offset \<noteq> 0 then zone (wall - offset) else 0)
      in unix_ns (wall - offset') + now mod 1000000000)"

record IssueTokenRequest =
  it_Jti :: string
  it_Subject :: string
  it_ExpiresAt :: int
  it_KmsTenant :: string

datatype issue_error = JtiRequired | SubjectRequired | ExpiryPast | ExpiryCeiling int | SigningFailed | BuildingJWKS

text \<open>The claims, in the order in which a map is marshalled.\<close>

definition pat_claims :: "patissuerConfig \<Rightarrow> IssueTokenRequest \<Rightarrow> int \<Rightarrow> claims" where
  "pat_claims cfg req now =
     [(''aud'', JStr (pi_Audience cfg)), (''exp'', JNum (Itoa (unix_time (it_ExpiresAt req)))),
      (''iat'', JNum (Itoa (now div 1000000000))), (''iss'', JStr (pi_Issuer cfg)), (''jti'', JStr (it_Jti req))]
     @ omitempty ''kms_tenant'' (it_KmsTenant req) @ [(''sub'', JStr (it_Subject req))]"

definition IssueToken ::
  "('w \<Rightarrow> int) \<Rightarrow> (int \<Rightarrow> int) \<Rightarrow> 'w Plugin \<Rightarrow> IssueTokenRequest \<Rightarrow> ('w, grpc_code \<times> issue_error, string) act" where
  "IssueToken clock zone p req w =
     (let now = clock w; exp = unix_ns (unix_time (it_ExpiresAt req)) in
      (andThen (require (it_Jti req \<noteq> []) (InvalidArgument, JtiRequired)) (\<lambda>_.
       andThen (require (it_Subject req \<noteq> []) (InvalidArgument, SubjectRequired)) (\<lambda>_.
       andThen (require (now < exp) (InvalidArgument, ExpiryPast)) (\<lambda>_.
       andThen (require (exp \<le> AddDate zone now (pi_MaxTTLDays (ip_cfg p)))
                  (InvalidArgument, ExpiryCeiling (pi_MaxTTLDays (ip_cfg p)))) (\<lambda>_.
         wrapErr (\<lambda>_. (Internal, SigningFailed)) (Mint (ip_signer p) (pat_claims (ip_cfg p) req now))))))) w)"

definition GetJwks :: "'w Plugin \<Rightarrow> ('w, grpc_code \<times> issue_error, string) act" where
  "GetJwks p = wrapErr (\<lambda>_. (Internal, BuildingJWKS)) (JWKS (ip_signer p))"

section \<open>The signature envelope\<close>

lemma b64_value_agree: "b64_value u c = Some a \<Longrightarrow> b64_value u' c = Some b \<Longrightarrow> a = b"
  by (auto simp: b64_value_def Let_def split: if_splits)

text \<open>A text that two of the encodings accept means the same in both.\<close>

lemma b64_quanta_agree: "b64_quanta u p s = Some x \<Longrightarrow> b64_quanta u' p' s = Some y \<Longrightarrow> x = y"
proof (induction "length s" arbitrary: s x y rule: less_induct)
  case less
  note agree = b64_value_agree [where u = u and u' = u']
  show ?case
  proof (cases "(u, p, s)" rule: b64_quanta.cases)
    case (5 _ _ a b c d cs)
    then have s: "s = a # b # c # d # cs" by simp
    show ?thesis
    proof (cases "d = CHR ''=''")
      case True
      then have "p \<and> cs = []" "p' \<and> cs = []" using less.prems by (auto simp: s b64_value_pad split: option.splits if_splits)
      with True less.prems show ?thesis
        by (cases "c = CHR ''=''") (auto simp: s Let_def split: option.splits dest: agree)
    next
      case False
      then obtain v1 v2 v3 v4 bs v1' v2' v3' v4' bs' where
          "b64_value u a = Some v1" "b64_value u b = Some v2" "b64_value u c = Some v3" "b64_value u d = Some v4"
          and bs: "b64_quanta u p cs = Some bs"
          and "b64_value u' a = Some v1'" "b64_value u' b = Some v2'" "b64_value u' c = Some v3'" "b64_value u' d = Some v4'"
          and bs': "b64_quanta u' p' cs = Some bs'"
        using less.prems by (auto simp: s Let_def split: option.splits)
      moreover from this have "v1' = v1" "v2' = v2" "v3' = v3" "v4' = v4" using agree by blast+
      moreover have "bs = bs'" by (rule less.hyps [OF _ bs bs']) (simp add: s)
      ultimately show ?thesis using less.prems False by (simp add: s)
    qed
  qed (use less.prems in \<open>auto simp: Let_def split: option.splits if_splits dest: agree\<close>)
qed

lemma b64_decode_agree: "b64_decode u p s = Some x \<Longrightarrow> b64_decode u' p' s = Some y \<Longrightarrow> x = y"
  by (auto simp: b64_decode_def intro: b64_quanta_agree)

lemma first_decoding_encode:
  "(url, pad) \<in> set es \<Longrightarrow> first_decoding es (b64_encode url pad bs) = Some bs"
  by (induction es) (auto split: option.splits dest: b64_decode_agree [OF b64_decode_encode])

lemma SplitN_sep:
  assumes "c \<notin> set a"
  shows "SplitN c (Suc (Suc n)) (a @ c # s) = a # SplitN c (Suc n) s"
proof -
  have "takeWhile (\<lambda>x. x \<noteq> c) (a @ c # s) = a" "dropWhile (\<lambda>x. x \<noteq> c) (a @ c # s) = c # s"
    using assms by (auto simp: takeWhile_append dropWhile_append)
  then show ?thesis by simp
qed

lemma stripVaultEnvelope_any:
  assumes "CHR '':'' \<notin> set version"
  shows "stripVaultEnvelope (''vault:'' @ version @ CHR '':'' # b64_encode url pad bs) = Inr (rawurl_encode bs)"
proof -
  have "first_decoding [(True, False), (True, True), (False, False), (False, True)] (b64_encode url pad bs) = Some bs"
    by (rule first_decoding_encode) (cases url; cases pad; simp)
  moreover have "SplitN (CHR '':'') 3 (''vault:'' @ version @ CHR '':'' # b64_encode url pad bs)
      = [''vault'', version, b64_encode url pad bs]"
    using SplitN_sep [of "CHR '':''" "''vault''" 1] SplitN_sep [OF assms, of 0] by (simp add: numeral_3_eq_3 del: SplitN.simps(3))
  ultimately show ?thesis by (simp add: stripVaultEnvelope_def)
qed

section \<open>Versions\<close>

lemma FormatNat_not_plus: "\<not> starts (CHR ''+'') (FormatNat n)"
  using FormatNat_digits [of n] by (cases "FormatNat n") (auto simp: starts_def is_digit_def)

lemma Atoi_Itoa: "- (2 ^ 63) \<le> v \<Longrightarrow> v < 2 ^ 63 \<Longrightarrow> Atoi (Itoa v) = Some v"
proof (cases "v < 0")
  case True
  assume "- (2 ^ 63) \<le> v"
  with True show ?thesis by (simp add: Atoi_def Itoa_def starts_def nat_le_iff)
next
  case False
  assume "v < 2 ^ 63"
  with False show ?thesis by (simp add: Atoi_def Itoa_def FormatNat_not_minus FormatNat_not_plus nat_less_iff)
qed

lemma Itoa_ascii: "c \<in> set (Itoa v) \<Longrightarrow> c = CHR ''-'' \<or> is_digit c"
  using FormatNat_digits by (auto simp: Itoa_def list_all_iff split: if_splits)

lemma Itoa_no_colon: "CHR '':'' \<notin> set (Itoa v)"
  using Itoa_ascii [of "CHR '':''" v] by (auto simp: is_digit_def)

lemma Itoa_valid [simp]: "valid_utf8 (Itoa v)"
  by (rule ascii_valid) (use Itoa_ascii in \<open>fastforce simp: list_all_iff is_digit_def\<close>)

lemma Itoa_inj: "Itoa a = Itoa b \<longleftrightarrow> a = b"
proof
  assume eq: "Itoa a = Itoa b"
  have inj: "FormatNat m = FormatNat n \<Longrightarrow> m = n" for m n by (metis parse_nat_FormatNat option.inject)
  have sign: "i < 0 \<longleftrightarrow> starts (CHR ''-'') (Itoa i)" for i
    using FormatNat_not_minus [of "nat i"] by (simp add: Itoa_def) (simp add: starts_def)
  show "a = b" using eq sign [of a] sign [of b] inj by (cases "a < 0") (fastforce simp: Itoa_def)+
qed simp

text \<open>Version names as the server writes them.\<close>

definition version_names :: "(string \<times> string) list \<Rightarrow> bool" where
  "version_names m \<longleftrightarrow> distinct (map fst m) \<and>
     (\<forall>(n, pem) \<in> set m. \<exists>v. n = Itoa v \<and> - (2 ^ 63) \<le> v \<and> v < 2 ^ 63)"

lemma collect_versions_names: "(v, pem) \<in> set (collect_versions m) \<Longrightarrow> \<exists>n. (n, pem) \<in> set m \<and> Atoi n = Some v"
  by (induction m rule: collect_versions.induct) (auto simp: Let_def split: option.splits if_splits)

lemma collect_versions_distinct: "distinct (map fst (collect_versions m))"
  by (induction m rule: collect_versions.induct) (auto simp: Let_def split: option.splits)

lemma collect_versions_iff:
  assumes "version_names m"
  shows "(v, pem) \<in> set (collect_versions m) \<longleftrightarrow> (Itoa v, pem) \<in> set m \<and> pem \<noteq> [] \<and> - (2 ^ 63) \<le> v \<and> v < 2 ^ 63"
  using assms
proof (induction m arbitrary: v pem)
  case (Cons kv m)
  obtain n p where kv: "kv = (n, p)" by fastforce
  obtain u where u: "n = Itoa u" "- (2 ^ 63) \<le> u" "u < 2 ^ 63" using Cons.prems by (auto simp: version_names_def kv)
  note at = Atoi_Itoa [OF u(2,3)]
  have names: "version_names m" "n \<notin> fst ` set m" using Cons.prems by (auto simp: version_names_def kv)
  note ih = Cons.IH [OF names(1)]
  have "u \<notin> fst ` set (collect_versions m)"
  proof
    assume "u \<in> fst ` set (collect_versions m)"
    then obtain q where "(u, q) \<in> set (collect_versions m)" by fastforce
    with ih names(2) u(1) show False by force
  qed
  then have step: "collect_versions (kv # m) = (if p = [] then collect_versions m else (u, p) # collect_versions m)"
    using at by (simp add: u(1) kv)
  show ?case unfolding step using ih u by (auto simp: kv Itoa_inj)
qed simp

subsection \<open>The key set\<close>

lemma key_entry_printed: "key_entry alg kid pub = printed_key alg (kid, pub)"
  unfolding key_entry_def printed_key_def Let_def key_Bytes_coordinates by simp

lemma version_entries_printed:
  "version_entries cr alg vs = Inr keys \<Longrightarrow>
   \<exists>pubs. keys = map (printed_key alg) (map (\<lambda>(v, pub). (Itoa v, pub)) (zip (map fst vs) pubs)) \<and>
     list_all2 (\<lambda>(v, pem) pub. parseECPublicKeyPEM cr pem = Inr pub) vs pubs"
proof (induction vs arbitrary: keys)
  case (Cons x vs)
  obtain v pem where x: "x = (v, pem)" by fastforce
  from Cons.prems obtain pub es where p: "parseECPublicKeyPEM cr pem = Inr pub" "version_entries cr alg vs = Inr es"
      "keys = key_entry alg (Itoa v) pub # es" by (auto simp: x rbind_Inr_iff split: sum.splits)
  from Cons.IH [OF p(2)] obtain pubs where
      "es = map (printed_key alg) (map (\<lambda>(v, pub). (Itoa v, pub)) (zip (map fst vs) pubs))"
      "list_all2 (\<lambda>(v, pem) pub. parseECPublicKeyPEM cr pem = Inr pub) vs pubs" by blast
  with p show ?case by (intro exI [of _ "pub # pubs"]) (simp add: x key_entry_printed)
qed simp

section \<open>What a signer promises\<close>

text \<open>
  The interface \<^verbatim>\<open>signer\<close>: a minted token is compact, carries the given claims and a header with ES256 and a key id, and its
  signature verifies under a key that is published under this id from then on; the key set lists every published key.
\<close>

locale token_signer =
  fixes mint :: "claims \<Rightarrow> ('w, signer_error, string) act"
    and key_set :: "('w, signer_error, string) act"
    and published :: "'w \<Rightarrow> string \<Rightarrow> PublicKey \<Rightarrow> bool"
    and verify :: "PublicKey \<Rightarrow> string \<Rightarrow> bytes \<Rightarrow> bool"
  assumes minted: "mint cl w = (Ok token, w') \<Longrightarrow>
      \<exists>header kid k sig. token = signing_input header cl @ CHR ''.'' # rawurl_encode sig \<and> flat_object header \<and>
        map_of header ''alg'' = Some (JStr ''ES256'') \<and> map_of header ''kid'' = Some (JStr kid) \<and> kid \<noteq> [] \<and>
        verify k (signing_input header cl) sig \<and> published w' kid k"
    and listed: "key_set w = (Ok text, w') \<Longrightarrow>
      \<exists>kps. text = json_print (JObj [(''keys'', JArr (map (printed_key ''ES256'') kps))]) \<and> kps \<noteq> [] \<and>
        list_all printable_key kps \<and> distinct (map fst kps) \<and>
        (\<forall>kid k. published w kid k \<longrightarrow> map_of kps kid = Some k)"

text \<open>
  What the transit signer relies on. Of Go: a map's entries are each visited once, and a parsed public key is a point of its curve.
  Of the transit engine of OpenBao, for the key of the signer: reading the key names its versions by number, with the public key of
  each version, and changes no version; a signature that was asked for with a version is in the envelope of that version, in
  one of the base64 encodings, and verifies under the public key of this version.
\<close>

locale transit_engine =
  fixes srv :: "'w server" and s :: transitSigner and cr :: crypto and visit :: visit_order
    and vers :: "'w \<Rightarrow> int \<Rightarrow> PublicKey option"
    and verify :: "PublicKey \<Rightarrow> string \<Rightarrow> bytes \<Rightarrow> bool"
  assumes visits: "mset (visit m) = mset m"
    and points: "cr_pkix cr der = Some (EcPublic ''P-256'' pub) \<Longrightarrow> on_curve (pk_X pub) (pk_Y pub)"
    and reads: "srv w \<lparr>req_method = GET, req_path = key_url s, req_body = []\<rparr> = (Response code status body, w') \<Longrightarrow>
      200 \<le> code \<Longrightarrow> code < 300 \<Longrightarrow>
      json_unmarshal (dec_data (dec_struct key_reply_field)) \<lparr>kr_Type = [], kr_LatestVersion = 0, kr_Keys = None\<rparr>
        (take (2 ^ 20) body) = Some resp \<Longrightarrow>
      kr_Keys resp = Some j \<Longrightarrow> dec_map dec_public_key [] j [] = (True, names) \<Longrightarrow>
      vers w' = vers w \<and> version_names names \<and>
      (\<forall>v k. vers w v = Some k \<longrightarrow> (\<exists>pem. (Itoa v, pem) \<in> set names \<and> pem \<noteq> [] \<and> parseECPublicKeyPEM cr pem = Inr k))"
    and signs: "srv w \<lparr>req_method = POST, req_path = sign_url s, req_body = json_print (transitSignRequest input v)\<rparr>
        = (Response code status body, w') \<Longrightarrow>
      200 \<le> code \<Longrightarrow> code < 300 \<Longrightarrow> json_unmarshal dec_signature [] (take (2 ^ 20) body) = Some text \<Longrightarrow>
      vers w' = vers w \<and>
      (\<exists>sig url pad k. text = ''vault:'' @ (CHR ''v'' # Itoa v) @ CHR '':'' # b64_encode url pad sig \<and>
         vers w v = Some k \<and> verify k input sig)"

lemma transit_do_Ok:
  "transit_do srv req d out w = (Ok x, w') \<longleftrightarrow>
     (\<exists>code status body. srv w req = (Response code status body, w') \<and> 200 \<le> code \<and> code < 300 \<and>
        json_unmarshal d out (take (2 ^ 20) body) = Some x)"
  by (auto simp: transit_do_def Let_def split: prod.splits http_outcome.splits if_splits option.splits)

lemma key_info_Ok:
  assumes "key_info visit resp = Inr info"
  obtains j names where "kr_Keys resp = Some j" "dec_map dec_public_key [] j [] = (True, names)"
    "ki_PublicKeys info = collect_versions (visit names)" "ki_PublicKeys info \<noteq> []"
proof (cases "kr_Keys resp")
  case (Some j)
  obtain ok names where "dec_map dec_public_key [] j [] = (ok, names)" by fastforce
  with assms Some that show thesis by (auto simp: key_info_def Let_def split: if_splits)
qed (use assms in \<open>simp add: key_info_def\<close>)

context transit_engine
begin

lemma readKey_versions:
  assumes "readKey url_ok visit srv s w = (Ok info, w')"
  shows "vers w' = vers w" "distinct (map fst (ki_PublicKeys info))" "ki_PublicKeys info \<noteq> []"
    "\<And>v k. vers w v = Some k \<Longrightarrow> \<exists>pem. (v, pem) \<in> set (ki_PublicKeys info) \<and> parseECPublicKeyPEM cr pem = Inr k"
proof -
  from assms obtain resp where
      do_it: "transit_do srv \<lparr>req_method = GET, req_path = key_url s, req_body = []\<rparr> (dec_data (dec_struct key_reply_field))
        \<lparr>kr_Type = [], kr_LatestVersion = 0, kr_Keys = None\<rparr> w = (Ok resp, w')"
      and ok: "key_info visit resp = Inr info"
    by (auto simp: readKey_def act_Ok)
  obtain j names where j: "kr_Keys resp = Some j" "dec_map dec_public_key [] j [] = (True, names)"
      and info: "ki_PublicKeys info = collect_versions (visit names)" "ki_PublicKeys info \<noteq> []"
    using ok by (rule key_info_Ok)
  from do_it j reads have facts: "vers w' = vers w" "version_names names"
      "\<And>v k. vers w v = Some k \<Longrightarrow> \<exists>pem. (Itoa v, pem) \<in> set names \<and> pem \<noteq> [] \<and> parseECPublicKeyPEM cr pem = Inr k"
    unfolding transit_do_Ok by blast+
  have perm: "mset (visit names) = mset names" by (rule visits)
  then have sets: "set (visit names) = set names" by (rule mset_eq_setD)
  have "mset (map fst (visit names)) = mset (map fst names)" using perm by simp
  then have "distinct (map fst (visit names)) \<longleftrightarrow> distinct (map fst names)" by (rule mset_eq_imp_distinct_iff)
  then have "version_names (visit names)" using facts(2) sets by (simp add: version_names_def)
  note iff = collect_versions_iff [OF this]
  show "vers w' = vers w" "distinct (map fst (ki_PublicKeys info))" "ki_PublicKeys info \<noteq> []"
    using facts(1) info collect_versions_distinct by simp_all
  show "\<exists>pem. (v, pem) \<in> set (ki_PublicKeys info) \<and> parseECPublicKeyPEM cr pem = Inr k" if vers: "vers w v = Some k" for v k
  proof -
    obtain pem where pem: "(Itoa v, pem) \<in> set names" "pem \<noteq> []" "parseECPublicKeyPEM cr pem = Inr k"
      using facts(3) [OF vers] by blast
    then have "- (2 ^ 63) \<le> v \<and> v < 2 ^ 63" using facts(2) by (auto simp: version_names_def Itoa_inj)
    then have "(v, pem) \<in> set (ki_PublicKeys info)" using pem by (simp only: info(1) iff sets) simp
    with pem show ?thesis by blast
  qed
qed

lemma parsed_points: "parseECPublicKeyPEM cr pem = Inr pub \<Longrightarrow> on_curve (pk_X pub) (pk_Y pub)"
  by (auto simp: parseECPublicKeyPEM_def points split: option.splits any_public.splits if_splits)

lemma transit_listed:
  assumes run: "transit_JWKS cr url_ok visit srv s w = (Ok text, w')"
  shows "\<exists>kps. text = json_print (JObj [(''keys'', JArr (map (printed_key ''ES256'') kps))]) \<and> kps \<noteq> [] \<and>
    list_all printable_key kps \<and> distinct (map fst kps) \<and>
    (\<forall>kid k. (\<exists>v. kid = Itoa v \<and> vers w v = Some k) \<longrightarrow> map_of kps kid = Some k)"
proof -
  obtain info keys where read: "readKey url_ok visit srv s w = (Ok info, w')"
      and entries: "version_entries cr ''ES256'' (sort_key fst (ki_PublicKeys info)) = Inr keys" and printed: "text = key_set_json keys"
    using run by (auto simp: transit_JWKS_def act_Ok jwsAlg_def split: if_splits)
  note facts = readKey_versions [OF read]
  let ?vs = "sort_key fst (ki_PublicKeys info)"
  obtain pubs where keys: "keys = map (printed_key ''ES256'') (map (\<lambda>(v, pub). (Itoa v, pub)) (zip (map fst ?vs) pubs))"
      and pubs: "list_all2 (\<lambda>(v, pem) pub. parseECPublicKeyPEM cr pem = Inr pub) ?vs pubs"
    using version_entries_printed [OF entries] by blast
  let ?kps = "map (\<lambda>(v, pub). (Itoa v, pub)) (zip (map fst ?vs) pubs)"
  have len: "length pubs = length ?vs" using list_all2_lengthD [OF pubs] by simp
  have dist: "distinct (map fst ?vs)" using facts(2) by (simp add: distinct_map)
  have fsts: "map fst ?kps = map Itoa (map fst ?vs)" using len
    by (intro nth_equalityI) (auto simp: split_beta)
  have "distinct (map fst ?kps)" unfolding fsts using dist by (simp add: distinct_map inj_on_def Itoa_inj)
  moreover have "list_all printable_key ?kps"
  proof -
    have "printable_key (Itoa v, pub)" if "(v, pub) \<in> set (zip (map fst ?vs) pubs)" for v pub
      using that pubs len parsed_points Itoa_head(1)
      by (fastforce simp: printable_key_def set_zip list_all2_conv_all_nth split_beta)
    then show ?thesis by (auto simp: list_all_iff)
  qed
  moreover have "map_of ?kps (Itoa v) = Some k" if vers: "vers w v = Some k" for v k
  proof -
    obtain pem where "(v, pem) \<in> set ?vs" "parseECPublicKeyPEM cr pem = Inr k" using facts(4) [OF vers] by auto
    then obtain i where i: "i < length ?vs" "?vs ! i = (v, pem)" by (metis in_set_conv_nth)
    then have "pubs ! i = k" using pubs \<open>parseECPublicKeyPEM cr pem = Inr k\<close> by (auto simp: list_all2_conv_all_nth split_beta)
    then have "(Itoa v, k) \<in> set ?kps" using i len by (force simp: set_zip)
    with \<open>distinct (map fst ?kps)\<close> show ?thesis by (rule map_of_is_SomeI)
  qed
  moreover have "length ?kps = length (ki_PublicKeys info)" using len by simp
  then have "?kps \<noteq> []" using facts(3) by (metis length_0_conv)
  ultimately show ?thesis by (intro exI [of _ ?kps]) (auto simp: printed keys key_set_json_def simp del: json_print.simps)
qed

lemma checked_signature_envelope:
  "checked_signature (''vault:'' @ (CHR ''v'' # Itoa v) @ CHR '':'' # b64_encode url pad sig) = Inr out \<Longrightarrow>
   out = rawurl_encode sig \<and> length sig = 64"
  using stripVaultEnvelope_any [of "CHR ''v'' # Itoa v" url pad sig] Itoa_no_colon [of v]
  by (auto simp: checked_signature_def split: if_splits)

lemma transit_minted:
  assumes run: "transit_Mint url_ok visit srv s cl w = (Ok token, w')"
  shows "\<exists>v k sig.
    token = signing_input [(''alg'', JStr ''ES256''), (''typ'', JStr ''JWT''), (''kid'', JStr (Itoa v))] cl @ CHR ''.'' # rawurl_encode sig \<and>
    verify k (signing_input [(''alg'', JStr ''ES256''), (''typ'', JStr ''JWT''), (''kid'', JStr (Itoa v))] cl) sig \<and>
    vers w' v = Some k"
proof -
  obtain info w1 where read: "readKey url_ok visit srv s w = (Ok info, w1)" using run by (auto simp: transit_Mint_def act_Ok)
  let ?v = "ki_LatestVersion info"
  let ?input = "signing_input [(''alg'', JStr ''ES256''), (''typ'', JStr ''JWT''), (''kid'', JStr (Itoa ?v))] cl"
  obtain signature out where sign: "transit_do srv \<lparr>req_method = POST, req_path = sign_url s,
        req_body = json_print (transitSignRequest ?input ?v)\<rparr> dec_signature [] w1 = (Ok signature, w')"
      and sig: "checked_signature signature = Inr out" and token: "token = ?input @ CHR ''.'' # out"
    using run unfolding transit_Mint_def act_Ok read
    by (auto simp: act_Ok Let_def jwsAlg_def transit_header_def signing_input_def simp del: json_print.simps split: if_splits)
  from sign signs obtain sg url pad k where "vers w' = vers w1"
      and env: "signature = ''vault:'' @ (CHR ''v'' # Itoa ?v) @ CHR '':'' # b64_encode url pad sg"
      and k: "vers w1 ?v = Some k" "verify k ?input sg"
    unfolding transit_do_Ok by blast
  with checked_signature_envelope [OF sig [unfolded env]] token show ?thesis by metis
qed

end

lemma transit_header_flat: "flat_object [(''alg'', JStr ''ES256''), (''typ'', JStr ''JWT''), (''kid'', JStr (Itoa v))]"
proof -
  have "valid_utf8 ''ES256''" "valid_utf8 ''JWT''" by (rule ascii_valid; simp)+
  then show ?thesis by (simp add: flat_object_def lower_char_def del: valid_utf8.simps)
qed

sublocale transit_engine \<subseteq> transit: token_signer "transit_Mint url_ok visit srv s" "transit_JWKS cr url_ok visit srv s"
  "\<lambda>w kid k. \<exists>v. kid = Itoa v \<and> vers w v = Some k" verify for url_ok
proof (unfold_locales, goal_cases)
  case (1 cl w token w')
  from transit_minted [OF 1] obtain v k sig where
      "token = signing_input [(''alg'', JStr ''ES256''), (''typ'', JStr ''JWT''), (''kid'', JStr (Itoa v))] cl @ CHR ''.'' # rawurl_encode sig"
      "verify k (signing_input [(''alg'', JStr ''ES256''), (''typ'', JStr ''JWT''), (''kid'', JStr (Itoa v))] cl) sig"
      "vers w' v = Some k" by blast
  then show ?case using transit_header_flat [of v] Itoa_head(1) [of v]
    by (intro exI [of _ "[(''alg'', JStr ''ES256''), (''typ'', JStr ''JWT''), (''kid'', JStr (Itoa v))]"] exI [of _ "Itoa v"]
          exI [of _ k] exI [of _ sig]) auto
next
  case (2 w out w')
  then show ?case by (rule transit_listed)
qed

context transit_engine
begin

lemma transit_is_signer:
  "token_signer (transit_Mint url_ok visit srv s) (transit_JWKS cr url_ok visit srv s)
     (\<lambda>w kid k. \<exists>v. kid = Itoa v \<and> vers w v = Some k) verify"
  by (rule transit.token_signer_axioms)

end

text \<open>
  What the local signer relies on: the library signs the printed header and claims, listed in the order of their names, with the
  key in memory, and a P-256 key is a point of the curve.
\<close>

locale key_in_memory =
  fixes cr :: crypto and keyPEM :: string and s :: localSigner and generated :: bool
    and verify :: "PublicKey \<Rightarrow> string \<Rightarrow> bytes \<Rightarrow> bool"
  assumes started: "newLocalSigner cr keyPEM = Inr (s, generated)"
    and point: "sk_Curve (ls_key s) = ''P-256'' \<Longrightarrow> on_curve (pk_X (sk_PublicKey (ls_key s))) (pk_Y (sk_PublicKey (ls_key s)))"
    and signs: "cr_sign cr header cl (ls_key s) = Some token \<Longrightarrow>
      \<exists>sig. token = signing_input header cl @ CHR ''.'' # rawurl_encode sig \<and>
        verify (sk_PublicKey (ls_key s)) (signing_input header cl) sig"

lemma newLocalSigner_kid:
  assumes "newLocalSigner cr keyPEM = Inr (s, generated)"
  shows "ls_kid s \<noteq> []" "valid_utf8 (ls_kid s)"
proof -
  obtain der where kid: "ls_kid s = hex_encode (take 8 (sha256 der))"
    using assms by (auto simp: newLocalSigner_def keyID_def rbind_Inr_iff split: option.splits prod.splits)
  have "length (ls_kid s) = 16" by (simp add: kid)
  then show "ls_kid s \<noteq> []" by auto
  show "valid_utf8 (ls_kid s)"
    by (rule ascii_valid) (use hex_encode_alnum is_alnum_range in \<open>fastforce simp: list_all_iff kid\<close>)
qed

sublocale key_in_memory \<subseteq> memory: token_signer "local_Mint cr s" "local_JWKS s"
  "\<lambda>w kid k. kid = ls_kid s \<and> k = sk_PublicKey (ls_key s)" verify
proof (unfold_locales, goal_cases)
  case (1 cl w token w')
  then have "cr_sign cr (jws_header (ls_kid s)) cl (ls_key s) = Some token" by (auto simp: local_Mint_def split: option.splits)
  from signs [OF this] obtain sig where sig: "token = signing_input (jws_header (ls_kid s)) cl @ CHR ''.'' # rawurl_encode sig"
      "verify (sk_PublicKey (ls_key s)) (signing_input (jws_header (ls_kid s)) cl) sig" by blast
  have "valid_utf8 ''ES256''" "valid_utf8 ''JWT''" by (rule ascii_valid; simp)+
  then have "flat_object (jws_header (ls_kid s))"
    using newLocalSigner_kid(2) [OF started] by (simp add: jws_header_def flat_object_def lower_char_def del: valid_utf8.simps)
  then show ?case using sig newLocalSigner_kid(1) [OF started]
    by (intro exI [of _ "jws_header (ls_kid s)"] exI [of _ "ls_kid s"] exI [of _ "sk_PublicKey (ls_key s)"] exI [of _ sig])
       (simp add: jws_header_def)
next
  case (2 w out w')
  let ?kps = "[(ls_kid s, sk_PublicKey (ls_key s))]"
  have "sk_Curve (ls_key s) = ''P-256''" "out = json_print (JObj [(''keys'', JArr (map (printed_key ''ES256'') ?kps))])"
    using 2 by (auto simp: local_JWKS_def key_set_json_def key_entry_printed simp del: json_print.simps split: if_splits)
  then show ?case using point newLocalSigner_kid [OF started]
    by (intro exI [of _ ?kps]) (simp add: printable_key_def del: json_print.simps)
qed

context key_in_memory
begin

lemma memory_is_signer:
  "token_signer (local_Mint cr s) (local_JWKS s) (\<lambda>w kid k. kid = ls_kid s \<and> k = sk_PublicKey (ls_key s)) verify"
  by (rule memory.token_signer_axioms)

end

section \<open>Issued tokens\<close>

lemma IssueToken_Ok:
  "IssueToken clock zone p req w = (Ok token, w') \<longleftrightarrow>
     it_Jti req \<noteq> [] \<and> it_Subject req \<noteq> [] \<and> clock w < unix_ns (unix_time (it_ExpiresAt req)) \<and>
     unix_ns (unix_time (it_ExpiresAt req)) \<le> AddDate zone (clock w) (pi_MaxTTLDays (ip_cfg p)) \<and>
     Mint (ip_signer p) (pat_claims (ip_cfg p) req (clock w)) w = (Ok token, w')"
  by (auto simp: IssueToken_def act_Ok Let_def)

lemma AddDate_fixed: "AddDate (\<lambda>_. z) now days = now + unix_ns (days * 86400)"
  by (simp add: AddDate_def unix_ns_def Let_def algebra_simps)

lemma transit_do_logged:
  "transit_do (logged srv) req d out (w, l) = (r, (w', l')) \<Longrightarrow> l' = l @ [req]"
  by (auto simp: transit_do_def logged_def Let_def split: prod.splits http_outcome.splits if_splits option.splits)

lemma readKey_logged:
  "readKey url_ok visit (logged srv) s (w, l) = (Ok info, (w', l')) \<Longrightarrow>
   l' = l @ [\<lparr>req_method = GET, req_path = key_url s, req_body = []\<rparr>]"
  by (auto simp: readKey_def act_Ok dest!: transit_do_logged)

lemma checked_signature_Ok: "checked_signature text = Inr out \<Longrightarrow> \<exists>sig. out = rawurl_encode sig \<and> length sig = 64"
  by (auto simp: checked_signature_def stripVaultEnvelope_def rbind_Inr_iff split: list.splits option.splits if_splits)

text \<open>
  C13. A token is issued with exactly the claims that were asked for, within the ceiling, and signed with the version it names.
  When IssueToken of a plugin with the transit signer succeeds, token id and subject are not empty, the expiry is in the
  future and at most the configured, positive number of days ahead (calendar days of the process's location; exactly so
  many times 24 hours when its offset is fixed); the token is the header, with the id of the version that was read, the claims
  and a signature of 64 bytes; and exactly two requests were made, the read of the key and then one request to sign these two
  parts with this very version, so that a rotation in between cannot separate key id and signature.
\<close>

theorem issued_token_pinned:
  assumes new: "NewPlugin cr url_ok visit (logged srv) cfg = Inr p" and transit: "pi_Signer cfg = ''transit''"
    and ok: "IssueToken clock zone p req (w, l) = (Ok token, (w', l'))"
  shows "it_Jti req \<noteq> [] \<and> it_Subject req \<noteq> [] \<and> 0 < pi_MaxTTLDays cfg \<and>
    clock (w, l) < unix_ns (unix_time (it_ExpiresAt req)) \<and>
    unix_ns (unix_time (it_ExpiresAt req)) \<le> AddDate zone (clock (w, l)) (pi_MaxTTLDays cfg) \<and>
    ((\<exists>z. zone = (\<lambda>_. z)) \<longrightarrow> AddDate zone (clock (w, l)) (pi_MaxTTLDays cfg) = clock (w, l) + unix_ns (pi_MaxTTLDays cfg * 86400)) \<and>
    (\<exists>v sig. let input = signing_input [(''alg'', JStr ''ES256''), (''typ'', JStr ''JWT''), (''kid'', JStr (Itoa v))]
                           (pat_claims cfg req (clock (w, l)))
       in token = input @ CHR ''.'' # rawurl_encode sig \<and> length sig = 64 \<and>
          l' = l @ [\<lparr>req_method = GET, req_path = key_url (newTransitSigner cfg), req_body = []\<rparr>,
                    \<lparr>req_method = POST, req_path = sign_url (newTransitSigner cfg),
                      req_body = json_print (transitSignRequest input v)\<rparr>])"
proof -
  let ?s = "newTransitSigner cfg" and ?cl = "pat_claims cfg req (clock (w, l))"
  have p: "ip_cfg p = cfg" "Mint (ip_signer p) = transit_Mint url_ok visit (logged srv) ?s" and ttl: "0 < pi_MaxTTLDays cfg"
    using new transit by (auto simp: NewPlugin_def rbind_Inr_iff issuer_validate_def Let_def split: if_splits)
  note facts = ok [unfolded IssueToken_Ok p]
  then have run: "transit_Mint url_ok visit (logged srv) ?s ?cl (w, l) = (Ok token, (w', l'))" by blast
  then obtain info w1 l1 where read: "readKey url_ok visit (logged srv) ?s (w, l) = (Ok info, (w1, l1))"
    by (auto simp: transit_Mint_def act_Ok)
  let ?v = "ki_LatestVersion info"
  let ?input = "signing_input [(''alg'', JStr ''ES256''), (''typ'', JStr ''JWT''), (''kid'', JStr (Itoa ?v))] ?cl"
  obtain signature out where sign: "transit_do (logged srv) \<lparr>req_method = POST, req_path = sign_url ?s,
        req_body = json_print (transitSignRequest ?input ?v)\<rparr> dec_signature [] (w1, l1) = (Ok signature, (w', l'))"
      and sig: "checked_signature signature = Inr out" and token: "token = ?input @ CHR ''.'' # out"
    using run unfolding transit_Mint_def act_Ok read
    by (auto simp: act_Ok Let_def jwsAlg_def transit_header_def signing_input_def simp del: json_print.simps split: if_splits)
  obtain sg where "out = rawurl_encode sg" "length sg = 64" using checked_signature_Ok [OF sig] by blast
  moreover have "l' = l @ [\<lparr>req_method = GET, req_path = key_url ?s, req_body = []\<rparr>,
      \<lparr>req_method = POST, req_path = sign_url ?s, req_body = json_print (transitSignRequest ?input ?v)\<rparr>]"
    using readKey_logged [OF read] transit_do_logged [OF sign] by simp
  ultimately have "\<exists>v sig. let input = signing_input [(''alg'', JStr ''ES256''), (''typ'', JStr ''JWT''), (''kid'', JStr (Itoa v))] ?cl
       in token = input @ CHR ''.'' # rawurl_encode sig \<and> length sig = 64 \<and>
          l' = l @ [\<lparr>req_method = GET, req_path = key_url ?s, req_body = []\<rparr>,
                    \<lparr>req_method = POST, req_path = sign_url ?s, req_body = json_print (transitSignRequest input v)\<rparr>]"
    using token unfolding Let_def by blast
  then show ?thesis using facts ttl AddDate_fixed by blast
qed

section \<open>An engine and a key that keep the contracts\<close>

definition demo_crypto :: crypto where
  "demo_crypto =
     \<lparr>cr_pem = (\<lambda>data. if data = [] then None else Some data), cr_pkix = (\<lambda>_. Some (EcPublic ''P-256'' example_key)),
      cr_sec1 = (\<lambda>der. Some \<lparr>sk_Curve = der, sk_D = 1, sk_PublicKey = example_key\<rparr>), cr_pkcs8 = (\<lambda>_. None),
      cr_marshal = (\<lambda>_. Some ''der''), cr_generate = Some \<lparr>sk_Curve = ''P-256'', sk_D = 1, sk_PublicKey = example_key\<rparr>,
      cr_sign = (\<lambda>header cl key. Some (signing_input header cl @ CHR ''.'' # rawurl_encode (replicate 64 (CHR 0x00))))\<rparr>"

definition demo_verify :: "PublicKey \<Rightarrow> string \<Rightarrow> bytes \<Rightarrow> bool" where
  "demo_verify k input sig \<longleftrightarrow> k = example_key \<and> sig = replicate 64 (CHR 0x00)"

definition demo_config :: patissuerConfig where
  "demo_config =
     \<lparr>pi_Issuer = ''i'', pi_Audience = ''a'', pi_Signer = ''transit'', pi_LocalKeyPEM = [], pi_MaxTTLDays = 30,
      pi_OpenBaoProxyURL = ''http://b/'', pi_TransitMount = ''transit'', pi_TransitKey = ''pat'', pi_TimeoutSecs = 10\<rparr>"

definition demo_key_reply :: json where
  "demo_key_reply = JObj [(''data'', JObj [(''type'', JStr ''ecdsa-p256''), (''latest_version'', JNum (Itoa 1)),
     (''keys'', JObj [(''1'', JObj [(''public_key'', JStr ''pem'')])])])]"

definition demo_sign_reply :: json where
  "demo_sign_reply = JObj [(''data'', JObj [(''signature'', JStr (''vault:v1:'' @ replicate 86 (CHR ''A'')))])]"

text \<open>A server with one version of the key; the state counts the requests.\<close>

definition demo_srv :: "nat server" where
  "demo_srv n r =
     (if req_method r = GET then (Response 200 [] (json_print demo_key_reply), Suc n)
      else (case json_parse (req_body r) of
              Some (JObj ms) \<Rightarrow>
                (if map_of ms ''key_version'' = Some (JNum (Itoa 1)) then (Response 200 [] (json_print demo_sign_reply), Suc n)
                 else (Response 400 [] [], Suc n))
            | _ \<Rightarrow> (Response 400 [] [], Suc n)))"

definition demo_versions :: "nat \<Rightarrow> int \<Rightarrow> PublicKey option" where
  "demo_versions n v = (if v = 1 then Some example_key else None)"

lemma demo_signature: "rawurl_encode (replicate 64 (CHR 0x00)) = replicate 86 (CHR ''A'')"
proof -
  have zero: "b64_char True 0 = CHR ''A''" by code_simp
  have enc: "rawurl_encode (replicate (3 * n + 1) (CHR 0x00)) = replicate (4 * n + 2) (CHR ''A'')" for n
  proof (induction n)
    case 0
    then show ?case by (simp add: zero numeral_2_eq_2)
  next
    case (Suc n)
    have "3 * Suc n + 1 = Suc (Suc (Suc (3 * n + 1)))" "4 * Suc n + 2 = Suc (Suc (Suc (Suc (4 * n + 2))))" by simp_all
    then show ?case using Suc by (simp only: replicate.simps b64_encode.simps Let_def) (simp add: zero)
  qed
  show ?thesis using enc [of 21] by simp
qed

lemma demo_replies:
  "take 1048576 (json_print demo_key_reply) = json_print demo_key_reply"
  "take 1048576 (json_print demo_sign_reply) = json_print demo_sign_reply"
proof -
  have "length (json_print demo_key_reply) \<le> 1000" "length (json_print demo_sign_reply) \<le> 1000" by code_simp+
  then show "take 1048576 (json_print demo_key_reply) = json_print demo_key_reply"
    "take 1048576 (json_print demo_sign_reply) = json_print demo_sign_reply" by simp_all
qed

lemma demo_parses:
  "json_parse (json_print demo_key_reply) = Some demo_key_reply"
  "json_parse (json_print demo_sign_reply) = Some demo_sign_reply"
proof -
  have texts: "valid_utf8 ''data''" "valid_utf8 ''type''" "valid_utf8 ''ecdsa-p256''" "valid_utf8 ''latest_version''" "valid_utf8 ''keys''"
    "valid_utf8 ''1''" "valid_utf8 ''public_key''" "valid_utf8 ''pem''" "valid_utf8 ''signature''"
    "valid_utf8 (''vault:v1:'' @ replicate 86 (CHR ''A''))"
    by (rule ascii_valid; simp add: list_all_iff)+
  then have "wf_json demo_key_reply" "wf_json demo_sign_reply"
    unfolding demo_key_reply_def demo_sign_reply_def by (auto simp del: valid_utf8.simps append.simps)
  moreover have "json_depth demo_key_reply \<le> max_depth" "json_depth demo_sign_reply \<le> max_depth"
    by (simp_all add: demo_key_reply_def demo_sign_reply_def max_depth_def)
  ultimately show "json_parse (json_print demo_key_reply) = Some demo_key_reply"
    "json_parse (json_print demo_sign_reply) = Some demo_sign_reply" by (simp_all add: json_parse_print)
qed

lemma demo_key_decoded:
  "json_unmarshal (dec_data (dec_struct key_reply_field)) \<lparr>kr_Type = [], kr_LatestVersion = 0, kr_Keys = None\<rparr> (json_print demo_key_reply)
   = Some \<lparr>kr_Type = ''ecdsa-p256'', kr_LatestVersion = 1, kr_Keys = Some (JObj [(''1'', JObj [(''public_key'', JStr ''pem'')])])\<rparr>"
proof -
  have "key_reply_field ''type'' = dec_field kr_Type kr_Type_update dec_string"
    "key_reply_field ''latest_version'' = dec_field kr_LatestVersion kr_LatestVersion_update dec_int"
    "key_reply_field ''keys'' = dec_field kr_Keys kr_Keys_update dec_raw"
    by (simp_all add: key_reply_field_def is_field_lower lower_char_def)
  moreover have "dec_int (JNum (Itoa 1)) 0 = (True, 1)" by (rule dec_int_Itoa) simp_all
  ultimately show ?thesis
    by (simp add: json_unmarshal_def demo_parses, simp add: demo_key_reply_def dec_struct_def dec_field_def dec_raw_def)
qed

lemma demo_names: "dec_map dec_public_key [] (JObj [(''1'', JObj [(''public_key'', JStr ''pem'')])]) [] = (True, [(''1'', ''pem'')])"
  by (simp add: dec_map_def dec_public_key_def dec_struct_def)

lemma demo_one: "Itoa 1 = ''1''"
  by code_simp

lemma sign_request_parses: "json_parse (json_print (transitSignRequest input v)) = Some (transitSignRequest input v)"
proof (rule json_parse_print)
  have "valid_utf8 ''input''" "valid_utf8 ''prehashed''" "valid_utf8 ''marshaling_algorithm''" "valid_utf8 ''jws''"
    "valid_utf8 ''key_version''" by (rule ascii_valid; simp)+
  then show "wf_json (transitSignRequest input v)"
    unfolding transitSignRequest_def by (auto simp del: valid_utf8.simps)
  show "json_depth (transitSignRequest input v) \<le> max_depth" by (simp add: transitSignRequest_def max_depth_def)
qed

lemma demo_sign_decoded: "json_unmarshal dec_signature [] (json_print demo_sign_reply) = Some (''vault:v1:'' @ replicate 86 (CHR ''A''))"
  by (simp add: json_unmarshal_def demo_parses, simp add: demo_sign_reply_def dec_signature_def dec_struct_def)

interpretation demo: transit_engine demo_srv "newTransitSigner demo_config" demo_crypto "\<lambda>m. m" demo_versions demo_verify
proof (unfold_locales, goal_cases)
  case (2 der pub)
  then show ?case using example_key_on_curve by (simp add: demo_crypto_def)
next
  case (3 w code status body w' resp j names)
  then have "kr_Keys resp = Some (JObj [(''1'', JObj [(''public_key'', JStr ''pem'')])])"
    by (auto simp: demo_srv_def demo_replies demo_key_decoded)
  then have "names = [(''1'', ''pem'')]" using 3 by (simp add: demo_names)
  then show ?case
    by (auto simp: demo_versions_def version_names_def demo_one parseECPublicKeyPEM_def demo_crypto_def intro: exI [of _ 1])
next
  case (4 w input v code status body w' out)
  have "body = json_print demo_sign_reply \<and> v = 1"
    using 4(1-3) sign_request_parses [of input v]
    by (auto simp: demo_srv_def transitSignRequest_def Itoa_inj simp del: json_print.simps split: if_splits)
  then show ?case using 4(4)
    by (auto simp: demo_replies demo_sign_decoded demo_versions_def demo_verify_def demo_one demo_signature [symmetric])
qed simp

interpretation demo_local: key_in_memory demo_crypto "''P-256''"
  "\<lparr>ls_key = \<lparr>sk_Curve = ''P-256'', sk_D = 1, sk_PublicKey = example_key\<rparr>, ls_kid = hex_encode (take 8 (sha256 ''der''))\<rparr>" False demo_verify
  by unfold_locales
    (auto simp: newLocalSigner_def parseECPrivateKeyPEM_def keyID_def demo_crypto_def demo_verify_def example_key_on_curve)

definition demo_request :: IssueTokenRequest where
  "demo_request = \<lparr>it_Jti = ''j'', it_Subject = ''u'', it_ExpiresAt = 1000, it_KmsTenant = ''t''\<rparr>"

definition demo_plugin :: "'w server \<Rightarrow> 'w Plugin" where
  "demo_plugin srv =
     \<lparr>ip_cfg = demo_config,
      ip_signer = \<lparr>Mint = transit_Mint (\<lambda>_. True) (\<lambda>m. m) srv (newTransitSigner demo_config),
        JWKS = transit_JWKS demo_crypto (\<lambda>_. True) (\<lambda>m. m) srv (newTransitSigner demo_config)\<rparr>\<rparr>"

lemma demo_plugin_new: "NewPlugin demo_crypto (\<lambda>_. True) (\<lambda>m. m) srv demo_config = Inr (demo_plugin srv)"
  by (simp add: NewPlugin_def demo_plugin_def issuer_validate_def demo_config_def Let_def)

lemma demo_readKey:
  "readKey (\<lambda>_. True) (\<lambda>m. m) demo_srv s n =
     (Ok \<lparr>ki_Type = ''ecdsa-p256'', ki_LatestVersion = 1, ki_PublicKeys = [(1, ''pem'')]\<rparr>, Suc n)"
proof -
  have "Atoi ''1'' = Some 1" using Atoi_Itoa [of 1] by (simp add: demo_one)
  then show ?thesis
    by (simp add: readKey_def andThen_def wrapErr_def attempt_def transit_do_def demo_srv_def demo_replies demo_key_decoded key_info_def
        demo_names)
qed

lemma demo_sign:
  "transit_do demo_srv \<lparr>req_method = POST, req_path = path, req_body = json_print (transitSignRequest input 1)\<rparr> dec_signature [] n =
     (Ok (''vault:v1:'' @ replicate 86 (CHR ''A'')), Suc n)"
  using sign_request_parses [of input 1]
  by (simp add: transit_do_def demo_srv_def demo_replies demo_sign_decoded transitSignRequest_def del: json_print.simps)

lemma demo_mint:
  "transit_Mint (\<lambda>_. True) (\<lambda>m. m) demo_srv s cl n =
     (Ok (signing_input [(''alg'', JStr ''ES256''), (''typ'', JStr ''JWT''), (''kid'', JStr ''1'')] cl @ CHR ''.'' #
        rawurl_encode (replicate 64 (CHR 0x00))), Suc (Suc n))"
proof -
  have "checked_signature (''vault:v1:'' @ replicate 86 (CHR ''A'')) = Inr (rawurl_encode (replicate 64 (CHR 0x00)))"
    using stripVaultEnvelope_any [of "''v1''" True False "replicate 64 (CHR 0x00)"]
    by (simp add: checked_signature_def demo_signature [symmetric])
  then show ?thesis
    by (simp add: transit_Mint_def andThen_def demo_readKey jwsAlg_def wrapErr_def attempt_def demo_sign transit_header_def
        signing_input_def demo_one Let_def del: json_print.simps)
qed

lemma demo_issued:
  "IssueToken (\<lambda>_. 7) (\<lambda>_. 0) (demo_plugin demo_srv) demo_request n =
     (Ok (signing_input [(''alg'', JStr ''ES256''), (''typ'', JStr ''JWT''), (''kid'', JStr ''1'')]
            (pat_claims demo_config demo_request 7) @ CHR ''.'' # rawurl_encode (replicate 64 (CHR 0x00))), Suc (Suc n))"
  by (simp add: IssueToken_Ok demo_mint demo_plugin_def demo_request_def AddDate_fixed unix_ns_def unix_time_def demo_config_def)

text \<open>A SEC 1 key on another curve is accepted at the start, and no key set is ever served.\<close>

lemma sec1_curve_unchecked:
  assumes "keyPEM \<noteq> []" "cr_pem cr keyPEM = Some block" "cr_sec1 cr block = Some sk" "sk_Curve sk \<noteq> ''P-256''"
    "cr_marshal cr (sk_PublicKey sk) = Some der"
  shows "\<exists>s. newLocalSigner cr keyPEM = Inr (s, False) \<and> (\<forall>w. local_JWKS s w = (Err (UnsupportedCurve (sk_Curve sk)), w))"
  using assms by (simp add: newLocalSigner_def parseECPrivateKeyPEM_def keyID_def local_JWKS_def)

text \<open>A run on a server is a run on the server with a log.\<close>

lemma transit_do_lift:
  "transit_do srv req d out w = (r, w') \<Longrightarrow> transit_do (logged srv) req d out (w, l) = (r, (w', l @ [req]))"
  by (auto simp: transit_do_def logged_def Let_def split: prod.splits http_outcome.splits if_splits option.splits)

lemma readKey_lift:
  "readKey url_ok visit srv s w = (Ok info, w') \<Longrightarrow> \<exists>l'. readKey url_ok visit (logged srv) s (w, l) = (Ok info, (w', l'))"
  unfolding readKey_def act_Ok using transit_do_lift by fastforce

lemma transit_Mint_lift:
  assumes "transit_Mint url_ok visit srv s cl w = (Ok token, w')"
  shows "\<exists>l'. transit_Mint url_ok visit (logged srv) s cl (w, l) = (Ok token, (w', l'))"
proof -
  obtain info w1 where read: "readKey url_ok visit srv s w = (Ok info, w1)" using assms by (auto simp: transit_Mint_def act_Ok)
  obtain l1 where "readKey url_ok visit (logged srv) s (w, l) = (Ok info, (w1, l1))" using readKey_lift [OF read] by blast
  with assms read show ?thesis unfolding transit_Mint_def act_Ok Let_def using transit_do_lift by fastforce
qed

theorem issued_token_pinned_witness:
  "\<exists>l' v sig. let input = signing_input [(''alg'', JStr ''ES256''), (''typ'', JStr ''JWT''), (''kid'', JStr (Itoa v))]
                           (pat_claims demo_config demo_request 7)
       in signing_input [(''alg'', JStr ''ES256''), (''typ'', JStr ''JWT''), (''kid'', JStr ''1'')]
            (pat_claims demo_config demo_request 7) @ CHR ''.'' # rawurl_encode (replicate 64 (CHR 0x00))
          = input @ CHR ''.'' # rawurl_encode sig \<and> length sig = 64 \<and>
          l' = [] @ [\<lparr>req_method = GET, req_path = key_url (newTransitSigner demo_config), req_body = []\<rparr>,
                    \<lparr>req_method = POST, req_path = sign_url (newTransitSigner demo_config),
                      req_body = json_print (transitSignRequest input v)\<rparr>]"
proof -
  let ?token = "signing_input [(''alg'', JStr ''ES256''), (''typ'', JStr ''JWT''), (''kid'', JStr ''1'')]
            (pat_claims demo_config demo_request 7) @ CHR ''.'' # rawurl_encode (replicate 64 (CHR 0x00))"
  have plain: "transit_Mint (\<lambda>_. True) (\<lambda>m. m) demo_srv (newTransitSigner demo_config) (pat_claims demo_config demo_request 7) 0
      = (Ok ?token, Suc (Suc 0))" by (rule demo_mint)
  obtain l' where "transit_Mint (\<lambda>_. True) (\<lambda>m. m) (logged demo_srv) (newTransitSigner demo_config)
      (pat_claims demo_config demo_request 7) (0, []) = (Ok ?token, (Suc (Suc 0), l'))"
    using transit_Mint_lift [OF plain] by blast
  then have "IssueToken (\<lambda>_. 7) (\<lambda>_. 0) (demo_plugin (logged demo_srv)) demo_request (0, []) = (Ok ?token, (Suc (Suc 0), l'))"
    by (simp add: IssueToken_Ok demo_plugin_def demo_request_def AddDate_fixed unix_ns_def unix_time_def demo_config_def)
  from issued_token_pinned [OF demo_plugin_new _ this] show ?thesis by (auto simp: demo_config_def)
qed

end
