(* ===== verification/Orbital.thy ===== *)
theory Orbital
  imports OpenBao "HOL-Library.Char_ord" "HOL-Library.List_Lexorder" Complex_Main
begin

text \<open>
  The source of fresh randomness: the OAuth client (\<^verbatim>\<open>plugins/pkg/oauth/oauth_client.go\<close>), the client of the Aptos
  Orbital service and its options (\<^verbatim>\<open>aptosorbital/client.go\<close>, \<^verbatim>\<open>client_opts.go\<close>, \<^verbatim>\<open>client_rand.go\<close>) and the plugin
  (\<^verbatim>\<open>aptosorbital/plugin.go\<close>). The state of an action is the OAuth client, which keeps the last token, together with a
  world in which the clock is read, requests are sent and the rate limiter is asked. These, with \<^verbatim>\<open>url.Parse\<close>, what
  \<^verbatim>\<open>http.NewRequest\<close> accepts and the reading of JSON numbers as 64-bit floats, are the record \<open>web\<close>. A reply is a
  status code, what was read of the body and whether the body was read to its end; \<open>None\<close> is a transport error.
\<close>

section \<open>The world\<close>

record web_request =
  rq_method :: string
  rq_url :: string
  rq_headers :: "(string \<times> string) list"
  rq_body :: string

type_synonym reply = "(int \<times> string \<times> bool) option"

text \<open>
  \<open>web_float\<close> is what \<^verbatim>\<open>int64\<close> makes of a number literal read as a \<^verbatim>\<open>float64\<close>, \<open>None\<close> when the literal is out of the
  range of floats. \<open>web_do\<close> is the \<^verbatim>\<open>Do\<close> of an HTTP client with the given timeout, \<open>web_allow\<close> the \<^verbatim>\<open>Allow\<close> of a
  \<^verbatim>\<open>rate.Limiter\<close> with the given limit and burst.
\<close>

record 'w web =
  web_parse :: "string \<Rightarrow> (string \<times> string) option"
  web_accepts :: "string \<Rightarrow> string \<Rightarrow> bool"
  web_float :: "string \<Rightarrow> int option"
  web_now :: "'w \<Rightarrow> int"
  web_do :: "int \<Rightarrow> web_request \<Rightarrow> 'w \<Rightarrow> reply \<times> 'w"
  web_allow :: "rat \<Rightarrow> int \<Rightarrow> 'w \<Rightarrow> bool \<times> 'w"

text \<open>\<^verbatim>\<open>url.Values.Encode\<close>.\<close>

definition values_encode :: "(string \<times> string) list \<Rightarrow> string" where
  "values_encode vs = JoinChar (CHR ''&'') (map (\<lambda>(k, v). query_escape k @ ''='' @ query_escape v) (sort_key fst vs))"

section \<open>The OAuth client\<close>

record AccessToken =
  at_Value :: string
  at_Expiration :: int

record OAuthClient =
  clientID :: string
  clientSecret :: string
  authURL :: string
  authLabel :: string
  oauth_timeout :: int
  lastToken :: "AccessToken option"

definition metricsEndpointLabel :: "'w web \<Rightarrow> string \<Rightarrow> string" where
  "metricsEndpointLabel web rawURL =
     (case web_parse web rawURL of
        None \<Rightarrow> ''invalid_endpoint''
      | Some (scheme, host) \<Rightarrow>
          if host \<noteq> [] then (if scheme \<noteq> [] then scheme @ ''://'' @ host else host) else ''invalid_endpoint'')"

definition NewOAuthClient :: "'w web \<Rightarrow> string \<Rightarrow> string \<Rightarrow> string \<Rightarrow> int \<Rightarrow> OAuthClient" where
  "NewOAuthClient web cid secret url timeout =
     \<lparr>clientID = cid, clientSecret = secret, authURL = url, authLabel = metricsEndpointLabel web url, oauth_timeout = timeout, lastToken = None\<rparr>"

datatype oauth_error = BadRequest | BadEndpoint | FailedWith int | BadResponse | NoAccessToken | NoExpiration

text \<open>
  Decoding into a \<^verbatim>\<open>map[string]interface{}\<close>: every number of the tree is read as a float; of a repeated member the last
  one counts; \<^verbatim>\<open>null\<close> is the nil map.
\<close>

fun floats_ok :: "(string \<Rightarrow> int option) \<Rightarrow> json \<Rightarrow> bool" where
  "floats_ok f (JNum lit) = (f lit \<noteq> None)"
| "floats_ok f (JArr vs) = list_all (floats_ok f) vs"
| "floats_ok f (JObj ms) = list_all (\<lambda>m. floats_ok f (snd m)) ms"
| "floats_ok f _ = True"

definition is_container :: "json \<Rightarrow> bool" where
  "is_container j \<longleftrightarrow> (case j of JArr _ \<Rightarrow> True | JObj _ \<Rightarrow> True | _ \<Rightarrow> False)"

text \<open>
  \<^verbatim>\<open>json.NewDecoder(resp.Body).Decode\<close>: the first value of the body, whatever follows it. The end of an array or an
  object is seen at its bracket, that of another value only at the byte after it or at the end of the body.
\<close>

definition decode_any_map :: "(string \<Rightarrow> int option) \<Rightarrow> string \<Rightarrow> bool \<Rightarrow> (string \<times> json) list option" where
  "decode_any_map f body whole =
     (case json_decode body of
        None \<Rightarrow> None
      | Some (j, r) \<Rightarrow>
          if \<not> whole \<and> r = [] \<and> \<not> is_container j then None
          else (case j of
                  JObj ms \<Rightarrow> if floats_ok f j then Some ms else None
                | JNull \<Rightarrow> Some []
                | _ \<Rightarrow> None))"

text \<open>64-bit addition; the clock is read again after the reply.\<close>

definition token_of_reply :: "'w web \<Rightarrow> int \<Rightarrow> reply \<Rightarrow> oauth_error + AccessToken" where
  "token_of_reply web now a =
     (case a of
        None \<Rightarrow> Inl BadEndpoint
      | Some (code, body, whole) \<Rightarrow>
          if code \<noteq> 200 then Inl (FailedWith code)
          else (case decode_any_map (web_float web) body whole of
                  None \<Rightarrow> Inl BadResponse
                | Some result \<Rightarrow>
                    (case map_of (rev result) ''access_token'' of
                       Some (JStr accessToken) \<Rightarrow>
                         (case map_of (rev result) ''expires_in'' of
                            Some (JNum lit) \<Rightarrow>
                              Inr \<lparr>at_Value = accessToken,
                                at_Expiration = sint (word_of_int now + word_of_int (the (web_float web lit)) - 60 :: u64)\<rparr>
                          | _ \<Rightarrow> Inl NoExpiration)
                     | _ \<Rightarrow> Inl NoAccessToken)))"

definition token_request :: "OAuthClient \<Rightarrow> web_request" where
  "token_request c =
     \<lparr>rq_method = ''POST'', rq_url = authURL c, rq_headers = [(''Content-Type'', ''application/x-www-form-urlencoded'')],
      rq_body = values_encode [(''grant_type'', ''client_credentials''), (''client_id'', clientID c),
        (''client_secret'', clientSecret c), (''scope'', ''services/read'')]\<rparr>"

definition authenticate :: "'w web \<Rightarrow> (OAuthClient \<times> 'w, oauth_error, AccessToken) act" where
  "authenticate web = (\<lambda>(c, w).
     if \<not> web_accepts web ''POST'' (authURL c) then (Err BadRequest, (c, w)) else
     let (a, w') = web_do web (oauth_timeout c) (token_request c) w
     in case token_of_reply web (web_now web w') a of
          Inl e \<Rightarrow> (Err e, (c, w'))
        | Inr t \<Rightarrow> (Ok t, (c\<lparr>lastToken := Some t\<rparr>, w')))"

definition cached_token :: "int \<Rightarrow> OAuthClient \<Rightarrow> AccessToken option" where
  "cached_token now c = (case lastToken c of None \<Rightarrow> None | Some t \<Rightarrow> if now < at_Expiration t then Some t else None)"

definition GetAccessToken :: "'w web \<Rightarrow> (OAuthClient \<times> 'w, oauth_error, AccessToken) act" where
  "GetAccessToken web = (\<lambda>(c, w).
     case cached_token (web_now web w) c of
       Some t \<Rightarrow> (Ok t, (c, w))
     | None \<Rightarrow> authenticate web (c, w))"

section \<open>The options of the client\<close>

record ClientOptions =
  co_apiURL :: string
  co_authURL :: string
  co_clientID :: string
  co_clientSecret :: string
  co_rateLimit :: rat
  co_rateBurst :: int
  co_timeout :: int

type_synonym ClientOption = "ClientOptions \<Rightarrow> ClientOptions"

datatype options_error = ClientIDRequired | ClientSecretRequired

definition API_URL :: string where
  "API_URL = ''https://api.aptosorbital.com''"

definition AUTH_URL :: string where
  "AUTH_URL = ''https://auth.aptosorbital.com/oauth2/token''"

definition defaults :: "ClientOptions \<Rightarrow> options_error + ClientOptions" where
  "defaults o0 =
     (let o1 = (if co_apiURL o0 = [] then o0\<lparr>co_apiURL := API_URL\<rparr> else o0);
          o2 = (if co_authURL o1 = [] then o1\<lparr>co_authURL := AUTH_URL\<rparr> else o1)
      in if co_clientID o2 = [] then Inl ClientIDRequired
         else if co_clientSecret o2 = [] then Inl ClientSecretRequired
         else
           let o3 = (if co_rateLimit o2 = 0 then o2\<lparr>co_rateLimit := 1 / 5\<rparr> else o2);
               o4 = (if co_rateBurst o3 = 0 then o3\<lparr>co_rateBurst := 1\<rparr> else o3)
           in Inr (if co_timeout o4 = 0 then o4\<lparr>co_timeout := 20 * 1000000000\<rparr> else o4))"

definition apply_options :: "ClientOption list \<Rightarrow> ClientOptions \<Rightarrow> options_error + ClientOptions" where
  "apply_options opts o0 = defaults (foldl (\<lambda>acc opt. opt acc) o0 opts)"

definition WithTimeout :: "int \<Rightarrow> ClientOption" where
  "WithTimeout timeout acc = acc\<lparr>co_timeout := timeout\<rparr>"

definition WithApiURL :: "string \<Rightarrow> ClientOption" where
  "WithApiURL url acc = acc\<lparr>co_apiURL := url\<rparr>"

definition WithAuthURL :: "string \<Rightarrow> ClientOption" where
  "WithAuthURL url acc = acc\<lparr>co_authURL := url\<rparr>"

definition WithClientID :: "string \<Rightarrow> ClientOption" where
  "WithClientID cid acc = acc\<lparr>co_clientID := cid\<rparr>"

definition WithClientSecret :: "string \<Rightarrow> ClientOption" where
  "WithClientSecret secret acc = acc\<lparr>co_clientSecret := secret\<rparr>"

definition WithRateLimit :: "rat \<Rightarrow> int \<Rightarrow> ClientOption" where
  "WithRateLimit limit burst acc = acc\<lparr>co_rateLimit := limit, co_rateBurst := burst\<rparr>"

lemmas option_defs = WithTimeout_def WithApiURL_def WithAuthURL_def WithClientID_def WithClientSecret_def WithRateLimit_def

definition no_options :: ClientOptions where
  "no_options = \<lparr>co_apiURL = [], co_authURL = [], co_clientID = [], co_clientSecret = [], co_rateLimit = 0, co_rateBurst = 0, co_timeout = 0\<rparr>"

section \<open>The client of the service\<close>

text \<open>The options and, as the state it starts in, the OAuth client.\<close>

definition NewClient :: "'w web \<Rightarrow> ClientOption list \<Rightarrow> options_error + ClientOptions \<times> OAuthClient" where
  "NewClient web opts =
     rbind (apply_options opts no_options) (\<lambda>o1.
       Inr (o1, NewOAuthClient web (co_clientID o1) (co_clientSecret o1) (co_authURL o1) (co_timeout o1)))"

datatype client_error =
    AuthenticationFailed oauth_error | BadTarget | Unreachable | DailyRateLimitExceeded
  | FailedRequest int string | ReadFailed | DecodeFailed | RateLimitExceeded | EmptyResponse

type_synonym ('w, 'a) orbital = "(OAuthClient \<times> 'w, client_error, 'a) act"

definition getHeaders :: "'w web \<Rightarrow> ('w, (string \<times> string) list) orbital" where
  "getHeaders web =
     andThen (wrapErr AuthenticationFailed (GetAccessToken web)) (\<lambda>t.
       ret [(''Authorization'', ''Bearer '' @ at_Value t)])"

text \<open>
  The request built from its parts. The names of the headers are canonical in every call, so that setting one replaces
  the entry of the same name.
\<close>

definition build_request ::
    "string \<Rightarrow> string \<Rightarrow> (string \<times> string) list \<Rightarrow> json option \<Rightarrow> (string \<times> string) list option \<Rightarrow> web_request" where
  "build_request meth url headers data params =
     \<lparr>rq_method = meth,
      rq_url = (case params of None \<Rightarrow> url | Some ps \<Rightarrow> url @ ''?'' @ values_encode ps),
      rq_headers = (case data of None \<Rightarrow> headers | Some _ \<Rightarrow> put_entry ''Content-Type'' ''application/json'' headers),
      rq_body = (case data of None \<Rightarrow> [] | Some d \<Rightarrow> json_print d)\<rparr>"

text \<open>The status is looked at before the body is read.\<close>

definition read_reply :: "'a decoder \<Rightarrow> 'a \<Rightarrow> reply \<Rightarrow> client_error + 'a" where
  "read_reply dec zero a =
     (case a of
        None \<Rightarrow> Inl Unreachable
      | Some (code, body, whole) \<Rightarrow>
          if code < 200 \<or> code > 202 then
            (if code = 400 then Inl DailyRateLimitExceeded else Inl (FailedRequest code body))
          else if \<not> whole then Inl ReadFailed
          else (case json_unmarshal dec zero body of None \<Rightarrow> Inl DecodeFailed | Some result \<Rightarrow> Inr result))"

definition makeRequest ::
    "'w web \<Rightarrow> ClientOptions \<Rightarrow> 'a decoder \<Rightarrow> 'a \<Rightarrow> string \<Rightarrow> string \<Rightarrow> (string \<times> string) list \<Rightarrow> json option \<Rightarrow> (string \<times> string) list option
      \<Rightarrow> ('w, 'a) orbital" where
  "makeRequest web opts dec zero meth url headers data params =
     (let q = build_request meth url headers data params in
      andThen (require (web_accepts web (rq_method q) (rq_url q)) BadTarget) (\<lambda>_ (c, w).
        let (a, w') = web_do web (co_timeout opts) q w in check (read_reply dec zero a) (c, w')))"

section \<open>Random seeds\<close>

record trngSeed =
  Chunk :: string
  Signature :: string

definition seed_field :: "string \<Rightarrow> trngSeed decoder" where
  "seed_field k =
     (if is_field ''chunk'' k then dec_field Chunk Chunk_update dec_string
      else if is_field ''signature'' k then dec_field Signature Signature_update dec_string
      else dec_skip)"

definition dec_seeds :: "trngSeed list option decoder" where
  "dec_seeds = dec_slice (dec_struct seed_field) \<lparr>Chunk = [], Signature = []\<rparr>"

record TrngRequest =
  tq_IgnoreSig :: bool
  tq_Chunks :: u32

record TrngResponse =
  ts_Values :: "string list"
  ts_Sig :: string

definition seed_url :: "ClientOptions \<Rightarrow> bool \<Rightarrow> u64 \<Rightarrow> string" where
  "seed_url opts noSig numChunk =
     co_apiURL opts @ ''/services/v1/trng_seed?no_sig='' @ (if noSig then ''1'' else ''0'') @ ''&num_chunk='' @ FormatNat (unat numChunk)"

definition seed_response :: "trngSeed list \<Rightarrow> TrngResponse" where
  "seed_response seeds = \<lparr>ts_Values = map Chunk seeds, ts_Sig = (case seeds of [] \<Rightarrow> [] | r # _ \<Rightarrow> Signature r)\<rparr>"

definition seeds_result :: "trngSeed list option \<Rightarrow> ('w, TrngResponse) orbital" where
  "seeds_result resp = (case resp of None \<Rightarrow> fail EmptyResponse | Some seeds \<Rightarrow> if seeds = [] then fail EmptyResponse else ret (seed_response seeds))"

definition GetTrueRandomnessSeed :: "'w web \<Rightarrow> ClientOptions \<Rightarrow> bool \<Rightarrow> u64 \<Rightarrow> ('w, TrngResponse) orbital" where
  "GetTrueRandomnessSeed web opts noSig numChunk = (\<lambda>(c, w).
     let (allowed, w1) = web_allow web (co_rateLimit opts) (co_rateBurst opts) w in
     if \<not> allowed then (Err RateLimitExceeded, (c, w1)) else
     andThen (getHeaders web) (\<lambda>headers.
     andThen (makeRequest web opts dec_seeds None ''GET'' (seed_url opts noSig numChunk) headers None None) seeds_result) (c, w1))"

section \<open>The plugin\<close>

record aptosOrbitalConfig =
  AptosOrbitalApiUrl :: string
  AptosOrbitalAuthUrl :: string
  AptosOrbitalClientId :: string
  AptosOrbitalClientSecret :: string
  AptosOrbitalRateLimit :: rat
  AptosOrbitalTimeout :: int

definition NewPlugin :: "'w web \<Rightarrow> aptosOrbitalConfig \<Rightarrow> options_error + ClientOptions \<times> OAuthClient" where
  "NewPlugin web cfg =
     NewClient web [WithApiURL (AptosOrbitalApiUrl cfg), WithAuthURL (AptosOrbitalAuthUrl cfg), WithClientID (AptosOrbitalClientId cfg),
       WithClientSecret (AptosOrbitalClientSecret cfg), WithRateLimit (AptosOrbitalRateLimit cfg) 2, WithTimeout (seconds (AptosOrbitalTimeout cfg))]"

text \<open>A failure is answered with no values, so that the caller falls back to the master seeds.\<close>

definition num_chunk :: "TrngRequest \<Rightarrow> u64" where
  "num_chunk req = (if tq_Chunks req = 0 then 1 else ucast (tq_Chunks req))"

definition GetTrng :: "'w web \<Rightarrow> ClientOptions \<Rightarrow> TrngRequest \<Rightarrow> (OAuthClient \<times> 'w, grpc_code, TrngResponse) act" where
  "GetTrng web opts req =
     attempt (GetTrueRandomnessSeed web opts (tq_IgnoreSig req) (num_chunk req)) (\<lambda>r.
       case r of
         Inr resp \<Rightarrow> if ts_Values resp \<noteq> [] then ret resp else ret \<lparr>ts_Values = [], ts_Sig = []\<rparr>
       | Inl _ \<Rightarrow> ret \<lparr>ts_Values = [], ts_Sig = []\<rparr>)"

section \<open>What the plugin sends\<close>

text \<open>The world with a log: each answer of the limiter and each request with its reply, and the time after it.\<close>

datatype web_event = Asked bool int | Sent web_request reply int

definition observed :: "'w web \<Rightarrow> ('w \<times> web_event list) web" where
  "observed web = \<lparr>web_parse = web_parse web, web_accepts = web_accepts web, web_float = web_float web, web_now = (\<lambda>(w, l). web_now web w),
     web_do = (\<lambda>d q (w, l). let (a, w') = web_do web d q w in (a, (w', l @ [Sent q a (web_now web w')]))),
     web_allow = (\<lambda>r b (w, l). let (ok, w') = web_allow web r b w in (ok, (w', l @ [Asked ok (web_now web w')])))\<rparr>"

definition seed_request :: "ClientOptions \<Rightarrow> AccessToken \<Rightarrow> TrngRequest \<Rightarrow> web_request" where
  "seed_request opts t req =
     \<lparr>rq_method = ''GET'', rq_url = seed_url opts (tq_IgnoreSig req) (num_chunk req),
      rq_headers = [(''Authorization'', ''Bearer '' @ at_Value t)], rq_body = []\<rparr>"

text \<open>A token that the endpoint issued to the client \<open>c0\<close>, according to a log.\<close>

definition issued :: "'w web \<Rightarrow> OAuthClient \<Rightarrow> web_event list \<Rightarrow> AccessToken \<Rightarrow> bool" where
  "issued web c0 l t \<longleftrightarrow> (\<exists>a tm. Sent (token_request c0) a tm \<in> set l \<and> token_of_reply web tm a = Inr t)"

text \<open>The seeds that the service delivered: none unless the reply is a success, complete, and a list of seeds.\<close>

definition delivered :: "web_event list \<Rightarrow> trngSeed list" where
  "delivered api =
     (case api of
        [Sent q (Some (code, body, True)) tm] \<Rightarrow>
          (if code \<in> {200, 201, 202} then
             (case json_unmarshal dec_seeds None body of Some (Some seeds) \<Rightarrow> seeds | _ \<Rightarrow> [])
           else [])
      | _ \<Rightarrow> [])"

text \<open>
  What one call adds to the log, after \<open>past\<close>, and its answer: the limiter is asked once; nothing is sent when it
  declines; otherwise at most one request for a token and then at most one for seeds, with a token that was issued to this
  client and, when it was not issued just now, has not expired; the answer holds what the service delivered.
\<close>

definition trng_segment :: "'w web \<Rightarrow> ClientOptions \<Rightarrow> OAuthClient \<Rightarrow> web_event list \<Rightarrow> TrngRequest \<Rightarrow> (grpc_code, TrngResponse) res \<Rightarrow> web_event list \<Rightarrow> bool" where
  "trng_segment web opts c0 past req r seg \<longleftrightarrow>
     (\<exists>allowed now auth api. seg = Asked allowed now # auth @ api
        \<and> (auth = [] \<or> (\<exists>a tm. auth = [Sent (token_request c0) a tm]))
        \<and> (api = [] \<or> (\<exists>t a tm. api = [Sent (seed_request opts t req) a tm] \<and> issued web c0 (past @ auth) t
               \<and> (auth = [] \<longrightarrow> now < at_Expiration t)))
        \<and> (\<not> allowed \<longrightarrow> auth = [] \<and> api = [])
        \<and> r = Ok (seed_response (delivered api)))"

fun trng_log :: "'w web \<Rightarrow> ClientOptions \<Rightarrow> OAuthClient \<Rightarrow> web_event list \<Rightarrow> TrngRequest list \<Rightarrow> (grpc_code, TrngResponse) res list \<Rightarrow> web_event list \<Rightarrow> bool" where
  "trng_log web opts c0 past [] [] l \<longleftrightarrow> l = []"
| "trng_log web opts c0 past (req # reqs) (r # rs) l \<longleftrightarrow>
     (\<exists>seg rest. l = seg @ rest \<and> trng_segment web opts c0 past req r seg \<and> trng_log web opts c0 (past @ seg) reqs rs rest)"
| "trng_log web opts c0 past _ _ l \<longleftrightarrow> False"

text \<open>The invariant: the client has the credentials it was made with, and the token it keeps was issued to it.\<close>

definition orbital_inv :: "'w web \<Rightarrow> OAuthClient \<Rightarrow> OAuthClient \<Rightarrow> web_event list \<Rightarrow> bool" where
  "orbital_inv web c0 c l \<longleftrightarrow> (\<exists>last. c = c0\<lparr>lastToken := last\<rparr>) \<and> (\<forall>t. lastToken c = Some t \<longrightarrow> issued web c0 l t)"

lemma issued_mono: "issued web c0 l t \<Longrightarrow> set l \<subseteq> set l' \<Longrightarrow> issued web c0 l' t"
  unfolding issued_def by blast

lemma orbital_inv_mono: "orbital_inv web c0 c l \<Longrightarrow> set l \<subseteq> set l' \<Longrightarrow> orbital_inv web c0 c l'"
  unfolding orbital_inv_def using issued_mono by blast

lemma orbital_inv_request: "orbital_inv web c0 c l \<Longrightarrow> token_request c = token_request c0"
  by (auto simp: orbital_inv_def token_request_def)

lemma observed_simps [simp]:
  "web_accepts (observed web) = web_accepts web" "web_float (observed web) = web_float web" "web_now (observed web) (w, l) = web_now web w"
  "web_do (observed web) d q (w, l) = (let (a, w') = web_do web d q w in (a, (w', l @ [Sent q a (web_now web w')])))"
  "web_allow (observed web) b n (w, l) = (let (ok, w') = web_allow web b n w in (ok, (w', l @ [Asked ok (web_now web w')])))"
  by (simp_all add: observed_def)

lemma token_of_reply_observed [simp]: "token_of_reply (observed web) = token_of_reply web"
  unfolding token_of_reply_def observed_simps ..

lemma GetAccessToken_observed:
  assumes inv: "orbital_inv web c0 c l" and run: "GetAccessToken (observed web) (c, (w, l)) = (r, (c', (w', l')))"
  shows "\<exists>auth. l' = l @ auth \<and> (auth = [] \<or> (\<exists>a tm. auth = [Sent (token_request c0) a tm])) \<and> orbital_inv web c0 c' l'
    \<and> r \<noteq> Panics \<and> (\<forall>t. r = Ok t \<longrightarrow> issued web c0 l' t \<and> (auth = [] \<longrightarrow> web_now web w < at_Expiration t))"
proof (cases "cached_token (web_now web w) c")
  case (Some t)
  then have "lastToken c = Some t" "web_now web w < at_Expiration t"
    by (auto simp: cached_token_def split: option.splits if_splits)
  with Some run inv show ?thesis by (auto simp: GetAccessToken_def orbital_inv_def)
next
  case None
  with run have run': "authenticate (observed web) (c, (w, l)) = (r, (c', (w', l')))" by (simp add: GetAccessToken_def)
  show ?thesis
  proof (cases "web_accepts web ''POST'' (authURL c)")
    case False
    with run' inv show ?thesis by (auto simp: authenticate_def)
  next
    case True
    obtain a w1 where sent: "web_do web (oauth_timeout c) (token_request c0) w = (a, w1)" by (metis surj_pair)
    define l1 where "l1 = l @ [Sent (token_request c0) a (web_now web w1)]"
    have kept: "orbital_inv web c0 c l1" using inv by (rule orbital_inv_mono) (auto simp: l1_def)
    have here: "token_of_reply web (web_now web w1) a = Inr t \<Longrightarrow> issued web c0 l1 t" for t
      unfolding issued_def l1_def by fastforce
    have "(case token_of_reply web (web_now web w1) a of Inl e \<Rightarrow> (Err e, (c, (w1, l1))) | Inr t \<Rightarrow> (Ok t, (c\<lparr>lastToken := Some t\<rparr>, (w1, l1)))) = (r, (c', (w', l')))"
      using run' True sent orbital_inv_request [OF inv] by (simp add: authenticate_def flip: l1_def)
    moreover have "orbital_inv web c0 (c\<lparr>lastToken := Some t\<rparr>) l1" if "token_of_reply web (web_now web w1) a = Inr t" for t
      using kept here [OF that] by (auto simp: orbital_inv_def)
    ultimately show ?thesis using kept here by (auto simp: l1_def split: sum.splits)
  qed
qed

lemma seed_response_Nil: "seed_response [] = \<lparr>ts_Values = [], ts_Sig = []\<rparr>"
  by (simp add: seed_response_def)

lemma ts_Values_seed_response [simp]: "ts_Values (seed_response seeds) = map Chunk seeds"
  by (simp add: seed_response_def)

text \<open>The seeds in a reply, and the same reply as the log has it.\<close>

definition reply_seeds :: "reply \<Rightarrow> trngSeed list" where
  "reply_seeds a = (case read_reply dec_seeds None a of Inr (Some seeds) \<Rightarrow> seeds | _ \<Rightarrow> [])"

lemma delivered_reply: "delivered [Sent q a tm] = reply_seeds a"
proof (cases a)
  case (Some p)
  then obtain code body whole where a: "a = Some (code, body, whole)" by (metis surj_pair)
  have "code \<in> {200, 201, 202} \<longleftrightarrow> \<not> (code < 200 \<or> code > 202)" by auto
  then show ?thesis
    by (cases "code < 200 \<or> code > 202"; cases whole; simp only: a delivered_def reply_seeds_def read_reply_def list.case web_event.case option.case prod.case)
       (simp_all split: option.split)
qed (simp add: delivered_def reply_seeds_def read_reply_def)

lemma build_seed_request:
  "build_request ''GET'' (seed_url opts (tq_IgnoreSig req) (num_chunk req)) [(''Authorization'', ''Bearer '' @ at_Value t)] None None = seed_request opts t req"
  by (simp add: build_request_def seed_request_def)

lemma makeRequest_run:
  "makeRequest web opts dec zero meth url headers data params (c, w) =
     (let q = build_request meth url headers data params in
      if web_accepts web (rq_method q) (rq_url q) then
        (let (a, w') = web_do web (co_timeout opts) q w
         in (case read_reply dec zero a of Inl e \<Rightarrow> Err e | Inr x \<Rightarrow> Ok x, (c, w')))
      else (Err BadTarget, (c, w)))"
  by (simp add: makeRequest_def Let_def check_def require_def split: prod.split sum.split)

text \<open>\<open>GetTrng\<close> with the calls it makes written out.\<close>

lemma GetTrng_run:
  assumes allow: "web_allow web (co_rateLimit opts) (co_rateBurst opts) w = (allowed, w1)"
  shows "GetTrng web opts req (c, w) =
     (if \<not> allowed then (Ok (seed_response []), (c, w1)) else
      (case GetAccessToken web (c, w1) of
         (Ok t, (c2, w2)) \<Rightarrow>
           (if web_accepts web ''GET'' (rq_url (seed_request opts t req)) then
              (let (a, w3) = web_do web (co_timeout opts) (seed_request opts t req) w2 in (Ok (seed_response (reply_seeds a)), (c2, w3)))
            else (Ok (seed_response []), (c2, w2)))
       | (Err e, s2) \<Rightarrow> (Ok (seed_response []), s2)
       | (Panics, s2) \<Rightarrow> (Panics, s2)))"
proof (cases allowed)
  case False
  with allow show ?thesis by (simp add: GetTrng_def GetTrueRandomnessSeed_def attempt_def seed_response_Nil)
next
  case True
  let ?get = "makeRequest web opts dec_seeds None ''GET'' (seed_url opts (tq_IgnoreSig req) (num_chunk req))"
  have call: "GetTrueRandomnessSeed web opts (tq_IgnoreSig req) (num_chunk req) (c, w) =
      andThen (getHeaders web) (\<lambda>headers. andThen (?get headers None None) seeds_result) (c, w1)"
    using allow True by (simp add: GetTrueRandomnessSeed_def)
  obtain r c2 w2 where tok: "GetAccessToken web (c, w1) = (r, (c2, w2))" by (metis surj_pair)
  show ?thesis
  proof (cases r)
    case (Ok t)
    let ?q = "seed_request opts t req"
    have headers: "getHeaders web (c, w1) = (Ok [(''Authorization'', ''Bearer '' @ at_Value t)], (c2, w2))"
      using tok Ok by (simp add: getHeaders_def wrapErr_def attempt_def andThen_def)
    obtain a w3 where sent: "web_do web (co_timeout opts) ?q w2 = (a, w3)" by (metis surj_pair)
    have get: "?get [(''Authorization'', ''Bearer '' @ at_Value t)] None None (c2, w2) =
        (if web_accepts web ''GET'' (rq_url ?q) then (case read_reply dec_seeds None a of Inl e \<Rightarrow> Err e | Inr x \<Rightarrow> Ok x, (c2, w3))
         else (Err BadTarget, (c2, w2)))"
      unfolding makeRequest_run build_seed_request Let_def sent prod.case by (simp add: seed_request_def)
    show ?thesis
      using call headers get tok Ok True sent
      by (cases "read_reply dec_seeds None a")
         (auto simp: GetTrng_def attempt_def andThen_run andThen_def seeds_result_def reply_seeds_def seed_response_Nil split: option.split)
  next
    case (Err e)
    with call tok True show ?thesis
      by (simp add: GetTrng_def getHeaders_def attempt_def andThen_def wrapErr_def seed_response_Nil)
  next
    case Panics
    with call tok True show ?thesis
      by (simp add: GetTrng_def getHeaders_def attempt_def andThen_def wrapErr_def)
  qed
qed

lemma trng_step:
  assumes inv: "orbital_inv web c0 c l" and run: "GetTrng (observed web) opts req (c, (w, l)) = (r, (c', (w', l')))"
  shows "\<exists>seg. l' = l @ seg \<and> trng_segment web opts c0 l req r seg \<and> orbital_inv web c0 c' l'"
proof -
  obtain allowed w1 where allow: "web_allow web (co_rateLimit opts) (co_rateBurst opts) w = (allowed, w1)" by (metis surj_pair)
  define ask where "ask = Asked allowed (web_now web w1)"
  have allow': "web_allow (observed web) (co_rateLimit opts) (co_rateBurst opts) (w, l) = (allowed, (w1, l @ [ask]))"
    using allow by (simp add: ask_def)
  have inv1: "orbital_inv web c0 c (l @ [ask])" using inv by (rule orbital_inv_mono) auto
  note run = run [unfolded GetTrng_run [OF allow']]
  have none: "delivered [] = []" by (simp add: delivered_def)
  show ?thesis
  proof (cases allowed)
    case False
    with run inv1 none show ?thesis
      by (intro exI [of _ "[ask]"]) (auto simp: trng_segment_def ask_def)
  next
    case True
    obtain r2 c2 w2 l2 where tok: "GetAccessToken (observed web) (c, (w1, l @ [ask])) = (r2, (c2, (w2, l2)))" by (metis surj_pair)
    from GetAccessToken_observed [OF inv1 tok] obtain auth where l2: "l2 = (l @ [ask]) @ auth"
      and auth: "auth = [] \<or> (\<exists>a tm. auth = [Sent (token_request c0) a tm])" and inv2: "orbital_inv web c0 c2 l2" and np: "r2 \<noteq> Panics"
      and good: "\<And>t. r2 = Ok t \<Longrightarrow> issued web c0 l2 t \<and> (auth = [] \<longrightarrow> web_now web w1 < at_Expiration t)" by blast
    have quiet: ?thesis if res: "r = Ok (seed_response [])" "c' = c2" "l' = l2"
    proof -
      have "trng_segment web opts c0 l req r (ask # auth @ [])"
        unfolding trng_segment_def ask_def res(1) by (intro exI conjI, rule refl) (use auth none True in simp_all)
      with res inv2 l2 show ?thesis by (intro exI [of _ "ask # auth"]) simp
    qed
    show ?thesis
    proof (cases r2)
      case (Ok t)
      show ?thesis
      proof (cases "web_accepts web ''GET'' (rq_url (seed_request opts t req))")
        case False
        with run tok Ok True quiet show ?thesis by simp
      next
        case acc: True
        obtain a w3 where sent: "web_do web (co_timeout opts) (seed_request opts t req) w2 = (a, w3)" by (metis surj_pair)
        let ?ev = "Sent (seed_request opts t req) a (web_now web w3)"
        from run tok Ok True acc sent have res: "r = Ok (seed_response (delivered [?ev]))" "c' = c2" "l' = l2 @ [?ev]"
          by (auto simp: delivered_reply)
        have iss: "issued web c0 (l @ auth) t" using good [OF Ok] unfolding issued_def l2 ask_def by auto
        have "orbital_inv web c0 c' l'" unfolding res by (rule orbital_inv_mono [OF inv2]) auto
        moreover have "trng_segment web opts c0 l req r (ask # auth @ [?ev])"
          unfolding trng_segment_def ask_def
          by (rule exI [of _ allowed], rule exI [of _ "web_now web w1"], rule exI [of _ auth], rule exI [of _ "[?ev]"])
             (use auth iss good [OF Ok] True res in blast)
        ultimately show ?thesis using res l2 by (intro exI [of _ "ask # auth @ [?ev]"]) simp
      qed
    next
      case (Err e)
      with run tok True quiet show ?thesis by simp
    qed (use np in blast)
  qed
qed

lemma trng_runs:
  assumes "orbital_inv web c0 c l" "runs (GetTrng (observed web) opts) reqs (c, (w, l)) = (rs, (c', (w', l')))"
  shows "\<exists>new. l' = l @ new \<and> trng_log web opts c0 l reqs rs new"
  using assms
proof (induction reqs arbitrary: c w l rs)
  case (Cons req reqs)
  obtain r c1 w1 l1 where call: "GetTrng (observed web) opts req (c, (w, l)) = (r, (c1, (w1, l1)))" by (metis surj_pair)
  obtain rs1 s2 where rest: "runs (GetTrng (observed web) opts) reqs (c1, (w1, l1)) = (rs1, s2)" by (metis surj_pair)
  from Cons.prems(2) call rest have rs: "rs = r # rs1" and s2: "s2 = (c', (w', l'))" by simp_all
  from trng_step [OF Cons.prems(1) call] obtain seg where seg: "l1 = l @ seg" "trng_segment web opts c0 l req r seg" "orbital_inv web c0 c1 l1" by blast
  from Cons.IH [OF seg(3) rest [unfolded s2]] obtain new where "l' = l1 @ new" "trng_log web opts c0 l1 reqs rs1 new" by blast
  with seg rs show ?case by (intro exI [of _ "seg @ new"]) auto
qed simp

text \<open>A plugin that was made starts without a token, with the credentials it was given and every option set.\<close>

lemma NewPlugin_run:
  "NewPlugin web cfg =
     (if AptosOrbitalClientId cfg = [] then Inl ClientIDRequired
      else if AptosOrbitalClientSecret cfg = [] then Inl ClientSecretRequired
      else
        let api = (if AptosOrbitalApiUrl cfg = [] then API_URL else AptosOrbitalApiUrl cfg);
            url = (if AptosOrbitalAuthUrl cfg = [] then AUTH_URL else AptosOrbitalAuthUrl cfg);
            timeout = (if seconds (AptosOrbitalTimeout cfg) = 0 then 20000000000 else seconds (AptosOrbitalTimeout cfg))
        in Inr (\<lparr>co_apiURL = api, co_authURL = url, co_clientID = AptosOrbitalClientId cfg, co_clientSecret = AptosOrbitalClientSecret cfg,
                  co_rateLimit = (if AptosOrbitalRateLimit cfg = 0 then 1 / 5 else AptosOrbitalRateLimit cfg), co_rateBurst = 2, co_timeout = timeout\<rparr>,
                NewOAuthClient web (AptosOrbitalClientId cfg) (AptosOrbitalClientSecret cfg) url timeout))"
  by (simp add: NewPlugin_def NewClient_def apply_options_def option_defs no_options_def defaults_def rbind_def Let_def)

lemma NewPlugin_Inr:
  assumes "NewPlugin web cfg = Inr (opts, c)"
  shows "lastToken c = None"
  using assms unfolding NewPlugin_run Let_def by (auto simp: NewOAuthClient_def split: if_splits)

lemma NewPlugin_inv_start:
  assumes "NewPlugin web cfg = Inr (opts, c0)"
  shows "orbital_inv web c0 c0 []"
proof -
  have "c0 = c0\<lparr>lastToken := None\<rparr>" using NewPlugin_Inr [OF assms] by (cases c0) simp
  then show ?thesis unfolding orbital_inv_def using NewPlugin_Inr [OF assms] by (metis option.distinct(1))
qed

text \<open>
  C15. Whatever the token endpoint, the service, the clock and the rate limiter do, and for every sequence of requests to a
  new plugin: each call is answered without an error; it asks the limiter once and sends nothing when the limiter declines;
  otherwise it sends at most one request for a token, with the client's own credentials, and then at most one request for
  seeds, to the URL of the configured service, with a token that the endpoint had issued to this client and that, unless it
  was issued in this very call, had not reached its expiration; and the answer holds exactly the chunks that the service
  delivered in reply, in order, with the first signature, and no values when nothing was delivered.
\<close>

theorem trng_trace:
  assumes "NewPlugin web cfg = Inr (opts, c0)"
    and "runs (GetTrng (observed web) opts) reqs (c0, (w, [])) = (rs, (c', (w', l)))"
  shows "trng_log web opts c0 [] reqs rs l"
proof -
  from trng_runs [OF NewPlugin_inv_start [OF assms(1)] assms(2)] show ?thesis by auto
qed

text \<open>
  A service that issues tokens for an hour and delivers two seeds, a limiter that declines every second request, and a clock
  that advances by 1000 seconds with each exchange. The world counts the exchanges and the questions to the limiter.
\<close>

definition demo_web :: "(int \<times> int) web" where
  "demo_web = \<lparr>web_parse = (\<lambda>_. None), web_accepts = (\<lambda>_ _. True), web_float = (\<lambda>lit. if lit = ''3600'' then Some 3600 else None),
     web_now = (\<lambda>(n, k). n * 1000),
     web_do = (\<lambda>_ q (n, k).
       (Some (200, json_print (if rq_method q = ''POST''
          then JObj [(''access_token'', JStr (CHR ''t'' # Itoa n)), (''expires_in'', JNum ''3600'')]
          else JArr [JObj [(''chunk'', JStr ''aa'')], JObj [(''chunk'', JStr ''bb'')]]), True), (n + 1, k))),
     web_allow = (\<lambda>_ _ (n, k). (k mod 2 = 0, (n, k + 1)))\<rparr>"

definition orbital_demo_config :: aptosOrbitalConfig where
  "orbital_demo_config = \<lparr>AptosOrbitalApiUrl = ''https://a'', AptosOrbitalAuthUrl = ''https://b'', AptosOrbitalClientId = ''id'',
     AptosOrbitalClientSecret = ''key'', AptosOrbitalRateLimit = 1, AptosOrbitalTimeout = 20\<rparr>"

definition demo_opts :: ClientOptions where
  "demo_opts = \<lparr>co_apiURL = ''https://a'', co_authURL = ''https://b'', co_clientID = ''id'', co_clientSecret = ''key'',
     co_rateLimit = 1, co_rateBurst = 2, co_timeout = 20000000000\<rparr>"

definition demo_client :: OAuthClient where
  "demo_client = \<lparr>clientID = ''id'', clientSecret = ''key'', authURL = ''https://b'', authLabel = ''invalid_endpoint'',
     oauth_timeout = 20000000000, lastToken = None\<rparr>"

definition demo_run :: "(grpc_code, TrngResponse) res list \<times> OAuthClient \<times> (int \<times> int) \<times> web_event list" where
  "demo_run = runs (GetTrng (observed demo_web) demo_opts) (replicate 2 \<lparr>tq_IgnoreSig = False, tq_Chunks = 2\<rparr>) (demo_client, ((0, 0), []))"

lemma demo_made: "NewPlugin demo_web orbital_demo_config = Inr (demo_opts, demo_client)"
  by (simp add: NewPlugin_run Let_def NewOAuthClient_def orbital_demo_config_def demo_opts_def demo_client_def metricsEndpointLabel_def demo_web_def seconds_def)

theorem trng_trace_witness:
  "trng_log demo_web demo_opts demo_client [] (replicate 2 \<lparr>tq_IgnoreSig = False, tq_Chunks = 2\<rparr>) (fst demo_run) (snd (snd (snd demo_run)))
   \<and> fst demo_run = [Ok \<lparr>ts_Values = [''aa'', ''bb''], ts_Sig = []\<rparr>, Ok \<lparr>ts_Values = [], ts_Sig = []\<rparr>]"
proof
  obtain rs c w l where run: "demo_run = (rs, (c, (w, l)))" by (metis surj_pair)
  show "trng_log demo_web demo_opts demo_client [] (replicate 2 \<lparr>tq_IgnoreSig = False, tq_Chunks = 2\<rparr>) (fst demo_run) (snd (snd (snd demo_run)))"
    unfolding run fst_conv snd_conv by (rule trng_trace [OF demo_made run [unfolded demo_run_def]])
  show "fst demo_run = [Ok \<lparr>ts_Values = [''aa'', ''bb''], ts_Sig = []\<rparr>, Ok \<lparr>ts_Values = [], ts_Sig = []\<rparr>]"
    by code_simp
qed

end
