(* ===== verification/Settings.thy ===== *)
theory Settings
  imports MasterSeed KmsKeyStore ThresholdPlugin Jwks Account Beacon Auth PatIssuer Orbital
begin

text \<open>
  How the plugins read their configuration: the \<^verbatim>\<open>readFromEnv\<close> and \<^verbatim>\<open>setDefaults\<close> of every \<^verbatim>\<open>config.go\<close> and of
  \<^verbatim>\<open>core/config.go\<close>. The package viper is the record of its getters, each applied to a key and to the default registered
  for it; each reader registers its defaults directly before it reads, so that they are the ones in force. A key without a
  default has the zero value as its default. The locale \<open>viper_contract\<close> says what viper promises of the variables of the
  environment, named here without their prefix.
\<close>

section \<open>Viper\<close>

record viper =
  GetString :: "string \<Rightarrow> string \<Rightarrow> string"
  GetInt :: "string \<Rightarrow> int \<Rightarrow> int"
  GetInt32 :: "string \<Rightarrow> 32 word \<Rightarrow> 32 word"
  GetInt64 :: "string \<Rightarrow> int \<Rightarrow> int"
  GetUint :: "string \<Rightarrow> u64 \<Rightarrow> u64"
  GetUint16 :: "string \<Rightarrow> 16 word \<Rightarrow> 16 word"
  GetUint32 :: "string \<Rightarrow> u32 \<Rightarrow> u32"
  GetFloat64 :: "string \<Rightarrow> rat \<Rightarrow> rat"
  GetDuration :: "string \<Rightarrow> int \<Rightarrow> int"

section \<open>The readers\<close>

record GrpcPluginConfig =
  gc_Plugin :: string
  gc_GrpcPort :: "16 word"
  gc_MetricsPort :: "16 word"

definition core_ReadFromEnv :: "viper \<Rightarrow> GrpcPluginConfig" where
  "core_ReadFromEnv vp =
     \<lparr>gc_Plugin = GetString vp ''PLUGIN'' ''aptosorbital'',
      gc_GrpcPort = GetUint16 vp ''GRPC_PORT'' 50001,
      gc_MetricsPort = GetUint16 vp ''METRICS_PORT'' 9000\<rparr>"

definition account_readFromEnv :: "viper \<Rightarrow> accountConfig" where
  "account_readFromEnv vp =
     \<lparr>DashboardURL = TrimSpace (GetString vp ''ACCOUNT_DASHBOARD_URL'' []),
      Auth0Domain = TrimSpace (GetString vp ''ACCOUNT_AUTH0_DOMAIN'' []),
      Auth0Audience = TrimSpace (GetString vp ''ACCOUNT_AUTH0_AUDIENCE'' []),
      Auth0ClientID = TrimSpace (GetString vp ''ACCOUNT_AUTH0_CLIENT_ID'' []),
      Auth0ClientSecret = TrimSpace (GetString vp ''ACCOUNT_AUTH0_CLIENT_SECRET'' []),
      CreditsPerUnit = GetUint32 vp ''ACCOUNT_CREDITS_PER_UNIT'' 1,
      HTTPTimeoutSecs = GetInt vp ''ACCOUNT_HTTP_TIMEOUT_SECS'' 5\<rparr>"

definition orbital_readFromEnv :: "viper \<Rightarrow> aptosOrbitalConfig" where
  "orbital_readFromEnv vp =
     \<lparr>AptosOrbitalApiUrl = TrimSpace (GetString vp ''APTOS_ORBITAL_API_URL'' ''https://api.aptosorbital.com''),
      AptosOrbitalAuthUrl = TrimSpace (GetString vp ''APTOS_ORBITAL_AUTH_URL'' ''https://auth.aptosorbital.com/oauth2/token''),
      AptosOrbitalClientId = TrimSpace (GetString vp ''APTOS_ORBITAL_CLIENT_ID'' []),
      AptosOrbitalClientSecret = TrimSpace (GetString vp ''APTOS_ORBITAL_CLIENT_SECRET'' []),
      AptosOrbitalRateLimit = GetFloat64 vp ''APTOS_ORBITAL_RATE_LIMIT'' (1 / 2),
      AptosOrbitalTimeout = GetInt vp ''APTOS_ORBITAL_TIMEOUT'' 20\<rparr>"

definition auth_readFromEnv :: "viper \<Rightarrow> authConfig" where
  "auth_readFromEnv vp =
     \<lparr>ac_Auth0Domain = GetString vp ''AUTH0_DOMAIN'' [],
      ac_Auth0Audience = GetString vp ''AUTH0_AUDIENCE'' [],
      ac_PatIss = TrimSpace (GetString vp ''AUTH_PAT_ISS'' []),
      ac_PatAudience = TrimSpace (GetString vp ''AUTH_PAT_AUDIENCE'' []),
      ac_PatIssuerPlugin = TrimSpace (GetString vp ''AUTH_PATISSUER_PLUGIN'' []),
      ac_ServiceClientIDs = TrimSpace (GetString vp ''AUTH_SERVICE_CLIENT_IDS'' [])\<rparr>"

text \<open>The configuration of the beacon with the addresses that it needs to start.\<close>

record beaconConfig = Beacon.Config +
  bc_IPFSPlugin :: string
  bc_CTRNGPlugin :: string
  bc_MasterSeedPlugin :: string
  bc_IPFSAddress :: string
  bc_RegistryRetrievalTimeout :: "32 word"

definition beacon_readFromEnv :: "viper \<Rightarrow> beaconConfig" where
  "beacon_readFromEnv vp =
     \<lparr>bc_BeaconRegistry = GetString vp ''BEACON_REGISTRY'' ''orbitport-registry'',
      bc_DefaultBeaconName = GetString vp ''DEFAULT_BEACON_NAME'' ''randomness-beacon1.0'',
      bc_BeaconMsg = GetString vp ''BEACON_MSG'' ''Rm9ydHVuZQrotKLlr4wK157Xltec'',
      bc_BeaconInterval = GetInt32 vp ''BEACON_UPDATE_INTERVAL'' 60,
      bc_IPFSPlugin = GetString vp ''IPFS_PLUGIN'' ''plugin-ipfs:50002'',
      bc_CTRNGPlugin = GetString vp ''CTRNG_PLUGIN'' ''plugin-aptos-orbital:50001'',
      bc_MasterSeedPlugin = GetString vp ''MASTERSEED_PLUGIN'' ''plugin-masterseed:50003'',
      bc_IPFSAddress = GetString vp ''IPFS_ADDRESS'' ''http://ipfs-node:5001'',
      bc_RegistryRetrievalTimeout = GetInt32 vp ''REGISTRY_RETRIEVAL_TIMEOUT'' 90\<rparr>"

definition ipfs_readFromEnv :: "viper \<Rightarrow> Ipfs.Config" where
  "ipfs_readFromEnv vp =
     \<lparr>IPFSAddress = GetString vp ''IPFS_ADDRESS'' ''http://localhost:5001'',
      CacheSize = GetUint vp ''PLUGIN_CACHE_SIZE'' 100,
      LeaseDuration = GetDuration vp ''IPNS_LEASE_DURATION'' (24 * 3600 * 1000000000),
      MaxAddBytes = GetUint vp ''PLUGIN_MAX_ADD_BYTES'' 1048576,
      MaxGetBytes = GetUint vp ''PLUGIN_MAX_GET_BYTES'' 1048576\<rparr>"

definition jwks_readFromEnv :: "viper \<Rightarrow> jwksConfig" where
  "jwks_readFromEnv vp =
     \<lparr>jc_PatIssuerPlugin = TrimSpace (GetString vp ''JWKS_PATISSUER_PLUGIN'' []),
      jc_HTTPPort = GetUint16 vp ''JWKS_HTTP_PORT'' 8080,
      jc_CacheTTLSecs = GetInt vp ''JWKS_CACHE_TTL_SECS'' 60,
      jc_TimeoutSecs = GetInt vp ''JWKS_TIMEOUT_SECS'' 5\<rparr>"

definition kms_readFromEnv :: "viper \<Rightarrow> kmsConfig" where
  "kms_readFromEnv vp =
     \<lparr>OpenBaoProxyURL = GetString vp ''KMS_OPENBAO_PROXY_URL'' [],
      EthereumMount = GetString vp ''KMS_ETHEREUM_MOUNT'' ''ethereum'',
      PQCMount = GetString vp ''KMS_PQC_MOUNT'' ''pqc'',
      TransitMount = GetString vp ''KMS_TRANSIT_MOUNT'' ''transit'',
      KVMount = GetString vp ''KMS_KV_MOUNT'' ''secret'',
      KeyStoreMount = GetString vp ''KMS_KEY_STORE_MOUNT'' ''key-store'',
      KeyStoreCedarPolicyPath = GetString vp ''KMS_KEY_STORE_CEDAR_POLICY_PATH'' [],
      TimeoutSecs = GetInt vp ''KMS_TIMEOUT_SECS'' 10\<rparr>"

record masterSeedEnv = masterSeedConfig +
  AptosPlugin :: string

definition masterseed_readFromEnv :: "viper \<Rightarrow> masterSeedEnv" where
  "masterseed_readFromEnv vp =
     \<lparr>MasterSeedDefaultMasterSeeds = extractSeeds (GetString vp ''DEFAULT_MASTER_SEEDS'' []),
      MasterSeedTRNGSize = GetInt vp ''MASTER_SEED_TRNG_SIZE'' 32,
      MasterSeedMaxMasterSeeds = GetInt vp ''MASTER_SEED_MAX_MASTER_SEEDS'' 100,
      MaserSeedPeriod = GetInt64 vp ''MASTER_SEED_SEED_PERIOD'' 3600,
      MasterSeedMaxCountPerRequest = GetInt vp ''MASTER_SEED_MAX_COUNT_PER_REQUEST'' 25000,
      AptosPlugin = GetString vp ''APTOS_PLUGIN'' ''plugin-aptos-orbital:50001''\<rparr>"

definition patissuer_readFromEnv :: "viper \<Rightarrow> patissuerConfig" where
  "patissuer_readFromEnv vp =
     \<lparr>pi_Issuer = TrimSpace (GetString vp ''PATISSUER_ISS'' []),
      pi_Audience = TrimSpace (GetString vp ''PATISSUER_AUD'' []),
      pi_Signer = TrimSpace (GetString vp ''PATISSUER_SIGNER'' ''local''),
      pi_LocalKeyPEM = GetString vp ''PATISSUER_LOCAL_KEY_PEM'' [],
      pi_MaxTTLDays = GetInt vp ''PATISSUER_MAX_TTL_DAYS'' 370,
      pi_OpenBaoProxyURL = TrimSpace (GetString vp ''PATISSUER_OPENBAO_PROXY_URL'' []),
      pi_TransitMount = TrimSpace (GetString vp ''PATISSUER_TRANSIT_MOUNT'' ''transit''),
      pi_TransitKey = TrimSpace (GetString vp ''PATISSUER_TRANSIT_KEY'' ''pat-signing''),
      pi_TimeoutSecs = GetInt vp ''PATISSUER_TIMEOUT_SECS'' 10\<rparr>"

definition threshold_readFromEnv :: "viper \<Rightarrow> thresholdConfig" where
  "threshold_readFromEnv vp =
     \<lparr>tc_TimeoutSecs = GetInt vp ''THRESHOLD_TIMEOUT_SECS'' 30,
      tc_SessionSecret = GetString vp ''THRESHOLD_SESSION_SECRET'' [],
      tc_RetryAttempts = GetInt vp ''THRESHOLD_RETRY_ATTEMPTS'' 3,
      tc_RetryBackoffMillis = GetInt vp ''THRESHOLD_RETRY_BACKOFF_MILLIS'' 100\<rparr>"

section \<open>What viper promises\<close>

text \<open>
  A variable that is not set, or is empty, leaves the default in force; a string variable that is set is returned as it
  is. Numbers are converted in ways that nothing here depends on.
\<close>

definition unset :: "(string \<Rightarrow> string option) \<Rightarrow> string \<Rightarrow> bool" where
  "unset env k \<longleftrightarrow> (case env k of None \<Rightarrow> True | Some s \<Rightarrow> s = [])"

definition blank :: "(string \<Rightarrow> string option) \<Rightarrow> string \<Rightarrow> bool" where
  "blank env k \<longleftrightarrow> (case env k of None \<Rightarrow> True | Some s \<Rightarrow> TrimSpace s = [])"

locale viper_contract =
  fixes vp :: viper and env :: "string \<Rightarrow> string option"
  assumes unset_string: "unset env k \<Longrightarrow> GetString vp k d = d"
    and set_string: "env k = Some s \<Longrightarrow> s \<noteq> [] \<Longrightarrow> GetString vp k d = s"
    and unset_number: "unset env k \<Longrightarrow> GetInt vp k n = n" "unset env k \<Longrightarrow> GetInt32 vp k i = i" "unset env k \<Longrightarrow> GetInt64 vp k n = n"
      "unset env k \<Longrightarrow> GetUint vp k u = u" "unset env k \<Longrightarrow> GetUint16 vp k h = h" "unset env k \<Longrightarrow> GetUint32 vp k w = w"
      "unset env k \<Longrightarrow> GetFloat64 vp k f = f" "unset env k \<Longrightarrow> GetDuration vp k n = n"
begin

lemma string_empty: "GetString vp k [] = [] \<longleftrightarrow> unset env k"
proof (cases "env k")
  case None
  then show ?thesis using unset_string [of k "[]"] by (simp add: unset_def)
next
  case (Some s)
  then show ?thesis using unset_string [of k "[]"] set_string [OF Some] by (cases "s = []") (auto simp: unset_def)
qed

lemma string_blank: "TrimSpace (GetString vp k []) = [] \<longleftrightarrow> blank env k"
proof (cases "unset env k")
  case True
  then show ?thesis using unset_string [OF True, of "[]"] by (auto simp: unset_def blank_def TrimSpace_def split: option.splits)
next
  case False
  then obtain s where "env k = Some s" "s \<noteq> []" by (auto simp: unset_def split: option.splits)
  then show ?thesis using set_string by (simp add: blank_def)
qed

lemma string_default: "d \<noteq> [] \<Longrightarrow> GetString vp k d = (if unset env k then d else the (env k))"
  using unset_string [of k d] set_string [of k] by (auto simp: unset_def split: option.splits)

end

text \<open>The getters on an environment given as a map; numbers are decimal.\<close>

definition env_number :: "(string \<Rightarrow> string option) \<Rightarrow> string \<Rightarrow> int \<Rightarrow> int" where
  "env_number env k d = (if unset env k then d else case parse_nat (the (env k)) of None \<Rightarrow> 0 | Some n \<Rightarrow> int n)"

definition env_viper :: "(string \<Rightarrow> string option) \<Rightarrow> viper" where
  "env_viper env =
     \<lparr>GetString = (\<lambda>k d. if unset env k then d else the (env k)), GetInt = env_number env,
      GetInt32 = (\<lambda>k d. if unset env k then d else word_of_int (env_number env k 0)), GetInt64 = env_number env,
      GetUint = (\<lambda>k d. if unset env k then d else word_of_int (env_number env k 0)),
      GetUint16 = (\<lambda>k d. if unset env k then d else word_of_int (env_number env k 0)),
      GetUint32 = (\<lambda>k d. if unset env k then d else word_of_int (env_number env k 0)),
      GetFloat64 = (\<lambda>k d. if unset env k then d else of_int (env_number env k 0)), GetDuration = env_number env\<rparr>"

interpretation env_viper: viper_contract "env_viper env" env
  by unfold_locales (auto simp: env_viper_def env_number_def unset_def)

end
