(* ===== verification/Health.thy ===== *)
theory Health
  imports Prelude "HOL-Library.Multiset"
begin

text \<open>
  The health service of the plugins (\<^verbatim>\<open>core/health/grpc.go\<close>), its client and the wait for the dependencies of a
  plugin (\<^verbatim>\<open>core/health/client.go\<close>), and the check of the IPFS node (\<^verbatim>\<open>beacon/health.go\<close>).

  The wait loop runs until it succeeds or its context ends, which may be never. What happens in round \<open>i\<close> is given by
  functions of \<open>i\<close>: which addresses answer, in which order the map of the remaining addresses is visited, and whether the
  timer fires before the context is done. A loop that does not return has the value \<open>None\<close>.
\<close>

section \<open>The health service\<close>

type_synonym HealthState = "8 word"

definition HealthStateUnknown :: HealthState where "HealthStateUnknown = 0"
definition HealthStateHealthy :: HealthState where "HealthStateHealthy = 1"
definition HealthStateUnhealthy :: HealthState where "HealthStateUnhealthy = 2"

lemmas health_states = HealthStateUnknown_def HealthStateHealthy_def HealthStateUnhealthy_def

text \<open>The status of the gRPC health protocol.\<close>

datatype ServingStatus = UNKNOWN | SERVING | NOT_SERVING | SERVICE_UNKNOWN

definition ToHealthCheckStatus :: "HealthState \<Rightarrow> ServingStatus" where
  "ToHealthCheckStatus state =
     (if state = HealthStateUnknown then UNKNOWN
      else if state = HealthStateHealthy then SERVING
      else if state = HealthStateUnhealthy then NOT_SERVING
      else UNKNOWN)"

text \<open>A checker gives a state and an error, which is \<open>None\<close> for nil.\<close>

type_synonym ('w, 'e) HealthChecker = "'w \<Rightarrow> (HealthState \<times> 'e option) \<times> 'w"

definition HealthServer_Check :: "('w, 'e) HealthChecker \<Rightarrow> 'w \<Rightarrow> ServingStatus \<times> 'w" where
  "HealthServer_Check checker w =
     (let ((state, err), w') = checker w;
          state' = (if err \<noteq> None then HealthStateUnknown else state)
      in (ToHealthCheckStatus state', w'))"

section \<open>The IPFS node\<close>

datatype ipfs_health_error = BuildRequest | NotReachable | ApiError int

text \<open>
  \<open>accepts\<close> is what \<^verbatim>\<open>http.NewRequest\<close> makes of a URL, \<open>post\<close> the request, answered with a status code or not at all.
\<close>

definition IpfsHealthCheck ::
    "(string \<Rightarrow> bool) \<Rightarrow> (string \<Rightarrow> 'w \<Rightarrow> int option \<times> 'w) \<Rightarrow> string \<Rightarrow> ('w, ipfs_health_error) HealthChecker" where
  "IpfsHealthCheck accepts post address w =
     (let url = address @ ''/api/v0/version'' in
      if \<not> accepts url then ((HealthStateUnhealthy, Some BuildRequest), w) else
      let (resp, w') = post url w in
      case resp of
        None \<Rightarrow> ((HealthStateUnhealthy, Some NotReachable), w')
      | Some code \<Rightarrow>
          if code \<noteq> 200 then ((HealthStateUnhealthy, Some (ApiError code)), w')
          else ((HealthStateHealthy, None), w'))"

section \<open>The client\<close>

datatype check_error = ConnectError | CheckRPC | StatusNot ServingStatus

text \<open>\<open>dial\<close> is the target of \<^verbatim>\<open>grpc.NewClient\<close>, \<open>call\<close> the answer of the health RPC.\<close>

definition Check :: "(string \<Rightarrow> bool) \<Rightarrow> (string \<Rightarrow> ServingStatus option) \<Rightarrow> string \<Rightarrow> check_error option" where
  "Check dial call addr =
     (if \<not> dial addr then Some ConnectError
      else (case call addr of
              None \<Rightarrow> Some CheckRPC
            | Some status \<Rightarrow> if status \<noteq> SERVING then Some (StatusNot status) else None))"

definition checkDepHealth :: "(string \<Rightarrow> bool) \<Rightarrow> (string \<Rightarrow> ServingStatus option) \<Rightarrow> string \<Rightarrow> bool" where
  "checkDepHealth dial call addr \<longleftrightarrow> Check dial call addr = None"

section \<open>Waiting for dependencies\<close>

text \<open>\<open>d *= 2\<close> on a 64-bit duration, then the cap.\<close>

definition next_delay :: "int \<Rightarrow> int \<Rightarrow> int" where
  "next_delay maxDelay d = (let d' = sint (word_of_int (d * 2) :: u64) in if d' > maxDelay then maxDelay else d')"

text \<open>
  The answers of the environment, by round: \<open>answers i addr\<close> is the answer of the health RPC, \<open>visit i\<close> the order in which
  the remaining addresses are visited, \<open>fires i\<close> that the timer fired before the context was done. The result is the
  outcome, with the addresses probed in each round and the delay waited after it.
\<close>

record rounds =
  dials :: "string \<Rightarrow> bool"
  answers :: "nat \<Rightarrow> string \<Rightarrow> ServingStatus option"
  visit :: "nat \<Rightarrow> string list \<Rightarrow> string list"
  fires :: "nat \<Rightarrow> bool"

definition up :: "rounds \<Rightarrow> nat \<Rightarrow> string \<Rightarrow> bool" where
  "up env i addr = checkDepHealth (dials env) (answers env i) addr"

type_synonym wait_result = "bool \<times> (string list \<times> int) list"

definition still_down :: "rounds \<Rightarrow> nat \<Rightarrow> string list \<Rightarrow> string list" where
  "still_down env i remaining =
     (let toRemove = filter (up env i) (visit env i remaining) in filter (\<lambda>addr. addr \<notin> set toRemove) remaining)"

partial_function (option) wait_loop :: "rounds \<Rightarrow> int \<Rightarrow> nat \<Rightarrow> int \<Rightarrow> string list \<Rightarrow> wait_result option" where
  "wait_loop env maxDelay i retryDelay remaining =
     (let remaining' = still_down env i remaining in
      if remaining' = [] then Some (True, [(visit env i remaining, 0)])
      else if \<not> fires env i then Some (False, [(visit env i remaining, retryDelay)])
      else Option.bind (wait_loop env maxDelay (Suc i) (next_delay maxDelay retryDelay) remaining')
             (\<lambda>(ok, tr). Some (ok, (visit env i remaining, retryDelay) # tr)))"

text \<open>The addresses are the keys of a map, so that a repeated one counts once.\<close>

definition WaitForDependencies :: "rounds \<Rightarrow> int \<Rightarrow> int \<Rightarrow> string list \<Rightarrow> wait_result option" where
  "WaitForDependencies env retryDelay maxDelay dependencies = wait_loop env maxDelay 0 retryDelay (remdups dependencies)"

section \<open>Lemmas\<close>

text \<open>What a Go map promises of an iteration: every key once, in some order.\<close>

definition visits_all :: "rounds \<Rightarrow> bool" where
  "visits_all env \<longleftrightarrow> (\<forall>i xs. mset (visit env i xs) = mset xs)"

lemma set_visit: "visits_all env \<Longrightarrow> set (visit env i xs) = set xs"
  unfolding visits_all_def by (metis set_mset_mset)

lemma still_down_filter: "visits_all env \<Longrightarrow> still_down env i xs = filter (\<lambda>a. \<not> up env i a) xs"
  unfolding still_down_def Let_def by (intro filter_cong) (simp_all add: set_visit)

text \<open>The addresses that did not answer in the rounds from \<open>i\<close> on, \<open>n\<close> of them.\<close>

fun down_for :: "rounds \<Rightarrow> nat \<Rightarrow> nat \<Rightarrow> string list \<Rightarrow> string list" where
  "down_for env i 0 xs = xs"
| "down_for env i (Suc n) xs = down_for env (Suc i) n (filter (\<lambda>a. \<not> up env i a) xs)"

lemma set_down_for: "set (down_for env i n xs) = {a \<in> set xs. \<forall>k < n. \<not> up env (i + k) a}"
  by (induction n arbitrary: i xs) (auto simp: less_Suc_eq_0_disj)

lemma wait_loop_step:
  assumes "visits_all env"
  shows "wait_loop env m i d xs =
    (if filter (\<lambda>a. \<not> up env i a) xs = [] then Some (True, [(visit env i xs, 0)])
     else if \<not> fires env i then Some (False, [(visit env i xs, d)])
     else map_option (\<lambda>(ok, tr). (ok, (visit env i xs, d) # tr)) (wait_loop env m (Suc i) (next_delay m d) (filter (\<lambda>a. \<not> up env i a) xs)))"
  by (subst wait_loop.simps)
     (auto simp: still_down_filter [OF assms] Let_def map_option_case split: Option.bind_split option.split)

definition all_seen :: "rounds \<Rightarrow> nat \<Rightarrow> string list \<Rightarrow> nat \<Rightarrow> bool" where
  "all_seen env i xs n \<longleftrightarrow> (\<forall>a \<in> set xs. \<exists>k \<le> n. up env (i + k) a)"

lemma all_seen_0: "all_seen env i xs 0 \<longleftrightarrow> filter (\<lambda>a. \<not> up env i a) xs = []"
  by (auto simp: all_seen_def filter_empty_conv)

lemma all_seen_Suc: "all_seen env i xs (Suc n) \<longleftrightarrow> all_seen env (Suc i) (filter (\<lambda>a. \<not> up env i a) xs) n"
proof -
  have "(\<exists>k \<le> Suc n. up env (i + k) a) \<longleftrightarrow> up env i a \<or> (\<exists>k \<le> n. up env (Suc i + k) a)" for a
    unfolding less_Suc_eq_le [symmetric] Ex_less_Suc2 [of "Suc n"] by simp
  then show ?thesis by (auto simp: all_seen_def)
qed

text \<open>The loop ends in round \<open>n\<close> when it has not ended before and either all addresses were seen or the context ends.\<close>

lemma wait_loop_ends:
  assumes "visits_all env" "\<forall>k < n. fires env (i + k) \<and> \<not> all_seen env i xs k" "all_seen env i xs n \<or> \<not> fires env (i + n)"
  shows "\<exists>tr. wait_loop env m i d xs = Some (all_seen env i xs n, tr) \<and> length tr = Suc n
    \<and> (\<forall>k \<le> n. set (fst (tr ! k)) = {a \<in> set xs. \<forall>j < k. \<not> up env (i + j) a}) \<and> (\<forall>k < n. snd (tr ! k) = (next_delay m ^^ k) d)"
  using assms(2,3)
proof (induction n arbitrary: i d xs)
  case 0
  then show ?case
    by (auto simp: wait_loop_step [OF assms(1), of m i d xs] all_seen_0 set_visit [OF assms(1)] simp del: wait_loop.simps)
next
  case (Suc n)
  let ?xs = "filter (\<lambda>a. \<not> up env i a) xs"
  have go: "fires env i" "?xs \<noteq> []" using Suc.prems(1) by (auto simp: all_seen_0 dest: spec [of _ 0])
  have "\<forall>k < n. fires env (Suc i + k) \<and> \<not> all_seen env (Suc i) ?xs k"
    using Suc.prems(1) all_seen_Suc by (metis Suc_less_eq add_Suc_shift)
  moreover have "all_seen env (Suc i) ?xs n \<or> \<not> fires env (Suc i + n)"
    using Suc.prems(2) all_seen_Suc by (metis add_Suc_shift)
  ultimately obtain tr where tr: "wait_loop env m (Suc i) (next_delay m d) ?xs = Some (all_seen env (Suc i) ?xs n, tr)" "length tr = Suc n"
      "\<forall>k \<le> n. set (fst (tr ! k)) = {a \<in> set ?xs. \<forall>j < k. \<not> up env (Suc i + j) a}"
      "\<forall>k < n. snd (tr ! k) = (next_delay m ^^ k) (next_delay m d)"
    using Suc.IH by blast
  let ?tr = "(visit env i xs, d) # tr"
  have "wait_loop env m i d xs = Some (all_seen env i xs (Suc n), ?tr)"
    using go tr(1) by (simp add: wait_loop_step [OF assms(1), of m i d xs] all_seen_Suc)
  moreover have "\<forall>k \<le> Suc n. set (fst (?tr ! k)) = {a \<in> set xs. \<forall>j < k. \<not> up env (i + j) a}"
    using tr(3) by (auto simp: nth_Cons set_visit [OF assms(1)] All_less_Suc2 split: nat.split)
  moreover have "\<forall>k < Suc n. snd (?tr ! k) = (next_delay m ^^ k) d"
    using tr(4) by (auto simp: nth_Cons funpow_swap1 split: nat.split)
  ultimately show ?case using tr(2) by (intro exI [of _ ?tr]) simp
qed

text \<open>A loop that returns has a round in which it ends.\<close>

lemma wait_loop_some:
  assumes "wait_loop env m i d xs = Some r"
  shows "visits_all env \<longrightarrow> (\<exists>n. all_seen env i xs n \<or> \<not> fires env (i + n))"
proof (induction rule: wait_loop.raw_induct [OF _ assms])
  case (1 loop env m i d xs r)
  show ?case
  proof (intro impI, cases "filter (\<lambda>a. \<not> up env i a) xs = [] \<or> \<not> fires env i")
    case True
    then show "\<exists>n. all_seen env i xs n \<or> \<not> fires env (i + n)" by (intro exI [of _ 0]) (auto simp: all_seen_0)
  next
    case False
    assume all: "visits_all env"
    obtain r' where "loop env m (Suc i) (next_delay m d) (filter (\<lambda>a. \<not> up env i a) xs) = Some r'"
      using 1(2) False by (auto simp: still_down_filter [OF all] Let_def bind_eq_Some_conv)
    from 1(1) [OF this] all obtain n where "all_seen env (Suc i) (filter (\<lambda>a. \<not> up env i a) xs) n \<or> \<not> fires env (Suc i + n)" by blast
    then show "\<exists>n. all_seen env i xs n \<or> \<not> fires env (i + n)" by (intro exI [of _ "Suc n"]) (simp add: all_seen_Suc)
  qed
qed

lemma all_seen_mono: "all_seen env i xs k \<Longrightarrow> k \<le> n \<Longrightarrow> all_seen env i xs n"
  unfolding all_seen_def by (meson le_trans)

text \<open>The delays double up to the bound, and are never so long that they wrap.\<close>

lemma next_delay_double:
  assumes "0 < d" "d \<le> m" "m < 2 ^ 62"
  shows "next_delay m d = min (d * 2) m"
proof -
  have "sint (word_of_int (d * 2) :: u64) = d * 2"
    unfolding sint_sbintrunc' by (rule signed_take_bit_int_eq_self) (use assms in simp_all)
  then show ?thesis unfolding next_delay_def Let_def by (simp add: min_def)
qed

lemma next_delay_iterated:
  assumes "0 < d" "d \<le> m" "m < 2 ^ 62"
  shows "(next_delay m ^^ k) d = min (d * 2 ^ k) m"
proof (induction k)
  case (Suc k)
  have "1 * 1 \<le> d * 2 ^ k" using assms by (intro mult_mono) (auto simp: int_one_le_iff_zero_less)
  with assms have "0 < min (d * 2 ^ k) m" by simp
  then have "(next_delay m ^^ Suc k) d = min (min (d * 2 ^ k) m * 2) m" using Suc assms by (simp add: next_delay_double)
  also have "\<dots> = min (d * 2 ^ Suc k) m" using assms by (auto simp: min_def)
  finally show ?case .
qed (use assms in simp)

text \<open>The health service never reports NOT_SERVING for the IPFS node: each unhealthy state comes with an error.\<close>

lemma ipfs_health_status:
  "fst (HealthServer_Check (IpfsHealthCheck accepts post address) w) =
     (if accepts (address @ ''/api/v0/version'') \<and> fst (post (address @ ''/api/v0/version'') w) = Some 200 then SERVING else UNKNOWN)"
  by (auto simp: HealthServer_Check_def IpfsHealthCheck_def ToHealthCheckStatus_def health_states Let_def split: prod.split option.split)

lemma wait_result:
  assumes "visits_all env" "0 < retryDelay" "retryDelay \<le> maxDelay" "maxDelay < 2 ^ 62"
  shows "case WaitForDependencies env retryDelay maxDelay deps of
      None \<Rightarrow> (\<forall>n. fires env n) \<and> (\<exists>a \<in> set deps. \<forall>k. \<not> up env k a)
    | Some (ok, tr) \<Rightarrow>
        (\<exists>n. length tr = Suc n \<and> (\<forall>k < n. fires env k)
          \<and> (\<forall>k < n. \<exists>a \<in> set deps. \<forall>j \<le> k. \<not> up env j a)
          \<and> (if ok then \<forall>a \<in> set deps. \<exists>k \<le> n. up env k a else \<not> fires env n \<and> (\<exists>a \<in> set deps. \<forall>k \<le> n. \<not> up env k a))
          \<and> (\<forall>k \<le> n. set (fst (tr ! k)) = {a \<in> set deps. \<forall>j < k. \<not> up env j a})
          \<and> (\<forall>k < n. snd (tr ! k) = min (retryDelay * 2 ^ k) maxDelay))"
proof (cases "\<exists>n. all_seen env 0 (remdups deps) n \<or> \<not> fires env n")
  case False
  then have "WaitForDependencies env retryDelay maxDelay deps = None"
    using wait_loop_some assms(1) unfolding WaitForDependencies_def by (metis add_0 not_None_eq)
  moreover have "\<exists>a \<in> set deps. \<forall>k. \<not> up env k a"
  proof (rule ccontr)
    assume "\<not> ?thesis"
    then obtain f where f: "\<forall>a \<in> set deps. up env (f a) a" by metis
    have "f a \<le> Max (f ` set deps)" if "a \<in> set deps" for a using that by simp
    with f have "all_seen env 0 (remdups deps) (Max (f ` set deps))" unfolding all_seen_def by auto (metis List.finite_set Max_ge finite_imageI imageI)
    with False show False by blast
  qed
  ultimately show ?thesis using False by auto
next
  case True
  define n where "n = (LEAST n. all_seen env 0 (remdups deps) n \<or> \<not> fires env n)"
  have n: "all_seen env 0 (remdups deps) n \<or> \<not> fires env n" using True unfolding n_def by (rule LeastI_ex)
  have before: "fires env k \<and> \<not> all_seen env 0 (remdups deps) k" if "k < n" for k
    using not_less_Least [OF that [unfolded n_def]] by blast
  obtain tr where run: "WaitForDependencies env retryDelay maxDelay deps = Some (all_seen env 0 (remdups deps) n, tr)" "length tr = Suc n"
      "\<forall>k \<le> n. set (fst (tr ! k)) = {a \<in> set deps. \<forall>j < k. \<not> up env j a}" "\<forall>k < n. snd (tr ! k) = (next_delay maxDelay ^^ k) retryDelay"
    using wait_loop_ends [OF assms(1), of n 0 "remdups deps" maxDelay retryDelay] n before unfolding WaitForDependencies_def by auto
  have delays: "\<forall>k < n. snd (tr ! k) = min (retryDelay * 2 ^ k) maxDelay" using run(4) assms(2-4) by (simp add: next_delay_iterated)
  have seen: "all_seen env 0 (remdups deps) k \<longleftrightarrow> (\<forall>a \<in> set deps. \<exists>j \<le> k. up env j a)" for k by (simp add: all_seen_def)
  have waiting: "\<forall>k < n. \<exists>a \<in> set deps. \<forall>j \<le> k. \<not> up env j a" using before seen by blast
  show ?thesis
    unfolding run(1) option.case prod.case
    by (rule exI [of _ n]) (use n before run(2,3) delays waiting seen in auto)
qed

section \<open>Properties\<close>

text \<open>
  C20. What \<^verbatim>\<open>WaitForDependencies\<close> returns, for every behaviour of the dependencies, of the timer and of the map of
  remaining addresses. It returns nil in the first round by which every dependency has answered, each in some round, if
  the context lasted until then; it returns the error in the round in which the context ends first; and it never returns
  exactly when the context never ends and some dependency never answers. In each round it probes exactly the dependencies
  that have not answered yet, and between rounds it waits the first delay doubled each time, up to the largest one.
\<close>

theorem wait_outcomes:
  assumes "visits_all env" "0 < retryDelay" "retryDelay \<le> maxDelay" "maxDelay < 2 ^ 62"
  shows "case WaitForDependencies env retryDelay maxDelay deps of
      None \<Rightarrow> (\<forall>n. fires env n) \<and> (\<exists>a \<in> set deps. \<forall>k. \<not> up env k a)
    | Some (ok, tr) \<Rightarrow>
        (\<exists>n. length tr = Suc n \<and> (\<forall>k < n. fires env k)
          \<and> (\<forall>k < n. \<exists>a \<in> set deps. \<forall>j \<le> k. \<not> up env j a)
          \<and> (if ok then \<forall>a \<in> set deps. \<exists>k \<le> n. up env k a else \<not> fires env n \<and> (\<exists>a \<in> set deps. \<forall>k \<le> n. \<not> up env k a))
          \<and> (\<forall>k \<le> n. set (fst (tr ! k)) = {a \<in> set deps. \<forall>j < k. \<not> up env j a})
          \<and> (\<forall>k < n. snd (tr ! k) = min (retryDelay * 2 ^ k) maxDelay))"
  by (rule wait_result [OF assms])

definition demo_rounds :: rounds where
  "demo_rounds = \<lparr>dials = (\<lambda>_. True), answers = (\<lambda>i a. if a = ''ipfs:1'' \<and> i \<ge> 2 \<or> a \<noteq> ''ipfs:1'' \<and> i = 0 then Some SERVING else None), visit = (\<lambda>i xs. rev xs), fires = (\<lambda>_. True)\<rparr>"

definition demo_trace :: "(string list \<times> int) list" where
  "demo_trace = [([''ipfs:1'', ''seed:2''], 1), ([''ipfs:1''], 2), ([''ipfs:1''], 0)]"

lemma demo_visits_all: "visits_all demo_rounds"
  by (simp add: visits_all_def demo_rounds_def)

lemma demo_wait: "WaitForDependencies demo_rounds 1 3 [''ipfs:1'', ''seed:2'', ''ipfs:1''] = Some (True, demo_trace)"
proof -
  have up: "up demo_rounds i a \<longleftrightarrow> (if a = ''ipfs:1'' then i \<ge> 2 else i = 0)" and rest: "visit demo_rounds i xs = rev xs" "fires demo_rounds i" for i a xs
    by (simp_all add: demo_rounds_def up_def checkDepHealth_def Check_def)
  note step = wait_loop_step [OF demo_visits_all]
  have "wait_loop demo_rounds 3 2 3 [''ipfs:1''] = Some (True, [([''ipfs:1''], 0)])" by (simp add: step up rest)
  then have "wait_loop demo_rounds 3 (Suc 0) 2 [''ipfs:1''] = Some (True, [([''ipfs:1''], 2), ([''ipfs:1''], 0)])"
    by (simp add: step [of 3 "Suc 0"] up rest next_delay_double numeral_2_eq_2)
  then show ?thesis
    by (simp add: WaitForDependencies_def step [of 3 0] up rest next_delay_double demo_trace_def)
qed

theorem wait_outcomes_witness:
  "WaitForDependencies demo_rounds 1 3 [''ipfs:1'', ''seed:2'', ''ipfs:1''] = Some (True, demo_trace)
   \<and> list_all (\<lambda>k. snd (demo_trace ! k) = min (1 * 2 ^ k) 3) [0 ..< 2]
   \<and> list_all (\<lambda>a. list_ex (\<lambda>k. up demo_rounds k a) [0 ..< Suc 2]) [''ipfs:1'', ''seed:2'']"
proof -
  have two: "length demo_trace = Suc 2" by (simp add: demo_trace_def)
  with wait_outcomes [OF demo_visits_all, of 1 3 "[''ipfs:1'', ''seed:2'', ''ipfs:1'']"]
  have delays: "\<forall>k < 2. snd (demo_trace ! k) = min (1 * 2 ^ k) 3" and seen: "\<forall>a \<in> {''ipfs:1'', ''seed:2''}. \<exists>k \<le> 2. up demo_rounds k a"
    unfolding demo_wait option.case prod.case by auto
  show ?thesis
  proof (intro conjI)
    show "list_all (\<lambda>k. snd (demo_trace ! k) = min (1 * 2 ^ k) 3) [0 ..< 2]" unfolding list_all_iff set_upt using delays by fastforce
    have "list_ex (\<lambda>k. up demo_rounds k a) [0 ..< Suc 2]" if "\<exists>k \<le> 2. up demo_rounds k a" for a
      using that unfolding list_ex_iff set_upt by (metis atLeastLessThan_iff le0 less_Suc_eq_le)
    with seen show "list_all (\<lambda>a. list_ex (\<lambda>k. up demo_rounds k a) [0 ..< Suc 2]) [''ipfs:1'', ''seed:2'']" by simp
  qed (rule demo_wait)
qed

end
