(* ===== verification/Threads.thy ===== *)
theory Threads
  imports Prelude
begin

text \<open>
  The control of background goroutines (\<^verbatim>\<open>utils/thread_control.go\<close>) as a step relation, and the locked cell
  (\<^verbatim>\<open>utils/locked.go\<close>). The state is the channel \<^verbatim>\<open>stop\<close>, the counter of the wait group, one entry per tracked
  goroutine with its context and the goroutine that watches over it, the contexts of callers that have ended, and how far
  \<^verbatim>\<open>Close\<close> has come. The functions that run in the goroutines are arbitrary: they return when they like, and may wait for
  their context to end.
\<close>

section \<open>The state\<close>

text \<open>
  A goroutine is spawned, runs its function in a context of its own, has returned from it, has run the deferred cancel,
  and has left the wait group.
\<close>

datatype phase = Spawned | Running | Returned | Cancelled | Exited

text \<open>The phases in their order.\<close>

instantiation phase :: linorder
begin

primrec rank_phase :: "phase \<Rightarrow> nat" where
  "rank_phase Spawned = 0"
| "rank_phase Running = 1"
| "rank_phase Returned = 2"
| "rank_phase Cancelled = 3"
| "rank_phase Exited = 4"

definition less_eq_phase :: "phase \<Rightarrow> phase \<Rightarrow> bool" where
  "less_eq_phase p q \<longleftrightarrow> rank_phase p \<le> rank_phase q"

definition less_phase :: "phase \<Rightarrow> phase \<Rightarrow> bool" where
  "less_phase p q \<longleftrightarrow> rank_phase p < rank_phase q"

instance
proof
  fix p q r :: phase
  show "p < q \<longleftrightarrow> p \<le> q \<and> \<not> q \<le> p" "p \<le> p" "p \<le> q \<or> q \<le> p" by (auto simp: less_eq_phase_def less_phase_def)
  show "p \<le> q \<Longrightarrow> q \<le> r \<Longrightarrow> p \<le> r" by (simp add: less_eq_phase_def)
  show "p \<le> q \<Longrightarrow> q \<le> p \<Longrightarrow> p = q" by (cases p; cases q) (simp_all add: less_eq_phase_def)
qed

end

text \<open>\<open>parent\<close> is the caller's context of \<^verbatim>\<open>GoCtx\<close>, \<open>None\<close> the background context of \<^verbatim>\<open>Go\<close>.\<close>

record thread =
  phase :: phase
  parent :: "nat option"
  cancelled :: bool
  watching :: bool

datatype closer = Open | Waiting | Joined nat

record threadControl =
  stop_closed :: bool
  threadsWG :: int
  threads :: "thread list"
  ended :: "nat set"
  closing :: closer
  panicked :: bool

definition NewThreadControl :: "threadControl" where
  "NewThreadControl = \<lparr>stop_closed = False, threadsWG = 0, threads = [], ended = {}, closing = Open, panicked = False\<rparr>"

text \<open>Whether a context is done: it was cancelled, or its parent has ended.\<close>

definition ctx_done :: "threadControl \<Rightarrow> thread \<Rightarrow> bool" where
  "ctx_done s t \<longleftrightarrow> cancelled t \<or> (case parent t of None \<Rightarrow> False | Some p \<Rightarrow> p \<in> ended s)"

definition upd :: "nat \<Rightarrow> (thread \<Rightarrow> thread) \<Rightarrow> threadControl \<Rightarrow> threadControl" where
  "upd i f s = s\<lparr>threads := (threads s)[i := f (threads s ! i)]\<rparr>"

section \<open>The operations\<close>

text \<open>\<^verbatim>\<open>threadsWG.Add(1)\<close> before the \<^verbatim>\<open>go\<close> statement.\<close>

definition spawn :: "nat option \<Rightarrow> threadControl \<Rightarrow> threadControl" where
  "spawn p s = s\<lparr>threadsWG := threadsWG s + 1, threads := threads s @ [\<lparr>phase = Spawned, parent = p, cancelled = False, watching = False\<rparr>]\<rparr>"

definition Go :: "threadControl \<Rightarrow> threadControl" where
  "Go s = spawn None s"

definition GoCtx :: "nat \<Rightarrow> threadControl \<Rightarrow> threadControl" where
  "GoCtx ctx s = spawn (Some ctx) s"

text \<open>\<^verbatim>\<open>stopRChan.CtxCancel\<close>: the context is handed on, and a goroutine watches the channel and the context.\<close>

definition CtxCancel :: "thread \<Rightarrow> thread" where
  "CtxCancel t = t\<lparr>watching := True\<rparr>"

text \<open>\<^verbatim>\<open>stop.NewCtx\<close> and \<^verbatim>\<open>stop.Ctx\<close>: a new context below the parent.\<close>

definition Ctx :: "thread \<Rightarrow> thread" where
  "Ctx t = CtxCancel (t\<lparr>cancelled := False\<rparr>)"

definition begin_fn :: "thread \<Rightarrow> thread" where
  "begin_fn t = (Ctx t)\<lparr>phase := Running\<rparr>"

text \<open>\<^verbatim>\<open>close(tc.stop)\<close>, which panics on a channel that is closed already; then \<^verbatim>\<open>Wait\<close>.\<close>

definition Close :: "threadControl \<Rightarrow> threadControl" where
  "Close s = (if stop_closed s then s\<lparr>panicked := True\<rparr> else s\<lparr>stop_closed := True, closing := Waiting\<rparr>)"

section \<open>Steps\<close>

text \<open>
  The steps that the callers, the functions and the callers' contexts take, and the steps of the goroutines themselves,
  which need nobody's help.
\<close>

inductive runtime_step :: "threadControl \<Rightarrow> threadControl \<Rightarrow> bool" where
  begins: "i < length (threads s) \<Longrightarrow> phase (threads s ! i) = Spawned \<Longrightarrow> runtime_step s (upd i begin_fn s)"
| stop_seen: "i < length (threads s) \<Longrightarrow> watching (threads s ! i) \<Longrightarrow> stop_closed s \<Longrightarrow>
    runtime_step s (upd i (\<lambda>t. t\<lparr>cancelled := True, watching := False\<rparr>) s)"
| done_seen: "i < length (threads s) \<Longrightarrow> watching (threads s ! i) \<Longrightarrow> ctx_done s (threads s ! i) \<Longrightarrow>
    runtime_step s (upd i (\<lambda>t. t\<lparr>watching := False\<rparr>) s)"
| cancels: "i < length (threads s) \<Longrightarrow> phase (threads s ! i) = Returned \<Longrightarrow>
    runtime_step s (upd i (\<lambda>t. t\<lparr>phase := Cancelled, cancelled := True\<rparr>) s)"
| leaves: "i < length (threads s) \<Longrightarrow> phase (threads s ! i) = Cancelled \<Longrightarrow>
    runtime_step s ((upd i (\<lambda>t. t\<lparr>phase := Exited\<rparr>) s)\<lparr>threadsWG := threadsWG s - 1\<rparr>)"
| joins: "closing s = Waiting \<Longrightarrow> threadsWG s = 0 \<Longrightarrow> runtime_step s (s\<lparr>closing := Joined (length (threads s))\<rparr>)"

inductive tc_step :: "threadControl \<Rightarrow> threadControl \<Rightarrow> bool" where
  goes: "tc_step s (Go s)"
| goes_ctx: "tc_step s (GoCtx ctx s)"
| ends: "tc_step s (s\<lparr>ended := insert ctx (ended s)\<rparr>)"
| returns: "i < length (threads s) \<Longrightarrow> phase (threads s ! i) = Running \<Longrightarrow> tc_step s (upd i (\<lambda>t. t\<lparr>phase := Returned\<rparr>) s)"
| closes: "tc_step s (Close s)"
| runs: "runtime_step s s' \<Longrightarrow> tc_step s s'"

inductive tc_reachable :: "threadControl \<Rightarrow> bool" where
  init: "tc_reachable NewThreadControl"
| step: "tc_reachable s \<Longrightarrow> \<not> panicked s \<Longrightarrow> tc_step s s' \<Longrightarrow> tc_reachable s'"

inductive_cases runtime_stepE: "runtime_step s s'"
inductive_cases tc_stepE: "tc_step s s'"

section \<open>The locked cell\<close>

text \<open>The lock makes each operation one step.\<close>

record 'a Locked =
  v :: 'a

definition NewLocked :: "'a \<Rightarrow> 'a Locked" where
  "NewLocked x = \<lparr>v = x\<rparr>"

definition Locked_Get :: "'a Locked \<Rightarrow> 'a" where
  "Locked_Get l = v l"

definition Locked_Set :: "'a \<Rightarrow> 'a Locked \<Rightarrow> 'a Locked" where
  "Locked_Set x l = l\<lparr>v := x\<rparr>"

section \<open>The invariant\<close>

text \<open>How many goroutines the wait group counts.\<close>

primrec alive :: "thread list \<Rightarrow> int" where
  "alive [] = 0"
| "alive (t # ts) = (if phase t \<noteq> Exited then 1 else 0) + alive ts"

text \<open>
  A context that is not done has a watcher from the moment the function starts; a running function's context is cancelled
  only after \<^verbatim>\<open>Close\<close>.
\<close>

definition thread_ok :: "threadControl \<Rightarrow> thread \<Rightarrow> bool" where
  "thread_ok s t \<longleftrightarrow>
     (phase t = Spawned \<longrightarrow> \<not> cancelled t \<and> \<not> watching t)
     \<and> (phase t = Running \<longrightarrow> watching t \<or> ctx_done s t)
     \<and> (phase t \<in> {Running, Returned} \<longrightarrow> cancelled t \<longrightarrow> stop_closed s)
     \<and> (phase t \<in> {Cancelled, Exited} \<longrightarrow> cancelled t)"

definition tc_inv :: "threadControl \<Rightarrow> bool" where
  "tc_inv s \<longleftrightarrow> threadsWG s = alive (threads s) \<and> list_all (thread_ok s) (threads s)
     \<and> (closing s = Open \<longleftrightarrow> \<not> stop_closed s)
     \<and> (case closing s of Joined n \<Rightarrow> n \<le> length (threads s) \<and> list_all (\<lambda>t. phase t = Exited) (take n (threads s)) | _ \<Rightarrow> True)"

lemma alive_append [simp]: "alive (ts @ us) = alive ts + alive us"
  by (induction ts) simp_all

lemma alive_update:
  "i < length ts \<Longrightarrow> alive (ts[i := t]) = alive ts + (if phase t \<noteq> Exited then 1 else 0) - (if phase (ts ! i) \<noteq> Exited then 1 else 0)"
proof (induction ts arbitrary: i)
  case (Cons u ts)
  then show ?case by (cases i) simp_all
qed simp

lemma alive_nonneg: "0 \<le> alive ts"
  by (induction ts) simp_all

lemma alive_0: "alive ts = 0 \<longleftrightarrow> list_all (\<lambda>t. phase t = Exited) ts"
  by (induction ts) (auto simp: add_nonneg_eq_0_iff alive_nonneg)

lemma upd_simps [simp]:
  "threads (upd i f s) = (threads s)[i := f (threads s ! i)]" "stop_closed (upd i f s) = stop_closed s" "ended (upd i f s) = ended s"
  "threadsWG (upd i f s) = threadsWG s" "closing (upd i f s) = closing s" "panicked (upd i f s) = panicked s"
  by (simp_all add: upd_def)

lemma thread_ok_same: "ended s' = ended s \<Longrightarrow> stop_closed s' = stop_closed s \<Longrightarrow> thread_ok s' = thread_ok s"
  by (rule ext) (simp add: thread_ok_def ctx_done_def split: option.split)

text \<open>A step that changes one goroutine and the counter with it.\<close>

lemma tc_inv_upd:
  assumes inv: "tc_inv s" and i: "i < length (threads s)" and ok: "thread_ok s (f (threads s ! i))"
    and live: "phase (threads s ! i) \<noteq> Exited \<or> phase (f (threads s ! i)) = Exited"
    and wg: "wg = threadsWG s + (if phase (f (threads s ! i)) \<noteq> Exited then 1 else 0) - (if phase (threads s ! i) \<noteq> Exited then 1 else 0)"
  shows "tc_inv ((upd i f s)\<lparr>threadsWG := wg\<rparr>)"
proof -
  let ?s = "(upd i f s)\<lparr>threadsWG := wg\<rparr>"
  have same: "thread_ok ?s = thread_ok s" by (rule thread_ok_same) simp_all
  have count: "threadsWG ?s = alive (threads ?s)" using inv i by (simp add: tc_inv_def wg alive_update)
  have all: "list_all (thread_ok ?s) (threads ?s)"
    unfolding same using inv ok i by (auto simp: tc_inv_def list_all_iff dest!: set_update_subset_insert [THEN subsetD])
  have exited: "list_all (\<lambda>t. phase t = Exited) (take n ((threads s)[i := f (threads s ! i)]))"
    if "n \<le> length (threads s)" "list_all (\<lambda>t. phase t = Exited) (take n (threads s))" for n
    using that live i by (auto simp: list_all_length nth_list_update)
  show ?thesis using inv count all exited by (auto simp: tc_inv_def split: closer.splits)
qed

lemma tc_inv_upd_same:
  assumes "tc_inv s" "i < length (threads s)" "thread_ok s (f (threads s ! i))" "phase (threads s ! i) \<noteq> Exited \<longleftrightarrow> phase (f (threads s ! i)) \<noteq> Exited"
  shows "tc_inv (upd i f s)"
  using tc_inv_upd [of s i f "threadsWG s"] assms by (simp add: upd_def)

lemma tc_inv_thread: "tc_inv s \<Longrightarrow> i < length (threads s) \<Longrightarrow> thread_ok s (threads s ! i)"
  by (simp add: tc_inv_def list_all_length)

lemmas thread_steps = thread_ok_def begin_fn_def Ctx_def CtxCancel_def ctx_done_def

lemma tc_inv_runtime:
  assumes "runtime_step s s'" "tc_inv s"
  shows "tc_inv s'"
  using assms(1)
proof cases
  case (begins i)
  show ?thesis unfolding begins(1)
    by (rule tc_inv_upd_same [OF assms(2) begins(2)]) (use begins tc_inv_thread [OF assms(2) begins(2)] in \<open>auto simp: thread_steps\<close>)
next
  case (stop_seen i)
  show ?thesis unfolding stop_seen(1)
    by (rule tc_inv_upd_same [OF assms(2) stop_seen(2)]) (use stop_seen tc_inv_thread [OF assms(2) stop_seen(2)] in \<open>auto simp: thread_steps\<close>)
next
  case (done_seen i)
  show ?thesis unfolding done_seen(1)
    by (rule tc_inv_upd_same [OF assms(2) done_seen(2)]) (use done_seen tc_inv_thread [OF assms(2) done_seen(2)] in \<open>auto simp: thread_steps\<close>)
next
  case (cancels i)
  show ?thesis unfolding cancels(1)
    by (rule tc_inv_upd_same [OF assms(2) cancels(2)]) (use cancels tc_inv_thread [OF assms(2) cancels(2)] in \<open>auto simp: thread_steps\<close>)
next
  case (leaves i)
  show ?thesis unfolding leaves(1)
    by (rule tc_inv_upd [OF assms(2) leaves(2)]) (use leaves tc_inv_thread [OF assms(2) leaves(2)] in \<open>auto simp: thread_steps\<close>)
next
  case joins
  have same: "thread_ok s' = thread_ok s" unfolding joins(1) by (rule thread_ok_same) simp_all
  show ?thesis using assms(2) joins same by (auto simp: tc_inv_def alive_0)
qed

lemma tc_inv_spawn: "tc_inv s \<Longrightarrow> tc_inv (spawn p s)"
proof -
  have same: "thread_ok (spawn p s) = thread_ok s" by (rule thread_ok_same) (simp_all add: spawn_def)
  show "tc_inv s \<Longrightarrow> tc_inv (spawn p s)"
    unfolding tc_inv_def same by (auto simp: spawn_def thread_ok_def split: closer.splits)
qed

lemma thread_ok_mono:
  "thread_ok s t \<Longrightarrow> ended s \<subseteq> ended s' \<Longrightarrow> (stop_closed s \<longrightarrow> stop_closed s') \<Longrightarrow> thread_ok s' t"
  by (auto simp: thread_ok_def ctx_done_def split: option.splits)

lemma threads_ok_mono:
  "list_all (thread_ok s) ts \<Longrightarrow> ended s \<subseteq> ended s' \<Longrightarrow> (stop_closed s \<longrightarrow> stop_closed s') \<Longrightarrow> list_all (thread_ok s') ts"
  unfolding list_all_iff using thread_ok_mono by blast

lemma tc_inv_step:
  assumes "tc_step s s'" "tc_inv s"
  shows "tc_inv s'"
  using assms(1)
proof cases
  case goes
  with assms(2) show ?thesis by (simp add: Go_def tc_inv_spawn)
next
  case (goes_ctx ctx)
  with assms(2) show ?thesis by (simp add: GoCtx_def tc_inv_spawn)
next
  case (ends ctx)
  have "list_all (thread_ok s') (threads s)" by (rule threads_ok_mono [of s]) (use assms(2) in \<open>auto simp: tc_inv_def ends\<close>)
  with assms(2) show ?thesis unfolding tc_inv_def by (auto simp: ends split: closer.splits)
next
  case (returns i)
  show ?thesis unfolding returns(1)
    by (rule tc_inv_upd_same [OF assms(2) returns(2)]) (use returns tc_inv_thread [OF assms(2) returns(2)] in \<open>auto simp: thread_steps\<close>)
next
  case closes
  have "list_all (thread_ok s') (threads s)" by (rule threads_ok_mono [of s]) (use assms(2) in \<open>auto simp: tc_inv_def closes Close_def\<close>)
  with assms(2) show ?thesis unfolding tc_inv_def by (auto simp: closes Close_def split: closer.splits)
next
  case runs
  with tc_inv_runtime assms(2) show ?thesis by blast
qed

lemma tc_inv_reachable: "tc_reachable s \<Longrightarrow> tc_inv s"
proof (induction rule: tc_reachable.induct)
  case init
  then show ?case by (simp add: tc_inv_def NewThreadControl_def)
qed (use tc_inv_step in blast)

lemma exited_top: "Exited \<le> p \<longleftrightarrow> p = Exited"
  by (cases p) (simp_all add: less_eq_phase_def)

text \<open>Goroutines are never forgotten and only move forward: one that has left stays so.\<close>

definition advanced :: "threadControl \<Rightarrow> threadControl \<Rightarrow> bool" where
  "advanced s s' \<longleftrightarrow> length (threads s) \<le> length (threads s') \<and> (\<forall>i < length (threads s). phase (threads s ! i) \<le> phase (threads s' ! i))"

lemma advanced_upd: "i < length (threads s) \<Longrightarrow> phase (threads s ! i) \<le> phase (f (threads s ! i)) \<Longrightarrow> advanced s (upd i f s)"
  by (auto simp: advanced_def nth_list_update)

lemma advanced_spawn: "advanced s (spawn p s)"
  by (simp add: advanced_def spawn_def nth_append)

lemma advanced_trans: "advanced s s' \<Longrightarrow> advanced s' s'' \<Longrightarrow> advanced s s''"
  unfolding advanced_def by (meson order.strict_trans2 order.trans)

lemma runtime_advances:
  assumes "runtime_step s s'"
  shows "advanced s s'"
  using assms
proof cases
  case (leaves i)
  have "advanced s (upd i (\<lambda>t. t\<lparr>phase := Exited\<rparr>) s)" using leaves by (intro advanced_upd) (simp_all add: less_eq_phase_def)
  then show ?thesis by (simp add: leaves(1) advanced_def)
next
  case joins
  then show ?thesis by (simp add: advanced_def)
qed (auto intro!: advanced_upd simp: begin_fn_def Ctx_def CtxCancel_def less_eq_phase_def)

lemma step_advances:
  assumes "tc_step s s'"
  shows "advanced s s'"
  using assms
proof cases
  case (returns i)
  then show ?thesis by (auto intro!: advanced_upd simp: less_eq_phase_def)
next
  case (ends ctx)
  then show ?thesis by (simp add: advanced_def)
next
  case closes
  then show ?thesis by (simp add: Close_def advanced_def)
qed (auto simp: Go_def GoCtx_def intro: advanced_spawn runtime_advances)

lemma run_advances: "tc_step\<^sup>*\<^sup>* s s' \<Longrightarrow> advanced s s'"
  by (induction rule: rtranclp_induct) (auto simp: advanced_def [of s s] intro: advanced_trans step_advances)

section \<open>The goroutines come to rest\<close>

text \<open>What the goroutines have left to do without help from outside.\<close>

definition thread_work :: "thread \<Rightarrow> nat" where
  "thread_work t = (case phase t of Spawned \<Rightarrow> 5 | Running \<Rightarrow> 3 | Returned \<Rightarrow> 2 | Cancelled \<Rightarrow> 1 | Exited \<Rightarrow> 0) + (if watching t then 1 else 0)"

definition work :: "threadControl \<Rightarrow> nat" where
  "work s = sum_list (map thread_work (threads s)) + (if closing s = Waiting then 1 else 0)"

lemma sum_list_decreases:
  fixes f :: "'a \<Rightarrow> nat"
  shows "i < length xs \<Longrightarrow> f x < f (xs ! i) \<Longrightarrow> sum_list (map f (xs[i := x])) < sum_list (map f xs)"
proof (induction xs arbitrary: i)
  case (Cons y ys)
  then show ?case by (cases i) auto
qed simp

lemma runtime_decreases:
  assumes "runtime_step s s'"
  shows "work s' < work s"
proof -
  have drop: "i < length (threads s) \<Longrightarrow> thread_work (f (threads s ! i)) < thread_work (threads s ! i) \<Longrightarrow>
      sum_list (map thread_work ((threads s)[i := f (threads s ! i)])) < sum_list (map thread_work (threads s))" for i f
    by (rule sum_list_decreases)
  show ?thesis using assms
    by cases (auto simp: work_def thread_work_def begin_fn_def Ctx_def CtxCancel_def intro!: drop)
qed

text \<open>At rest after \<^verbatim>\<open>Close\<close>, only functions that have been told to stop are still running.\<close>

lemma rest_after_stop:
  assumes "tc_inv s" "stop_closed s" "\<nexists>s'. runtime_step s s'" "t \<in> set (threads s)"
  shows "phase t = Exited \<or> phase t = Running \<and> ctx_done s t"
proof -
  from assms(4) obtain i where i: "i < length (threads s)" "threads s ! i = t" by (auto simp: in_set_conv_nth)
  have "thread_ok s t" using tc_inv_thread [OF assms(1) i(1)] i(2) by simp
  moreover have "phase t \<notin> {Spawned, Returned, Cancelled}" using begins cancels leaves assms(3) i by blast
  moreover have "\<not> watching t" using stop_seen assms(2,3) i by blast
  ultimately show ?thesis by (cases "phase t") (auto simp: thread_ok_def)
qed

lemma rest_waiting:
  assumes "tc_inv s" "closing s = Waiting" "\<nexists>s'. runtime_step s s'"
  shows "\<exists>t \<in> set (threads s). phase t = Running"
proof (rule ccontr)
  assume none: "\<not> ?thesis"
  have "stop_closed s" using assms(1,2) by (auto simp: tc_inv_def)
  then have "list_all (\<lambda>t. phase t = Exited) (threads s)" using rest_after_stop [OF assms(1) _ assms(3)] none by (auto simp: list_all_iff)
  then have "threadsWG s = 0" using assms(1) by (simp add: tc_inv_def alive_0 [symmetric])
  then show False using joins [OF assms(2)] assms(3) by blast
qed

text \<open>
  C19. Closing a thread control, in every interleaving of its goroutines, their functions, the callers and the contexts:
  when \<^verbatim>\<open>Close\<close> has returned, every goroutine started before has left, for good; the goroutines need only finitely many steps of
  their own between two steps from outside; once they are at rest after \<^verbatim>\<open>Close\<close>, the context of every function that still
  runs is done, and \<^verbatim>\<open>Close\<close> is still waiting only if there is such a function, so that it returns as soon as the
  functions heed their contexts; no running function's context is cancelled before \<^verbatim>\<open>Close\<close>, unless the caller's context
  ends; and a second \<^verbatim>\<open>Close\<close> panics.
\<close>

theorem close_joins:
  assumes "tc_reachable s"
  shows "(\<forall>n s'. closing s = Joined n \<and> tc_step\<^sup>*\<^sup>* s s' \<longrightarrow> n \<le> length (threads s') \<and> (\<forall>i < n. phase (threads s' ! i) = Exited))
    \<and> wfp (\<lambda>s2 s1. runtime_step s1 s2)
    \<and> (stop_closed s \<and> (\<nexists>s'. runtime_step s s') \<longrightarrow>
         (\<forall>t \<in> set (threads s). phase t = Exited \<or> phase t = Running \<and> ctx_done s t)
         \<and> (closing s = Waiting \<longrightarrow> (\<exists>t \<in> set (threads s). phase t = Running)))
    \<and> (\<not> stop_closed s \<longrightarrow> (\<forall>t \<in> set (threads s). phase t = Running \<and> ctx_done s t \<longrightarrow> (\<exists>p \<in> ended s. parent t = Some p)))
    \<and> (stop_closed s \<longrightarrow> panicked (Close s))"
proof (intro conjI)
  have inv: "tc_inv s" using assms by (rule tc_inv_reachable)
  show "\<forall>n s'. closing s = Joined n \<and> tc_step\<^sup>*\<^sup>* s s' \<longrightarrow> n \<le> length (threads s') \<and> (\<forall>i < n. phase (threads s' ! i) = Exited)"
  proof (intro allI impI, elim conjE)
    fix n s' assume "closing s = Joined n" "tc_step\<^sup>*\<^sup>* s s'"
    with inv have "n \<le> length (threads s)" "\<forall>i < n. phase (threads s ! i) = Exited" "advanced s s'"
      by (auto simp: tc_inv_def list_all_length intro: run_advances)
    then show "n \<le> length (threads s') \<and> (\<forall>i < n. phase (threads s' ! i) = Exited)"
      unfolding advanced_def by (metis exited_top order.strict_trans2 order.trans)
  qed
  show "wfp (\<lambda>s2 s1. runtime_step s1 s2)"
    by (rule wfp_if_convertible_to_nat [of _ work]) (rule runtime_decreases)
  show "stop_closed s \<and> (\<nexists>s'. runtime_step s s') \<longrightarrow>
      (\<forall>t \<in> set (threads s). phase t = Exited \<or> phase t = Running \<and> ctx_done s t)
      \<and> (closing s = Waiting \<longrightarrow> (\<exists>t \<in> set (threads s). phase t = Running))"
    using rest_after_stop [OF inv] rest_waiting [OF inv] by blast
  show "\<not> stop_closed s \<longrightarrow> (\<forall>t \<in> set (threads s). phase t = Running \<and> ctx_done s t \<longrightarrow> (\<exists>p \<in> ended s. parent t = Some p))"
    using inv by (auto simp: tc_inv_def list_all_iff thread_ok_def ctx_done_def split: option.splits)
  show "stop_closed s \<longrightarrow> panicked (Close s)" by (simp add: Close_def)
qed

text \<open>One goroutine that waits for its context, and a \<^verbatim>\<open>Close\<close> that joins it.\<close>

definition demo_waiting :: threadControl where
  "demo_waiting = \<lparr>stop_closed = True, threadsWG = 1, threads = [\<lparr>phase = Running, parent = None, cancelled = True, watching = False\<rparr>],
     ended = {}, closing = Waiting, panicked = False\<rparr>"

definition demo_joined :: threadControl where
  "demo_joined = \<lparr>stop_closed = True, threadsWG = 0, threads = [\<lparr>phase = Exited, parent = None, cancelled = True, watching = False\<rparr>],
     ended = {}, closing = Joined 1, panicked = False\<rparr>"

lemma demo_waiting_reachable: "tc_reachable demo_waiting"
proof -
  have 1: "tc_reachable (Go NewThreadControl)" by (rule tc_reachable.step [OF tc_reachable.init _ goes]) (simp add: NewThreadControl_def)
  have 2: "tc_reachable (upd 0 begin_fn (Go NewThreadControl))"
    by (rule tc_reachable.step [OF 1 _ runs [OF begins]]) (simp_all add: NewThreadControl_def Go_def spawn_def)
  have 3: "tc_reachable (Close (upd 0 begin_fn (Go NewThreadControl)))"
    by (rule tc_reachable.step [OF 2 _ closes]) (simp add: NewThreadControl_def Go_def spawn_def)
  have 4: "tc_reachable (upd 0 (\<lambda>t. t\<lparr>cancelled := True, watching := False\<rparr>) (Close (upd 0 begin_fn (Go NewThreadControl))))"
    by (rule tc_reachable.step [OF 3 _ runs [OF stop_seen]])
       (simp_all add: NewThreadControl_def Go_def spawn_def Close_def begin_fn_def Ctx_def CtxCancel_def)
  then show ?thesis
    by (simp add: demo_waiting_def NewThreadControl_def Go_def spawn_def Close_def begin_fn_def Ctx_def CtxCancel_def upd_def)
qed

lemma demo_joined_reachable: "tc_reachable demo_joined"
proof -
  have 1: "tc_reachable (upd 0 (\<lambda>t. t\<lparr>phase := Returned\<rparr>) demo_waiting)"
    by (rule tc_reachable.step [OF demo_waiting_reachable _ returns]) (simp_all add: demo_waiting_def)
  have 2: "tc_reachable (upd 0 (\<lambda>t. t\<lparr>phase := Cancelled, cancelled := True\<rparr>) (upd 0 (\<lambda>t. t\<lparr>phase := Returned\<rparr>) demo_waiting))" (is "tc_reachable ?s")
    by (rule tc_reachable.step [OF 1 _ runs [OF cancels]]) (simp_all add: demo_waiting_def)
  have 3: "tc_reachable ((upd 0 (\<lambda>t. t\<lparr>phase := Exited\<rparr>) ?s)\<lparr>threadsWG := threadsWG ?s - 1\<rparr>)" (is "tc_reachable ?u")
    by (rule tc_reachable.step [OF 2 _ runs [OF leaves]]) (simp_all add: demo_waiting_def)
  have "tc_reachable (?u\<lparr>closing := Joined (length (threads ?u))\<rparr>)"
    by (rule tc_reachable.step [OF 3 _ runs [OF joins]]) (simp_all add: demo_waiting_def)
  then show ?thesis by (simp add: demo_joined_def demo_waiting_def upd_def)
qed

lemma demo_waiting_rests: "\<nexists>s'. runtime_step demo_waiting s'"
  by (auto elim!: runtime_stepE simp: demo_waiting_def)

theorem close_joins_witness:
  "list_all (\<lambda>t. phase t = Exited \<or> phase t = Running \<and> ctx_done demo_waiting t) (threads demo_waiting)
   \<and> closing demo_joined = Joined 1 \<and> phase (threads demo_joined ! 0) = Exited \<and> panicked (Close demo_joined)"
proof -
  have "stop_closed demo_waiting" "stop_closed demo_joined" and joined: "closing demo_joined = Joined 1"
    by (simp_all add: demo_waiting_def demo_joined_def)
  with close_joins [OF demo_waiting_reachable] close_joins [OF demo_joined_reachable] demo_waiting_rests
  show ?thesis unfolding list_all_iff by (metis less_one rtranclp.rtrancl_refl)
qed

end
