(* ===== verification/Launch.thy ===== *)
theory Launch
  imports Settings Health Threads Sha2
begin

text \<open>
  How a plugin process starts (\<^verbatim>\<open>cmd/plugin/main.go\<close>): the configured plugin is made, registered and served, or the
  process panics; the beacon first waits for its dependencies (\<^verbatim>\<open>beacon/plugin.go\<close>). The development plugins
  (\<^verbatim>\<open>authnoop\<close>, \<^verbatim>\<open>accountnoop\<close>) and the health of a process are here too. What the constructors of the plugins need
  from outside is the record \<open>platform\<close>; all of it acts on one world.
\<close>

section \<open>The development plugins\<close>

text \<open>Every token is accepted; the client is named after the token's hash.\<close>

definition authnoop_ValidateToken :: "string \<Rightarrow> bool \<times> string" where
  "authnoop_ValidateToken tok = (True, ''dev_'' @ hex_encode (take 8 (sha256 tok)))"

definition authnoop_ValidateServiceToken :: "string \<Rightarrow> bool \<times> string" where
  "authnoop_ValidateServiceToken tok = (True, ''dev_'' @ hex_encode (take 8 (sha256 tok)))"

text \<open>\<open>tenant\<close> is the value of \<^verbatim>\<open>ORBITPORT_ACCOUNTNOOP_KMS_TENANT\<close>; the plugin is its tenant.\<close>

definition accountnoop_NewPlugin :: "string \<Rightarrow> string" where
  "accountnoop_NewPlugin tenant = (if tenant = [] then ''noop-tenant'' else tenant)"

definition accountnoop_Hold :: "string \<Rightarrow> HoldRequest \<Rightarrow> HoldResponse" where
  "accountnoop_Hold kmsTenant req = \<lparr>hs_Ok = True, hs_LedgerId = ''noop-ledger'', hs_BalanceAfter = 0, hs_KmsTenant = kmsTenant\<rparr>"

definition accountnoop_Settle :: "string \<Rightarrow> string \<Rightarrow> bool \<times> int" where
  "accountnoop_Settle kmsTenant ledgerID = (True, 0)"

definition accountnoop_Release :: "string \<Rightarrow> string \<Rightarrow> bool \<times> int" where
  "accountnoop_Release kmsTenant ledgerID = (True, 0)"

section \<open>The start of the beacon\<close>

text \<open>\<open>bd_connects\<close> is the targets that \<^verbatim>\<open>grpc.NewClient\<close> accepts, \<open>bd_ipfs\<close> the plugin at an address.\<close>

record 'w beacon_deps =
  bd_rounds :: rounds
  bd_connects :: "string \<Rightarrow> bool"
  bd_ipfs :: "string \<Rightarrow> 'w ipfs_client"
  bd_now :: int

datatype beacon_start_error =
    DependenciesFailed | RegistryConnection | RegistryLoad registry_error | SchedulerConnection | BuilderConnection string

record beaconPlugin =
  bl_cfg :: beaconConfig
  bl_scheduler :: Scheduler
  bl_threads :: threadControl
  bl_builder_cfg :: beaconConfig
  bl_builder_threads :: threadControl

text \<open>The background context never ends: the timer of the wait always fires, and no attempt is cancelled.\<close>

definition background :: "rounds \<Rightarrow> rounds" where
  "background r = r\<lparr>fires := (\<lambda>_. True)\<rparr>"

definition loadRegistry :: "'w beacon_deps \<Rightarrow> beaconConfig \<Rightarrow> ('w, beacon_start_error, BeaconMetadata list) act" where
  "loadRegistry d conf =
     (if \<not> bd_connects d (bc_IPFSPlugin conf) then fail RegistryConnection
      else wrapErr RegistryLoad (loadRegistryWithClient (\<lambda>_. False) (bd_now d) (Beacon.Config.truncate conf) (bd_ipfs d (bc_IPFSPlugin conf))))"

text \<open>\<open>None\<close> when the wait for the dependencies never ends. The builder reads its configuration anew.\<close>

definition beacon_NewPlugin :: "'w beacon_deps \<Rightarrow> viper \<Rightarrow> 'w \<Rightarrow> ((beacon_start_error, beaconPlugin) res \<times> 'w) option" where
  "beacon_NewPlugin d vp w =
     (let conf = beacon_readFromEnv vp in
      case WaitForDependencies (background (bd_rounds d)) 1000000000 (60 * 1000000000)
          [bc_IPFSPlugin conf, bc_CTRNGPlugin conf, bc_MasterSeedPlugin conf] of
        None \<Rightarrow> None
      | Some (ok, _) \<Rightarrow>
          if \<not> ok then Some (Err DependenciesFailed, w)
          else Some (andThen (loadRegistry d conf) (\<lambda>registry.
            ret \<lparr>bl_cfg = conf, bl_scheduler = NewScheduler registry, bl_threads = NewThreadControl,
              bl_builder_cfg = beacon_readFromEnv vp, bl_builder_threads = NewThreadControl\<rparr>) w))"

definition scheduler_Start :: "'w beacon_deps \<Rightarrow> beaconPlugin \<Rightarrow> ('w, beacon_start_error, beaconPlugin) act" where
  "scheduler_Start d p =
     (if \<not> bd_connects d (bc_IPFSPlugin (bl_cfg p)) then fail SchedulerConnection
      else andThen (updateLastExecs (bd_ipfs d (bc_IPFSPlugin (bl_cfg p))) (bl_scheduler p)) (\<lambda>s.
        ret (p\<lparr>bl_scheduler := s, bl_threads := Go (bl_threads p)\<rparr>)))"

definition builder_Start :: "'w beacon_deps \<Rightarrow> beaconPlugin \<Rightarrow> ('w, beacon_start_error, beaconPlugin) act" where
  "builder_Start d p =
     (let conf = bl_builder_cfg p in
      if \<not> bd_connects d (bc_IPFSPlugin conf) then fail (BuilderConnection ''IPFS'')
      else if \<not> bd_connects d (bc_CTRNGPlugin conf) then fail (BuilderConnection ''CTRNG'')
      else if \<not> bd_connects d (bc_MasterSeedPlugin conf) then fail (BuilderConnection ''MasterSeed'')
      else ret (p\<lparr>bl_builder_threads := Go (bl_builder_threads p)\<rparr>))"

text \<open>The scheduler that has been started goes on running when the builder fails to start.\<close>

definition beacon_Start :: "'w beacon_deps \<Rightarrow> beaconPlugin \<Rightarrow> 'w \<Rightarrow> (beacon_start_error, unit) res \<times> beaconPlugin \<times> 'w" where
  "beacon_Start d p w =
     (case scheduler_Start d p w of
        (Ok p1, w1) \<Rightarrow>
          (case builder_Start d p1 w1 of
             (Ok p2, w2) \<Rightarrow> (Ok (), p2, w2)
           | (Err e, w2) \<Rightarrow> (Err e, p1, w2)
           | (Panics, w2) \<Rightarrow> (Panics, p1, w2))
      | (Err e, w1) \<Rightarrow> (Err e, p, w1)
      | (Panics, w1) \<Rightarrow> (Panics, p, w1))"

text \<open>The closing steps; each thread control then waits for its goroutines, the scheduler's before its queue is closed.\<close>

definition beacon_Close :: "beaconPlugin \<Rightarrow> beaconPlugin" where
  "beacon_Close p = p\<lparr>bl_threads := Close (bl_threads p), bl_scheduler := Scheduler_Close (bl_scheduler p),
     bl_builder_threads := Close (bl_builder_threads p)\<rparr>"

section \<open>The process\<close>

record ('w, 'c, 'pol) platform =
  pf_web :: "'w web"
  pf_auth :: start_deps
  pf_insecure :: string
  pf_account :: "'w Account.env"
  pf_lru :: "'c lru"
  pf_addr :: addresses
  pf_connects :: "string \<Rightarrow> bool"
  pf_nonce :: int
  pf_crypto :: crypto
  pf_url :: "string \<Rightarrow> bool"
  pf_visit :: visit_order
  pf_bao :: "'w server"
  pf_cedar :: "'pol cedar_parse"
  pf_readFile :: "string \<Rightarrow> string option"
  pf_urlPath :: "string \<Rightarrow> string option"
  pf_tenant :: string
  pf_beacon :: "'w beacon_deps"
  pf_post :: "string \<Rightarrow> 'w \<Rightarrow> int option \<times> 'w"

datatype launch_error =
    AptosStart options_error | AuthStart auth_error | IpfsStart ipfs_error | BeaconStart beacon_start_error
  | MasterSeedStart ms_error | PatIssuerStart issuer_error | JwksStart jwks_config_error | KmsStart plugin_error
  | AccountStart account_error | ThresholdStart threshold_error | UnknownPlugin string

datatype ('w, 'c, 'pol) process =
    AptosProcess ClientOptions OAuthClient | AuthProcess Auth.Plugin | AuthNoopProcess | AccountNoopProcess string
  | IpfsProcess "'c Ipfs.Plugin" | BeaconProcess beaconPlugin bool | MasterSeedProcess MasterSeed.Plugin
  | PatIssuerProcess "'w PatIssuer.Plugin" | JwksProcess Jwks.Plugin | KmsProcess "'pol keyStorePlugin"
  | AccountProcess accountConfig cachedToken | ThresholdProcess "ThresholdPlugin.OpenBaoClient ThresholdPlugin.Plugin"

text \<open>The end of the start: serving, a panic with an error or of its own, or never.\<close>

datatype ('w, 'c, 'pol) outcome = Serving "('w, 'c, 'pol) process" | Panicked "launch_error option" | Hangs

definition made :: "('e \<Rightarrow> launch_error) \<Rightarrow> ('a \<Rightarrow> ('w, 'c, 'pol) process) \<Rightarrow> 'e + 'a \<Rightarrow> ('w, 'c, 'pol) outcome" where
  "made err proc r = (case r of Inl e \<Rightarrow> Panicked (Some (err e)) | Inr p \<Rightarrow> Serving (proc p))"

definition launch_account :: "('w, 'c, 'pol) platform \<Rightarrow> viper \<Rightarrow> 'w \<Rightarrow> ('w, 'c, 'pol) outcome \<times> 'w" where
  "launch_account pf vp w =
     (case Account.NewPlugin (pf_insecure pf) (pf_account pf) (account_readFromEnv vp) (no_token, w) of
        (Ok conf, (c, w')) \<Rightarrow> (Serving (AccountProcess conf c), w')
      | (Err e, (c, w')) \<Rightarrow> (Panicked (Some (AccountStart e)), w')
      | (Panics, (c, w')) \<Rightarrow> (Panicked None, w'))"

text \<open>An error of \<^verbatim>\<open>Start\<close> is only logged.\<close>

definition launch_beacon :: "('w, 'c, 'pol) platform \<Rightarrow> viper \<Rightarrow> 'w \<Rightarrow> ('w, 'c, 'pol) outcome \<times> 'w" where
  "launch_beacon pf vp w =
     (case beacon_NewPlugin (pf_beacon pf) vp w of
        None \<Rightarrow> (Hangs, w)
      | Some (Ok p, w1) \<Rightarrow>
          (case beacon_Start (pf_beacon pf) p w1 of
             (Ok _, p', w') \<Rightarrow> (Serving (BeaconProcess p' True), w')
           | (Err _, p', w') \<Rightarrow> (Serving (BeaconProcess p' False), w')
           | (Panics, p', w') \<Rightarrow> (Panicked None, w'))
      | Some (Err e, w1) \<Rightarrow> (Panicked (Some (BeaconStart e)), w1)
      | Some (Panics, w1) \<Rightarrow> (Panicked None, w1))"

definition plugin_main :: "('w, 'c, 'pol) platform \<Rightarrow> viper \<Rightarrow> 'w \<Rightarrow> ('w, 'c, 'pol) outcome \<times> 'w" where
  "plugin_main pf vp w =
     (let name = gc_Plugin (core_ReadFromEnv vp) in
      if name = ''aptosorbital'' then (made AptosStart (\<lambda>(opts, c). AptosProcess opts c) (Orbital.NewPlugin (pf_web pf) (orbital_readFromEnv vp)), w)
      else if name = ''auth'' then (made AuthStart AuthProcess (Auth.NewPlugin (pf_auth pf) (auth_readFromEnv vp)), w)
      else if name = ''authnoop'' then (Serving AuthNoopProcess, w)
      else if name = ''accountnoop'' then (Serving (AccountNoopProcess (accountnoop_NewPlugin (pf_tenant pf))), w)
      else if name = ''ipfs'' then (made IpfsStart IpfsProcess (Ipfs.NewPlugin (pf_lru pf) (pf_addr pf) (ipfs_readFromEnv vp)), w)
      else if name = ''beacon'' then launch_beacon pf vp w
      else if name = ''masterseed'' then
        (let conf = masterseed_readFromEnv vp in
         (made MasterSeedStart MasterSeedProcess (MasterSeed.NewPlugin (masterSeedConfig.truncate conf) (pf_connects pf (AptosPlugin conf)) (pf_nonce pf)), w))
      else if name = ''patissuer'' then
        (made PatIssuerStart PatIssuerProcess (PatIssuer.NewPlugin (pf_crypto pf) (pf_url pf) (pf_visit pf) (pf_bao pf) (patissuer_readFromEnv vp)), w)
      else if name = ''jwks'' then (made JwksStart JwksProcess (Jwks.NewPlugin (jwks_readFromEnv vp)), w)
      else if name = ''kms'' then
        (made KmsStart KmsProcess (NewKmsPlugin (pf_cedar pf) (pf_readFile pf) (pf_urlPath pf) (kms_readFromEnv vp)), w)
      else if name = ''account'' then launch_account pf vp w
      else if name = ''threshold'' then (made ThresholdStart ThresholdProcess (ThresholdPlugin.NewPlugin (threshold_readFromEnv vp)), w)
      else (Panicked (Some (UnknownPlugin name)), w))"

text \<open>The check behind the health service: healthy, except for the IPFS plugin, which asks the node.\<close>

definition health_checker :: "('w, 'c, 'pol) platform \<Rightarrow> viper \<Rightarrow> ('w, 'c, 'pol) process \<Rightarrow> ('w, ipfs_health_error) HealthChecker" where
  "health_checker pf vp proc =
     (case proc of
        IpfsProcess _ \<Rightarrow> IpfsHealthCheck (web_accepts (pf_web pf) ''POST'') (pf_post pf) (bc_IPFSAddress (beacon_readFromEnv vp))
      | _ \<Rightarrow> (\<lambda>w. ((HealthStateHealthy, None), w)))"

text \<open>\<^verbatim>\<open>runHealthcheck\<close>: the exit code of the binary run as its own probe.\<close>

definition runHealthcheck :: "(string \<Rightarrow> bool) \<Rightarrow> (string \<Rightarrow> ServingStatus option) \<Rightarrow> viper \<Rightarrow> int" where
  "runHealthcheck dial rpc vp =
     (if Check dial rpc (''127.0.0.1:'' @ FormatNat (unat (gc_GrpcPort (core_ReadFromEnv vp)))) \<noteq> None then 1 else 0)"

text \<open>The binary: \<open>Inl\<close> is the exit code of the probe.\<close>

definition binary_main :: "(string \<Rightarrow> bool) \<Rightarrow> (string \<Rightarrow> ServingStatus option) \<Rightarrow> ('w, 'c, 'pol) platform \<Rightarrow> string list \<Rightarrow> viper \<Rightarrow> 'w
    \<Rightarrow> int + ('w, 'c, 'pol) outcome \<times> 'w" where
  "binary_main dial rpc pf args vp w =
     (if length args > 1 \<and> args ! 1 = ''healthcheck'' then Inl (runHealthcheck dial rpc vp) else Inr (plugin_main pf vp w))"

text \<open>The probe of a process that can be reached succeeds exactly when the process reports SERVING.\<close>

lemma runHealthcheck_status: "runHealthcheck (\<lambda>_. True) (\<lambda>_. Some status) vp = (if status = SERVING then 0 else 1)"
  by (simp add: runHealthcheck_def Check_def)

section \<open>Properties\<close>

text \<open>
  The variables without which a plugin must not start, and whether white space alone counts as nothing; \<open>None\<close> for a name
  that is no plugin's.
\<close>

definition required :: "string \<Rightarrow> (string \<times> bool) list option" where
  "required name =
     map_of
       [(''aptosorbital'', [(''APTOS_ORBITAL_CLIENT_ID'', True), (''APTOS_ORBITAL_CLIENT_SECRET'', True)]),
        (''auth'', [(''AUTH0_DOMAIN'', False), (''AUTH0_AUDIENCE'', False)]),
        (''authnoop'', []), (''accountnoop'', []), (''ipfs'', []), (''beacon'', []), (''masterseed'', []),
        (''patissuer'', [(''PATISSUER_ISS'', True), (''PATISSUER_AUD'', True)]),
        (''jwks'', [(''JWKS_PATISSUER_PLUGIN'', True)]),
        (''kms'', [(''KMS_OPENBAO_PROXY_URL'', False)]),
        (''account'', [(''ACCOUNT_DASHBOARD_URL'', True), (''ACCOUNT_AUTH0_DOMAIN'', True), (''ACCOUNT_AUTH0_AUDIENCE'', True),
          (''ACCOUNT_AUTH0_CLIENT_ID'', True), (''ACCOUNT_AUTH0_CLIENT_SECRET'', True)]),
        (''threshold'', [(''THRESHOLD_SESSION_SECRET'', True)])] name"

definition provided :: "(string \<Rightarrow> string option) \<Rightarrow> string \<times> bool \<Rightarrow> bool" where
  "provided env = (\<lambda>(k, trimmed). if trimmed then \<not> blank env k else \<not> unset env k)"

context viper_contract
begin

lemma orbital_refuses:
  assumes "blank env ''APTOS_ORBITAL_CLIENT_ID'' \<or> blank env ''APTOS_ORBITAL_CLIENT_SECRET''"
  shows "\<exists>e. Orbital.NewPlugin web (orbital_readFromEnv vp) = Inl e"
proof -
  have "AptosOrbitalClientId (orbital_readFromEnv vp) = [] \<or> AptosOrbitalClientSecret (orbital_readFromEnv vp) = []"
    using assms by (simp add: orbital_readFromEnv_def string_blank)
  then show ?thesis unfolding Orbital.NewPlugin_run by fastforce
qed

lemma auth_refuses: "unset env ''AUTH0_DOMAIN'' \<or> unset env ''AUTH0_AUDIENCE'' \<Longrightarrow> \<exists>e. Auth.NewPlugin su (auth_readFromEnv vp) = Inl e"
  by (auto simp: Auth.NewPlugin_def auth_readFromEnv_def string_empty)

lemma patissuer_refuses:
  "blank env ''PATISSUER_ISS'' \<or> blank env ''PATISSUER_AUD'' \<Longrightarrow> \<exists>e. PatIssuer.NewPlugin cr ok vis srv (patissuer_readFromEnv vp) = Inl e"
  by (auto simp: PatIssuer.NewPlugin_def patissuer_readFromEnv_def issuer_validate_def string_blank rbind_def rmap_err_def Let_def)

lemma jwks_refuses: "blank env ''JWKS_PATISSUER_PLUGIN'' \<Longrightarrow> \<exists>e. Jwks.NewPlugin (jwks_readFromEnv vp) = Inl e"
  by (auto simp: Jwks.NewPlugin_def jwks_readFromEnv_def jwks_validate_def string_blank rbind_def)

lemma kms_refuses: "unset env ''KMS_OPENBAO_PROXY_URL'' \<Longrightarrow> \<exists>e. NewKmsPlugin cedar readFile urlPath (kms_readFromEnv vp) = Inl e"
  by (auto simp: NewKmsPlugin_def kms_readFromEnv_def withKMSConfigDefaults_def string_empty Let_def)

lemma threshold_refuses: "blank env ''THRESHOLD_SESSION_SECRET'' \<Longrightarrow> \<exists>e. ThresholdPlugin.NewPlugin (threshold_readFromEnv vp) = Inl e"
  by (auto simp: ThresholdPlugin.NewPlugin_def threshold_readFromEnv_def string_blank Let_def)

lemma account_refuses:
  assumes "blank env ''ACCOUNT_DASHBOARD_URL'' \<or> blank env ''ACCOUNT_AUTH0_DOMAIN'' \<or> blank env ''ACCOUNT_AUTH0_AUDIENCE''
    \<or> blank env ''ACCOUNT_AUTH0_CLIENT_ID'' \<or> blank env ''ACCOUNT_AUTH0_CLIENT_SECRET''"
  shows "\<exists>e. Account.NewPlugin insecure ae (account_readFromEnv vp) s = (Err e, s)"
proof -
  have "\<exists>e. account_validate insecure (account_readFromEnv vp) = Inl e"
    using assms by (auto simp: account_validate_def account_readFromEnv_def string_blank Let_def)
  then show ?thesis by (auto simp: Account.NewPlugin_def rmap_err_def)
qed

lemma launch_refuses:
  assumes "required (gc_Plugin (core_ReadFromEnv vp)) = Some ks" "\<not> list_all (provided env) ks"
  shows "\<exists>e. plugin_main pf vp w = (Panicked (Some e), w)"
  using assms orbital_refuses [of "pf_web pf"] auth_refuses [of "pf_auth pf"] patissuer_refuses [of "pf_crypto pf" "pf_url pf" "pf_visit pf" "pf_bao pf"]
    jwks_refuses kms_refuses [of "pf_cedar pf" "pf_readFile pf" "pf_urlPath pf"] threshold_refuses
    account_refuses [of "pf_insecure pf" "pf_account pf" "(no_token, w)"]
  by (auto simp: required_def provided_def plugin_main_def launch_account_def made_def Let_def split: if_splits)

end

text \<open>
  C21. A plugin process does not start without its configuration: whatever the platform, a process whose plugin lacks one of
  its required variables, or whose configured name is no plugin's, panics with an error before it has done anything; and so
  does the default plugin in an environment without any variables.
\<close>

theorem missing_config_refused:
  assumes "viper_contract vp env"
  shows "case required (gc_Plugin (core_ReadFromEnv vp)) of
      None \<Rightarrow> plugin_main pf vp w = (Panicked (Some (UnknownPlugin (gc_Plugin (core_ReadFromEnv vp)))), w)
    | Some ks \<Rightarrow> \<not> list_all (provided env) ks \<longrightarrow> (\<exists>e. plugin_main pf vp w = (Panicked (Some e), w))"
proof (cases "required (gc_Plugin (core_ReadFromEnv vp))")
  case None
  then show ?thesis by (simp add: required_def plugin_main_def Let_def split: if_splits)
next
  case (Some ks)
  then show ?thesis using viper_contract.launch_refuses [OF assms Some] by auto
qed

theorem missing_config_refused_witness:
  "\<forall>(pf :: ('w, 'c, 'pol) platform) w. \<exists>e. plugin_main pf (env_viper Map.empty) w = (Panicked (Some e), w)"
proof (intro allI)
  fix pf :: "('w, 'c, 'pol) platform" and w
  have "gc_Plugin (core_ReadFromEnv (env_viper Map.empty)) = ''aptosorbital''"
    by (simp add: core_ReadFromEnv_def env_viper_def unset_def)
  then show "\<exists>e. plugin_main pf (env_viper Map.empty) w = (Panicked (Some e), w)"
    using missing_config_refused [of "env_viper Map.empty" Map.empty pf w, OF env_viper.viper_contract_axioms] by (simp add: required_def provided_def blank_def)
qed

text \<open>
  C39. What the health service of a process reports: SERVING for every plugin but the IPFS plugin, also for a beacon whose
  start has failed; for the IPFS plugin, SERVING when the node at the probed address answers its version with status 200,
  and UNKNOWN, never NOT_SERVING, otherwise; and the binary run as the probe of such a process exits with 0 exactly when
  SERVING is reported. The probed address is that of the node which the plugin uses exactly when
  \<^verbatim>\<open>IPFS_ADDRESS\<close> is set: without it the plugin uses the node on its own host and probes another one.
\<close>

theorem process_health:
  assumes "viper_contract vp env"
  shows "fst (HealthServer_Check (health_checker pf vp proc) w) =
      (case proc of
         IpfsProcess _ \<Rightarrow>
           let url = bc_IPFSAddress (beacon_readFromEnv vp) @ ''/api/v0/version'' in
           if web_accepts (pf_web pf) ''POST'' url \<and> fst (pf_post pf url w) = Some 200 then SERVING else UNKNOWN
       | _ \<Rightarrow> SERVING)
    \<and> (binary_main (\<lambda>_. True) (\<lambda>_. Some (fst (HealthServer_Check (health_checker pf vp proc) w))) pf [arg0, ''healthcheck''] vp w = Inl 0
         \<longleftrightarrow> fst (HealthServer_Check (health_checker pf vp proc) w) = SERVING)
    \<and> (IPFSAddress (ipfs_readFromEnv vp) = bc_IPFSAddress (beacon_readFromEnv vp) \<longleftrightarrow> \<not> unset env ''IPFS_ADDRESS'')"
proof (intro conjI)
  show "fst (HealthServer_Check (health_checker pf vp proc) w) =
      (case proc of
         IpfsProcess _ \<Rightarrow>
           let url = bc_IPFSAddress (beacon_readFromEnv vp) @ ''/api/v0/version'' in
           if web_accepts (pf_web pf) ''POST'' url \<and> fst (pf_post pf url w) = Some 200 then SERVING else UNKNOWN
       | _ \<Rightarrow> SERVING)"
  proof (cases "\<exists>p. proc = IpfsProcess p")
    case True
    then show ?thesis by (auto simp: health_checker_def ipfs_health_status Let_def)
  next
    case False
    then have "health_checker pf vp proc w = ((HealthStateHealthy, None), w)" by (auto simp: health_checker_def split: process.split)
    with False show ?thesis by (auto simp: HealthServer_Check_def ToHealthCheckStatus_def health_states split: process.split)
  qed
  show "binary_main (\<lambda>_. True) (\<lambda>_. Some (fst (HealthServer_Check (health_checker pf vp proc) w))) pf [arg0, ''healthcheck''] vp w = Inl 0
      \<longleftrightarrow> fst (HealthServer_Check (health_checker pf vp proc) w) = SERVING"
    by (simp add: binary_main_def runHealthcheck_status)
  show "IPFSAddress (ipfs_readFromEnv vp) = bc_IPFSAddress (beacon_readFromEnv vp) \<longleftrightarrow> \<not> unset env ''IPFS_ADDRESS''"
    by (simp add: ipfs_readFromEnv_def beacon_readFromEnv_def viper_contract.string_default [OF assms])
qed

theorem process_health_witness:
  "IPFSAddress (ipfs_readFromEnv (env_viper Map.empty)) \<noteq> bc_IPFSAddress (beacon_readFromEnv (env_viper Map.empty))
   \<and> IPFSAddress (ipfs_readFromEnv (env_viper [''IPFS_ADDRESS'' \<mapsto> ''http://node:1''])) = bc_IPFSAddress (beacon_readFromEnv (env_viper [''IPFS_ADDRESS'' \<mapsto> ''http://node:1'']))"
  using conjunct2 [OF conjunct2 [OF process_health [of "env_viper Map.empty" Map.empty, OF env_viper.viper_contract_axioms]]]
    conjunct2 [OF conjunct2 [OF process_health [of "env_viper [''IPFS_ADDRESS'' \<mapsto> ''http://node:1'']" "[''IPFS_ADDRESS'' \<mapsto> ''http://node:1'']", OF env_viper.viper_contract_axioms]]]
  by (simp add: unset_def)

text \<open>
  C40. The start of a beacon process never ends exactly when one of the plugins it depends on never reports healthy: the
  context that it waits in has no deadline, so that the error for dependencies that are not ready in time is never
  returned.
\<close>

theorem beacon_waits_forever:
  assumes "gc_Plugin (core_ReadFromEnv vp) = ''beacon''" "visits_all (bd_rounds (pf_beacon pf))"
  shows "(fst (plugin_main pf vp w) = Hangs \<longleftrightarrow>
      (\<exists>a \<in> {bc_IPFSPlugin (beacon_readFromEnv vp), bc_CTRNGPlugin (beacon_readFromEnv vp), bc_MasterSeedPlugin (beacon_readFromEnv vp)}.
         \<forall>k. \<not> up (bd_rounds (pf_beacon pf)) k a))
    \<and> fst (plugin_main pf vp w) \<noteq> Panicked (Some (BeaconStart DependenciesFailed))"
proof -
  let ?r = "background (bd_rounds (pf_beacon pf))" and ?conf = "beacon_readFromEnv vp"
  let ?deps = "[bc_IPFSPlugin ?conf, bc_CTRNGPlugin ?conf, bc_MasterSeedPlugin ?conf]"
  let ?wait = "WaitForDependencies ?r 1000000000 (60 * 1000000000) ?deps"
  have all: "visits_all ?r" using assms(2) by (simp add: visits_all_def background_def)
  have same: "up ?r = up (bd_rounds (pf_beacon pf))" "fires ?r n" for n by (simp_all add: background_def up_def fun_eq_iff)
  have main: "plugin_main pf vp w = launch_beacon pf vp w" using assms(1) by (simp add: plugin_main_def)
  note result = wait_result [OF all, of 1000000000 "60 * 1000000000" ?deps, simplified same]
  show ?thesis
  proof (cases ?wait)
    case None
    then have "fst (plugin_main pf vp w) = Hangs" by (simp add: main launch_beacon_def beacon_NewPlugin_def Let_def)
    moreover have "\<exists>a \<in> set ?deps. \<forall>k. \<not> up (bd_rounds (pf_beacon pf)) k a" using result None by simp
    ultimately show ?thesis by simp
  next
    case (Some p)
    obtain ok tr where p: "p = (ok, tr)" by (cases p)
    have ok: ok and seen: "\<forall>a \<in> set ?deps. \<exists>k. up (bd_rounds (pf_beacon pf)) k a"
      using result unfolding Some p option.case prod.case by (auto split: if_splits)
    have "fst (launch_beacon pf vp w) \<noteq> Hangs \<and> fst (launch_beacon pf vp w) \<noteq> Panicked (Some (BeaconStart DependenciesFailed))"
    proof -
      have "launch_beacon pf vp w =
          (case andThen (loadRegistry (pf_beacon pf) ?conf) (\<lambda>registry.
              ret \<lparr>bl_cfg = ?conf, bl_scheduler = NewScheduler registry, bl_threads = NewThreadControl,
                bl_builder_cfg = ?conf, bl_builder_threads = NewThreadControl\<rparr>) w of
             (Ok p, w1) \<Rightarrow>
               (case beacon_Start (pf_beacon pf) p w1 of
                  (Ok _, p', w') \<Rightarrow> (Serving (BeaconProcess p' True), w')
                | (Err _, p', w') \<Rightarrow> (Serving (BeaconProcess p' False), w')
                | (Panics, p', w') \<Rightarrow> (Panicked None, w'))
           | (Err e, w1) \<Rightarrow> (Panicked (Some (BeaconStart e)), w1)
           | (Panics, w1) \<Rightarrow> (Panicked None, w1))"
        using ok Some p by (simp add: launch_beacon_def beacon_NewPlugin_def Let_def)
      then show ?thesis
        by (auto simp: andThen_def loadRegistry_def wrapErr_def attempt_def split: prod.splits res.splits if_splits)
    qed
    then show ?thesis using seen by (auto simp: main)
  qed
qed

text \<open>A beacon whose randomness plugin never reports healthy.\<close>

definition stuck_rounds :: rounds where
  "stuck_rounds = \<lparr>dials = (\<lambda>_. True), answers = (\<lambda>i a. Some (if a = ''plugin-aptos-orbital:50001'' then NOT_SERVING else SERVING)), visit = (\<lambda>i xs. xs), fires = (\<lambda>_. True)\<rparr>"

theorem beacon_waits_forever_witness:
  "\<forall>(pf :: ('w, 'c, 'pol) platform) w.
     fst (plugin_main (pf\<lparr>pf_beacon := (pf_beacon pf)\<lparr>bd_rounds := stuck_rounds\<rparr>\<rparr>) (env_viper [''PLUGIN'' \<mapsto> ''beacon'']) w) = Hangs"
proof (intro allI)
  fix pf :: "('w, 'c, 'pol) platform" and w
  let ?vp = "env_viper [''PLUGIN'' \<mapsto> ''beacon'']"
  have name: "gc_Plugin (core_ReadFromEnv ?vp) = ''beacon''" and dep: "bc_CTRNGPlugin (beacon_readFromEnv ?vp) = ''plugin-aptos-orbital:50001''"
    by (simp_all add: core_ReadFromEnv_def beacon_readFromEnv_def env_viper_def unset_def)
  have all: "visits_all (bd_rounds (pf_beacon (pf\<lparr>pf_beacon := (pf_beacon pf)\<lparr>bd_rounds := stuck_rounds\<rparr>\<rparr>)))"
    by (simp add: visits_all_def stuck_rounds_def)
  show "fst (plugin_main (pf\<lparr>pf_beacon := (pf_beacon pf)\<lparr>bd_rounds := stuck_rounds\<rparr>\<rparr>) ?vp w) = Hangs"
    using conjunct1 [OF beacon_waits_forever [OF name all, of w]] by (simp add: dep stuck_rounds_def up_def checkDepHealth_def Check_def)
qed

end
