(* ===== verification/Randomness.thy ===== *)
theory Randomness
  imports MasterSeed Orbital
begin

text \<open>
  The master seed plugin fed by the orbital plugin: each tick of its fetch loop (\<^verbatim>\<open>masterseed/plugin.go\<close>) asks the other
  plugin for one chunk and puts it into the pool. The lemmas follow a seed of the pool back to the reply of the service it
  came from.
\<close>

text \<open>The request of a tick, and what the tick makes of the answer.\<close>

definition fetch_request :: TrngRequest where
  "fetch_request = \<lparr>tq_IgnoreSig = True, tq_Chunks = 1\<rparr>"

definition trng_values :: "(grpc_code, TrngResponse) res \<Rightarrow> string list option" where
  "trng_values r = (case r of Ok resp \<Rightarrow> Some (ts_Values resp) | _ \<Rightarrow> None)"

definition fetch_ticks :: "(grpc_code, TrngResponse) res list \<Rightarrow> MasterSeed.Plugin \<Rightarrow> MasterSeed.Plugin" where
  "fetch_ticks rs p = foldl (\<lambda>p r. fetchTick (trng_values r) p) p rs"

lemma addMasterSeed_members:
  "m \<in> set (masterSeeds (addMasterSeed s p)) \<Longrightarrow> m \<in> set (masterSeeds p) \<or> m = \<lparr>Seed = s, Offset = 0\<rparr> \<and> (\<exists>raw. hex_decode s = Some raw \<and> length raw = 32)"
  using set_tl_snoc [of "masterSeeds p" "\<lparr>Seed = s, Offset = 0\<rparr>"]
  by (auto simp: masterSeeds_addMasterSeed seed_ok_def Let_def split: if_splits option.splits)

lemma fetchTick_members:
  assumes "m \<in> set (masterSeeds (fetchTick resp p))" "m \<notin> set (masterSeeds p)"
  shows "\<exists>s vs raw. resp = Some (s # vs) \<and> m = \<lparr>Seed = s, Offset = 0\<rparr> \<and> hex_decode s = Some raw \<and> length raw = 32"
  using assms addMasterSeed_members [of m] by (auto simp: fetchTick_def split: option.splits list.splits)

lemma fetch_ticks_members:
  assumes "m \<in> set (masterSeeds (fetch_ticks rs p))" "m \<notin> set (masterSeeds p)"
  shows "\<exists>r \<in> set rs. \<exists>s vs raw. trng_values r = Some (s # vs) \<and> m = \<lparr>Seed = s, Offset = 0\<rparr> \<and> hex_decode s = Some raw \<and> length raw = 32"
  using assms
proof (induction rs arbitrary: p)
  case (Cons r rs)
  show ?case
  proof (cases "m \<in> set (masterSeeds (fetchTick (trng_values r) p))")
    case True
    with fetchTick_members [OF this Cons.prems(2)] show ?thesis by auto
  next
    case False
    with Cons show ?thesis by (fastforce simp: fetch_ticks_def)
  qed
qed (simp add: fetch_ticks_def)

text \<open>A value of an answer is a chunk of a reply in the log, to a request with a token that was issued to the plugin.\<close>

definition delivered_seed :: "'w web \<Rightarrow> ClientOptions \<Rightarrow> OAuthClient \<Rightarrow> web_event list \<Rightarrow> string \<Rightarrow> bool" where
  "delivered_seed web opts c0 l s \<longleftrightarrow>
     (\<exists>t req a tm sd sds. Sent (seed_request opts t req) a tm \<in> set l \<and> issued web c0 l t
        \<and> delivered [Sent (seed_request opts t req) a tm] = sd # sds \<and> s = Chunk sd)"

lemma delivered_seed_mono: "delivered_seed web opts c0 l s \<Longrightarrow> set l \<subseteq> set l' \<Longrightarrow> delivered_seed web opts c0 l' s"
  unfolding delivered_seed_def using issued_mono by blast

lemma segment_seed:
  assumes "trng_segment web opts c0 past req r seg" "trng_values r = Some (s # vs)"
  shows "delivered_seed web opts c0 (past @ seg) s"
proof -
  from assms(1) obtain allowed now auth api where seg: "seg = Asked allowed now # auth @ api"
    and api: "api = [] \<or> (\<exists>t a tm. api = [Sent (seed_request opts t req) a tm] \<and> issued web c0 (past @ auth) t)"
    and r: "r = Ok (seed_response (delivered api))" unfolding trng_segment_def by blast
  from r assms(2) have vals: "map Chunk (delivered api) = s # vs" by (simp add: trng_values_def)
  then have "api \<noteq> []" by (auto simp: delivered_def)
  with api obtain t a tm where api': "api = [Sent (seed_request opts t req) a tm]" and iss: "issued web c0 (past @ auth) t" by blast
  have "issued web c0 (past @ seg) t" using iss by (rule issued_mono) (auto simp: seg)
  moreover obtain sd sds where "delivered api = sd # sds" "s = Chunk sd" using vals by auto
  ultimately show ?thesis unfolding delivered_seed_def api' seg by fastforce
qed

lemma log_seed:
  assumes "trng_log web opts c0 past reqs rs l" "r \<in> set rs" "trng_values r = Some (s # vs)"
  shows "delivered_seed web opts c0 (past @ l) s"
  using assms
proof (induction web opts c0 past reqs rs l rule: trng_log.induct)
  case (2 web opts c0 past req reqs r' rs l)
  from 2(2) obtain seg rest where l: "l = seg @ rest" and seg: "trng_segment web opts c0 past req r' seg"
    and rest: "trng_log web opts c0 (past @ seg) reqs rs rest" by auto
  show ?case
  proof (cases "r = r'")
    case True
    from segment_seed [OF seg 2(4) [unfolded True]] show ?thesis by (rule delivered_seed_mono) (auto simp: l)
  next
    case False
    with 2(3) have "r \<in> set rs" by simp
    from 2(1) [OF rest this 2(4)] show ?thesis by (simp add: l)
  qed
qed auto

text \<open>
  C18. Where the seeds of the pool come from: after any number of ticks of the fetch loop against a new orbital plugin,
  whatever the network, the service, the clock and the rate limiter do, every entry that was not in the pool before holds
  32 bytes in hexadecimal and is the first chunk of a reply that the service gave, with a success status, to a request of
  the plugin with a token issued to it.
\<close>

theorem seed_provenance:
  assumes "Orbital.NewPlugin web cfg = Inr (opts, c0)"
    and "runs (GetTrng (observed web) opts) (replicate n fetch_request) (c0, (w, [])) = (rs, (c', (w', l)))"
    and "m \<in> set (masterSeeds (fetch_ticks rs p))"
  shows "m \<in> set (masterSeeds p) \<or> delivered_seed web opts c0 l (Seed m) \<and> Offset m = 0 \<and> (\<exists>raw. hex_decode (Seed m) = Some raw \<and> length raw = 32)"
proof (rule disjCI)
  assume "\<not> (delivered_seed web opts c0 l (Seed m) \<and> Offset m = 0 \<and> (\<exists>raw. hex_decode (Seed m) = Some raw \<and> length raw = 32))"
  moreover from trng_runs [OF NewPlugin_inv_start [OF assms(1)] assms(2)] have log: "trng_log web opts c0 [] (replicate n fetch_request) rs l" by auto
  ultimately show "m \<in> set (masterSeeds p)"
    using fetch_ticks_members [OF assms(3)] log_seed [OF log] by fastforce
qed

text \<open>A service that delivers one seed, and one tick.\<close>

definition one_seed :: string where
  "one_seed = replicate 64 (CHR ''a'')"

definition seed_web :: "int web" where
  "seed_web = \<lparr>web_parse = (\<lambda>_. None), web_accepts = (\<lambda>_ _. True), web_float = (\<lambda>_. Some 3600), web_now = (\<lambda>n. n),
     web_do = (\<lambda>_ q n. (Some (200, if rq_method q = ''POST'' then json_print (JObj [(''access_token'', JStr ''t''), (''expires_in'', JNum ''1'')])
        else json_print (JArr [JObj [(''chunk'', JStr one_seed)]]), True), n + 1)),
     web_allow = (\<lambda>_ _ n. (True, n))\<rparr>"

definition seed_run :: "(grpc_code, TrngResponse) res list \<times> OAuthClient \<times> int \<times> web_event list" where
  "seed_run = runs (GetTrng (observed seed_web) demo_opts) (replicate 1 fetch_request) (demo_client, (0, []))"

lemma seed_run_answers: "fst seed_run = [Ok \<lparr>ts_Values = [one_seed], ts_Sig = []\<rparr>]"
  by code_simp

lemma seed_web_made: "Orbital.NewPlugin seed_web orbital_demo_config = Inr (demo_opts, demo_client)"
  by (simp add: Orbital.NewPlugin_run Let_def NewOAuthClient_def orbital_demo_config_def demo_opts_def demo_client_def metricsEndpointLabel_def
      seed_web_def seconds_def)

lemma seed_run_pool: "masterSeeds (fetch_ticks [Ok \<lparr>ts_Values = [one_seed], ts_Sig = []\<rparr>] (pluginOfConfig cfg0)) = [\<lparr>Seed = one_seed, Offset = 0\<rparr>]"
  by code_simp

theorem seed_provenance_witness:
  "delivered_seed seed_web demo_opts demo_client (snd (snd (snd seed_run))) one_seed
   \<and> masterSeeds (fetch_ticks (fst seed_run) (pluginOfConfig cfg0)) = [\<lparr>Seed = one_seed, Offset = 0\<rparr>]"
proof
  show pool: "masterSeeds (fetch_ticks (fst seed_run) (pluginOfConfig cfg0)) = [\<lparr>Seed = one_seed, Offset = 0\<rparr>]"
    unfolding seed_run_answers by (rule seed_run_pool)
  obtain rs c' w' l where run: "seed_run = (rs, (c', (w', l)))" by (metis surj_pair)
  have empty: "masterSeeds (pluginOfConfig cfg0) = []" by (simp add: pluginOfConfig_def Let_def)
  from seed_provenance [OF seed_web_made run [unfolded seed_run_def], of "\<lparr>Seed = one_seed, Offset = 0\<rparr>" "pluginOfConfig cfg0"] pool
  show "delivered_seed seed_web demo_opts demo_client (snd (snd (snd seed_run))) one_seed" unfolding run by (simp add: empty)
qed

end
