(* ===== verification/Spec2Isabelle.thy ===== *)
theory Spec2Isabelle
  imports KmsLifecycle Launch Randomness
begin

text \<open>
  A verification development of the plugins of Orbitport (\<^verbatim>\<open>src/plugins\<close>), the Go processes behind its gateway: a key
  management service and a key store on OpenBao, the coordination of threshold key generation, randomness from a satellite
  service with a pool of master seeds to fall back on, a randomness beacon on IPFS, personal access tokens and their
  validation, accounts with credits, and the start and the health of these processes.

  \<^bold>\<open>The parts and how they interact.\<close> One binary (\<^verbatim>\<open>cmd/plugin/main.go\<close>) starts one plugin, chosen by its
  configuration. The \<^verbatim>\<open>kms\<close>, \<^verbatim>\<open>patissuer\<close> and \<^verbatim>\<open>threshold\<close> plugins send HTTP requests to OpenBao; \<^verbatim>\<open>jwks\<close> and \<^verbatim>\<open>auth\<close>
  fetch the key set of \<^verbatim>\<open>patissuer\<close>; \<^verbatim>\<open>account\<close> holds credits at a dashboard; \<^verbatim>\<open>masterseed\<close> is fed by \<^verbatim>\<open>aptosorbital\<close>;
  \<^verbatim>\<open>beacon\<close> takes randomness from both and writes blocks through \<^verbatim>\<open>ipfs\<close>.

  \<^bold>\<open>Conventions.\<close> A Go \<^verbatim>\<open>string\<close> or \<^verbatim>\<open>[]byte\<close> is a HOL string of bytes; fixed-width integers are words or integers with the
  wrap-around written out; a struct is a record, an error is a constructor per place where the code makes one, a handler's
  error carries its gRPC code. A stateful operation is an action \<open>'w \<Rightarrow> ('e, 'a) res \<times> 'w\<close> whose result is a value, an error
  or a panic (\<^verbatim>\<open>OpenBao.thy\<close>). Whatever is not in the repository is an argument: the OpenBao server, the policy engine Cedar,
  Keccak and ML-KEM, the IPFS node, the LRU cache, the decoding of content identifiers, the JWT library and the validator of
  the identity provider, PEM, X.509 and signing, the rate limiter, viper, the remote services, the clock, the draws of
  randomness and the order in which maps are visited. What the code relies on of them is stated as hypotheses or as locales,
  each interpreted on a concrete instance or on the model of the component that provides it. Three properties (the refinement
  of the key store, the isolation of the closed system, the reading back of a created key) instantiate the argument for the
  OpenBao server with models of its key-value engine that follow its documented behaviour: \<open>secret_server\<close> (\<^verbatim>\<open>KmsKeyStore\<close>)
  and \<open>kv_server\<close> (\<^verbatim>\<open>KmsTenancy\<close>). Both answer a document as it was posted and have no failures of transport, and
  \<open>secret_server\<close> counts versions in 32 bits.

  \<^bold>\<open>Concurrency.\<close> Mutexes make the sections they guard single steps. Interleaving inside operations is modelled where
  properties depend on it: the requests of \<^verbatim>\<open>Jwks\<close>, the goroutines of \<^verbatim>\<open>Threads\<close>, the scheduler against the builder and the
  overlapping executions of \<^verbatim>\<open>Beacon\<close> are step relations, and a request of \<^verbatim>\<open>Account\<close> finds before each of its reads of the
  token cache what other requests made of it. Elsewhere a sequence of calls is a run in which each call has ended before the
  next one starts; races between two calls of the KMS, of the IPFS plugin or of the satellite client are outside the model.

  \<^bold>\<open>The theories.\<close>

  \<^item> \<^verbatim>\<open>Prelude\<close>: Go's strings, hexadecimal and base64, results, sequences of calls and the locale of simulations.
  \<^item> \<^verbatim>\<open>ChaCha20\<close> (\<^verbatim>\<open>pkg/chacha20\<close>), \<^verbatim>\<open>Sha2\<close> (the hashes of the standard library): reads at any place follow one keystream,
    and skipping is reading and throwing away.
  \<^item> \<^verbatim>\<open>MasterSeed\<close> (\<^verbatim>\<open>plugin/masterseed\<close>): pool, derivation, uniform selection; the keystream ranges of all answers are
    disjoint as long as no seed enters the pool twice.
  \<^item> \<^verbatim>\<open>Orbital\<close> (\<^verbatim>\<open>pkg/oauth\<close>, \<^verbatim>\<open>plugin/aptosorbital\<close>): token cache, options, requests and handler, with the log of all that
    is sent. \<^verbatim>\<open>Randomness\<close>: the seeds of the pool traced to the replies of the service.
  \<^item> \<^verbatim>\<open>Json\<close> (\<^verbatim>\<open>encoding/json\<close>: scanner, decoder into structs, encoder, and their round trip), \<^verbatim>\<open>OpenBao\<close>
    (\<^verbatim>\<open>internal/openbao\<close>), \<^verbatim>\<open>Traces\<close> (a logic for the requests an action may make, one rule per combinator).
  \<^item> \<^verbatim>\<open>KmsNames\<close>, \<^verbatim>\<open>KmsBlob\<close>, \<^verbatim>\<open>KmsClient\<close>, \<^verbatim>\<open>KmsProviders\<close>, \<^verbatim>\<open>KmsPlugin\<close> (\<^verbatim>\<open>plugin/kms\<close>): tables, blobs, requests, the three
    providers and every handler. \<^verbatim>\<open>KmsTenancy\<close>: every request concerns the caller's own tenant, for each call and over whole
    runs. \<^verbatim>\<open>KmsLifecycle\<close>: what is created is what is read. \<^verbatim>\<open>KmsKeyStore\<close>: the key store refines a map from tenants and
    names to secrets, behind its policy gate.
  \<^item> \<^verbatim>\<open>Dkg\<close>, \<^verbatim>\<open>ThresholdPlugin\<close> (\<^verbatim>\<open>plugin/threshold\<close>): the transcript of a successful run, the bootstrap seeds, the retries,
    the checks of a request and the codes of the handler.
  \<^item> \<^verbatim>\<open>Jwks\<close> (\<^verbatim>\<open>plugin/jwks\<close>): concurrent requests as a step relation, with the spacing of the calls and the age of what is
    served as its invariant.
  \<^item> \<^verbatim>\<open>Account\<close> (\<^verbatim>\<open>plugin/account\<close>): token manager with the interference of other requests, dashboard client, retry after
    401, handlers; which token a call to the dashboard carries.
  \<^item> \<^verbatim>\<open>Ipfs\<close>, \<^verbatim>\<open>Beacon\<close> (\<^verbatim>\<open>plugin/ipfs\<close>, \<^verbatim>\<open>plugin/beacon\<close>): caches and handlers; blocks, registry, genesis, execution and
    scheduler; a beacon's name points to a chain of linked blocks, as long as the successful executions when they do not
    overlap, at most as long when they do.
  \<^item> \<^verbatim>\<open>Jose\<close>, \<^verbatim>\<open>Auth\<close>, \<^verbatim>\<open>PatIssuer\<close> (\<^verbatim>\<open>plugin/auth\<close>, \<^verbatim>\<open>plugin/patissuer\<close>): points, keys and tokens; the key cache and the
    validation; the two signers and the issuer. This theory composes them: what the issuer issues, the validation accepts.
  \<^item> \<^verbatim>\<open>Health\<close> (\<^verbatim>\<open>core/health\<close>, \<^verbatim>\<open>beacon/health.go\<close>), \<^verbatim>\<open>Threads\<close> (\<^verbatim>\<open>pkg/utils\<close>), \<^verbatim>\<open>Settings\<close> (every \<^verbatim>\<open>config.go\<close>), \<^verbatim>\<open>Launch\<close>
    (\<^verbatim>\<open>cmd/plugin/main.go\<close>, \<^verbatim>\<open>authnoop\<close>, \<^verbatim>\<open>accountnoop\<close>, the start of the beacon): when the wait for dependencies ends, what
    closing a group of goroutines guarantees, that a plugin without its configuration does not start, and what the health
    service of a process reports.

  \<^bold>\<open>Bounds.\<close> The JSON parser has fuel twice the length of its input plus one, which its fuel lemma shows to be enough, and
  the nesting bound 10000 of Go's decoder. The retries of the key generation and the five attempts to load the registry
  recurse on the attempts that are left; the rejection loop of the random index consumes a list of draws and has no result
  when they run out. The wait for dependencies, which may run for ever, is a partial function whose value is then \<open>None\<close>.
  Bodies are read up to the limits that the code sets.

  \<^bold>\<open>Not modelled.\<close> Metrics and logging, which nothing reads; listeners and the deadlines of contexts, where the environment
  decides when a call fails; the waiting times of the registry's attempts (\<^verbatim>\<open>beacon/plugin.go\<close>) and their overall time limit;
  the failure of \<^verbatim>\<open>http.NewRequest\<close> in the OpenBao client, whose URLs are well-formed; the wrap-around of Go's dates for a
  lifetime of tokens of absurd length, times being unbounded integers; the mock servers and test helpers; generated code; the
  gateway, which is written in Rust.
\<close>

section \<open>Personal access tokens, from the issuer to the validation\<close>

text \<open>The auth plugin in the same world as the issuer, whose key set it fetches by a call of GetJwks.\<close>

definition issuer_env :: "('w \<Rightarrow> int) \<Rightarrow> 'w PatIssuer.Plugin \<Rightarrow> 'w Auth.env" where
  "issuer_env now p =
     \<lparr>Auth.env.env_now = now,
      env_jwks = (\<lambda>w. case GetJwks p w of (Ok out, w') \<Rightarrow> (Some out, w') | (_, w') \<Rightarrow> (None, w'))\<rparr>"

lemma key_available:
  assumes cache: "\<And>ks. jc_keys c = Some ks \<Longrightarrow>
      map_of ks kid = Some k \<or> map_of ks kid = None \<and> jc_minRefresh c \<le> Auth.env_now env w - jc_fetchedAt c"
    and ttl: "jc_minRefresh c \<le> jwksCacheTTL"
    and fetch: "env_jwks env w = (Some js, w')" "parseJWKS js = Inr ks'" "map_of ks' kid = Some k"
  shows "\<exists>c' w2. key env kid (c, w) = (Ok k, (c', w2)) \<and> w2 \<in> {w, w'}"
proof (cases "jc_keys c = None \<or> jwksCacheTTL < Auth.env_now env w - jc_fetchedAt c")
  case True
  from key_fetches [OF this ttl fetch] show ?thesis by blast
next
  case False
  then obtain ks where ks: "jc_keys c = Some ks" and fresh: "\<not> jwksCacheTTL < Auth.env_now env w - jc_fetchedAt c" by auto
  show ?thesis
  proof (cases "map_of ks kid")
    case None
    then have "refresh env (c, w) = (Ok (), (c\<lparr>jc_keys := Some ks', jc_fetchedAt := Auth.env_now env w'\<rparr>, w'))"
        "\<not> Auth.env_now env w - jc_fetchedAt c < jc_minRefresh c"
      using cache [OF ks] fetch by (auto simp: Auth.refresh_def)
    then show ?thesis using ks fresh None fetch(3)
      by (auto simp: key_def ensure_keys_def andThen_def lookup_def lookup_key_def)
  next
    case (Some k')
    then show ?thesis using cache [OF ks] ks fresh by (auto simp: key_def ensure_keys_def andThen_def lookup_def)
  qed
qed

locale pat_system =
  signer: token_signer mint key_set published verify + library: jwt_library parse verify date
  for mint :: "claims \<Rightarrow> ('w, signer_error, string) act" and key_set published verify and parse :: "'w jwt_parser" and date
begin

lemma key_set_parsed:
  assumes "key_set w = (Ok out, w')"
  shows "\<exists>ks. parseJWKS out = Inr ks \<and> (\<forall>kid k. published w kid k \<longrightarrow> map_of ks kid = Some k)"
proof -
  obtain kps where out: "out = json_print (JObj [(''keys'', JArr (map (printed_key ''ES256'') kps))])"
      and kps: "kps \<noteq> []" "list_all printable_key kps" "distinct (map fst kps)"
      and pub: "\<forall>kid k. published w kid k \<longrightarrow> map_of kps kid = Some k"
    using signer.listed [OF assms] by blast
  have "parseJWKS out = Inr kps" unfolding out by (rule parse_printed_keys [OF kps key_texts_valid(11)])
  with pub show ?thesis by blast
qed

lemma pat_claims_flat:
  assumes "valid_utf8 (pi_Issuer conf)" "valid_utf8 (pi_Audience conf)" "valid_utf8 (it_Jti req)" "valid_utf8 (it_Subject req)"
    "valid_utf8 (it_KmsTenant req)"
  shows "flat_object (pat_claims conf req t)"
  using assms by (auto simp: flat_object_def pat_claims_def omitempty_def lower_char_def simp del: valid_utf8.simps)

lemma pat_claims_plain:
  assumes "- (2 ^ 53) \<le> unix_time (it_ExpiresAt req)" "unix_time (it_ExpiresAt req) \<le> 2 ^ 53"
    "- (2 ^ 53) \<le> t div 1000000000" "t div 1000000000 \<le> 2 ^ 53"
  shows "plain_claims (pat_claims conf req t)"
  unfolding plain_claims_def pat_claims_def omitempty_def using assms by auto

lemma pat_claims_lookup:
  "map_of (pat_claims conf req t) ''iss'' = Some (JStr (pi_Issuer conf))"
  "map_of (pat_claims conf req t) ''exp'' = Some (JNum (Itoa (unix_time (it_ExpiresAt req))))"
  "map_of (pat_claims conf req t) ''nbf'' = None"
  "audiences (pat_claims conf req t) = [pi_Audience conf]"
  "string_claim (pat_claims conf req t) ''sub'' = it_Subject req" "string_claim (pat_claims conf req t) ''jti'' = it_Jti req"
  "string_claim (pat_claims conf req t) ''kms_tenant'' = it_KmsTenant req"
  by (simp_all add: pat_claims_def omitempty_def audiences_def string_claim_def)

lemma accepted_after_issue:
  assumes p: "ip_signer p = \<lparr>Mint = mint, JWKS = key_set\<rparr>"
    and texts: "valid_utf8 (pi_Issuer (ip_cfg p))" "valid_utf8 (pi_Audience (ip_cfg p))" "valid_utf8 (it_Jti req)"
      "valid_utf8 (it_Subject req)" "valid_utf8 (it_KmsTenant req)"
    and times: "0 \<le> now w" "unix_time (it_ExpiresAt req) \<le> 2 ^ 53"
    and issued: "IssueToken now zone p req w = (Ok tok, w1)"
    and kept: "\<And>kid k. published w1 kid k \<Longrightarrow> published w2 kid k"
    and q: "p_patKeys q = Some c" "p_patIss q = pi_Issuer (ip_cfg p)" "p_patAudience q = pi_Audience (ip_cfg p)"
    and cache: "\<And>ks kid k. jc_keys c = Some ks \<Longrightarrow> published w2 kid k \<Longrightarrow>
      map_of ks kid = Some k \<or> map_of ks kid = None \<and> jc_minRefresh c \<le> now w2 - jc_fetchedAt c"
    and ttl: "jc_minRefresh c \<le> jwksCacheTTL"
    and served: "GetJwks p w2 = (Ok out, w3)"
    and unexpired: "now w2 < unix_ns (unix_time (it_ExpiresAt req)) + seconds 60" "now w3 < unix_ns (unix_time (it_ExpiresAt req)) + seconds 60"
  shows "\<exists>q' w'. ValidateToken parse (issuer_env now p) tok (q, w2) =
    (Ok \<lparr>tv_ClientId = it_Subject req, tv_Jti = it_Jti req, tv_KmsTenant = it_KmsTenant req\<rparr>, (q', w'))"
proof -
  let ?cl = "pat_claims (ip_cfg p) req (now w)" and ?env = "issuer_env now p" and ?e = "unix_time (it_ExpiresAt req)"
  note facts = issued [unfolded IssueToken_Ok p signer.simps]
  obtain header kid k sig where tok: "tok = signing_input header ?cl @ CHR ''.'' # rawurl_encode sig" and header: "flat_object header"
      "map_of header ''alg'' = Some (JStr ''ES256'')" "map_of header ''kid'' = Some (JStr kid)" "kid \<noteq> []"
      and verified: "verify k (signing_input header ?cl) sig" and pub: "published w1 kid k"
    using signer.minted facts by blast
  have flat: "flat_object ?cl" using texts by (rule pat_claims_flat)
  have e: "0 < ?e" "now w div 1000000000 \<le> ?e" using facts times(1) by (auto simp: unix_ns_def)
  have plain: "plain_claims ?cl" using times e by (intro pat_claims_plain) auto
  have ks: "key_set w2 = (Ok out, w3)" using served p by (auto simp: GetJwks_def act_Ok)
  obtain ks' where ks': "parseJWKS out = Inr ks'" "map_of ks' kid = Some k"
    using key_set_parsed [OF ks] kept [OF pub] by blast
  have fetch: "env_jwks ?env w2 = (Some out, w3)" using served by (simp add: issuer_env_def)
  obtain c' w' where key: "key ?env kid (c, w2) = (Ok k, (c', w'))" and w': "w' \<in> {w2, w3}"
    using key_available [OF _ ttl fetch ks'] cache [OF _ kept [OF pub]] by (auto simp: issuer_env_def)
  have "keyfunc ?env header (c, w2) = (Ok k, (c', w'))" using key header(3,4) by (simp add: keyfunc_def string_claim_def)
  moreover have parts: "jwt_parts tok = Some (header, ?cl, signing_input header ?cl, sig)"
    unfolding tok by (rule jwt_parts_compact [OF header(1) flat])
  moreover have "Option.bind (map_of ?cl ''exp'') date = Some (unix_ns ?e)"
    using library.numeric_date [of ?e] e(1) times(2) by (simp add: pat_claims_lookup)
  moreover have "now w' < unix_ns ?e + seconds 60" using w' unexpired by blast
  ultimately have "parse tok (keyfunc ?env) (pat_options (p_patIss q) (p_patAudience q)) now (c, w2) = (Ok ?cl, (c', w'))"
    using library.complete [of tok header ?cl "signing_input header ?cl" sig "pat_options (p_patIss q) (p_patAudience q)" "keyfunc ?env" c w2 k c' w' "unix_ns ?e" now]
      header(2) verified plain q by (simp add: pat_options_def pat_claims_lookup)
  moreover have "Auth.env_now ?env = now" by (simp add: issuer_env_def)
  moreover have "pat_response ?cl = Inr \<lparr>tv_ClientId = it_Subject req, tv_Jti = it_Jti req, tv_KmsTenant = it_KmsTenant req\<rparr>"
    using facts by (simp add: pat_response_def pat_claims_lookup)
  moreover have "unverifiedIssuer tok = p_patIss q"
    unfolding tok q(2) by (rule unverifiedIssuer_compact [OF flat pat_claims_lookup(1)])
  ultimately show ?thesis using q(1)
    by (simp add: ValidateToken_def validatePAT_def andThen_def wrapErr_def attempt_def)
qed

end

interpretation demo_transit: pat_system "transit_Mint (\<lambda>_. True) (\<lambda>m. m) demo_srv (newTransitSigner demo_config)"
  "transit_JWKS demo_crypto (\<lambda>_. True) (\<lambda>m. m) demo_srv (newTransitSigner demo_config)"
  "\<lambda>w kid k. \<exists>v. kid = Itoa v \<and> demo_versions w v = Some k" demo_verify "reference_parse demo_verify" int_date
  by (intro pat_system.intro demo.transit_is_signer reference_library)

lemma transit_plugin:
  assumes "PatIssuer.NewPlugin cr url_ok vis srv conf = Inr p" "pi_Signer conf = ''transit''"
  shows "ip_cfg p = conf" "ip_signer p = \<lparr>Mint = transit_Mint url_ok vis srv (newTransitSigner conf),
      JWKS = transit_JWKS cr url_ok vis srv (newTransitSigner conf)\<rparr>"
  using assms by (auto simp: PatIssuer.NewPlugin_def rbind_Inr_iff Let_def split: if_splits)

text \<open>
  C4. What the issuer issues, the auth plugin accepts. A token issued through the transit engine is accepted by an auth plugin that
  is configured with the issuer and audience of the issuer plugin, at any later time until a minute after its expiry, with the
  subject, token id and tenant of the request, provided that the versions of the signing key of the time of issue are still
  there, that the issuer answers with its key set, and that the cache of the auth plugin holds no other key under an id in
  use and, where it lacks the key, was filled at least the minimal refresh time ago (ten seconds in the code). So a rotation
  of the key between fetching the key set and issuing the token is picked up, but a token signed with the new key can be
  refused until that time has passed.
\<close>

theorem issued_token_is_accepted:
  assumes engine: "transit_engine srv (newTransitSigner conf) cr vis vers verify"
    and library: "jwt_library parse verify date"
    and new: "PatIssuer.NewPlugin cr url_ok vis srv conf = Inr p" "pi_Signer conf = ''transit''"
    and texts: "valid_utf8 (pi_Issuer conf)" "valid_utf8 (pi_Audience conf)" "valid_utf8 (it_Jti req)"
      "valid_utf8 (it_Subject req)" "valid_utf8 (it_KmsTenant req)"
    and times: "0 \<le> now w" "unix_time (it_ExpiresAt req) \<le> 2 ^ 53"
    and issued: "IssueToken now zone p req w = (Ok tok, w1)"
    and kept: "\<And>v k. vers w1 v = Some k \<Longrightarrow> vers w2 v = Some k"
    and q: "p_patKeys q = Some c" "p_patIss q = pi_Issuer conf" "p_patAudience q = pi_Audience conf"
    and cache: "\<And>ks v k. jc_keys c = Some ks \<Longrightarrow> vers w2 v = Some k \<Longrightarrow>
      map_of ks (Itoa v) = Some k \<or> map_of ks (Itoa v) = None \<and> jc_minRefresh c \<le> now w2 - jc_fetchedAt c"
    and ttl: "jc_minRefresh c \<le> jwksCacheTTL"
    and served: "GetJwks p w2 = (Ok out, w3)"
    and unexpired: "now w2 < unix_ns (unix_time (it_ExpiresAt req)) + seconds 60" "now w3 < unix_ns (unix_time (it_ExpiresAt req)) + seconds 60"
  shows "\<exists>q' w'. ValidateToken parse (issuer_env now p) tok (q, w2) =
    (Ok \<lparr>tv_ClientId = it_Subject req, tv_Jti = it_Jti req, tv_KmsTenant = it_KmsTenant req\<rparr>, (q', w'))"
proof -
  note p = transit_plugin [OF new]
  have "pat_system (transit_Mint url_ok vis srv (newTransitSigner conf)) (transit_JWKS cr url_ok vis srv (newTransitSigner conf))
      (\<lambda>w kid k. \<exists>v. kid = Itoa v \<and> vers w v = Some k) verify parse date"
    by (intro pat_system.intro transit_engine.transit_is_signer [OF engine] library)
  note accepted = pat_system.accepted_after_issue [OF this p(2), unfolded p(1), OF texts times issued _ q _ ttl served unexpired]
  show ?thesis
  proof (rule accepted)
    show "\<exists>v. kid = Itoa v \<and> vers w2 v = Some k" if "\<exists>v. kid = Itoa v \<and> vers w1 v = Some k" for kid k
      using that kept by blast
    show "map_of ks kid = Some k \<or> map_of ks kid = None \<and> jc_minRefresh c \<le> now w2 - jc_fetchedAt c"
      if "jc_keys c = Some ks" "\<exists>v. kid = Itoa v \<and> vers w2 v = Some k" for ks kid k
      using that cache by metis
  qed
qed

lemma demo_served:
  "GetJwks (demo_plugin demo_srv) n = (Ok (key_set_json [key_entry ''ES256'' ''1'' example_key]), Suc n)"
proof -
  have "parseECPublicKeyPEM demo_crypto ''pem'' = Inr example_key" by (simp add: parseECPublicKeyPEM_def demo_crypto_def)
  then show ?thesis
    by (simp add: GetJwks_def demo_plugin_def transit_JWKS_def andThen_def demo_readKey jwsAlg_def demo_one wrapErr_def attempt_def)
qed

theorem issued_token_is_accepted_witness:
  "\<exists>q' w'. ValidateToken (reference_parse demo_verify) (issuer_env (\<lambda>_. 7) (demo_plugin demo_srv))
     (signing_input [(''alg'', JStr ''ES256''), (''typ'', JStr ''JWT''), (''kid'', JStr ''1'')]
        (pat_claims demo_config demo_request 7) @ CHR ''.'' # rawurl_encode (replicate 64 (CHR 0x00)))
     (example_plugin (Some new_cache), Suc (Suc 0)) =
   (Ok \<lparr>tv_ClientId = it_Subject demo_request, tv_Jti = it_Jti demo_request, tv_KmsTenant = it_KmsTenant demo_request\<rparr>, (q', w'))"
proof (rule issued_token_is_accepted [OF demo.transit_engine_axioms reference_library demo_plugin_new _ _ _ _ _ _ _ _ demo_issued _ _ _ _ _ _ demo_served])
  show "valid_utf8 (pi_Issuer demo_config)" "valid_utf8 (pi_Audience demo_config)" "valid_utf8 (it_Jti demo_request)"
      "valid_utf8 (it_Subject demo_request)" "valid_utf8 (it_KmsTenant demo_request)"
    by (rule ascii_valid; simp add: demo_config_def demo_request_def)+
qed (auto simp: demo_config_def demo_request_def new_cache_def example_plugin_def demo_versions_def unix_time_def unix_ns_def seconds_def
      jwksMinRefresh_def jwksCacheTTL_def)

text \<open>
  C17. Every version of the signing key reaches the verifiers. When the issuer answers with its key set, the auth plugin reads the set
  without an error, and finds the public key of each version that the engine holds under the version's number, the id that
  minted tokens name.
\<close>

theorem key_set_is_read:
  assumes engine: "transit_engine srv (newTransitSigner conf) cr vis vers verify"
    and new: "PatIssuer.NewPlugin cr url_ok vis srv conf = Inr p" "pi_Signer conf = ''transit''"
    and served: "GetJwks p w = (Ok out, w')"
  shows "\<exists>ks. parseJWKS out = Inr ks \<and> (\<forall>v k. vers w v = Some k \<longrightarrow> map_of ks (Itoa v) = Some k)"
proof -
  note p = transit_plugin [OF new]
  have sys: "pat_system (transit_Mint url_ok vis srv (newTransitSigner conf)) (transit_JWKS cr url_ok vis srv (newTransitSigner conf))
      (\<lambda>w kid k. \<exists>v. kid = Itoa v \<and> vers w v = Some k) verify (reference_parse verify) int_date"
    by (intro pat_system.intro transit_engine.transit_is_signer [OF engine] reference_library)
  have run: "transit_JWKS cr url_ok vis srv (newTransitSigner conf) w = (Ok out, w')"
    using served p by (auto simp: GetJwks_def act_Ok)
  show ?thesis using pat_system.key_set_parsed [OF sys run] by metis
qed

theorem key_set_is_read_witness:
  "\<exists>ks. parseJWKS (key_set_json [key_entry ''ES256'' ''1'' example_key]) = Inr ks \<and>
     (\<forall>v k. demo_versions 0 v = Some k \<longrightarrow> map_of ks (Itoa v) = Some k)"
  by (rule key_set_is_read [OF demo.transit_engine_axioms demo_plugin_new _ demo_served]) (simp add: demo_config_def)

end
